(* ===== verification/Sandbox_Prelude.thy ===== *)
theory Sandbox_Prelude
  imports Complex_Main "HOL-Library.AList"
begin

text \<open>
  Shared vocabulary of the development: the exceptions the package raises, Python
  dictionaries as association lists that keep insertion order, clock readings, and the
  generic lemmas the component theories rest on.

  \<^item> A call that may raise has a result of type \<open>exn + 'a\<close>: \<open>Inl\<close> is the raised
    exception, \<open>Inr\<close> the returned value. A call that also changes state returns the pair
    of its result and the new state, on the error branch too: Python does not roll back
    what was written before an exception.
  \<^item> A \<open>dict\<close> is the list of its items in insertion order. Storing under a present key
    keeps the key's position, storing under a new key appends it, which is what
    \<open>AList.update\<close> does; \<open>dict.pop(key, None)\<close> is \<open>AList.delete\<close>.
  \<^item> Clock readings and durations (Python floats) are exact rationals; the code only adds,
    subtracts and compares them.
\<close>

section \<open>Exceptions and results\<close>

datatype exn =
    VersionConflict int int
  | ActorNotFound
  | WorkerNotFound
  | WorkerBusy
  | ActorStateError
  | TemplateNotFound
  | WorkflowError
  | CheckpointError
  | BudgetExhausted
  | CancelledError
  | TimeoutError
  | RuntimeError
  | ValueError
  | KeyError
  | TypeError
  | PermissionError
  | FileNotFoundError
  | OSError
  | NotImplementedError
  | OtherError string

type_synonym 'a result = "exn + 'a"

type_synonym time = rat

section \<open>Dictionaries\<close>

type_synonym ('k, 'v) dict = "('k \<times> 'v) list"

abbreviation dget :: "('k, 'v) dict \<Rightarrow> 'k \<Rightarrow> 'v option" where
  "dget d k \<equiv> map_of d k"

abbreviation dput :: "'k \<Rightarrow> 'v \<Rightarrow> ('k, 'v) dict \<Rightarrow> ('k, 'v) dict" where
  "dput k v d \<equiv> AList.update k v d"

abbreviation ddel :: "'k \<Rightarrow> ('k, 'v) dict \<Rightarrow> ('k, 'v) dict" where
  "ddel k d \<equiv> AList.delete k d"

definition dict_ok :: "('k, 'v) dict \<Rightarrow> bool" where
  "dict_ok d \<longleftrightarrow> distinct (map fst d)"

named_theorems dict_simps \<open>lookups and domains of updated dictionaries\<close>

lemma dget_dput [dict_simps]: "dget (dput k v d) k' = (if k' = k then Some v else dget d k')"
  by (simp add: update_conv')

lemma dget_ddel [dict_simps]: "dget (ddel k d) k' = (if k' = k then None else dget d k')"
  by (simp add: delete_conv')

lemma dict_ok_Nil [simp]: "dict_ok []"
  by (simp add: dict_ok_def)

lemma dict_ok_dput [simp, intro]: "dict_ok d \<Longrightarrow> dict_ok (dput k v d)"
  by (simp add: dict_ok_def distinct_update)

lemma dict_ok_ddel [simp, intro]: "dict_ok d \<Longrightarrow> dict_ok (ddel k d)"
  by (simp add: dict_ok_def distinct_delete)

lemma dict_ok_filter: "dict_ok d \<Longrightarrow> dict_ok (filter P d)"
  by (simp add: dict_ok_def distinct_map_filter)

text \<open>The values of a dictionary are what its keys look up.\<close>

lemma dict_items: "dict_ok d \<Longrightarrow> (k, v) \<in> set d \<longleftrightarrow> dget d k = Some v"
  by (simp add: dict_ok_def)

lemma dget_in_values: "dget d k = Some v \<Longrightarrow> v \<in> snd ` set d"
  by (force dest: map_of_SomeD)

lemma dget_Some_key: "dget d k = Some v \<Longrightarrow> k \<in> fst ` set d"
  by (force dest: map_of_SomeD)

lemma dget_None_key: "dget d k = None \<longleftrightarrow> k \<notin> fst ` set d"
  by (simp add: map_of_eq_None_iff)

lemma dput_keys: "fst ` set (dput k v d) = insert k (fst ` set d)"
  by (induction d) auto

lemma length_dput: "length (dput k v d) = (if k \<in> fst ` set d then length d else Suc (length d))"
  by (induction d) auto

lemma length_ddel_le: "length (ddel k d) \<le> length d"
  by (rule length_delete_le)

lemma length_ddel_Some: "dget d k = Some v \<Longrightarrow> length (ddel k d) < length d"
  by (induction d) (auto simp: AList.delete_eq intro: le_imp_less_Suc)

lemma dput_same: "dict_ok d \<Longrightarrow> dget d k = Some v \<Longrightarrow> dput k v d = d"
  by (induction d) (auto simp: dict_ok_def split: if_splits)

lemma ddel_dput: "ddel k (dput k v d) = ddel k d"
  by (induction d) auto

section \<open>Results\<close>

definition is_ok :: "'a result \<Rightarrow> bool" where
  "is_ok r \<longleftrightarrow> (case r of Inl _ \<Rightarrow> False | Inr _ \<Rightarrow> True)"

lemma is_ok_simps [simp]: "is_ok (Inr a)" "\<not> is_ok (Inl e)"
  by (simp_all add: is_ok_def)

lemma is_ok_iff: "is_ok r \<longleftrightarrow> (\<exists>a. r = Inr a)"
  by (cases r) auto

lemma not_is_ok_iff: "\<not> is_ok r \<longleftrightarrow> (\<exists>e. r = Inl e)"
  by (cases r) auto

end
