(* ===== verification/Orch_Model.thy ===== *)
theory Orch_Model
  imports Sandbox_Prelude
begin

text \<open>
  The records of the orchestration layer, \<open>_orchestration/model.py\<close>: actors, workers,
  assignments, scheduling constraints and templates, with the two derived predicates
  \<open>Actor.is_active\<close> and \<open>Worker.is_idle\<close>. A live sandbox is an object of another package
  that the orchestration layer only passes around, compares by identity and asks for a few
  attributes, so a sandbox is its identity, a number.
\<close>

section \<open>Enumerations\<close>

datatype actor_status =
  SUSPENDED | RESUMING | RUNNING | SUSPENDING | PAUSING | PAUSED | CRASHED | DELETING

fun actor_status_value :: "actor_status \<Rightarrow> string" where
  "actor_status_value SUSPENDED = ''suspended''"
| "actor_status_value RESUMING = ''resuming''"
| "actor_status_value RUNNING = ''running''"
| "actor_status_value SUSPENDING = ''suspending''"
| "actor_status_value PAUSING = ''pausing''"
| "actor_status_value PAUSED = ''paused''"
| "actor_status_value CRASHED = ''crashed''"
| "actor_status_value DELETING = ''deleting''"

text \<open>The statuses are finitely many, so quantifiers over them compute.\<close>

instantiation actor_status :: enum
begin

definition enum_actor_status :: "actor_status list" where
  "enum_actor_status =
     [SUSPENDED, RESUMING, RUNNING, SUSPENDING, PAUSING, PAUSED, CRASHED, DELETING]"

definition enum_all_actor_status :: "(actor_status \<Rightarrow> bool) \<Rightarrow> bool" where
  "enum_all_actor_status P \<longleftrightarrow> list_all P enum_class.enum"

definition enum_ex_actor_status :: "(actor_status \<Rightarrow> bool) \<Rightarrow> bool" where
  "enum_ex_actor_status P \<longleftrightarrow> list_ex P enum_class.enum"

instance
proof
  have U: "(UNIV :: actor_status set) = set enum_class.enum"
    by (auto simp: enum_actor_status_def intro: actor_status.exhaust)
  then show "(UNIV :: actor_status set) = set enum_class.enum" .
  show "distinct (enum_class.enum :: actor_status list)"
    by (simp add: enum_actor_status_def)
  show "enum_class.enum_all P \<longleftrightarrow> Ball UNIV P" for P :: "actor_status \<Rightarrow> bool"
    using U by (auto simp: enum_all_actor_status_def list_all_iff)
  show "enum_class.enum_ex P \<longleftrightarrow> Bex UNIV P" for P :: "actor_status \<Rightarrow> bool"
    using U by (auto simp: enum_ex_actor_status_def list_ex_iff)
qed

end

lemma actor_status_value_inj: "actor_status_value a = actor_status_value b \<Longrightarrow> a = b"
  by (cases a; cases b) auto

datatype worker_state = ACTIVE | DRAINING

fun worker_state_value :: "worker_state \<Rightarrow> string" where
  "worker_state_value ACTIVE = ''active''"
| "worker_state_value DRAINING = ''draining''"

datatype sandbox_class = CONTAINER | MICROVM | VFS

fun sandbox_class_value :: "sandbox_class \<Rightarrow> string" where
  "sandbox_class_value CONTAINER = ''container''"
| "sandbox_class_value MICROVM = ''microvm''"
| "sandbox_class_value VFS = ''vfs''"

datatype checkpoint_scope = FULL | DATA

fun checkpoint_scope_value :: "checkpoint_scope \<Rightarrow> string" where
  "checkpoint_scope_value FULL = ''full''"
| "checkpoint_scope_value DATA = ''data''"

section \<open>Value objects\<close>

record actor_ref =
  ref_namespace :: string
  ref_actor_id :: string

definition actor_ref_str :: "actor_ref \<Rightarrow> string" where
  "actor_ref_str r = ref_namespace r @ ''/'' @ ref_actor_id r"

record worker_assignment =
  wa_actor_id :: string
  wa_worker_id :: string
  wa_sandbox_class :: sandbox_class
  wa_node :: "string option"
  wa_address :: "string option"
  wa_activated_at :: time

record constraints =
  c_sandbox_class :: sandbox_class
  c_template_selector :: "(string, string) dict"
  c_actor_selector :: "(string, string) dict"
  c_required_node :: "string option"

section \<open>Core records\<close>

record actor =
  a_actor_id :: string
  a_namespace :: string
  a_template_id :: string
  a_status :: actor_status
  a_version :: int
  a_worker_assignment :: "worker_assignment option"
  a_latest_snapshot_ref :: "string option"
  a_worker_selector :: "(string, string) dict"
  a_created_at :: time
  a_updated_at :: time

definition actor_ref_of :: "actor \<Rightarrow> actor_ref" where
  "actor_ref_of a = \<lparr>ref_namespace = a_namespace a, ref_actor_id = a_actor_id a\<rparr>"

definition is_active :: "actor \<Rightarrow> bool" where
  "is_active a \<longleftrightarrow> a_status a \<in> {RUNNING, RESUMING}"

type_synonym sandbox = nat

record worker =
  w_worker_id :: string
  w_state :: worker_state
  w_sandbox_class :: sandbox_class
  w_version :: int
  w_assignment :: "worker_assignment option"
  w_labels :: "(string, string) dict"
  w_node :: "string option"
  w_sandbox :: "sandbox option"

definition is_idle :: "worker \<Rightarrow> bool" where
  "is_idle w \<longleftrightarrow> w_state w = ACTIVE \<and> w_assignment w = None \<and> w_sandbox w \<noteq> None"

record actor_template =
  t_template_id :: string
  t_sandbox_class :: sandbox_class
  t_backend_kind :: string
  t_provision_config :: "(string, string) dict"
  t_skill_paths :: "string list"
  t_default_mcps :: "string list"
  t_snapshot_scope_on_suspend :: checkpoint_scope
  t_snapshot_scope_on_pause :: checkpoint_scope
  t_version :: int

section \<open>The string form of an actor reference\<close>

lemma append_sep_inj:
  assumes "xs @ c # ys = xs' @ c # ys'" and "c \<notin> set xs" and "c \<notin> set xs'"
  shows "xs = xs' \<and> ys = ys'"
  using assms
proof (induction xs arbitrary: xs')
  case Nil
  then show ?case by (cases xs') auto
next
  case (Cons x xs)
  then show ?case by (cases xs') auto
qed

lemma actor_ref_str_inj:
  assumes "actor_ref_str r = actor_ref_str r'"
    and "CHR ''/'' \<notin> set (ref_namespace r)" and "CHR ''/'' \<notin> set (ref_namespace r')"
  shows "r = r'"
  using append_sep_inj [of "ref_namespace r" "CHR ''/''" "ref_actor_id r" "ref_namespace r'" "ref_actor_id r'"]
    assms by (simp add: actor_ref_str_def)

end
