(* ===== verification/Sandbox_Pool.thy ===== *)
theory Sandbox_Pool
  imports Orch_Model
begin

text \<open>
  \<open>_pool.py\<close>: the pool of pre-warmed sandboxes. This theory holds the pool's state, one
  function per critical section of its coroutines (the code between two suspension points
  runs without interruption under asyncio), and the coroutines themselves as they run when no
  other task interferes. \<open>Pool_Concurrency\<close> interleaves the same sections.

  The factory and the health check are the manager's: their outcomes are a parameter, the
  environment \<open>pool_env\<close>, which says what the \<open>n\<close>-th call returns or raises. Closing a
  sandbox is recorded in \<open>p_closed_log\<close>; \<open>_safe_close\<close> swallows what \<open>close()\<close> raises.
\<close>

section \<open>State\<close>

datatype acquire_strategy = FIFO | LIFO

record pool =
  p_max_size :: int
  p_min_warm :: int
  p_idle_ttl :: time
  p_sweep_interval :: time
  p_acquire_timeout :: time
  p_enable_prewarm :: bool
  p_acquire_strategy :: acquire_strategy
  p_health_check :: bool
  p_max_concurrent_provisions :: int
  p_free :: "(sandbox \<times> time) list"
  p_in_use :: "sandbox set"
  p_pending_count :: int
  p_sweep_task :: bool
  p_prewarm_task :: bool
  p_closed :: bool
  p_closed_log :: "sandbox list"

definition parse_strategy :: "string \<Rightarrow> acquire_strategy option" where
  "parse_strategy s = (if s = ''fifo'' then Some FIFO else if s = ''lifo'' then Some LIFO else None)"

definition pool_init ::
  "int \<Rightarrow> int \<Rightarrow> time \<Rightarrow> time \<Rightarrow> time \<Rightarrow> bool \<Rightarrow> string \<Rightarrow> bool \<Rightarrow> int \<Rightarrow> pool result" where
  "pool_init max_size min_warm idle_ttl sweep_interval acquire_timeout enable_prewarm strategy
     health_check max_concurrent_provisions =
     (if max_size < 1 then Inl ValueError
      else if min_warm < 0 then Inl ValueError
      else if min_warm > max_size then Inl ValueError
      else case parse_strategy strategy of
        None \<Rightarrow> Inl ValueError
      | Some strat \<Rightarrow>
          if max_concurrent_provisions < 0 then Inl ValueError
          else Inr
            \<lparr>p_max_size = max_size, p_min_warm = min_warm, p_idle_ttl = idle_ttl,
             p_sweep_interval = sweep_interval, p_acquire_timeout = acquire_timeout,
             p_enable_prewarm = (enable_prewarm \<and> min_warm > 0),
             p_acquire_strategy = strat, p_health_check = health_check,
             p_max_concurrent_provisions = max_concurrent_provisions,
             p_free = [], p_in_use = {}, p_pending_count = 0,
             p_sweep_task = False, p_prewarm_task = False, p_closed = False,
             p_closed_log = []\<rparr>)"

definition warm_count :: "pool \<Rightarrow> int" where
  "warm_count p = int (length (p_free p))"

definition in_use_count :: "pool \<Rightarrow> int" where
  "in_use_count p = int (card (p_in_use p))"

definition total_count :: "pool \<Rightarrow> int" where
  "total_count p = warm_count p + in_use_count p + p_pending_count p"

lemmas count_defs = total_count_def warm_count_def in_use_count_def

section \<open>Critical sections\<close>

definition safe_close :: "sandbox \<Rightarrow> pool \<Rightarrow> pool" where
  "safe_close ws p = p\<lparr>p_closed_log := p_closed_log p @ [ws]\<rparr>"

definition safe_close_all :: "sandbox list \<Rightarrow> pool \<Rightarrow> pool" where
  "safe_close_all xs p = p\<lparr>p_closed_log := p_closed_log p @ xs\<rparr>"

definition pool_start :: "pool \<Rightarrow> pool" where
  "pool_start p =
     (let p1 = (if \<not> p_sweep_task p then p\<lparr>p_sweep_task := True\<rparr> else p)
      in if p_enable_prewarm p1 \<and> \<not> p_prewarm_task p1 then p1\<lparr>p_prewarm_task := True\<rparr> else p1)"

definition pop_free_locked :: "pool \<Rightarrow> sandbox option \<times> pool" where
  "pop_free_locked p =
     (if p_free p = [] then (None, p)
      else if p_acquire_strategy p = LIFO
        then (Some (fst (last (p_free p))), p\<lparr>p_free := butlast (p_free p)\<rparr>)
      else (Some (fst (hd (p_free p))), p\<lparr>p_free := tl (p_free p)\<rparr>))"

datatype acquire_next = Candidate sandbox | Grow | Full

definition acquire_locked :: "pool \<Rightarrow> acquire_next \<times> pool" where
  "acquire_locked p =
     (case pop_free_locked p of
        (Some c, p1) \<Rightarrow> (Candidate c, p1\<lparr>p_in_use := insert c (p_in_use p1)\<rparr>)
      | (None, p1) \<Rightarrow>
          if total_count p1 < p_max_size p1
          then (Grow, p1\<lparr>p_pending_count := p_pending_count p1 + 1\<rparr>)
          else (Full, p1))"

definition provision_done :: "sandbox result \<Rightarrow> pool \<Rightarrow> sandbox result \<times> pool" where
  "provision_done r p =
     (let p1 = p\<lparr>p_pending_count := p_pending_count p - 1\<rparr>
      in case r of
        Inl e \<Rightarrow> (Inl e, p1)
      | Inr ws \<Rightarrow> (Inr ws, p1\<lparr>p_in_use := insert ws (p_in_use p1)\<rparr>))"

text \<open>
  The probe's verdict on a reserved candidate. \<open>except Exception\<close> turns a raised exception
  into a failed probe; a cancellation is not an \<open>Exception\<close> and leaves the coroutine.
\<close>

definition probe_verdict :: "sandbox \<Rightarrow> bool result \<Rightarrow> pool \<Rightarrow> bool result \<times> pool" where
  "probe_verdict c r p =
     (case r of
        Inr True \<Rightarrow> (Inr True, p)
      | Inl CancelledError \<Rightarrow> (Inl CancelledError, p)
      | _ \<Rightarrow> (Inr False, safe_close c (p\<lparr>p_in_use := p_in_use p - {c}\<rparr>)))"

definition pool_release :: "sandbox \<Rightarrow> bool \<Rightarrow> time \<Rightarrow> pool \<Rightarrow> pool" where
  "pool_release ws broken now p =
     (if ws \<notin> p_in_use p then p
      else (let p1 = p\<lparr>p_in_use := p_in_use p - {ws}\<rparr> in
        if broken \<or> p_closed p1 then safe_close ws p1
        else if warm_count p1 \<ge> p_max_size p1 then safe_close ws p1
        else p1\<lparr>p_free := p_free p1 @ [(ws, now)]\<rparr>))"

text \<open>The branch of \<open>release\<close> that calls \<open>notify_all\<close>.\<close>

definition release_notifies :: "sandbox \<Rightarrow> bool \<Rightarrow> pool \<Rightarrow> bool" where
  "release_notifies ws broken p \<longleftrightarrow>
     ws \<in> p_in_use p \<and> \<not> (broken \<or> p_closed p) \<and> \<not> warm_count p \<ge> p_max_size p"

fun sweep_scan ::
  "time \<Rightarrow> time \<Rightarrow> (sandbox \<times> time) list \<Rightarrow> (sandbox \<times> time) list \<times> sandbox list" where
  "sweep_scan now ttl [] = ([], [])"
| "sweep_scan now ttl ((ws, ts) # rest) =
     (case sweep_scan now ttl rest of (survivors, evicted) \<Rightarrow>
        if now - ts > ttl then (survivors, ws # evicted) else ((ws, ts) # survivors, evicted))"

definition pool_sweep_once :: "time \<Rightarrow> pool \<Rightarrow> pool" where
  "pool_sweep_once now p =
     (case sweep_scan now (p_idle_ttl p) (p_free p) of
        (survivors, evicted) \<Rightarrow> safe_close_all evicted (p\<lparr>p_free := survivors\<rparr>))"

text \<open>
  \<open>aclose\<close>: the free list is closed in order, then the sandboxes in use (a Python set, so in
  some order: here by identity).
\<close>

definition pool_aclose :: "pool \<Rightarrow> pool" where
  "pool_aclose p =
     (if p_closed p then p
      else safe_close_all (map fst (p_free p) @ sorted_list_of_set (p_in_use p))
        (p\<lparr>p_closed := True, p_sweep_task := False, p_prewarm_task := False,
           p_free := [], p_in_use := {}\<rparr>))"

text \<open>The pre-warmer: how many to boot, one reservation, and what becomes of one boot.\<close>

definition prewarm_deficit :: "pool \<Rightarrow> int" where
  "prewarm_deficit p =
     (if p_min_warm p = 0 then 0
      else let deficit = p_min_warm p - warm_count p in
        if deficit \<le> 0 then 0
        else let deficit' = min deficit (p_max_size p - total_count p) in
          if deficit' \<le> 0 then 0 else deficit')"

definition prewarm_reserve :: "pool \<Rightarrow> bool \<times> pool" where
  "prewarm_reserve p =
     (if p_closed p \<or> total_count p \<ge> p_max_size p then (False, p)
      else (True, p\<lparr>p_pending_count := p_pending_count p + 1\<rparr>))"

definition prewarm_boot_failed :: "pool \<Rightarrow> pool" where
  "prewarm_boot_failed p = p\<lparr>p_pending_count := p_pending_count p - 1\<rparr>"

definition prewarm_booted :: "sandbox \<Rightarrow> time \<Rightarrow> pool \<Rightarrow> pool" where
  "prewarm_booted ws now p =
     (let p1 = p\<lparr>p_pending_count := p_pending_count p - 1\<rparr>;
          surplus = (p_closed p1 \<or> warm_count p1 \<ge> p_max_size p1)
      in if surplus then safe_close ws p1
         else p1\<lparr>p_free := p_free p1 @ [(ws, now)]\<rparr>)"

definition prewarm_notifies :: "pool \<Rightarrow> bool" where
  "prewarm_notifies p \<longleftrightarrow> \<not> (p_closed p \<or> warm_count p \<ge> p_max_size p)"

section \<open>The coroutines without interference\<close>

record pool_env =
  pe_factory :: "nat \<Rightarrow> sandbox result"
  pe_factory_calls :: nat
  pe_probe :: "nat \<Rightarrow> bool result"
  pe_probe_calls :: nat

definition call_factory :: "pool_env \<Rightarrow> sandbox result \<times> pool_env" where
  "call_factory env =
     (pe_factory env (pe_factory_calls env),
      env\<lparr>pe_factory_calls := Suc (pe_factory_calls env)\<rparr>)"

definition call_probe :: "pool_env \<Rightarrow> bool result \<times> pool_env" where
  "call_probe env =
     (pe_probe env (pe_probe_calls env), env\<lparr>pe_probe_calls := Suc (pe_probe_calls env)\<rparr>)"

lemma acquire_locked_Candidate_length:
  "acquire_locked p = (Candidate c, p') \<Longrightarrow> length (p_free p') < length (p_free p)"
  by (auto simp: acquire_locked_def pop_free_locked_def split: if_splits option.splits)

lemma probe_verdict_free: "p_free (snd (probe_verdict c r p)) = p_free p"
  by (auto simp: probe_verdict_def safe_close_def split: sum.split bool.split exn.split)

text \<open>
  The loop of \<open>acquire\<close>: each failed probe takes one more sandbox off the free list. When the
  pool is full and nothing else runs, the wait ends at its deadline.
\<close>

function pool_acquire :: "pool \<Rightarrow> pool_env \<Rightarrow> sandbox result \<times> pool \<times> pool_env" where
  "pool_acquire p env =
     (if p_closed p then (Inl RuntimeError, p, env)
      else case acquire_locked p of
        (Candidate c, p1) \<Rightarrow>
          if \<not> p_health_check p1 then (Inr c, p1, env)
          else (case call_probe env of (r, env1) \<Rightarrow>
            case probe_verdict c r p1 of
              (Inl e, p2) \<Rightarrow> (Inl e, p2, env1)
            | (Inr True, p2) \<Rightarrow> (Inr c, p2, env1)
            | (Inr False, p2) \<Rightarrow> pool_acquire p2 env1)
      | (Grow, p1) \<Rightarrow>
          (case call_factory env of (r, env1) \<Rightarrow>
            case provision_done r p1 of (r', p2) \<Rightarrow> (r', p2, env1))
      | (Full, p1) \<Rightarrow> (Inl TimeoutError, p1, env))"
  by pat_completeness auto
termination
proof (relation "measure (\<lambda>(p, env). length (p_free p))", goal_cases)
  case (2 p x p1 c r env1 y p2 b)
  then show ?case
    using acquire_locked_Candidate_length [of p] probe_verdict_free by (metis in_measure case_prod_conv snd_conv)
qed simp

declare pool_acquire.simps [simp del]

text \<open>
  One pre-warm tick. A factory exception is logged and ends the tick normally; only a
  cancellation leaves it.
\<close>

fun prewarm_loop :: "nat \<Rightarrow> time \<Rightarrow> pool \<Rightarrow> pool_env \<Rightarrow> unit result \<times> pool \<times> pool_env" where
  "prewarm_loop 0 now p env = (Inr (), p, env)"
| "prewarm_loop (Suc n) now p env =
     (case prewarm_reserve p of
        (False, p1) \<Rightarrow> (Inr (), p1, env)
      | (True, p1) \<Rightarrow>
          (case call_factory env of
             (Inl e, env1) \<Rightarrow>
               if e = CancelledError then (Inl CancelledError, p1, env1)
               else (Inr (), prewarm_boot_failed p1, env1)
           | (Inr ws, env1) \<Rightarrow> prewarm_loop n now (prewarm_booted ws now p1) env1))"

definition prewarm_once :: "time \<Rightarrow> pool \<Rightarrow> pool_env \<Rightarrow> unit result \<times> pool \<times> pool_env" where
  "prewarm_once now p env = prewarm_loop (nat (prewarm_deficit p)) now p env"

text \<open>
  The pre-warm loop's reaction to one tick: it ends on a cancellation; otherwise the delay
  before the next tick (every round starts with half a second of sleep) and the back-off index.
\<close>

definition prewarm_backoff :: "time list" where
  "prewarm_backoff = [1, 2, 5, 10]"

definition prewarm_next :: "unit result \<Rightarrow> nat \<Rightarrow> (time \<times> nat) option" where
  "prewarm_next r idx =
     (case r of
        Inr _ \<Rightarrow> Some (1 / 2, 0)
      | Inl e \<Rightarrow>
          if e = CancelledError then None
          else Some (prewarm_backoff ! min idx (length prewarm_backoff - 1) + 1 / 2, idx + 1))"

record pool_metrics =
  pm_warm :: int
  pm_in_use :: int
  pm_pending :: int
  pm_total :: int
  pm_max_size :: int
  pm_min_warm :: int
  pm_acquire_strategy :: acquire_strategy
  pm_max_concurrent_provisions :: int
  pm_health_check_enabled :: bool
  pm_closed :: bool

definition pool_metrics_of :: "pool \<Rightarrow> pool_metrics" where
  "pool_metrics_of p =
     \<lparr>pm_warm = warm_count p, pm_in_use = in_use_count p, pm_pending = p_pending_count p,
      pm_total = total_count p, pm_max_size = p_max_size p, pm_min_warm = p_min_warm p,
      pm_acquire_strategy = p_acquire_strategy p,
      pm_max_concurrent_provisions = p_max_concurrent_provisions p,
      pm_health_check_enabled = p_health_check p, pm_closed = p_closed p\<rparr>"

section \<open>The pool invariant\<close>

text \<open>
  No sandbox is both free and in use or free twice, and free, used and booting sandboxes
  together stay within \<open>max_size\<close>.
\<close>

definition pool_known :: "pool \<Rightarrow> sandbox set" where
  "pool_known p = fst ` set (p_free p) \<union> p_in_use p"

definition pool_ok :: "pool \<Rightarrow> bool" where
  "pool_ok p \<longleftrightarrow>
     finite (p_in_use p) \<and> distinct (map fst (p_free p)) \<and>
     fst ` set (p_free p) \<inter> p_in_use p = {} \<and>
     0 \<le> p_pending_count p \<and> total_count p \<le> p_max_size p"

lemma pool_init_ok: "pool_init mx mn ttl si tmo pw st hc mc = Inr p \<Longrightarrow> pool_ok p"
  by (auto simp: pool_init_def pool_ok_def count_defs split: if_splits option.splits)

lemma pop_free_split:
  "pop_free_locked p = (Some c, p') \<Longrightarrow>
   \<exists>ts xs ys. p_free p = xs @ (c, ts) # ys \<and> p' = p\<lparr>p_free := xs @ ys\<rparr> \<and>
     (if p_acquire_strategy p = LIFO then ys = [] else xs = [])"
proof -
  assume pop: "pop_free_locked p = (Some c, p')"
  then have ne: "p_free p \<noteq> []" by (auto simp: pop_free_locked_def)
  show ?thesis
  proof (cases "p_acquire_strategy p = LIFO")
    case True
    have "p_free p = butlast (p_free p) @ [last (p_free p)]" using ne by simp
    with pop True ne show ?thesis
      by (intro exI [of _ "snd (last (p_free p))"] exI [of _ "butlast (p_free p)"] exI [of _ "[]"])
        (auto simp: pop_free_locked_def)
  next
    case False
    with pop ne show ?thesis
      by (intro exI [of _ "snd (hd (p_free p))"] exI [of _ "[]"] exI [of _ "tl (p_free p)"])
        (auto simp: pop_free_locked_def)
  qed
qed

lemma pop_free_None: "pop_free_locked p = (None, p') \<Longrightarrow> p' = p \<and> p_free p = []"
  by (auto simp: pop_free_locked_def split: if_splits)

lemma acquire_Candidate:
  assumes "acquire_locked p = (Candidate c, p')" and "pool_ok p"
  shows "c \<in> fst ` set (p_free p) \<and> c \<notin> p_in_use p \<and> p_in_use p' = insert c (p_in_use p) \<and>
    pool_known p' = pool_known p \<and> total_count p' = total_count p \<and> pool_ok p'"
proof -
  from assms(1) obtain p1 where pop: "pop_free_locked p = (Some c, p1)"
    and p': "p' = p1\<lparr>p_in_use := insert c (p_in_use p1)\<rparr>"
    by (auto simp: acquire_locked_def split: option.splits if_splits prod.splits)
  from pop_free_split [OF pop] obtain ts xs ys
    where free: "p_free p = xs @ (c, ts) # ys" and p1: "p1 = p\<lparr>p_free := xs @ ys\<rparr>" by blast
  from assms(2) free have c: "c \<notin> p_in_use p" "c \<notin> fst ` set xs" "c \<notin> fst ` set ys"
    by (auto simp: pool_ok_def)
  with assms(2) free p1 p' show ?thesis
    by (auto simp: pool_ok_def pool_known_def count_defs)
qed

lemma acquire_Grow:
  assumes "acquire_locked p = (Grow, p')"
  shows "p' = p\<lparr>p_pending_count := p_pending_count p + 1\<rparr> \<and> p_free p = [] \<and>
    total_count p < p_max_size p"
  using assms
  by (auto simp: acquire_locked_def dest!: pop_free_None split: option.splits if_splits prod.splits)

lemma acquire_Full:
  assumes "acquire_locked p = (Full, p')"
  shows "p' = p \<and> p_free p = [] \<and> p_max_size p \<le> total_count p"
  using assms
  by (auto simp: acquire_locked_def dest!: pop_free_None split: option.splits if_splits prod.splits)

lemma acquire_locked_ok: "pool_ok p \<Longrightarrow> pool_ok (snd (acquire_locked p))"
proof (cases "acquire_locked p")
  case (Pair n p')
  assume "pool_ok p"
  then show ?thesis
  proof (cases n)
    case (Candidate c)
    with Pair \<open>pool_ok p\<close> show ?thesis using acquire_Candidate by simp
  next
    case Grow
    with Pair acquire_Grow [of p p'] \<open>pool_ok p\<close> show ?thesis
      by (auto simp: pool_ok_def count_defs)
  next
    case Full
    with Pair acquire_Full [of p p'] \<open>pool_ok p\<close> show ?thesis by simp
  qed
qed

lemma provision_done_ok:
  assumes "pool_ok p" and "1 \<le> p_pending_count p" and "\<And>ws. r = Inr ws \<Longrightarrow> ws \<notin> pool_known p"
  shows "pool_ok (snd (provision_done r p)) \<and>
    total_count (snd (provision_done r p)) = total_count p - (if is_ok r then 0 else 1)"
  using assms
  by (cases r) (auto simp: provision_done_def Let_def pool_ok_def pool_known_def count_defs)

lemma card_drop: "finite A \<Longrightarrow> a \<in> A \<Longrightarrow> int (card (A - {a})) = int (card A) - 1"
  by (simp add: card_Diff_singleton of_nat_diff Suc_leI card_gt_0_iff)
    (metis card_gt_0_iff Suc_leI of_nat_diff of_nat_1 One_nat_def empty_iff)

lemma probe_verdict_ok:
  assumes "pool_ok p" and "c \<in> p_in_use p"
  shows "pool_ok (snd (probe_verdict c r p))"
  using assms card_drop [of "p_in_use p" c]
  by (auto simp: probe_verdict_def safe_close_def pool_ok_def count_defs
      split: sum.split bool.split exn.split)

lemma pool_release_ok: "pool_ok p \<Longrightarrow> pool_ok (pool_release ws broken now p)"
  using card_drop [of "p_in_use p" ws]
  by (auto simp: pool_release_def safe_close_def Let_def pool_ok_def count_defs)

lemma sweep_scan_filter:
  "sweep_scan now ttl xs =
     (filter (\<lambda>(ws, ts). \<not> now - ts > ttl) xs, map fst (filter (\<lambda>(ws, ts). now - ts > ttl) xs))"
  by (induction xs) auto

lemma pool_sweep_free:
  "p_free (pool_sweep_once now p) = filter (\<lambda>(ws, ts). \<not> now - ts > p_idle_ttl p) (p_free p)"
  by (simp add: pool_sweep_once_def sweep_scan_filter safe_close_all_def)

lemma pool_sweep_ok: 
  assumes "pool_ok p"
  shows "pool_ok (pool_sweep_once now p)"
proof -
  let ?keep = "filter (\<lambda>(ws, ts). \<not> now - ts > p_idle_ttl p) (p_free p)"
  have "length ?keep \<le> length (p_free p)" by (rule length_filter_le)
  then have "int (length ?keep) \<le> int (length (p_free p))" by (simp only: of_nat_le_iff)
  moreover have "fst ` set ?keep \<subseteq> fst ` set (p_free p)" by auto
  moreover have "distinct (map fst ?keep)"
    using assms by (simp add: pool_ok_def distinct_map_filter)
  moreover have fields: "p_free (pool_sweep_once now p) = ?keep"
    "p_in_use (pool_sweep_once now p) = p_in_use p"
    "p_pending_count (pool_sweep_once now p) = p_pending_count p"
    "p_max_size (pool_sweep_once now p) = p_max_size p"
    by (simp_all add: pool_sweep_once_def sweep_scan_filter safe_close_all_def)
  ultimately have "total_count (pool_sweep_once now p) \<le> total_count p"
    by (simp only: count_defs)
  with \<open>distinct (map fst ?keep)\<close> \<open>fst ` set ?keep \<subseteq> fst ` set (p_free p)\<close> assms
  show ?thesis unfolding pool_ok_def by (auto simp: fields)
qed

lemma pool_aclose_ok: "pool_ok p \<Longrightarrow> pool_ok (pool_aclose p)"
  by (auto simp: pool_aclose_def pool_ok_def count_defs safe_close_all_def)

lemma prewarm_reserve_ok:
  assumes "pool_ok p" and "prewarm_reserve p = (b, p')"
  shows "pool_ok p' \<and> (b \<longrightarrow> p_pending_count p' = p_pending_count p + 1) \<and> (\<not> b \<longrightarrow> p' = p)"
proof (cases "p_closed p \<or> total_count p \<ge> p_max_size p")
  case True
  with assms show ?thesis by (simp add: prewarm_reserve_def)
next
  case False
  with assms(2) have "b" and p': "p' = p\<lparr>p_pending_count := p_pending_count p + 1\<rparr>"
    by (auto simp: prewarm_reserve_def)
  with False assms(1) show ?thesis by (simp add: pool_ok_def count_defs)
qed

lemma prewarm_booted_ok:
  "pool_ok p \<Longrightarrow> 1 \<le> p_pending_count p \<Longrightarrow> ws \<notin> pool_known p \<Longrightarrow> pool_ok (prewarm_booted ws now p)"
  by (auto simp: prewarm_booted_def Let_def pool_ok_def pool_known_def count_defs safe_close_def)

text \<open>In a well-formed pool a returned sandbox always finds room.\<close>

lemma release_room:
  "pool_ok p \<Longrightarrow> ws \<in> p_in_use p \<Longrightarrow> warm_count p < p_max_size p"
proof -
  assume ok: "pool_ok p" and ws: "ws \<in> p_in_use p"
  then have "0 < card (p_in_use p)" by (auto simp: pool_ok_def card_gt_0_iff)
  with ok show ?thesis by (auto simp: pool_ok_def count_defs)
qed

lemmas pool_section_ok =
  acquire_locked_ok probe_verdict_ok pool_release_ok pool_sweep_ok pool_aclose_ok

section \<open>What a section does to the sandboxes the pool knows\<close>

text \<open>
  A section moves sandboxes between the free list and the set in use, may bring new ones in,
  and closes exactly those it drops, each once.
\<close>

definition pool_effect :: "pool \<Rightarrow> sandbox set \<Rightarrow> pool \<Rightarrow> bool" where
  "pool_effect p new p' \<longleftrightarrow>
     (\<exists>xs. p_closed_log p' = p_closed_log p @ xs \<and> distinct xs \<and>
        set xs \<union> pool_known p' \<subseteq> pool_known p \<union> new \<and> set xs \<inter> pool_known p' = {}) \<and>
     p_max_size p' = p_max_size p"

lemma pool_effectI:
  "p_closed_log p' = p_closed_log p @ xs \<Longrightarrow> distinct xs \<Longrightarrow>
   set xs \<union> pool_known p' \<subseteq> pool_known p \<union> new \<Longrightarrow> set xs \<inter> pool_known p' = {} \<Longrightarrow>
   p_max_size p' = p_max_size p \<Longrightarrow> pool_effect p new p'"
  by (auto simp: pool_effect_def)

lemma pool_effect_same:
  "p_closed_log p' = p_closed_log p \<Longrightarrow> pool_known p' \<subseteq> pool_known p \<union> new \<Longrightarrow>
   p_max_size p' = p_max_size p \<Longrightarrow> pool_effect p new p'"
  by (rule pool_effectI [where xs = "[]"]) auto

lemma acquire_locked_effect: "pool_ok p \<Longrightarrow> pool_effect p {} (snd (acquire_locked p))"
proof (cases "acquire_locked p")
  case (Pair n p')
  assume ok: "pool_ok p"
  show ?thesis
  proof (cases n)
    case (Candidate c)
    with Pair have eq: "acquire_locked p = (Candidate c, p')" by simp
    then have "p_closed_log p' = p_closed_log p" "p_max_size p' = p_max_size p"
      by (auto simp: acquire_locked_def pop_free_locked_def split: if_splits option.splits prod.splits)
    with acquire_Candidate [OF eq ok] Pair show ?thesis by (auto intro: pool_effect_same)
  next
    case Grow
    with Pair acquire_Grow [of p p'] show ?thesis
      by (auto intro!: pool_effect_same simp: pool_known_def)
  next
    case Full
    with Pair acquire_Full [of p p'] show ?thesis by (auto intro: pool_effect_same)
  qed
qed

lemma provision_done_effect:
  "pool_effect p (case r of Inl _ \<Rightarrow> {} | Inr ws \<Rightarrow> {ws}) (snd (provision_done r p))"
  by (rule pool_effect_same)
    (auto simp: provision_done_def Let_def pool_known_def split: sum.splits)

lemma probe_verdict_effect:
  assumes "pool_ok p" and "c \<in> p_in_use p"
  shows "pool_effect p {} (snd (probe_verdict c r p))"
proof (cases "r = Inr True \<or> r = Inl CancelledError")
  case True
  then show ?thesis by (auto simp: probe_verdict_def intro: pool_effect_same)
next
  case False
  then have "snd (probe_verdict c r p) = safe_close c (p\<lparr>p_in_use := p_in_use p - {c}\<rparr>)"
    by (auto simp: probe_verdict_def split: sum.splits bool.splits exn.splits)
  with assms show ?thesis
    by (intro pool_effectI [where xs = "[c]"]) (auto simp: safe_close_def pool_known_def pool_ok_def)
qed

lemma pool_release_effect: "pool_ok p \<Longrightarrow> pool_effect p {} (pool_release ws broken now p)"
proof (cases "ws \<in> p_in_use p \<and> (broken \<or> p_closed p \<or> warm_count p \<ge> p_max_size p)")
  case True
  assume "pool_ok p"
  with True show ?thesis
    by (intro pool_effectI [where xs = "[ws]"])
      (auto simp: pool_release_def safe_close_def Let_def pool_known_def pool_ok_def warm_count_def)
next
  case False
  assume "pool_ok p"
  with False show ?thesis
    by (intro pool_effect_same)
      (auto simp: pool_release_def Let_def pool_known_def warm_count_def)
qed

lemma pool_sweep_effect: "pool_ok p \<Longrightarrow> pool_effect p {} (pool_sweep_once now p)"
proof (rule pool_effectI
    [where xs = "map fst (filter (\<lambda>(ws, ts). now - ts > p_idle_ttl p) (p_free p))"], goal_cases)
  case 4
  then have "inj_on fst (set (p_free p))" by (simp add: pool_ok_def distinct_map)
  with 4 show ?case
    by (fastforce simp: pool_known_def pool_sweep_once_def sweep_scan_filter safe_close_all_def
        pool_ok_def inj_on_def)
qed (auto simp: pool_known_def pool_sweep_once_def sweep_scan_filter safe_close_all_def
      pool_ok_def distinct_map_filter)

lemma pool_aclose_effect: "pool_ok p \<Longrightarrow> pool_effect p {} (pool_aclose p)"
proof (cases "p_closed p")
  case True
  then show ?thesis by (auto simp: pool_aclose_def intro: pool_effect_same)
next
  case False
  assume "pool_ok p"
  with False show ?thesis
    by (intro pool_effectI [where xs = "map fst (p_free p) @ sorted_list_of_set (p_in_use p)"])
      (auto simp: pool_aclose_def safe_close_all_def pool_known_def pool_ok_def)
qed

lemma prewarm_reserve_effect: "pool_effect p {} (snd (prewarm_reserve p))"
  by (auto simp: prewarm_reserve_def pool_known_def intro: pool_effect_same)

lemma prewarm_failed_effect: "pool_effect p {} (prewarm_boot_failed p)"
  by (auto simp: prewarm_boot_failed_def pool_known_def intro: pool_effect_same)

lemma prewarm_booted_effect:
  "pool_ok p \<Longrightarrow> ws \<notin> pool_known p \<Longrightarrow> pool_effect p {ws} (prewarm_booted ws now p)"
proof (cases "p_closed p \<or> warm_count p \<ge> p_max_size p")
  case True
  assume "pool_ok p" "ws \<notin> pool_known p"
  with True show ?thesis
    by (intro pool_effectI [where xs = "[ws]"])
      (auto simp: prewarm_booted_def Let_def safe_close_def pool_known_def warm_count_def)
next
  case False
  then show ?thesis
    by (intro pool_effect_same)
      (auto simp: prewarm_booted_def Let_def pool_known_def warm_count_def)
qed

lemmas section_effect =
  acquire_locked_effect provision_done_effect probe_verdict_effect pool_release_effect
  pool_sweep_effect pool_aclose_effect prewarm_reserve_effect prewarm_failed_effect
  prewarm_booted_effect

section \<open>Acquiring without interference\<close>

definition factory_fresh :: "pool \<Rightarrow> pool_env \<Rightarrow> bool" where
  "factory_fresh p env \<longleftrightarrow>
     (case pe_factory env (pe_factory_calls env) of Inl _ \<Rightarrow> True | Inr ws \<Rightarrow> ws \<notin> pool_known p)"

text \<open>
  A successful \<open>acquire\<close> adds exactly the returned sandbox, not in use before, to those in
  use; a failing one takes none away from their holders.
\<close>

lemma pool_acquire_spec:
  "pool_ok p \<Longrightarrow> factory_fresh p env \<Longrightarrow> pool_acquire p env = (r, p', env') \<Longrightarrow>
   pool_ok p' \<and> p_max_size p' = p_max_size p \<and>
   (case r of
      Inr ws \<Rightarrow> ws \<notin> p_in_use p \<and> p_in_use p' = insert ws (p_in_use p)
    | Inl _ \<Rightarrow> p_in_use p \<subseteq> p_in_use p')"
proof (induction p env arbitrary: r p' env' rule: pool_acquire.induct)
  case (1 p env)
  note eq = pool_acquire.simps [of p env]
  show ?case
  proof (cases "p_closed p")
    case True
    with 1 eq show ?thesis by auto
  next
    case open_: False
    obtain n p1 where al: "acquire_locked p = (n, p1)" by (cases "acquire_locked p")
    have max1: "p_max_size p1 = p_max_size p"
      using acquire_locked_effect [OF "1.prems"(1)] al by (simp add: pool_effect_def)
    show ?thesis
    proof (cases n)
      case (Candidate c)
      note c = acquire_Candidate [OF al [unfolded Candidate] "1.prems"(1)]
      show ?thesis
      proof (cases "p_health_check p1")
        case False
        with "1.prems" eq open_ al Candidate c max1 show ?thesis by auto
      next
        case True
        obtain h env1 where probe: "call_probe env = (h, env1)" by (cases "call_probe env")
        obtain v p2 where verdict: "probe_verdict c h p1 = (v, p2)" by (cases "probe_verdict c h p1")
        have p2: "pool_ok p2" "p_max_size p2 = p_max_size p1" "pool_known p2 \<subseteq> pool_known p1"
          using probe_verdict_ok [of p1 c h] probe_verdict_effect [of p1 c h] c verdict
          by (auto simp: pool_effect_def)
        have in_use2: "v = Inr False \<Longrightarrow> p_in_use p2 = p_in_use p" "v \<noteq> Inr False \<Longrightarrow> p2 = p1"
          using verdict c
          by (auto simp: probe_verdict_def safe_close_def split: sum.splits bool.splits exn.splits)
        consider (err) e where "v = Inl e" | (ok) "v = Inr True" | (bad) "v = Inr False"
          by (cases v) (auto split: bool.splits)
        then show ?thesis
        proof cases
          case err
          with "1.prems" eq open_ al Candidate c max1 True probe verdict in_use2 p2
          show ?thesis by auto
        next
          case ok
          with "1.prems" eq open_ al Candidate c max1 True probe verdict in_use2 p2
          show ?thesis by auto
        next
          case bad
          have fresh2: "factory_fresh p2 env1"
            using "1.prems"(2) probe p2(3) c
            by (auto simp: factory_fresh_def call_probe_def split: sum.splits)
          have rec: "pool_acquire p2 env1 = (r, p', env')"
            using "1.prems"(3) eq open_ al Candidate True probe verdict bad by simp
          note IH = "1.IH" [OF open_ al [symmetric] Candidate _ probe [symmetric]
              verdict [symmetric] bad refl p2(1) fresh2 rec]
          show ?thesis
            using IH True p2(2) max1 in_use2(1) [OF bad] by (cases r) auto
        qed
      qed
    next
      case Grow
      note g = acquire_Grow [OF al [unfolded Grow]]
      have p1: "pool_ok p1" using acquire_locked_ok [OF "1.prems"(1)] al by simp
      have known1: "pool_known p1 = pool_known p" using g by (simp add: pool_known_def)
      obtain h env1 where fac: "call_factory env = (h, env1)" by (cases "call_factory env")
      have fresh: "ws \<notin> pool_known p1" if "h = Inr ws" for ws
        using "1.prems"(2) fac that known1 by (auto simp: factory_fresh_def call_factory_def)
      have pend: "1 \<le> p_pending_count p1" using g "1.prems"(1) by (simp add: pool_ok_def)
      obtain h' p2 where prov: "provision_done h p1 = (h', p2)" by (cases "provision_done h p1")
      have ok2: "pool_ok p2" using provision_done_ok [OF p1 pend, of h] fresh prov by simp
      have res: "r = h'" "p' = p2" using "1.prems"(3) eq open_ al Grow fac prov by auto
      have "h' = h" "p_max_size p2 = p_max_size p1"
        "p_in_use p2 = (case h of Inl _ \<Rightarrow> p_in_use p1 | Inr ws \<Rightarrow> insert ws (p_in_use p1))"
        using prov by (auto simp: provision_done_def Let_def split: sum.splits)
      with ok2 res g max1 fresh show ?thesis
        by (cases h) (auto simp: pool_known_def)
    next
      case Full
      with acquire_Full [OF al [unfolded Full]] "1.prems" eq open_ al show ?thesis by auto
    qed
  qed
qed

text \<open>A factory that never hands out a sandbox the pool knows, nor one sandbox twice.\<close>

definition factory_ok :: "pool \<Rightarrow> pool_env \<Rightarrow> bool" where
  "factory_ok p env \<longleftrightarrow>
     (\<forall>n ws. pe_factory_calls env \<le> n \<longrightarrow> pe_factory env n = Inr ws \<longrightarrow>
        ws \<notin> pool_known p \<and> (\<forall>m. pe_factory_calls env \<le> m \<longrightarrow> m \<noteq> n \<longrightarrow> pe_factory env m \<noteq> Inr ws))"

lemma factory_ok_fresh: "factory_ok p env \<Longrightarrow> factory_fresh p env"
  by (auto simp: factory_ok_def factory_fresh_def split: sum.split)

lemma factory_ok_shrink: "factory_ok p env \<Longrightarrow> pool_known p' \<subseteq> pool_known p \<Longrightarrow> factory_ok p' env"
  by (fastforce simp: factory_ok_def)

lemma factory_ok_call:
  assumes "factory_ok p env" and "call_factory env = (r, env')"
    and "pool_known p' \<subseteq> pool_known p \<union> (case r of Inl _ \<Rightarrow> {} | Inr ws \<Rightarrow> {ws})"
  shows "factory_ok p' env'"
  unfolding factory_ok_def
proof (intro allI impI)
  fix n ws
  assume n: "pe_factory_calls env' \<le> n" "pe_factory env' n = Inr ws"
  have env': "pe_factory_calls env' = Suc (pe_factory_calls env)" "pe_factory env' = pe_factory env"
    "r = pe_factory env (pe_factory_calls env)"
    using assms(2) by (auto simp: call_factory_def)
  with n have n': "pe_factory_calls env \<le> n" "pe_factory_calls env \<noteq> n" "pe_factory env n = Inr ws"
    by auto
  with assms(1) have old: "ws \<notin> pool_known p"
    "\<forall>m. pe_factory_calls env \<le> m \<longrightarrow> m \<noteq> n \<longrightarrow> pe_factory env m \<noteq> Inr ws"
    unfolding factory_ok_def by blast+
  then have "r \<noteq> Inr ws" using env'(3) n'(2) by simp
  with old(1) assms(3) have "ws \<notin> pool_known p'" by (auto split: sum.splits)
  with old(2) env' show "ws \<notin> pool_known p' \<and>
      (\<forall>m. pe_factory_calls env' \<le> m \<longrightarrow> m \<noteq> n \<longrightarrow> pe_factory env' m \<noteq> Inr ws)" by simp
qed

lemma factory_ok_probe: "factory_ok p env \<Longrightarrow> call_probe env = (r, env') \<Longrightarrow> factory_ok p env'"
proof -
  assume ok: "factory_ok p env" and "call_probe env = (r, env')"
  then have "env' = env\<lparr>pe_probe_calls := Suc (pe_probe_calls env)\<rparr>" by (simp add: call_probe_def)
  moreover have "factory_ok p (env\<lparr>pe_probe_calls := k\<rparr>) = factory_ok p env" for k
    by (simp add: factory_ok_def)
  ultimately show ?thesis using ok by simp
qed

lemma pool_acquire_factory:
  "pool_ok p \<Longrightarrow> factory_ok p env \<Longrightarrow> pool_acquire p env = (r, p', env') \<Longrightarrow> factory_ok p' env'"
proof (induction p env arbitrary: r p' env' rule: pool_acquire.induct)
  case (1 p env)
  note eq = pool_acquire.simps [of p env]
  show ?case
  proof (cases "p_closed p")
    case True
    with 1 eq show ?thesis by auto
  next
    case open_: False
    obtain n p1 where al: "acquire_locked p = (n, p1)" by (cases "acquire_locked p")
    show ?thesis
    proof (cases n)
      case (Candidate c)
      note c = acquire_Candidate [OF al [unfolded Candidate] "1.prems"(1)]
      have fac1: "factory_ok p1 env" using "1.prems"(2) c by (auto intro: factory_ok_shrink)
      show ?thesis
      proof (cases "p_health_check p1")
        case False
        with "1.prems" eq open_ al Candidate fac1 show ?thesis by auto
      next
        case True
        obtain h env1 where probe: "call_probe env = (h, env1)" by (cases "call_probe env")
        obtain v p2 where verdict: "probe_verdict c h p1 = (v, p2)" by (cases "probe_verdict c h p1")
        have p2: "pool_ok p2" "pool_known p2 \<subseteq> pool_known p1"
          using probe_verdict_ok [of p1 c h] probe_verdict_effect [of p1 c h] c verdict
          by (auto simp: pool_effect_def)
        have fac2: "factory_ok p2 env1"
          by (rule factory_ok_shrink [OF factory_ok_probe [OF fac1 probe] p2(2)])
        show ?thesis
        proof (cases "v = Inr False")
          case True': True
          with "1.prems"(3) eq open_ al Candidate True probe verdict
          have rec: "pool_acquire p2 env1 = (r, p', env')" by simp
          show ?thesis
            using "1.IH" [OF open_ al [symmetric] Candidate _ probe [symmetric]
              verdict [symmetric] True' refl p2(1) fac2 rec] True by simp
        next
          case False
          then consider (err) e where "v = Inl e" | (fine) "v = Inr True" by (cases v) auto
          then have "p' = p2 \<and> env' = env1"
          proof cases
            case err
            with "1.prems"(3) eq open_ al Candidate True probe verdict show ?thesis by simp
          next
            case fine
            with "1.prems"(3) eq open_ al Candidate True probe verdict show ?thesis by simp
          qed
          with fac2 show ?thesis by simp
        qed
      qed
    next
      case Grow
      note g = acquire_Grow [OF al [unfolded Grow]]
      obtain h env1 where fac: "call_factory env = (h, env1)" by (cases "call_factory env")
      obtain h' p2 where prov: "provision_done h p1 = (h', p2)" by (cases "provision_done h p1")
      have "pool_known p2 \<subseteq> pool_known p \<union> (case h of Inl _ \<Rightarrow> {} | Inr ws \<Rightarrow> {ws})"
        using prov g by (auto simp: provision_done_def Let_def pool_known_def split: sum.splits)
      from factory_ok_call [OF "1.prems"(2) fac this] "1.prems"(3) eq open_ al Grow fac prov
      show ?thesis by auto
    next
      case Full
      with acquire_Full [OF al [unfolded Full]] "1.prems" eq open_ al show ?thesis by auto
    qed
  qed
qed

end
