(* ===== verification/Pool_Concurrency.thy ===== *)
theory Pool_Concurrency
  imports Sandbox_Pool
begin

text \<open>
  Any number of tasks that call \<open>SandboxPool.acquire\<close> and \<open>release\<close>, the sweeper, the
  pre-warmer and \<open>aclose\<close>, interleaved at their suspension points. Each rule of
  \<open>pool_step\<close> is one critical section of \<open>_pool.py\<close>, the functions of \<open>Sandbox_Pool\<close>.

  \<^item> A task that waits on the condition holds its deadline and whether \<open>notify_all\<close> has
    reached it since it went to sleep; woken, it re-evaluates the predicate
    \<open>len(self._free) > 0\<close> and goes back to sleep if that is false.
  \<^item> A sandbox a factory call returns is a new object: it is not among \<open>ps_born\<close>.
  \<^item> A task that holds a sandbox releases it at most once.
\<close>

section \<open>Tasks and system state\<close>

datatype acq_pc =
    Idle
  | Start "time option"
  | Locking "time option"
  | Provisioning
  | Waiting time bool
  | Probing sandbox "time option"
  | Returned sandbox
  | Raised exn

datatype prewarm_pc = PW_Idle | PW_Loop nat | PW_Booting nat | PW_Stopped

record pool_sys =
  ps_pool :: pool
  ps_pc :: "nat \<Rightarrow> acq_pc"
  ps_prewarm :: prewarm_pc
  ps_born :: "sandbox set"
  ps_now :: time

definition pool_sys_init :: "pool \<Rightarrow> pool_sys" where
  "pool_sys_init p =
     \<lparr>ps_pool = p, ps_pc = (\<lambda>_. Idle), ps_prewarm = PW_Idle, ps_born = {}, ps_now = 0\<rparr>"

fun notify_pc :: "acq_pc \<Rightarrow> acq_pc" where
  "notify_pc (Waiting d b) = Waiting d True"
| "notify_pc pc = pc"

definition notify_all :: "bool \<Rightarrow> (nat \<Rightarrow> acq_pc) \<Rightarrow> nat \<Rightarrow> acq_pc" where
  "notify_all b pcs = (if b then notify_pc \<circ> pcs else pcs)"

definition wait_deadline :: "pool_sys \<Rightarrow> time option \<Rightarrow> time" where
  "wait_deadline s d =
     (case d of None \<Rightarrow> ps_now s + p_acquire_timeout (ps_pool s) | Some t \<Rightarrow> t)"

definition move :: "pool_sys \<Rightarrow> nat \<Rightarrow> pool \<Rightarrow> acq_pc \<Rightarrow> pool_sys" where
  "move s i p pc = s\<lparr>ps_pool := p, ps_pc := (ps_pc s)(i := pc)\<rparr>"

inductive pool_step :: "pool_sys \<Rightarrow> pool_sys \<Rightarrow> bool" where
  call: "ps_pc s i = Idle \<Longrightarrow> pool_step s (move s i (ps_pool s) (Start None))"
| check: "ps_pc s i = Start d \<Longrightarrow>
    pool_step s (move s i (ps_pool s)
      (if p_closed (ps_pool s) then Raised RuntimeError else Locking d))"
| lock_candidate: "ps_pc s i = Locking d \<Longrightarrow> acquire_locked (ps_pool s) = (Candidate c, p') \<Longrightarrow>
    pool_step s (move s i p' (if p_health_check p' then Probing c d else Returned c))"
| lock_grow: "ps_pc s i = Locking d \<Longrightarrow> acquire_locked (ps_pool s) = (Grow, p') \<Longrightarrow>
    pool_step s (move s i p' Provisioning)"
| lock_full: "ps_pc s i = Locking d \<Longrightarrow> acquire_locked (ps_pool s) = (Full, p') \<Longrightarrow>
    pool_step s (move s i p'
      (if wait_deadline s d - ps_now s \<le> 0 then Raised TimeoutError
       else Waiting (wait_deadline s d) False))"
| boot: "ps_pc s i = Provisioning \<Longrightarrow> ws \<notin> ps_born s \<Longrightarrow>
    provision_done (Inr ws) (ps_pool s) = (Inr ws, p') \<Longrightarrow>
    pool_step s ((move s i p' (Returned ws))\<lparr>ps_born := insert ws (ps_born s)\<rparr>)"
| boot_failed: "ps_pc s i = Provisioning \<Longrightarrow>
    provision_done (Inl e) (ps_pool s) = (Inl e, p') \<Longrightarrow>
    pool_step s (move s i p' (Raised e))"
| probe_ok: "ps_pc s i = Probing c d \<Longrightarrow> probe_verdict c r (ps_pool s) = (Inr True, p') \<Longrightarrow>
    pool_step s (move s i p' (Returned c))"
| probe_bad: "ps_pc s i = Probing c d \<Longrightarrow> probe_verdict c r (ps_pool s) = (Inr False, p') \<Longrightarrow>
    pool_step s (move s i p' (Start d))"
| probe_cancelled: "ps_pc s i = Probing c d \<Longrightarrow> probe_verdict c r (ps_pool s) = (Inl e, p') \<Longrightarrow>
    pool_step s (move s i p' (Raised e))"
| wake: "ps_pc s i = Waiting dl True \<Longrightarrow>
    pool_step s (move s i (ps_pool s)
      (if p_free (ps_pool s) \<noteq> [] then Start (Some dl) else Waiting dl False))"
| expire: "ps_pc s i = Waiting dl b \<Longrightarrow> dl \<le> ps_now s \<Longrightarrow>
    pool_step s (move s i (ps_pool s) (Raised TimeoutError))"
| give_back: "ps_pc s i = Returned ws \<Longrightarrow>
    pool_step s (s\<lparr>ps_pool := pool_release ws broken (ps_now s) (ps_pool s),
      ps_pc := notify_all (release_notifies ws broken (ps_pool s)) ((ps_pc s)(i := Idle))\<rparr>)"
| finish: "ps_pc s i = Raised e \<Longrightarrow> pool_step s (move s i (ps_pool s) Idle)"
| sweep: "pool_step s (s\<lparr>ps_pool := pool_sweep_once (ps_now s) (ps_pool s)\<rparr>)"
| aclose: "pool_step s (s\<lparr>ps_pool := pool_aclose (ps_pool s),
      ps_pc := notify_all (\<not> p_closed (ps_pool s)) (ps_pc s),
      ps_prewarm := (if p_closed (ps_pool s) then ps_prewarm s else PW_Stopped)\<rparr>)"
| prewarm_tick: "ps_prewarm s = PW_Idle \<Longrightarrow>
    pool_step s (s\<lparr>ps_prewarm := PW_Loop (nat (prewarm_deficit (ps_pool s)))\<rparr>)"
| prewarm_end: "ps_prewarm s = PW_Loop 0 \<Longrightarrow> pool_step s (s\<lparr>ps_prewarm := PW_Idle\<rparr>)"
| prewarm_res: "ps_prewarm s = PW_Loop (Suc n) \<Longrightarrow> prewarm_reserve (ps_pool s) = (b, p') \<Longrightarrow>
    pool_step s (s\<lparr>ps_pool := p', ps_prewarm := (if b then PW_Booting n else PW_Idle)\<rparr>)"
| prewarm_ok: "ps_prewarm s = PW_Booting n \<Longrightarrow> ws \<notin> ps_born s \<Longrightarrow>
    pool_step s (s\<lparr>ps_pool := prewarm_booted ws (ps_now s) (ps_pool s),
      ps_pc := notify_all (prewarm_notifies (ps_pool s)) (ps_pc s),
      ps_prewarm := PW_Loop n, ps_born := insert ws (ps_born s)\<rparr>)"
| prewarm_bad: "ps_prewarm s = PW_Booting n \<Longrightarrow>
    pool_step s (s\<lparr>ps_pool := prewarm_boot_failed (ps_pool s), ps_prewarm := PW_Idle\<rparr>)"
| tick: "0 \<le> dt \<Longrightarrow> pool_step s (s\<lparr>ps_now := ps_now s + dt\<rparr>)"

inductive pool_reach :: "pool \<Rightarrow> pool_sys \<Rightarrow> bool" for p0 where
  start: "pool_reach p0 (pool_sys_init p0)"
| step: "pool_reach p0 s \<Longrightarrow> pool_step s t \<Longrightarrow> pool_reach p0 t"

section \<open>The invariant\<close>

fun holds :: "acq_pc \<Rightarrow> sandbox option" where
  "holds (Probing c d) = Some c"
| "holds (Returned c) = Some c"
| "holds pc = None"

definition held :: "pool_sys \<Rightarrow> nat \<Rightarrow> sandbox option" where
  "held s i = holds (ps_pc s i)"

definition booting :: "(nat \<Rightarrow> acq_pc) \<Rightarrow> prewarm_pc \<Rightarrow> int" where
  "booting pcs pw =
     int (card {i. pcs i = Provisioning}) + (case pw of PW_Booting n \<Rightarrow> 1 | _ \<Rightarrow> 0)"

definition pending_ok :: "pool_sys \<Rightarrow> bool" where
  "pending_ok s \<longleftrightarrow> finite {i. ps_pc s i = Provisioning} \<and>
     booting (ps_pc s) (ps_prewarm s) \<le> p_pending_count (ps_pool s)"

definition log_ok :: "pool_sys \<Rightarrow> bool" where
  "log_ok s \<longleftrightarrow> (\<not> p_closed (ps_pool s) \<longrightarrow> distinct (p_closed_log (ps_pool s))) \<and>
     set (p_closed_log (ps_pool s)) \<inter> pool_known (ps_pool s) = {} \<and>
     set (p_closed_log (ps_pool s)) \<union> pool_known (ps_pool s) \<subseteq> ps_born s"

definition lease_ok :: "pool_sys \<Rightarrow> bool" where
  "lease_ok s \<longleftrightarrow>
     (\<forall>i c. held s i = Some c \<longrightarrow> c \<in> ps_born s) \<and>
     (\<forall>i j c. held s i = Some c \<longrightarrow> held s j = Some c \<longrightarrow> i = j) \<and>
     (\<forall>i c. held s i = Some c \<longrightarrow> c \<notin> fst ` set (p_free (ps_pool s))) \<and>
     (\<not> p_closed (ps_pool s) \<longrightarrow> (\<forall>i c. held s i = Some c \<longrightarrow> c \<in> p_in_use (ps_pool s)))"

definition pool_sys_ok :: "pool_sys \<Rightarrow> bool" where
  "pool_sys_ok s \<longleftrightarrow> pool_ok (ps_pool s) \<and> pending_ok s \<and> log_ok s \<and> lease_ok s"

text \<open>The effect of a section carries the closed log along.\<close>

lemma log_ok_effect:
  assumes "log_ok s" and "pool_effect (ps_pool s) new p'" and "new \<inter> ps_born s = {}"
    and "ps_pool t = p'" and "ps_born t = ps_born s \<union> new"
    and "p_closed (ps_pool s) \<longrightarrow> p_closed p'"
  shows "log_ok t"
proof -
  from assms(2) obtain xs where xs: "p_closed_log p' = p_closed_log (ps_pool s) @ xs" "distinct xs"
      "set xs \<union> pool_known p' \<subseteq> pool_known (ps_pool s) \<union> new" "set xs \<inter> pool_known p' = {}"
    by (auto simp: pool_effect_def)
  with assms(1,3,4,5,6) show ?thesis by (auto simp: log_ok_def) blast+
qed

lemma notify_pc_simps [simp]:
  "notify_pc pc = Provisioning \<longleftrightarrow> pc = Provisioning"
  "holds (notify_pc pc) = holds pc"
  by (cases pc; simp)+

lemma notify_all_Provisioning [simp]:
  "notify_all b pcs i = Provisioning \<longleftrightarrow> pcs i = Provisioning"
  "holds (notify_all b pcs i) = holds (pcs i)"
  by (simp_all add: notify_all_def)

lemma booting_notify [simp]: "booting (notify_all b pcs) pw = booting pcs pw"
  by (simp add: booting_def)

lemma booting_move:
  assumes "finite {i. pcs i = Provisioning}"
  shows "finite {j. (pcs(i := pc)) j = Provisioning} \<and>
    booting (pcs(i := pc)) pw =
      booting pcs pw + (if pc = Provisioning then 1 else 0) - (if pcs i = Provisioning then 1 else 0)"
proof -
  have eq: "{j. (pcs(i := pc)) j = Provisioning} =
      (if pc = Provisioning then insert i {j. pcs j = Provisioning}
       else {j. pcs j = Provisioning} - {i})"
    by auto
  show ?thesis
  proof (cases "pcs i = Provisioning")
    case True
    then have i: "i \<in> {j. pcs j = Provisioning}" by simp
    with assms eq card_drop [OF assms i] insert_absorb [OF i] show ?thesis
      by (auto simp: booting_def)
  next
    case False
    then have i: "i \<notin> {j. pcs j = Provisioning}" by simp
    with assms eq show ?thesis by (auto simp: booting_def)
  qed
qed

text \<open>
  Leases after a step that changes what task \<open>i\<close> holds to \<open>h\<close> and the pool to \<open>p'\<close>.
\<close>

lemma lease_okI:
  assumes "lease_ok s" and "ps_born s \<subseteq> ps_born t"
    and "\<And>j. j \<noteq> i \<Longrightarrow> held t j = held s j" and "held t i = h"
    and "p_closed (ps_pool s) \<longrightarrow> p_closed (ps_pool t)"
    and "\<And>j c. held t j = Some c \<Longrightarrow> c \<in> fst ` set (p_free (ps_pool t)) \<Longrightarrow>
           c \<in> fst ` set (p_free (ps_pool s)) \<and> j \<noteq> i"
    and "\<And>j c. j \<noteq> i \<Longrightarrow> held s j = Some c \<Longrightarrow> c \<in> p_in_use (ps_pool s) \<Longrightarrow>
           c \<in> p_in_use (ps_pool t) \<or> p_closed (ps_pool t)"
    and "\<And>c. h = Some c \<Longrightarrow> c \<in> ps_born t \<and> (\<forall>j. j \<noteq> i \<longrightarrow> held s j \<noteq> Some c) \<and>
           (p_closed (ps_pool t) \<or> c \<in> p_in_use (ps_pool t))"
  shows "lease_ok t"
proof -
  have lease: "held s j = Some c \<Longrightarrow> c \<in> ps_born s"
    "\<not> p_closed (ps_pool s) \<Longrightarrow> held s j = Some c \<Longrightarrow> c \<in> p_in_use (ps_pool s)" for j c
    using assms(1) unfolding lease_ok_def by blast+
  show ?thesis unfolding lease_ok_def
proof (intro conjI allI impI)
  fix j c assume "held t j = Some c"
  then show "c \<in> ps_born t"
    using lease assms(2,4) assms(3) [of j] assms(8) [of c] by (cases "j = i") auto
next
  fix j k c assume jk: "held t j = Some c" "held t k = Some c"
  have inj: "held s j = Some c \<Longrightarrow> held s k = Some c \<Longrightarrow> j = k"
    using assms(1) unfolding lease_ok_def by blast
  have no: "held t i = Some c \<Longrightarrow> l \<noteq> i \<Longrightarrow> held t l \<noteq> Some c" for l
    using assms(8) [of c] assms(3) [of l] assms(4) by simp
  show "j = k"
  proof (cases "j = i \<or> k = i")
    case True
    with jk no [of j] no [of k] show ?thesis by auto
  next
    case False
    with jk inj assms(3) show ?thesis by simp
  qed
next
  fix j c assume c: "held t j = Some c"
  show "c \<notin> fst ` set (p_free (ps_pool t))"
  proof
    assume "c \<in> fst ` set (p_free (ps_pool t))"
    with assms(6) [OF c] have "c \<in> fst ` set (p_free (ps_pool s))" "j \<noteq> i" by auto
    with assms(1,3) c show False unfolding lease_ok_def by metis
  qed
next
  fix j c assume "\<not> p_closed (ps_pool t)" and "held t j = Some c"
  then show "c \<in> p_in_use (ps_pool t)"
    using lease assms(4,5) assms(3) [of j] assms(7) [of j c] assms(8) [of c]
    by (cases "j = i") auto
qed
qed

lemma move_fields [simp]:
  "ps_pool (move s i p pc) = p" "ps_pc (move s i p pc) = (ps_pc s)(i := pc)"
  "ps_prewarm (move s i p pc) = ps_prewarm s" "ps_born (move s i p pc) = ps_born s"
  "ps_now (move s i p pc) = ps_now s"
  by (simp_all add: move_def)

lemma held_born [simp]: "held (s\<lparr>ps_born := B\<rparr>) i = held s i"
  by (simp add: held_def)

lemma held_move: "held (move s i p pc) j = (if j = i then holds pc else held s j)"
  by (simp add: held_def)

text \<open>A task moving on without touching the pool or taking a sandbox.\<close>

lemma move_ok:
  assumes "pool_sys_ok s" and "ps_pc s i \<noteq> Provisioning" and "pc \<noteq> Provisioning"
    and "holds pc = None \<or> holds pc = held s i"
  shows "pool_sys_ok (move s i (ps_pool s) pc)"
proof -
  have "pending_ok (move s i (ps_pool s) pc)"
    using assms booting_move [of "ps_pc s" i pc "ps_prewarm s"]
    by (simp add: pool_sys_ok_def pending_ok_def)
  moreover have "lease_ok (move s i (ps_pool s) pc)"
  proof (rule lease_okI [where s = s and i = i and h = "holds pc"])
    show "lease_ok s" using assms(1) by (simp add: pool_sys_ok_def)
    then show "\<And>c. holds pc = Some c \<Longrightarrow> c \<in> ps_born (move s i (ps_pool s) pc) \<and>
        (\<forall>j. j \<noteq> i \<longrightarrow> held s j \<noteq> Some c) \<and>
        (p_closed (ps_pool (move s i (ps_pool s) pc)) \<or> c \<in> p_in_use (ps_pool (move s i (ps_pool s) pc)))"
      using assms(4) unfolding lease_ok_def move_fields by (metis option.distinct(1))
    show "\<And>j c. held (move s i (ps_pool s) pc) j = Some c \<Longrightarrow>
        c \<in> fst ` set (p_free (ps_pool (move s i (ps_pool s) pc))) \<Longrightarrow>
        c \<in> fst ` set (p_free (ps_pool s)) \<and> j \<noteq> i"
      using \<open>lease_ok s\<close> assms(4) unfolding lease_ok_def move_fields held_move
      by (metis option.distinct(1))
  qed (simp_all add: held_move)
  ultimately show ?thesis using assms(1) by (simp add: pool_sys_ok_def log_ok_def)
qed

text \<open>How each section treats the free list and the set in use.\<close>

lemma provision_done_Inr:
  "provision_done (Inr ws) p = (Inr ws, p') \<Longrightarrow>
   p' = p\<lparr>p_pending_count := p_pending_count p - 1, p_in_use := insert ws (p_in_use p)\<rparr>"
  by (simp add: provision_done_def Let_def)

lemma provision_done_Inl:
  "provision_done (Inl e) p = (Inl e, p') \<Longrightarrow> p' = p\<lparr>p_pending_count := p_pending_count p - 1\<rparr>"
  by (simp add: provision_done_def Let_def)

lemma probe_verdict_cases:
  "probe_verdict c r p = (v, p') \<Longrightarrow>
   (v = Inr False \<and> p' = safe_close c (p\<lparr>p_in_use := p_in_use p - {c}\<rparr>)) \<or>
   (v \<noteq> Inr False \<and> p' = p)"
  by (auto simp: probe_verdict_def split: sum.splits bool.splits exn.splits)

lemma pool_release_fields:
  "p_pending_count (pool_release ws b now p) = p_pending_count p"
  "p_closed (pool_release ws b now p) = p_closed p"
  "p_in_use (pool_release ws b now p) = p_in_use p - {ws}"
  "fst ` set (p_free (pool_release ws b now p)) \<subseteq> fst ` set (p_free p) \<union> (p_in_use p \<inter> {ws})"
  by (auto simp: pool_release_def safe_close_def Let_def)

lemma pool_sweep_fields:
  "p_pending_count (pool_sweep_once now p) = p_pending_count p"
  "p_closed (pool_sweep_once now p) = p_closed p"
  "p_in_use (pool_sweep_once now p) = p_in_use p"
  "fst ` set (p_free (pool_sweep_once now p)) \<subseteq> fst ` set (p_free p)"
  by (auto simp: pool_sweep_once_def sweep_scan_filter safe_close_all_def)

lemma pool_aclose_fields:
  "p_pending_count (pool_aclose p) = p_pending_count p"
  "p_closed (pool_aclose p)"
  "fst ` set (p_free (pool_aclose p)) \<subseteq> fst ` set (p_free p)"
  by (auto simp: pool_aclose_def safe_close_all_def)

lemma prewarm_booted_fields:
  "p_pending_count (prewarm_booted ws now p) = p_pending_count p - 1"
  "p_closed (prewarm_booted ws now p) = p_closed p"
  "p_in_use (prewarm_booted ws now p) = p_in_use p"
  "fst ` set (p_free (prewarm_booted ws now p)) \<subseteq> insert ws (fst ` set (p_free p))"
  by (auto simp: prewarm_booted_def Let_def safe_close_def)

lemma acquire_locked_fields:
  "acquire_locked p = (n, p') \<Longrightarrow> p_closed p' = p_closed p"
  "acquire_locked p = (Candidate c, p') \<Longrightarrow> p_pending_count p' = p_pending_count p"
  by (auto simp: acquire_locked_def pop_free_locked_def
      split: if_splits option.splits prod.splits)

section \<open>Every step keeps the invariant\<close>

lemma pool_sys_okI:
  assumes "pool_sys_ok s" and "pool_ok (ps_pool t)" and "pending_ok t" and "lease_ok t"
    and "pool_effect (ps_pool s) new (ps_pool t)" and "new \<inter> ps_born s = {}"
    and "ps_born t = ps_born s \<union> new" and "p_closed (ps_pool s) \<longrightarrow> p_closed (ps_pool t)"
  shows "pool_sys_ok t"
  using assms log_ok_effect [of s new "ps_pool t" t] by (simp add: pool_sys_ok_def)

lemma pending_move:
  assumes "pending_ok s"
    and "p_pending_count (ps_pool s) + (if pc = Provisioning then 1 else 0) -
      (if ps_pc s i = Provisioning then 1 else 0) \<le> p_pending_count p'"
  shows "pending_ok (move s i p' pc)"
  using assms booting_move [of "ps_pc s" i pc "ps_prewarm s"]
  by (auto simp: pending_ok_def split: if_splits)

lemma known_born: "pool_sys_ok s \<Longrightarrow> pool_known (ps_pool s) \<subseteq> ps_born s"
  by (simp add: pool_sys_ok_def log_ok_def)

lemma lease_unique: "pool_sys_ok s \<Longrightarrow> held s i = Some c \<Longrightarrow> held s j = Some c \<Longrightarrow> i = j"
  unfolding pool_sys_ok_def lease_ok_def by blast

lemma lease_not_free: "pool_sys_ok s \<Longrightarrow> held s i = Some c \<Longrightarrow> c \<notin> fst ` set (p_free (ps_pool s))"
  unfolding pool_sys_ok_def lease_ok_def by blast

lemma lease_in_use:
  "pool_sys_ok s \<Longrightarrow> held s i = Some c \<Longrightarrow> \<not> p_closed (ps_pool s) \<Longrightarrow> c \<in> p_in_use (ps_pool s)"
  unfolding pool_sys_ok_def lease_ok_def by blast

lemma lease_born: "pool_sys_ok s \<Longrightarrow> held s i = Some c \<Longrightarrow> c \<in> ps_born s"
  unfolding pool_sys_ok_def lease_ok_def by blast

lemma pending_positive: "pending_ok s \<Longrightarrow> ps_pc s i = Provisioning \<Longrightarrow> 1 \<le> p_pending_count (ps_pool s)"
proof -
  assume ok: "pending_ok s" and i: "ps_pc s i = Provisioning"
  then have "0 < card {j. ps_pc s j = Provisioning}"
    by (auto simp: pending_ok_def card_gt_0_iff)
  with ok show ?thesis
    by (auto simp: pending_ok_def booting_def split: prewarm_pc.splits)
qed

lemma lock_candidate_ok:
  assumes "pool_sys_ok s" and "ps_pc s i = Locking d"
    and al: "acquire_locked (ps_pool s) = (Candidate c, p')"
    and "holds pc = Some c" and "pc \<noteq> Provisioning"
  shows "pool_sys_ok (move s i p' pc)"
proof (rule pool_sys_okI [OF assms(1), where new = "{}"])
  have ok: "pool_ok (ps_pool s)" using assms(1) by (simp add: pool_sys_ok_def)
  note c = acquire_Candidate [OF al ok]
  show "pool_ok (ps_pool (move s i p' pc))" using c by simp
  show "pending_ok (move s i p' pc)"
    using assms acquire_locked_fields(2) [OF al] by (intro pending_move) (auto simp: pool_sys_ok_def)
  show "pool_effect (ps_pool s) {} (ps_pool (move s i p' pc))"
    using acquire_locked_effect [OF ok] al by simp
  have free': "fst ` set (p_free p') = fst ` set (p_free (ps_pool s)) - {c}"
    using c ok unfolding pool_known_def pool_ok_def by blast
  show "lease_ok (move s i p' pc)"
  proof (rule lease_okI [where s = s and i = i and h = "Some c"])
    show "lease_ok s" using assms(1) by (simp add: pool_sys_ok_def)
    fix j x
    show "held (move s i p' pc) j = Some x \<Longrightarrow>
        x \<in> fst ` set (p_free (ps_pool (move s i p' pc))) \<Longrightarrow>
        x \<in> fst ` set (p_free (ps_pool s)) \<and> j \<noteq> i"
      using free' assms(4) by (auto simp: held_move split: if_splits)
    show "Some c = Some x \<Longrightarrow> x \<in> ps_born (move s i p' pc) \<and>
        (\<forall>j. j \<noteq> i \<longrightarrow> held s j \<noteq> Some x) \<and>
        (p_closed (ps_pool (move s i p' pc)) \<or> x \<in> p_in_use (ps_pool (move s i p' pc)))"
      using c known_born [OF assms(1)] lease_not_free [OF assms(1)] by (auto simp: pool_known_def)
  qed (use c assms acquire_locked_fields(1) [OF al] in \<open>simp_all add: held_move\<close>)
qed (use acquire_locked_fields(1) [OF al] in simp_all)

lemma lock_grow_ok:
  assumes "pool_sys_ok s" and "ps_pc s i = Locking d"
    and al: "acquire_locked (ps_pool s) = (Grow, p')"
  shows "pool_sys_ok (move s i p' Provisioning)"
proof (rule pool_sys_okI [OF assms(1), where new = "{}"])
  have ok: "pool_ok (ps_pool s)" using assms(1) by (simp add: pool_sys_ok_def)
  note g = acquire_Grow [OF al]
  show "pool_ok (ps_pool (move s i p' Provisioning))" using acquire_locked_ok [OF ok] al by simp
  show "pending_ok (move s i p' Provisioning)"
    using assms g by (intro pending_move) (auto simp: pool_sys_ok_def)
  show "pool_effect (ps_pool s) {} (ps_pool (move s i p' Provisioning))"
    using acquire_locked_effect [OF ok] al by simp
  show "lease_ok (move s i p' Provisioning)"
    by (rule lease_okI [where s = s and i = i and h = None])
      (use assms g in \<open>auto simp: held_move pool_sys_ok_def split: if_splits\<close>)
qed (use acquire_locked_fields(1) [OF al] in simp_all)

lemma boot_ok:
  assumes "pool_sys_ok s" and "ps_pc s i = Provisioning" and "ws \<notin> ps_born s"
    and "provision_done (Inr ws) (ps_pool s) = (Inr ws, p')"
  shows "pool_sys_ok ((move s i p' (Returned ws))\<lparr>ps_born := insert ws (ps_born s)\<rparr>)" (is "pool_sys_ok ?t")
proof (rule pool_sys_okI [OF assms(1), where new = "{ws}"])
  have ok: "pool_ok (ps_pool s)" and pend: "pending_ok s"
    using assms(1) by (simp_all add: pool_sys_ok_def)
  note p' = provision_done_Inr [OF assms(4)]
  have fresh: "ws \<notin> pool_known (ps_pool s)" using known_born [OF assms(1)] assms(3) by blast
  show "pool_ok (ps_pool ?t)"
    using provision_done_ok [OF ok pending_positive [OF pend assms(2)], of "Inr ws"] fresh assms(4)
    by simp
  have "pending_ok (move s i p' (Returned ws))"
    using assms p' by (intro pending_move) (auto simp: pool_sys_ok_def)
  then show "pending_ok ?t" by (simp add: pending_ok_def)
  show "pool_effect (ps_pool s) {ws} (ps_pool ?t)"
    using provision_done_effect [of "ps_pool s" "Inr ws"] assms(4) by simp
  have fields: "p_free p' = p_free (ps_pool s)" "p_closed p' = p_closed (ps_pool s)"
      "p_in_use p' = insert ws (p_in_use (ps_pool s))"
    using p' by simp_all
  show "lease_ok ?t"
    by (rule lease_okI [where s = s and i = i and h = "Some ws"])
      (use assms(1,3) fields fresh lease_born [OF assms(1)] lease_not_free [OF assms(1)] in
        \<open>auto simp: held_move pool_sys_ok_def pool_known_def split: if_splits\<close>)
  show "p_closed (ps_pool s) \<longrightarrow> p_closed (ps_pool ?t)" by (simp add: fields)
qed (use assms in simp_all)

lemma boot_failed_ok:
  assumes "pool_sys_ok s" and "ps_pc s i = Provisioning"
    and "provision_done (Inl e) (ps_pool s) = (Inl e, p')"
  shows "pool_sys_ok (move s i p' (Raised e))"
proof (rule pool_sys_okI [OF assms(1), where new = "{}"])
  have ok: "pool_ok (ps_pool s)" and pend: "pending_ok s"
    using assms(1) by (simp_all add: pool_sys_ok_def)
  note p' = provision_done_Inl [OF assms(3)]
  show "pool_ok (ps_pool (move s i p' (Raised e)))"
    using provision_done_ok [OF ok pending_positive [OF pend assms(2)], of "Inl e"] assms(3) by simp
  show "pending_ok (move s i p' (Raised e))"
    using assms p' by (intro pending_move) (auto simp: pool_sys_ok_def)
  show "pool_effect (ps_pool s) {} (ps_pool (move s i p' (Raised e)))"
    using provision_done_effect [of "ps_pool s" "Inl e"] assms(3) by simp
  have fields: "p_free p' = p_free (ps_pool s)" "p_closed p' = p_closed (ps_pool s)"
      "p_in_use p' = p_in_use (ps_pool s)"
    using p' by simp_all
  show "lease_ok (move s i p' (Raised e))"
    by (rule lease_okI [where s = s and i = i and h = None])
      (use assms(1) fields lease_not_free [OF assms(1)] in
        \<open>auto simp: held_move pool_sys_ok_def split: if_splits\<close>)
  show "p_closed (ps_pool s) \<longrightarrow> p_closed (ps_pool (move s i p' (Raised e)))" by (simp add: fields)
qed simp_all

text \<open>After a verdict the task either keeps the candidate or the pool has dropped it.\<close>

lemma probing_ok:
  assumes "pool_sys_ok s" and "ps_pc s i = Probing c d"
    and "probe_verdict c r (ps_pool s) = (v, p')"
    and "holds pc = (if v = Inr True then Some c else None)" and "pc \<noteq> Provisioning"
  shows "pool_sys_ok (move s i p' pc)"
proof (cases "v = Inr False")
  case False
  with probe_verdict_cases [OF assms(3)] have "p' = ps_pool s" by blast
  with assms show ?thesis by (auto intro!: move_ok simp: held_def)
next
  case bad: True
  with probe_verdict_cases [OF assms(3)]
  have p': "p' = safe_close c ((ps_pool s)\<lparr>p_in_use := p_in_use (ps_pool s) - {c}\<rparr>)" by blast
  have ok: "pool_ok (ps_pool s)" and c: "held s i = Some c"
    using assms by (simp_all add: pool_sys_ok_def held_def)
  have fields: "p_free p' = p_free (ps_pool s)" "p_closed p' = p_closed (ps_pool s)"
      "p_pending_count p' = p_pending_count (ps_pool s)" "p_in_use p' = p_in_use (ps_pool s) - {c}"
    using p' by (simp_all add: safe_close_def)
  have pending: "pending_ok (move s i p' pc)"
    using assms fields by (intro pending_move) (auto simp: pool_sys_ok_def)
  have lease: "lease_ok (move s i p' pc)"
    by (rule lease_okI [where s = s and i = i and h = None])
      (use assms(1,4) bad fields c lease_not_free [OF assms(1)] lease_unique [OF assms(1)] in
        \<open>auto simp: held_move pool_sys_ok_def split: if_splits\<close>)
  show ?thesis
  proof (cases "c \<in> p_in_use (ps_pool s)")
    case True
    show ?thesis
    proof (rule pool_sys_okI [OF assms(1) _ pending lease, where new = "{}"])
      show "pool_ok (ps_pool (move s i p' pc))" using probe_verdict_ok [OF ok True, of r] assms(3) by simp
      show "pool_effect (ps_pool s) {} (ps_pool (move s i p' pc))"
        using probe_verdict_effect [OF ok True, of r] assms(3) by simp
    qed (simp_all add: fields)
  next
    case False
    then have eq: "p' = (ps_pool s)\<lparr>p_closed_log := p_closed_log (ps_pool s) @ [c]\<rparr>"
      using p' by (simp add: safe_close_def)
    have "p_closed (ps_pool s)" using lease_in_use [OF assms(1) c] False by blast
    moreover have "c \<notin> pool_known (ps_pool s)"
      using False lease_not_free [OF assms(1) c] by (simp add: pool_known_def)
    ultimately have "log_ok (move s i p' pc)"
      using assms(1) lease_born [OF assms(1) c] eq by (auto simp: pool_sys_ok_def log_ok_def pool_known_def)
    moreover have "pool_ok p'" using ok eq by (simp add: pool_ok_def count_defs)
    ultimately show ?thesis using pending lease by (simp add: pool_sys_ok_def)
  qed
qed

lemma give_back_ok:
  assumes "pool_sys_ok s" and "ps_pc s i = Returned ws"
  shows "pool_sys_ok (s\<lparr>ps_pool := pool_release ws broken (ps_now s) (ps_pool s),
      ps_pc := notify_all nb ((ps_pc s)(i := Idle))\<rparr>)" (is "pool_sys_ok ?t")
proof (rule pool_sys_okI [OF assms(1), where new = "{}"])
  have ok: "pool_ok (ps_pool s)" and ws: "held s i = Some ws"
    using assms by (simp_all add: pool_sys_ok_def held_def)
  have held: "held ?t j = (if j = i then None else held s j)" for j by (simp add: held_def)
  show "pool_ok (ps_pool ?t)" using ok by (simp add: pool_release_ok)
  show "pending_ok ?t"
    using assms booting_move [of "ps_pc s" i Idle "ps_prewarm s"]
    by (simp add: pool_sys_ok_def pending_ok_def pool_release_fields)
  show "pool_effect (ps_pool s) {} (ps_pool ?t)" using ok by (simp add: pool_release_effect)
  show "lease_ok ?t"
    by (rule lease_okI [where s = s and i = i and h = None])
      (use assms(1) ws lease_unique [OF assms(1)]
        pool_release_fields(4) [of ws broken "ps_now s" "ps_pool s"] in
        \<open>auto simp: held pool_sys_ok_def pool_release_fields(1-3) split: if_splits\<close>)
qed (simp_all add: pool_release_fields)

text \<open>Steps of the sweeper, the pre-warmer and \<open>aclose\<close>: no task changes what it holds.\<close>

lemma background_ok:
  assumes "pool_sys_ok s" and "pool_ok p'" and "pool_effect (ps_pool s) new p'"
    and "new \<inter> ps_born s = {}"
    and "booting (ps_pc s) pw - booting (ps_pc s) (ps_prewarm s)
      \<le> p_pending_count p' - p_pending_count (ps_pool s)"
    and "p_closed (ps_pool s) \<longrightarrow> p_closed p'"
    and "fst ` set (p_free p') \<subseteq> fst ` set (p_free (ps_pool s)) \<union> new"
    and "p_in_use (ps_pool s) \<subseteq> p_in_use p' \<or> p_closed p'"
  shows "pool_sys_ok (s\<lparr>ps_pool := p', ps_pc := notify_all nb (ps_pc s), ps_prewarm := pw,
      ps_born := ps_born s \<union> new\<rparr>)" (is "pool_sys_ok ?t")
proof (rule pool_sys_okI [OF assms(1), where new = new])
  have held: "held ?t j = held s j" for j by (simp add: held_def)
  show "pending_ok ?t" using assms(1,5) by (simp add: pool_sys_ok_def pending_ok_def)
  show "lease_ok ?t"
    unfolding lease_ok_def held
  proof (intro conjI allI impI)
    fix j k c assume j: "held s j = Some c"
    show "c \<in> ps_born ?t" using lease_born [OF assms(1) j] by simp
    show "held s k = Some c \<Longrightarrow> j = k" by (rule lease_unique [OF assms(1) j])
    show "c \<notin> fst ` set (p_free (ps_pool ?t))"
    proof
      assume "c \<in> fst ` set (p_free (ps_pool ?t))"
      then have "c \<in> fst ` set (p_free (ps_pool s)) \<union> new" using assms(7) by auto
      then show False
        using lease_not_free [OF assms(1) j] lease_born [OF assms(1) j] assms(4) by blast
    qed
    assume "\<not> p_closed (ps_pool ?t)"
    then show "c \<in> p_in_use (ps_pool ?t)"
      using lease_in_use [OF assms(1) j] assms(6,8) by auto
  qed
qed (use assms in simp_all)

theorem pool_step_ok: "pool_step s t \<Longrightarrow> pool_sys_ok s \<Longrightarrow> pool_sys_ok t"
proof (induction rule: pool_step.induct)
  case (lock_candidate s i d c p')
  then show ?case by (intro lock_candidate_ok) auto
next
  case (lock_grow s i d p')
  then show ?case by (intro lock_grow_ok)
next
  case (lock_full s i d p')
  then have "p' = ps_pool s" using acquire_Full by blast
  with lock_full show ?case by (auto intro!: move_ok)
next
  case (boot s i ws p')
  then show ?case by (intro boot_ok)
next
  case (boot_failed s i e p')
  then show ?case by (intro boot_failed_ok)
next
  case (probe_ok s i c d r p')
  then show ?case by (intro probing_ok) auto
next
  case (probe_bad s i c d r p')
  then show ?case by (intro probing_ok) auto
next
  case (probe_cancelled s i c d r e p')
  then show ?case by (intro probing_ok) auto
next
  case (give_back s i ws broken)
  then show ?case by (intro give_back_ok)
next
  case (sweep s)
  then have "pool_ok (ps_pool s)" by (simp add: pool_sys_ok_def)
  with background_ok [OF sweep pool_sweep_ok pool_sweep_effect, where nb = False and pw = "ps_prewarm s"]
  show ?case by (simp add: pool_sweep_fields notify_all_def)
next
  case (aclose s)
  then have "pool_ok (ps_pool s)" by (simp add: pool_sys_ok_def)
  with background_ok [OF aclose pool_aclose_ok pool_aclose_effect,
      where pw = "if p_closed (ps_pool s) then ps_prewarm s else PW_Stopped"]
  show ?case by (simp add: pool_aclose_fields booting_def split: prewarm_pc.split)
next
  case (prewarm_tick s)
  then have "pool_ok (ps_pool s)" by (simp add: pool_sys_ok_def)
  with prewarm_tick background_ok [of s "ps_pool s" "{}" "PW_Loop n" False for n]
  show ?case by (simp add: pool_effect_same booting_def notify_all_def)
next
  case (prewarm_end s)
  then have "pool_ok (ps_pool s)" by (simp add: pool_sys_ok_def)
  with prewarm_end background_ok [of s "ps_pool s" "{}" PW_Idle False]
  show ?case by (simp add: pool_effect_same booting_def notify_all_def)
next
  case (prewarm_res s n b p')
  then have ok: "pool_ok (ps_pool s)" by (simp add: pool_sys_ok_def)
  have eff: "pool_effect (ps_pool s) {} p'"
    using prewarm_reserve_effect [of "ps_pool s"] prewarm_res(2) by simp
  have same: "p_free p' = p_free (ps_pool s)" "p_in_use p' = p_in_use (ps_pool s)"
      "p_closed p' = p_closed (ps_pool s)"
    using prewarm_res(2) by (auto simp: prewarm_reserve_def split: if_splits)
  note res = prewarm_reserve_ok [OF ok prewarm_res(2)]
  from prewarm_res eff same res
    background_ok [of s p' "{}" "if b then PW_Booting n else PW_Idle" False]
  show ?case by (cases b) (auto simp: booting_def notify_all_def)
next
  case (prewarm_ok s n ws)
  then have ok: "pool_ok (ps_pool s)" "ws \<notin> pool_known (ps_pool s)" "1 \<le> p_pending_count (ps_pool s)"
    using known_born [of s] by (auto simp: pool_sys_ok_def pending_ok_def booting_def)
  from prewarm_ok ok prewarm_booted_ok [OF ok(1,3,2)] prewarm_booted_effect [OF ok(1,2)]
    background_ok [of s "prewarm_booted ws (ps_now s) (ps_pool s)" "{ws}" "PW_Loop n"
      "prewarm_notifies (ps_pool s)"]
    prewarm_booted_fields [of ws "ps_now s" "ps_pool s"]
  show ?case by (simp add: booting_def)
next
  case (prewarm_bad s n)
  then have ok: "pool_ok (ps_pool s)" "1 \<le> p_pending_count (ps_pool s)"
    by (auto simp: pool_sys_ok_def pending_ok_def booting_def)
  then have "pool_ok (prewarm_boot_failed (ps_pool s))"
    by (simp add: prewarm_boot_failed_def pool_ok_def count_defs)
  with prewarm_bad prewarm_failed_effect [of "ps_pool s"]
    background_ok [of s "prewarm_boot_failed (ps_pool s)" "{}" PW_Idle False]
  show ?case by (simp add: booting_def notify_all_def prewarm_boot_failed_def)
next
  case (tick dt s)
  then show ?case
    by (simp add: pool_sys_ok_def pending_ok_def log_ok_def lease_ok_def held_def)
qed (auto intro!: move_ok simp: held_def)

lemma pool_sys_init_ok: "pool_init mx mn ttl si tmo pw st hc mc = Inr p \<Longrightarrow> pool_sys_ok (pool_sys_init p)"
  using pool_init_ok [of mx mn ttl si tmo pw st hc mc p]
  by (auto simp: pool_sys_ok_def pool_sys_init_def pending_ok_def booting_def log_ok_def lease_ok_def
      held_def pool_known_def pool_init_def split: if_splits option.splits)

lemma pool_reach_ok: "pool_reach p0 s \<Longrightarrow> pool_sys_ok (pool_sys_init p0) \<Longrightarrow> pool_sys_ok s"
  by (induction rule: pool_reach.induct) (auto intro: pool_step_ok)

section \<open>Closed pools\<close>

text \<open>A closed pool has no free sandbox and never gets one again.\<close>

definition closed_empty :: "pool \<Rightarrow> bool" where
  "closed_empty p \<longleftrightarrow> (p_closed p \<longrightarrow> p_free p = [])"

lemma closed_empty_section:
  "closed_empty p \<Longrightarrow> closed_empty (snd (acquire_locked p))"
  "closed_empty p \<Longrightarrow> closed_empty (snd (provision_done r p))"
  "closed_empty p \<Longrightarrow> closed_empty (snd (probe_verdict c h p))"
  "closed_empty p \<Longrightarrow> closed_empty (pool_release ws b now p)"
  "closed_empty p \<Longrightarrow> closed_empty (pool_sweep_once now p)"
  "closed_empty p \<Longrightarrow> closed_empty (pool_aclose p)"
  "closed_empty p \<Longrightarrow> closed_empty (snd (prewarm_reserve p))"
  "closed_empty p \<Longrightarrow> closed_empty (prewarm_booted ws now p)"
  "closed_empty p \<Longrightarrow> closed_empty (prewarm_boot_failed p)"
  by (auto simp: closed_empty_def acquire_locked_def pop_free_locked_def provision_done_def
      probe_verdict_def safe_close_def pool_release_def pool_sweep_once_def sweep_scan_filter
      safe_close_all_def pool_aclose_def prewarm_reserve_def prewarm_booted_def
      prewarm_boot_failed_def Let_def split: option.split sum.split bool.split exn.split)

lemma pool_step_closed_empty:
  "pool_step s t \<Longrightarrow> closed_empty (ps_pool s) \<Longrightarrow> closed_empty (ps_pool t)"
  by (induction rule: pool_step.induct)
    (use closed_empty_section in \<open>fastforce dest: arg_cong [where f = snd]\<close>)+

lemma pool_reach_closed_empty: "pool_reach p0 s \<Longrightarrow> closed_empty p0 \<Longrightarrow> closed_empty (ps_pool s)"
  by (induction rule: pool_reach.induct) (auto simp: pool_sys_init_def intro: pool_step_closed_empty)

section \<open>The abstract lease manager\<close>

text \<open>
  What the pool promises its users: a set of idle sandboxes, a set of leased ones and a
  number of boots under way, together within the capacity.
\<close>

record lease =
  l_cap :: int
  l_idle :: "sandbox set"
  l_leased :: "sandbox set"
  l_booting :: int

inductive lease_step :: "lease \<Rightarrow> lease \<Rightarrow> bool" where
  lease_idle: "c \<in> l_idle l \<Longrightarrow> c \<notin> l_leased l \<Longrightarrow>
    lease_step l (l\<lparr>l_idle := l_idle l - {c}, l_leased := insert c (l_leased l)\<rparr>)"
| reserve: "int (card (l_idle l)) + int (card (l_leased l)) + l_booting l < l_cap l \<Longrightarrow>
    lease_step l (l\<lparr>l_booting := l_booting l + 1\<rparr>)"
| arrive_leased: "ws \<notin> l_idle l \<union> l_leased l \<Longrightarrow> 1 \<le> l_booting l \<Longrightarrow>
    lease_step l (l\<lparr>l_booting := l_booting l - 1, l_leased := insert ws (l_leased l)\<rparr>)"
| arrive_idle: "ws \<notin> l_idle l \<union> l_leased l \<Longrightarrow> 1 \<le> l_booting l \<Longrightarrow>
    lease_step l (l\<lparr>l_booting := l_booting l - 1, l_idle := insert ws (l_idle l)\<rparr>)"
| abandon: "1 \<le> l_booting l \<Longrightarrow> lease_step l (l\<lparr>l_booting := l_booting l - 1\<rparr>)"
| return_lease: "ws \<in> l_leased l \<Longrightarrow>
    lease_step l (l\<lparr>l_leased := l_leased l - {ws}, l_idle := insert ws (l_idle l)\<rparr>)"
| drop_lease: "ws \<in> l_leased l \<Longrightarrow> lease_step l (l\<lparr>l_leased := l_leased l - {ws}\<rparr>)"
| evict: "A \<subseteq> l_idle l \<Longrightarrow> lease_step l (l\<lparr>l_idle := l_idle l - A\<rparr>)"
| shut: "lease_step l (l\<lparr>l_idle := {}, l_leased := {}\<rparr>)"

definition abs_pool :: "pool \<Rightarrow> lease" where
  "abs_pool p =
     \<lparr>l_cap = p_max_size p, l_idle = fst ` set (p_free p), l_leased = p_in_use p,
      l_booting = p_pending_count p\<rparr>"

lemma card_idle: "pool_ok p \<Longrightarrow> card (fst ` set (p_free p)) = length (p_free p)"
  by (metis distinct_card length_map list.set_map pool_ok_def)

lemma abs_acquire_locked:
  assumes "pool_ok p" and "acquire_locked p = (n, p')"
  shows "abs_pool p' = abs_pool p \<or> lease_step (abs_pool p) (abs_pool p')"
proof (cases n)
  case (Candidate c)
  note al = assms(2) [unfolded Candidate]
  note c = acquire_Candidate [OF al assms(1)]
  have free': "fst ` set (p_free p') = fst ` set (p_free p) - {c}"
    using c assms(1) unfolding pool_known_def pool_ok_def by blast
  have "p_max_size p' = p_max_size p" using acquire_locked_effect [OF assms(1)] al by (simp add: pool_effect_def)
  with free' c acquire_locked_fields(2) [OF al] lease_idle [of c "abs_pool p"] show ?thesis
    by (simp add: abs_pool_def)
next
  case Grow
  note g = acquire_Grow [OF assms(2) [unfolded Grow]]
  then have p': "p' = p\<lparr>p_pending_count := p_pending_count p + 1\<rparr>" by simp
  show ?thesis
    using g reserve [of "abs_pool p"] unfolding p' by (simp add: abs_pool_def count_defs)
next
  case Full
  with acquire_Full [OF assms(2) [unfolded Full]] show ?thesis by simp
qed

lemma abs_release:
  assumes "pool_ok p"
  shows "abs_pool (pool_release ws b now p) = abs_pool p \<or>
    lease_step (abs_pool p) (abs_pool (pool_release ws b now p))"
  using return_lease [of ws "abs_pool p"] drop_lease [of ws "abs_pool p"]
  by (auto simp: abs_pool_def pool_release_def safe_close_def Let_def)

lemma abs_sweep:
  assumes "pool_ok p"
  shows "lease_step (abs_pool p) (abs_pool (pool_sweep_once now p))"
proof -
  let ?A = "fst ` set (p_free p) - fst ` set (p_free (pool_sweep_once now p))"
  have "fst ` set (p_free (pool_sweep_once now p)) = fst ` set (p_free p) - ?A"
    using pool_sweep_fields(4) [of now p] by blast
  then have eq: "abs_pool (pool_sweep_once now p) = (abs_pool p)\<lparr>l_idle := l_idle (abs_pool p) - ?A\<rparr>"
    by (simp add: abs_pool_def pool_sweep_fields pool_sweep_once_def sweep_scan_filter safe_close_all_def)
  show ?thesis unfolding eq by (rule evict) (auto simp: abs_pool_def)
qed

lemma abs_aclose: "abs_pool (pool_aclose p) = abs_pool p \<or> lease_step (abs_pool p) (abs_pool (pool_aclose p))"
  using shut [of "abs_pool p"] by (auto simp: abs_pool_def pool_aclose_def safe_close_all_def)

lemma pool_step_refines:
  assumes "pool_step s t" and "pool_sys_ok s"
  shows "abs_pool (ps_pool t) = abs_pool (ps_pool s) \<or>
    lease_step (abs_pool (ps_pool s)) (abs_pool (ps_pool t))"
proof -
  have ok: "pool_ok (ps_pool s)" and pend: "pending_ok s"
    using assms(2) by (simp_all add: pool_sys_ok_def)
  have known: "ws \<notin> l_idle (abs_pool (ps_pool s)) \<union> l_leased (abs_pool (ps_pool s))"
    if "ws \<notin> ps_born s" for ws
    using known_born [OF assms(2)] that by (auto simp: abs_pool_def pool_known_def)
  from assms(1) show ?thesis
  proof cases
    case (lock_candidate i d c p')
    with abs_acquire_locked [OF ok] show ?thesis by simp
  next
    case (lock_grow i d p')
    with abs_acquire_locked [OF ok] show ?thesis by simp
  next
    case (lock_full i d p')
    with abs_acquire_locked [OF ok] show ?thesis by simp
  next
    case (boot i ws p')
    with known [of ws] pending_positive [OF pend, of i] arrive_leased [of ws "abs_pool (ps_pool s)"]
    show ?thesis by (auto simp: abs_pool_def dest!: provision_done_Inr)
  next
    case (boot_failed i e p')
    with pending_positive [OF pend, of i] abandon [of "abs_pool (ps_pool s)"]
    show ?thesis by (auto simp: abs_pool_def dest!: provision_done_Inl)
  next
    case (probe_ok i c d r p')
    with probe_verdict_cases [OF probe_ok(3)] show ?thesis by auto
  next
    case (probe_bad i c d r p')
    have "p' = safe_close c ((ps_pool s)\<lparr>p_in_use := p_in_use (ps_pool s) - {c}\<rparr>)"
      using probe_verdict_cases [OF probe_bad(3)] by blast
    with probe_bad(1) drop_lease [of c "abs_pool (ps_pool s)"] show ?thesis
      by (cases "c \<in> p_in_use (ps_pool s)") (auto simp: abs_pool_def safe_close_def)
  next
    case (probe_cancelled i c d r e p')
    with probe_verdict_cases [OF probe_cancelled(3)] show ?thesis by auto
  next
    case (give_back i ws broken)
    with abs_release [OF ok] show ?thesis by simp
  next
    case sweep
    with abs_sweep [OF ok] show ?thesis by simp
  next
    case aclose
    with abs_aclose show ?thesis by simp
  next
    case (prewarm_res n b p')
    with reserve [of "abs_pool (ps_pool s)"] card_idle [OF ok] show ?thesis
      by (auto simp: prewarm_reserve_def abs_pool_def count_defs split: if_splits)
  next
    case (prewarm_ok n ws)
    have "1 \<le> p_pending_count (ps_pool s)"
      using pend prewarm_ok by (auto simp: pending_ok_def booting_def)
    with prewarm_ok known [of ws] arrive_idle [of ws "abs_pool (ps_pool s)"]
      abandon [of "abs_pool (ps_pool s)"]
    show ?thesis
      by (auto simp: prewarm_booted_def Let_def abs_pool_def safe_close_def)
  next
    case (prewarm_bad n)
    have "1 \<le> p_pending_count (ps_pool s)"
      using pend prewarm_bad by (auto simp: pending_ok_def booting_def)
    with prewarm_bad abandon [of "abs_pool (ps_pool s)"] show ?thesis
      by (auto simp: prewarm_boot_failed_def abs_pool_def)
  qed simp_all
qed


section \<open>Properties\<close>

text \<open>A small pool and a first boot, for the concrete instances.\<close>

definition demo_pool :: "int \<Rightarrow> pool" where
  "demo_pool n = projr (pool_init n 0 60 10 30 False ''fifo'' False 0)"

lemma demo_pool_init: "1 \<le> n \<Longrightarrow> pool_init n 0 60 10 30 False ''fifo'' False 0 = Inr (demo_pool n)"
  by (simp add: demo_pool_def pool_init_def parse_strategy_def)

lemma demo_pool_fields:
  "1 \<le> n \<Longrightarrow> demo_pool n =
     \<lparr>p_max_size = n, p_min_warm = 0, p_idle_ttl = 60, p_sweep_interval = 10, p_acquire_timeout = 30,
      p_enable_prewarm = False, p_acquire_strategy = FIFO, p_health_check = False,
      p_max_concurrent_provisions = 0, p_free = [], p_in_use = {}, p_pending_count = 0,
      p_sweep_task = False, p_prewarm_task = False, p_closed = False, p_closed_log = []\<rparr>"
  by (simp add: demo_pool_def pool_init_def parse_strategy_def)

text \<open>Task \<open>i\<close> acquires the new sandbox \<open>ws\<close> in a pool that has room and none free.\<close>

definition demo_leased :: "int \<Rightarrow> pool_sys" where
  "demo_leased n =
     \<lparr>ps_pool = (demo_pool n)\<lparr>p_in_use := {7}\<rparr>, ps_pc = (\<lambda>_. Idle)(0 := Returned 7),
      ps_prewarm = PW_Idle, ps_born = {7}, ps_now = 0\<rparr>"

lemma demo_leased_reach:
  assumes n: "1 \<le> n"
  shows "pool_reach (demo_pool n) (demo_leased n)"
proof -
  note [simp] = demo_pool_fields [OF n]
  let ?p = "demo_pool n" and ?s0 = "pool_sys_init (demo_pool n)"
  let ?s1 = "move ?s0 0 ?p (Start None)"
  let ?s2 = "move ?s1 0 ?p (Locking None)"
  let ?s3 = "move ?s2 0 (?p\<lparr>p_pending_count := 1\<rparr>) Provisioning"
  let ?s4 = "(move ?s3 0 (?p\<lparr>p_in_use := {7}\<rparr>) (Returned 7))\<lparr>ps_born := {7}\<rparr>"
  have 1: "pool_step ?s0 ?s1" using pool_step.call [of ?s0 0] by (simp add: pool_sys_init_def)
  have 2: "pool_step ?s1 ?s2" using pool_step.check [of ?s1 0 None] by (simp add: pool_sys_init_def)
  have 3: "pool_step ?s2 ?s3"
    using n by (intro pool_step.lock_grow [of _ _ None])
      (simp_all add: pool_sys_init_def acquire_locked_def pop_free_locked_def count_defs)
  have 4: "pool_step ?s3 ?s4"
    using pool_step.boot [of ?s3 0 7 "?p\<lparr>p_in_use := {7}\<rparr>"]
    by (simp add: pool_sys_init_def provision_done_def)
  have "demo_leased n = ?s4"
    by (simp add: demo_leased_def move_def pool_sys_init_def fun_upd_def fun_eq_iff)
  with pool_reach.step [OF pool_reach.step [OF pool_reach.step [OF pool_reach.step [OF pool_reach.start 1] 2] 3] 4]
  show ?thesis by simp
qed

lemma pool_step_max_size: "pool_step s t \<Longrightarrow> p_max_size (ps_pool t) = p_max_size (ps_pool s)"
  by (induction rule: pool_step.induct)
    (auto simp: acquire_locked_def pop_free_locked_def provision_done_def probe_verdict_def safe_close_def
      safe_close_all_def pool_release_def pool_sweep_once_def pool_aclose_def prewarm_reserve_def
      prewarm_booted_def prewarm_boot_failed_def Let_def
      split: option.splits sum.splits bool.splits exn.splits prod.splits if_splits)

lemma pool_reach_max_size: "pool_reach p0 s \<Longrightarrow> p_max_size (ps_pool s) = p_max_size p0"
  by (induction rule: pool_reach.induct) (simp_all add: pool_sys_init_def pool_step_max_size)

lemma pool_reach_init:
  assumes "pool_init mx mn ttl si tmo pw st hc mc = Inr p0" and "pool_reach p0 s"
  shows "pool_sys_ok s" and "p_max_size (ps_pool s) = mx" and "closed_empty (ps_pool s)"
proof -
  show "pool_sys_ok s" by (rule pool_reach_ok [OF assms(2) pool_sys_init_ok [OF assms(1)]])
  have p0: "p_max_size p0 = mx" "\<not> p_closed p0"
    using assms(1) by (auto simp: pool_init_def split: if_splits option.splits)
  with pool_reach_max_size [OF assms(2)] show "p_max_size (ps_pool s) = mx" by simp
  show "closed_empty (ps_pool s)"
    by (rule pool_reach_closed_empty [OF assms(2)]) (simp add: closed_empty_def p0)
qed

text \<open>
  C1: However the tasks of a pool interleave, the sandboxes it has free, lent out and under
  boot never exceed \<open>max_size\<close>.
\<close>

theorem pool_capacity:
  assumes "pool_init mx mn ttl si tmo pw st hc mc = Inr p0" and "pool_reach p0 s"
  shows "total_count (ps_pool s) \<le> mx \<and> 0 \<le> p_pending_count (ps_pool s)"
  using pool_reach_init [OF assms] by (simp add: pool_sys_ok_def pool_ok_def)

theorem pool_capacity_witness: "total_count (ps_pool (demo_leased 2)) \<le> 2 \<and> 0 \<le> p_pending_count (ps_pool (demo_leased 2))"
  by (rule pool_capacity [OF demo_pool_init demo_leased_reach]) simp_all

text \<open>
  C2: A sandbox is leased exclusively: while one task holds it no other task does, it is not on
  the free list, and unless the pool was closed it is in use and has not been torn down.
\<close>

theorem pool_exclusive_lease:
  assumes "pool_init mx mn ttl si tmo pw st hc mc = Inr p0" and "pool_reach p0 s" and "held s i = Some c"
  shows "{j. held s j = Some c} = {i} \<and> c \<notin> fst ` set (p_free (ps_pool s)) \<and>
    (p_closed (ps_pool s) \<or> c \<in> p_in_use (ps_pool s) - set (p_closed_log (ps_pool s)))"
proof -
  note ok = pool_reach_init(1) [OF assms(1,2)]
  have "{j. held s j = Some c} = {i}" using lease_unique [OF ok assms(3)] assms(3) by blast
  moreover have "c \<notin> set (p_closed_log (ps_pool s))" if "c \<in> p_in_use (ps_pool s)"
    using ok that by (auto simp: pool_sys_ok_def log_ok_def pool_known_def)
  ultimately show ?thesis using lease_not_free [OF ok assms(3)] lease_in_use [OF ok assms(3)] by blast
qed

theorem pool_exclusive_lease_witness:
  "{j. held (demo_leased 2) j = Some 7} = {0} \<and> 7 \<notin> fst ` set (p_free (ps_pool (demo_leased 2))) \<and>
   (p_closed (ps_pool (demo_leased 2)) \<or>
    7 \<in> p_in_use (ps_pool (demo_leased 2)) - set (p_closed_log (ps_pool (demo_leased 2))))"
  by (rule pool_exclusive_lease [OF demo_pool_init demo_leased_reach]) (simp_all add: held_def demo_leased_def)

text \<open>
  C13: The pool refines an abstract lease manager: every step of the interleaved tasks leaves the
  abstract state as it is or is one step of the manager.
\<close>

theorem pool_refines_lease:
  assumes "pool_init mx mn ttl si tmo pw st hc mc = Inr p0" and "pool_reach p0 s" and "pool_step s t"
  shows "lease_step\<^sup>=\<^sup>= (abs_pool (ps_pool s)) (abs_pool (ps_pool t))"
  using pool_step_refines [OF assms(3) pool_reach_init(1) [OF assms(1,2)]] by auto

theorem pool_refines_lease_witness:
  "lease_step\<^sup>=\<^sup>= (abs_pool (ps_pool (demo_leased 2)))
     (abs_pool (ps_pool ((demo_leased 2)\<lparr>ps_pool := pool_sweep_once 0 (ps_pool (demo_leased 2))\<rparr>)))"
  using pool_refines_lease [OF demo_pool_init demo_leased_reach pool_step.sweep, of 2]
  by (simp add: demo_leased_def)

text \<open>
  A closed pool has no free sandbox, and a task that waits in \<open>acquire\<close> when the pool is
  closed can only go on waiting or run into its timeout: it never gets a sandbox, and it does
  not get the error a new caller gets either.
\<close>

theorem pool_closed_waiter:
  assumes "pool_init mx mn ttl si tmo pw st hc mc = Inr p0" and "pool_reach p0 s"
    and "p_closed (ps_pool s)" and "ps_pc s i = Waiting dl b" and "pool_step s t"
  shows "p_free (ps_pool s) = [] \<and>
    ps_pc t i \<in> {Waiting dl True, Waiting dl False, Raised TimeoutError}"
proof -
  have free: "p_free (ps_pool s) = []"
    using pool_reach_init(3) [OF assms(1,2)] assms(3) by (simp add: closed_empty_def)
  have "b' \<Longrightarrow> Waiting dl b = Waiting dl True \<or> Waiting dl b = Waiting dl False" for b' by (cases b) auto
  with assms(5,4,3) free show ?thesis
    by (induction rule: pool_step.induct) (cases b; auto simp: notify_all_def)+
qed

definition demo_closed :: pool_sys where
  "demo_closed =
     \<lparr>ps_pool = pool_aclose ((demo_pool 1)\<lparr>p_in_use := {7}\<rparr>),
      ps_pc = (\<lambda>_. Idle)(0 := Returned 7, 1 := Waiting 30 True),
      ps_prewarm = PW_Stopped, ps_born = {7}, ps_now = 0\<rparr>"

definition demo_waiting :: pool_sys where
  "demo_waiting = (demo_leased 1)\<lparr>ps_pc := (\<lambda>_. Idle)(0 := Returned 7, 1 := Waiting 30 False)\<rparr>"

lemma demo_waiting_reach: "pool_reach (demo_pool 1) demo_waiting"
proof -
  let ?s0 = "demo_leased 1"
  let ?s1 = "move ?s0 1 (ps_pool ?s0) (Start None)"
  let ?s2 = "move ?s1 1 (ps_pool ?s0) (Locking None)"
  let ?s3 = "move ?s2 1 (ps_pool ?s0) (Waiting 30 False)"
  have 1: "pool_step ?s0 ?s1" using pool_step.call [of ?s0 1] by (simp add: demo_leased_def)
  have 2: "pool_step ?s1 ?s2"
    using pool_step.check [of ?s1 1 None] by (simp add: demo_leased_def demo_pool_fields)
  have 3: "pool_step ?s2 ?s3"
    using pool_step.lock_full [of ?s2 1 None "ps_pool ?s0"]
    by (simp add: demo_leased_def demo_pool_fields acquire_locked_def pop_free_locked_def count_defs wait_deadline_def)
  have "demo_waiting = ?s3" by (simp add: demo_waiting_def demo_leased_def move_def fun_eq_iff)
  with pool_reach.step [OF pool_reach.step [OF pool_reach.step [OF demo_leased_reach 1] 2] 3]
  show ?thesis by simp
qed

lemma demo_closed_reach: "pool_reach (demo_pool 1) demo_closed"
proof -
  have "pool_step demo_waiting demo_closed"
    using pool_step.aclose [of demo_waiting]
    by (simp add: demo_waiting_def demo_leased_def demo_closed_def demo_pool_fields notify_all_def comp_def
        fun_upd_def if_distrib [of notify_pc] cong: if_cong)
  with demo_waiting_reach show ?thesis by (rule pool_reach.step)
qed

theorem pool_closed_waiter_witness:
  "p_free (ps_pool demo_closed) = [] \<and>
   ps_pc (move demo_closed 1 (ps_pool demo_closed) (Waiting 30 False)) 1
     \<in> {Waiting 30 True, Waiting 30 False, Raised TimeoutError}"
proof (rule pool_closed_waiter [OF demo_pool_init demo_closed_reach])
  show "pool_step demo_closed (move demo_closed 1 (ps_pool demo_closed) (Waiting 30 False))"
    using pool_step.wake [of demo_closed 1 30]
    by (simp add: demo_closed_def pool_aclose_def demo_pool_fields safe_close_all_def)
qed (simp_all add: demo_closed_def pool_aclose_def demo_pool_fields safe_close_all_def)

text \<open>
  Releasing a sandbox as broken frees capacity without waking anybody: with \<open>max_size = 1\<close> a
  reachable state has an empty pool and a task that sleeps, not notified, for a sandbox.
\<close>

theorem pool_lost_wakeup:
  "\<exists>s. pool_reach (demo_pool 1) s \<and> ps_pc s 1 = Waiting 30 False \<and> total_count (ps_pool s) = 0 \<and>
     \<not> p_closed (ps_pool s) \<and> p_max_size (ps_pool s) = 1"
proof -
  let ?s = "demo_waiting\<lparr>ps_pool := pool_release 7 True (ps_now demo_waiting) (ps_pool demo_waiting),
      ps_pc := notify_all (release_notifies 7 True (ps_pool demo_waiting)) ((ps_pc demo_waiting)(0 := Idle))\<rparr>"
  have "pool_step demo_waiting ?s" by (rule pool_step.give_back) (simp add: demo_waiting_def)
  with demo_waiting_reach have "pool_reach (demo_pool 1) ?s" by (rule pool_reach.step)
  moreover have "ps_pc ?s 1 = Waiting 30 False \<and> total_count (ps_pool ?s) = 0 \<and>
     \<not> p_closed (ps_pool ?s) \<and> p_max_size (ps_pool ?s) = 1"
    by (simp add: demo_waiting_def demo_leased_def demo_pool_fields notify_all_def release_notifies_def
        pool_release_def safe_close_def count_defs)
  ultimately show ?thesis by blast
qed

text \<open>
  The constructor accepts exactly the sizes, limits and strategy names it documents; every
  other combination of arguments is a \<open>ValueError\<close>.
\<close>

theorem pool_init_validates:
  "is_ok (pool_init mx mn ttl si tmo pw st hc mc) \<longleftrightarrow>
     1 \<le> mx \<and> 0 \<le> mn \<and> mn \<le> mx \<and> st \<in> {''fifo'', ''lifo''} \<and> 0 \<le> mc"
  by (simp add: pool_init_def parse_strategy_def)

text \<open>
  A sweep evicts exactly the free sandboxes idle for longer than \<open>idle_ttl\<close>, in the order of
  the free list, closes each of them and leaves everything else as it was.
\<close>

theorem pool_sweep_exact:
  "p_free (pool_sweep_once now p) = filter (\<lambda>(ws, ts). now - ts \<le> p_idle_ttl p) (p_free p) \<and>
   p_closed_log (pool_sweep_once now p) =
     p_closed_log p @ map fst (filter (\<lambda>(ws, ts). p_idle_ttl p < now - ts) (p_free p)) \<and>
   p_in_use (pool_sweep_once now p) = p_in_use p \<and>
   p_pending_count (pool_sweep_once now p) = p_pending_count p"
proof -
  have eq: "(\<lambda>(ws, ts). \<not> now - ts > p_idle_ttl p) = (\<lambda>(ws, ts). now - ts \<le> p_idle_ttl p)"
    by (auto simp: not_less)
  show ?thesis by (simp add: pool_sweep_once_def sweep_scan_filter safe_close_all_def eq)
qed

text \<open>
  An \<open>acquire\<close> that nothing interferes with adds exactly the sandbox it returns to those in
  use; that sandbox was not in use before. A failing one takes no sandbox from its holder.
\<close>

theorem pool_acquire_correct:
  assumes "pool_ok p" and "factory_fresh p env" and "pool_acquire p env = (r, p', env')"
  shows "pool_ok p' \<and> total_count p' \<le> p_max_size p \<and>
    (case r of
       Inr ws \<Rightarrow> ws \<notin> p_in_use p \<and> p_in_use p' = insert ws (p_in_use p)
     | Inl _ \<Rightarrow> p_in_use p \<subseteq> p_in_use p')"
  using pool_acquire_spec [OF assms] by (simp add: pool_ok_def)

definition demo_env :: pool_env where
  "demo_env = \<lparr>pe_factory = (\<lambda>n. Inr (100 + n)), pe_factory_calls = 0, pe_probe = (\<lambda>n. Inr (n \<noteq> 0)), pe_probe_calls = 0\<rparr>"

definition demo_warm :: pool where
  "demo_warm = (demo_pool 3)\<lparr>p_health_check := True, p_free := [(4, 0), (5, 1)], p_in_use := {6}\<rparr>"

lemma demo_warm_acquire:
  "pool_acquire demo_warm demo_env =
     (Inr 5, demo_warm\<lparr>p_free := [], p_in_use := {5, 6}, p_closed_log := [4]\<rparr>, demo_env\<lparr>pe_probe_calls := 2\<rparr>)"
  by (simp add: pool_acquire.simps demo_warm_def demo_pool_fields demo_env_def acquire_locked_def
      pop_free_locked_def call_probe_def probe_verdict_def safe_close_def insert_Diff_if)

theorem pool_acquire_correct_witness:
  "pool_ok (demo_warm\<lparr>p_free := [], p_in_use := {5, 6}, p_closed_log := [4]\<rparr>) \<and>
   insert 5 (p_in_use demo_warm) = {5, 6} \<and> 5 \<notin> p_in_use demo_warm"
proof -
  have "pool_ok demo_warm" "factory_fresh demo_warm demo_env"
    by (simp_all add: demo_warm_def demo_pool_fields demo_env_def pool_ok_def count_defs factory_fresh_def pool_known_def)
  from pool_acquire_correct [OF this demo_warm_acquire] show ?thesis by (auto simp del: insert_iff)
qed

text \<open>
  \<open>acquire\<close> ends: it probes at most as many candidates as were free, each failed probe closes
  its candidate, and it boots at most one sandbox.
\<close>

theorem pool_acquire_bounded:
  "pool_acquire p env = (r, p', env') \<Longrightarrow>
   pe_probe_calls env' \<le> pe_probe_calls env + length (p_free p) \<and>
   pe_factory_calls env' \<le> Suc (pe_factory_calls env) \<and>
   length (p_closed_log p') \<le> length (p_closed_log p) + length (p_free p)"
proof (induction p env arbitrary: r p' env' rule: pool_acquire.induct)
  case (1 p env)
  note run = 1(2) [unfolded pool_acquire.simps [of p env]]
  obtain n p1 where al: "acquire_locked p = (n, p1)" by (cases "acquire_locked p")
  have log: "p_closed_log p1 = p_closed_log p"
    using al by (auto simp: acquire_locked_def pop_free_locked_def split: if_splits option.splits prod.splits)
  show ?case
  proof (cases "p_closed p \<or> n = Grow \<or> n = Full")
    case True
    with run al log show ?thesis
      by (cases "p_closed p") (auto simp: call_factory_def provision_done_def Let_def split: sum.splits)
  next
    case False
    then obtain c where n: "n = Candidate c" by (cases n) auto
    have less: "length (p_free p1) < length (p_free p)"
      using al n acquire_locked_Candidate_length by blast
    show ?thesis
    proof (cases "p_health_check p1")
      case False
      with run al n \<open>\<not> (p_closed p \<or> _)\<close> log show ?thesis by auto
    next
      case True
      obtain q env1 where cp: "call_probe env = (q, env1)" by (cases "call_probe env")
      obtain v p2 where pv: "probe_verdict c q p1 = (v, p2)" by (cases "probe_verdict c q p1")
      have calls: "pe_probe_calls env1 = Suc (pe_probe_calls env)" "pe_factory_calls env1 = pe_factory_calls env"
        using cp by (auto simp: call_probe_def)
      have p2: "p_free p2 = p_free p1" "length (p_closed_log p2) \<le> Suc (length (p_closed_log p1))"
        using pv by (auto simp: probe_verdict_def safe_close_def split: sum.splits bool.splits exn.splits)
      show ?thesis
      proof (cases "v = Inr False")
        case again: True
        then have rec: "pool_acquire p2 env1 = (r, p', env')"
          using run al n True cp pv False by simp
        from 1(1) [OF _ al [symmetric] n _ cp [symmetric] pv [symmetric] again refl rec] True False
        show ?thesis using calls p2 log less by fastforce
      next
        case False
        with run al n True cp pv \<open>\<not> (p_closed p \<or> _)\<close> calls p2 log less show ?thesis
          by (auto split: sum.splits bool.splits)
      qed
    qed
  qed
qed

theorem pool_acquire_bounded_witness:
  "pe_probe_calls (demo_env\<lparr>pe_probe_calls := 2\<rparr>) \<le> pe_probe_calls demo_env + length (p_free demo_warm)"
  using pool_acquire_bounded [OF demo_warm_acquire] by blast

end
