(* ===== verification/Orch_Store.thy ===== *)
theory Orch_Store
  imports Orch_Model
begin

text \<open>
  \<open>_orchestration/store.py\<close>: the in-memory actor and worker stores with optimistic
  concurrency. Every method body runs under the store's lock without suspending, so a method
  is one atomic function from the store to a result and the next store. The copies the
  methods hand out are values here. \<open>time.time()\<close> is the argument \<open>now\<close>.

  The compare-and-swap contract both stores offer is the locale \<open>versioned_store\<close>, and the
  facts the orchestrator relies on (a stale writer loses, at most one of the contenders for
  one version wins, versions never go back) are proved there once and interpreted on both.
\<close>

section \<open>Copies\<close>

definition copy_actor :: "actor \<Rightarrow> actor" where
  "copy_actor a =
     \<lparr>a_actor_id = a_actor_id a, a_namespace = a_namespace a, a_template_id = a_template_id a,
      a_status = a_status a, a_version = a_version a,
      a_worker_assignment = a_worker_assignment a,
      a_latest_snapshot_ref = a_latest_snapshot_ref a,
      a_worker_selector = a_worker_selector a,
      a_created_at = a_created_at a, a_updated_at = a_updated_at a\<rparr>"

definition copy_worker :: "worker \<Rightarrow> worker" where
  "copy_worker w =
     \<lparr>w_worker_id = w_worker_id w, w_state = w_state w, w_sandbox_class = w_sandbox_class w,
      w_version = w_version w, w_assignment = w_assignment w, w_labels = w_labels w,
      w_node = w_node w, w_sandbox = w_sandbox w\<rparr>"

lemma copy_id [simp]: "copy_actor a = a" "copy_worker w = w"
  by (simp_all add: copy_actor_def copy_worker_def)

section \<open>The actor store\<close>

type_synonym actor_key = "string \<times> string"
type_synonym actor_store = "(actor_key, actor) dict"

definition actor_get :: "string \<Rightarrow> string \<Rightarrow> actor_store \<Rightarrow> actor result" where
  "actor_get ns aid st =
     (case dget st (ns, aid) of None \<Rightarrow> Inl ActorNotFound | Some a \<Rightarrow> Inr (copy_actor a))"

definition actor_key_of :: "actor \<Rightarrow> actor_key" where
  "actor_key_of a = (a_namespace a, a_actor_id a)"

text \<open>The version the stored record gets, or the exception that refuses the write.\<close>

definition actor_put_version :: "actor option \<Rightarrow> int option \<Rightarrow> int result" where
  "actor_put_version existing expected =
     (case expected of
        None \<Rightarrow> (case existing of
            Some e \<Rightarrow> Inl (VersionConflict (-1) (a_version e))
          | None \<Rightarrow> Inr 1)
      | Some v \<Rightarrow> (case existing of
            None \<Rightarrow> Inl ActorNotFound
          | Some e \<Rightarrow>
              if a_version e \<noteq> v then Inl (VersionConflict v (a_version e))
              else Inr (a_version e + 1)))"

definition actor_put ::
  "time \<Rightarrow> actor \<Rightarrow> int option \<Rightarrow> actor_store \<Rightarrow> actor result \<times> actor_store" where
  "actor_put now a expected st =
     (let key = actor_key_of a in
      case actor_put_version (dget st key) expected of
        Inl e \<Rightarrow> (Inl e, st)
      | Inr new_version \<Rightarrow>
          (let stored = (copy_actor a)
                 \<lparr>a_version := new_version,
                  a_created_at := (if a_created_at a = 0 then now else a_created_at a),
                  a_updated_at := now\<rparr>
           in (Inr (copy_actor stored), dput key stored st)))"

definition actor_delete :: "string \<Rightarrow> string \<Rightarrow> actor_store \<Rightarrow> actor_store" where
  "actor_delete ns aid st = ddel (ns, aid) st"

definition actor_list :: "string option \<Rightarrow> actor_store \<Rightarrow> actor list" where
  "actor_list ns st =
     map copy_actor (filter (\<lambda>a. case ns of None \<Rightarrow> True | Some n \<Rightarrow> a_namespace a = n) (map snd st))"

section \<open>The worker store\<close>

type_synonym worker_store = "(string, worker) dict"

definition worker_get :: "string \<Rightarrow> worker_store \<Rightarrow> worker result" where
  "worker_get wid st =
     (case dget st wid of None \<Rightarrow> Inl WorkerNotFound | Some w \<Rightarrow> Inr (copy_worker w))"

definition worker_register :: "worker \<Rightarrow> worker_store \<Rightarrow> worker result \<times> worker_store" where
  "worker_register w st =
     (case dget st (w_worker_id w) of
        Some e \<Rightarrow> (Inl (VersionConflict (-1) (w_version e)), st)
      | None \<Rightarrow> (let stored = copy_worker w
                 in (Inr (copy_worker stored), dput (w_worker_id w) stored st)))"

definition worker_claim ::
  "string \<Rightarrow> worker_assignment \<Rightarrow> int \<Rightarrow> worker_store \<Rightarrow> worker result \<times> worker_store" where
  "worker_claim wid asg expected st =
     (case dget st wid of
        None \<Rightarrow> (Inl WorkerNotFound, st)
      | Some e \<Rightarrow>
          if w_version e \<noteq> expected then (Inl (VersionConflict expected (w_version e)), st)
          else if w_state e \<noteq> ACTIVE then (Inl WorkerBusy, st)
          else if w_assignment e \<noteq> None then (Inl WorkerBusy, st)
          else (let stored = (copy_worker e)\<lparr>w_assignment := Some asg, w_version := w_version e + 1\<rparr>
                in (Inr (copy_worker stored), dput wid stored st)))"

definition worker_release :: "string \<Rightarrow> int \<Rightarrow> worker_store \<Rightarrow> worker result \<times> worker_store" where
  "worker_release wid expected st =
     (case dget st wid of
        None \<Rightarrow> (Inl WorkerNotFound, st)
      | Some e \<Rightarrow>
          if w_version e \<noteq> expected then (Inl (VersionConflict expected (w_version e)), st)
          else (let stored = (copy_worker e)\<lparr>w_assignment := None, w_version := w_version e + 1\<rparr>
                in (Inr (copy_worker stored), dput wid stored st)))"

definition worker_set_state ::
  "string \<Rightarrow> worker_state \<Rightarrow> int \<Rightarrow> worker_store \<Rightarrow> worker result \<times> worker_store" where
  "worker_set_state wid state expected st =
     (case dget st wid of
        None \<Rightarrow> (Inl WorkerNotFound, st)
      | Some e \<Rightarrow>
          if w_version e \<noteq> expected then (Inl (VersionConflict expected (w_version e)), st)
          else (let stored = (copy_worker e)\<lparr>w_state := state, w_version := w_version e + 1\<rparr>
                in (Inr (copy_worker stored), dput wid stored st)))"

definition selector_matches :: "(string, string) dict \<Rightarrow> worker \<Rightarrow> bool" where
  "selector_matches sel w \<longleftrightarrow> list_all (\<lambda>(k, v). dget (w_labels w) k = Some v) sel"

definition matches :: "worker \<Rightarrow> constraints \<Rightarrow> bool" where
  "matches w c =
     (if w_sandbox_class w \<noteq> c_sandbox_class c then False
      else if c_required_node c \<noteq> None \<and> w_node w \<noteq> c_required_node c then False
      else if \<not> selector_matches (c_template_selector c) w then False
      else if \<not> selector_matches (c_actor_selector c) w then False
      else True)"

definition list_idle :: "constraints \<Rightarrow> worker_store \<Rightarrow> worker list" where
  "list_idle c st =
     (let idle = map copy_worker (filter is_idle (map snd st)) in filter (\<lambda>w. matches w c) idle)"

definition worker_delete :: "string \<Rightarrow> worker_store \<Rightarrow> worker_store" where
  "worker_delete wid st = ddel wid st"

section \<open>Well-formed stores\<close>

text \<open>Every record sits under its own key and carries a positive version.\<close>

definition actor_store_ok :: "actor_store \<Rightarrow> bool" where
  "actor_store_ok st \<longleftrightarrow>
     dict_ok st \<and> (\<forall>(k, a) \<in> set st. k = actor_key_of a \<and> 1 \<le> a_version a)"

definition worker_store_ok :: "worker_store \<Rightarrow> bool" where
  "worker_store_ok st \<longleftrightarrow>
     dict_ok st \<and> (\<forall>(k, w) \<in> set st. k = w_worker_id w \<and> 1 \<le> w_version w)"

lemma set_dput_subset: "set (dput k v d) \<subseteq> insert (k, v) (set d)"
  by (induction d) auto

lemma set_ddel_subset: "set (ddel k d) \<subseteq> set d"
  by (auto simp: AList.delete_eq)

lemma actor_store_ok_dput:
  "actor_store_ok st \<Longrightarrow> k = actor_key_of a \<Longrightarrow> 1 \<le> a_version a \<Longrightarrow> actor_store_ok (dput k a st)"
  using set_dput_subset [of k a st] by (fastforce simp: actor_store_ok_def)

lemma worker_store_ok_dput:
  "worker_store_ok st \<Longrightarrow> k = w_worker_id w \<Longrightarrow> 1 \<le> w_version w \<Longrightarrow> worker_store_ok (dput k w st)"
  using set_dput_subset [of k w st] by (fastforce simp: worker_store_ok_def)

lemma actor_store_ok_get:
  "actor_store_ok st \<Longrightarrow> dget st k = Some a \<Longrightarrow> k = actor_key_of a \<and> 1 \<le> a_version a"
  by (fastforce simp: actor_store_ok_def dest: map_of_SomeD)

lemma worker_store_ok_get:
  "worker_store_ok st \<Longrightarrow> dget st k = Some w \<Longrightarrow> w_worker_id w = k \<and> 1 \<le> w_version w"
  by (fastforce simp: worker_store_ok_def dest: map_of_SomeD)

lemma worker_store_ok_items:
  "worker_store_ok st \<Longrightarrow> w \<in> snd ` set st \<longleftrightarrow> dget st (w_worker_id w) = Some w"
proof
  assume ok: "worker_store_ok st" and "w \<in> snd ` set st"
  then obtain k where k: "(k, w) \<in> set st" by auto
  with ok have "k = w_worker_id w" by (auto simp: worker_store_ok_def)
  with ok k show "dget st (w_worker_id w) = Some w"
    by (simp add: worker_store_ok_def dict_items [symmetric])
qed (rule dget_in_values)

section \<open>The compare-and-swap contract\<close>

text \<open>
  Contenders that all read version \<open>v\<close> of one record and write one after the other (the
  store's lock serialises them), and a history of operations: writes with whatever versions, of
  which those accepted for record \<open>k\<close> are listed by the version they carried, and the operations
  that carry none.
\<close>

fun contend ::
  "('op \<Rightarrow> int \<Rightarrow> 'st \<Rightarrow> 'r result \<times> 'st) \<Rightarrow> int \<Rightarrow> 'op list \<Rightarrow> 'st \<Rightarrow> 'r result list \<times> 'st" where
  "contend cas v [] st = ([], st)"
| "contend cas v (x # xs) st =
     (case cas x v st of (r, st1) \<Rightarrow>
      case contend cas v xs st1 of (rs, st2) \<Rightarrow> (r # rs, st2))"

fun store_history ::
  "('k \<Rightarrow> 'op \<Rightarrow> int \<Rightarrow> 'st \<Rightarrow> 'r result \<times> 'st) \<Rightarrow> ('o \<Rightarrow> 'st \<Rightarrow> 'st) \<Rightarrow> 'k \<Rightarrow>
   ('k \<times> 'op \<times> int + 'o) list \<Rightarrow> 'st \<Rightarrow> int list \<times> 'st" where
  "store_history cas other k [] st = ([], st)"
| "store_history cas other k (Inl (k', x, v) # xs) st =
     (case cas k' x v st of (r, st1) \<Rightarrow>
      case store_history cas other k xs st1 of (vs, st2) \<Rightarrow>
        (if k' = k \<and> is_ok r then v # vs else vs, st2))"
| "store_history cas other k (Inr y # xs) st = store_history cas other k xs (other y st)"

locale versioned_store =
  fixes ver :: "'st \<Rightarrow> 'k \<Rightarrow> int option"
    and cas :: "'k \<Rightarrow> 'op \<Rightarrow> int \<Rightarrow> 'st \<Rightarrow> 'r result \<times> 'st"
  assumes cas_stale: "ver st k = Some u \<Longrightarrow> u \<noteq> v \<Longrightarrow> cas k x v st = (Inl (VersionConflict v u), st)"
    and cas_missing: "ver st k = None \<Longrightarrow> \<exists>e. cas k x v st = (Inl e, st)"
    and cas_refused: "cas k x v st = (Inl e, st') \<Longrightarrow> st' = st"
    and cas_commit: "cas k x v st = (Inr r, st') \<Longrightarrow> ver st' k = Some (v + 1)"
    and cas_frame: "k' \<noteq> k \<Longrightarrow> ver (snd (cas k x v st)) k' = ver st k'"
begin

lemma commit_current: "cas k x v st = (Inr r, st') \<Longrightarrow> ver st k = Some v"
  using cas_missing [of st k x v] cas_stale [of st k _ v x]
  by (cases "ver st k") fastforce+

lemma stale_contenders:
  "ver st k = Some u \<Longrightarrow> u \<noteq> v \<Longrightarrow>
   contend (cas k) v xs st = (replicate (length xs) (Inl (VersionConflict v u)), st)"
  by (induction xs) (simp_all add: cas_stale)

lemma after_commit:
  "cas k x v st = (Inr r, st1) \<Longrightarrow>
   contend (cas k) v xs st1 = (replicate (length xs) (Inl (VersionConflict v (v + 1))), st1)"
  by (rule stale_contenders) (auto dest: cas_commit)

lemma at_most_one_winner: "length (filter is_ok (fst (contend (cas k) v xs st))) \<le> 1"
proof (induction xs arbitrary: st)
  case (Cons x xs)
  show ?case
  proof (cases "cas k x v st")
    case (Pair r st1)
    show ?thesis
    proof (cases r)
      case (Inl e)
      with Pair have "st1 = st" by (auto dest: cas_refused)
      with Pair Inl Cons.IH [of st] show ?thesis by (auto simp: split_beta)
    next
      case (Inr a)
      with Pair after_commit [of k x v st a st1 xs] show ?thesis by simp
    qed
  qed
qed simp

lemma refused_or_current:
  "cas k x v st = (r, st1) \<Longrightarrow> ver st k = Some u \<Longrightarrow>
   if is_ok r then v = u \<and> ver st1 k = Some (u + 1) else ver st1 k = Some u"
  using commit_current [of k x v st _ st1] cas_commit [of k x v st _ st1] cas_refused [of k x v st _ st1]
  by (cases r) auto

end

text \<open>A store with operations beside its writes: they leave the version of a record that is there.\<close>

locale versioned_records = versioned_store ver cas
  for ver :: "'st \<Rightarrow> 'k \<Rightarrow> int option" and cas :: "'k \<Rightarrow> 'op \<Rightarrow> int \<Rightarrow> 'st \<Rightarrow> 'r result \<times> 'st" +
  fixes other :: "'o \<Rightarrow> 'st \<Rightarrow> 'st"
    and removes :: "'o \<Rightarrow> 'k \<Rightarrow> bool"
  assumes other_frame: "ver st k = Some u \<Longrightarrow> \<not> removes y k \<Longrightarrow> ver (other y st) k = Some u"
begin

lemma history_counts:
  assumes "ver st k = Some u" and "\<forall>y. Inr y \<in> set xs \<longrightarrow> \<not> removes y k"
    and "store_history cas other k xs st = (vs, st')"
  shows "vs = map (\<lambda>i. u + int i) [0..<length vs] \<and> ver st' k = Some (u + int (length vs))"
  using assms
proof (induction xs arbitrary: st u vs)
  case (Cons x xs)
  show ?case
  proof (cases x)
    case (Inr y)
    with Cons.prems Cons.IH [of "other y st" u vs] other_frame show ?thesis by simp
  next
    case (Inl w)
    obtain k' y v where w: "w = (k', y, v)" by (cases w)
    obtain r st1 where c: "cas k' y v st = (r, st1)" by fastforce
    obtain vs' st2 where h: "store_history cas other k xs st1 = (vs', st2)" by fastforce
    have out: "vs = (if k' = k \<and> is_ok r then v # vs' else vs')" "st2 = st'"
      using Cons.prems(3) Inl w c h by auto
    show ?thesis
    proof (cases "k' = k \<and> is_ok r")
      case True
      with refused_or_current [of k y v st r st1 u] c Cons.prems(1) have "v = u" "ver st1 k = Some (u + 1)" by auto
      with Cons.IH [of st1 "u + 1" vs'] h out(2) Cons.prems(2)
      have "vs' = map (\<lambda>i. u + int (Suc i)) [0..<length vs']" "ver st' k = Some (u + 1 + int (length vs'))"
        by (simp_all add: add.assoc [symmetric])
      with out(1) True \<open>v = u\<close> show ?thesis by (simp add: map_upt_Suc add.assoc del: upt_Suc)
    next
      case False
      have "ver st1 k = Some u"
      proof (cases "k' = k")
        case True
        with False refused_or_current [of k y v st r st1 u] c Cons.prems(1) show ?thesis by simp
      qed (use cas_frame [of k k' y v st] c Cons.prems(1) in simp)
      with Cons.IH [of st1 u vs'] h out False Cons.prems(2) show ?thesis by simp
    qed
  qed
qed simp

end

section \<open>Both stores keep the contract\<close>

definition actor_cas ::
  "actor_key \<Rightarrow> time \<times> actor \<Rightarrow> int \<Rightarrow> actor_store \<Rightarrow> actor result \<times> actor_store" where
  "actor_cas k x v st =
     actor_put (fst x) ((snd x)\<lparr>a_namespace := fst k, a_actor_id := snd k\<rparr>) (Some v) st"

definition actor_ver :: "actor_store \<Rightarrow> actor_key \<Rightarrow> int option" where
  "actor_ver st k = map_option a_version (dget st k)"

datatype worker_op = Claim worker_assignment | Release | SetState worker_state

fun worker_cas :: "string \<Rightarrow> worker_op \<Rightarrow> int \<Rightarrow> worker_store \<Rightarrow> worker result \<times> worker_store" where
  "worker_cas wid (Claim asg) v st = worker_claim wid asg v st"
| "worker_cas wid Release v st = worker_release wid v st"
| "worker_cas wid (SetState s) v st = worker_set_state wid s v st"

definition worker_ver :: "worker_store \<Rightarrow> string \<Rightarrow> int option" where
  "worker_ver st wid = map_option w_version (dget st wid)"

lemmas worker_op_defs = worker_claim_def worker_release_def worker_set_state_def

interpretation actor_cas: versioned_store actor_ver actor_cas
  by unfold_locales
    (auto simp: actor_ver_def actor_cas_def actor_put_def actor_put_version_def actor_key_of_def
      dict_simps Let_def split: option.splits if_splits sum.splits)

interpretation worker_cas: versioned_store worker_ver worker_cas
proof (unfold_locales, goal_cases)
  case (1 st k u v x)
  then show ?case by (cases x) (auto simp: worker_ver_def worker_op_defs)
next
  case (2 st k x v)
  then show ?case by (cases x) (auto simp: worker_ver_def worker_op_defs)
next
  case (3 k x v st e st')
  then show ?case
    by (cases x) (auto simp: worker_op_defs Let_def split: option.splits if_splits)
next
  case (4 k x v st r st')
  then show ?case
    by (cases x)
      (auto simp: worker_ver_def worker_op_defs Let_def dict_simps split: option.splits if_splits)
next
  case (5 k' k x v st)
  then show ?case
    by (cases x)
      (auto simp: worker_ver_def worker_op_defs Let_def dict_simps split: option.splits)
qed

text \<open>Registration, creation and deletion carry no version.\<close>

datatype worker_change = Register worker | Remove string

fun worker_other :: "worker_change \<Rightarrow> worker_store \<Rightarrow> worker_store" where
  "worker_other (Register w) st = snd (worker_register w st)"
| "worker_other (Remove wid) st = worker_delete wid st"

datatype actor_change = Create time actor | Discard actor_key

fun actor_other :: "actor_change \<Rightarrow> actor_store \<Rightarrow> actor_store" where
  "actor_other (Create now a) st = snd (actor_put now a None st)"
| "actor_other (Discard k) st = actor_delete (fst k) (snd k) st"

interpretation worker_records: versioned_records worker_ver worker_cas worker_other "\<lambda>y wid. y = Remove wid"
proof unfold_locales
  fix st k u y
  assume "worker_ver st k = Some u" "y \<noteq> Remove k"
  then show "worker_ver (worker_other y st) k = Some u"
    by (cases y) (auto simp: worker_ver_def worker_register_def worker_delete_def Let_def dict_simps split: option.splits)
qed

interpretation actor_records: versioned_records actor_ver actor_cas actor_other "\<lambda>y k. y = Discard k"
proof unfold_locales
  fix st k u y
  assume "actor_ver st k = Some u" "y \<noteq> Discard k"
  then show "actor_ver (actor_other y st) k = Some u"
    by (cases y) (auto simp: actor_ver_def actor_put_def actor_put_version_def actor_delete_def Let_def dict_simps
        split: option.splits)
qed

section \<open>What each operation does to a well-formed store\<close>

lemma worker_cas_ok: "worker_store_ok st \<Longrightarrow> worker_store_ok (snd (worker_cas wid x v st))"
  by (cases x)
    (auto simp: worker_op_defs Let_def dest: worker_store_ok_get intro!: worker_store_ok_dput
      split: option.split)

lemma worker_register_ok:
  "worker_store_ok st \<Longrightarrow> 1 \<le> w_version w \<Longrightarrow> worker_store_ok (snd (worker_register w st))"
  by (auto simp: worker_register_def Let_def intro!: worker_store_ok_dput split: option.split)

lemma worker_delete_ok: "worker_store_ok st \<Longrightarrow> worker_store_ok (worker_delete wid st)"
  using set_ddel_subset [of wid st] by (fastforce simp: worker_store_ok_def worker_delete_def)

lemma actor_put_ok: "actor_store_ok st \<Longrightarrow> actor_store_ok (snd (actor_put now a expected st))"
  by (auto simp: actor_put_def actor_put_version_def Let_def actor_key_of_def
      dest: actor_store_ok_get intro!: actor_store_ok_dput
      split: option.split sum.split)

lemma actor_delete_ok: "actor_store_ok st \<Longrightarrow> actor_store_ok (actor_delete ns aid st)"
  using set_ddel_subset [of "(ns, aid)" st] by (fastforce simp: actor_store_ok_def actor_delete_def)

lemma worker_claim_Inr:
  "worker_claim wid asg v st = (Inr w', st') \<longleftrightarrow>
   (\<exists>w. dget st wid = Some w \<and> w_version w = v \<and> w_state w = ACTIVE \<and> w_assignment w = None \<and>
        w' = w\<lparr>w_assignment := Some asg, w_version := v + 1\<rparr> \<and> st' = dput wid w' st)"
  by (auto simp: worker_claim_def Let_def split: option.split)

lemma worker_release_Inr:
  "worker_release wid v st = (Inr w', st') \<longleftrightarrow>
   (\<exists>w. dget st wid = Some w \<and> w_version w = v \<and>
        w' = w\<lparr>w_assignment := None, w_version := v + 1\<rparr> \<and> st' = dput wid w' st)"
  by (auto simp: worker_release_def Let_def split: option.split)

lemma list_idle_iff:
  "worker_store_ok st \<Longrightarrow>
   w \<in> set (list_idle c st) \<longleftrightarrow> dget st (w_worker_id w) = Some w \<and> is_idle w \<and> matches w c"
  by (auto simp: list_idle_def worker_store_ok_items [symmetric])


section \<open>Properties\<close>

text \<open>A worker record and an assignment, for the concrete instances.\<close>

definition demo_worker :: worker where
  "demo_worker =
     \<lparr>w_worker_id = ''w-1'', w_state = ACTIVE, w_sandbox_class = CONTAINER, w_version = 3,
      w_assignment = None, w_labels = [(''gpu'', ''a100'')], w_node = Some ''n1'', w_sandbox = Some 7\<rparr>"

definition demo_assignment :: "string \<Rightarrow> worker_assignment" where
  "demo_assignment aid =
     \<lparr>wa_actor_id = aid, wa_worker_id = ''w-1'', wa_sandbox_class = CONTAINER, wa_node = None,
      wa_address = None, wa_activated_at = 0\<rparr>"

definition demo_store :: worker_store where
  "demo_store = [(''w-1'', demo_worker)]"

text \<open>
  C8: When several callers that read the same version of a free worker race to claim it, the first
  one gets it and every other one is refused with the version the winner left; the stored
  record is the winner's.
\<close>

theorem claim_race:
  assumes "dget st wid = Some w" and "w_version w = v" and "w_state w = ACTIVE" and "w_assignment w = None"
    and "w' = w\<lparr>w_assignment := Some asg, w_version := v + 1\<rparr>"
  shows "contend (worker_cas wid) v (map Claim (asg # asgs)) st =
    (Inr w' # replicate (length asgs) (Inl (VersionConflict v (v + 1))), dput wid w' st)"
proof -
  have win: "worker_cas wid (Claim asg) v st = (Inr w', dput wid w' st)"
    using assms by (simp add: worker_claim_Inr)
  from worker_cas.after_commit [OF this, of "map Claim asgs"] win show ?thesis by simp
qed

theorem claim_race_witness:
  "contend (worker_cas ''w-1'') 3 (map Claim [demo_assignment ''a'', demo_assignment ''b'', demo_assignment ''c'']) demo_store =
    (Inr (demo_worker\<lparr>w_assignment := Some (demo_assignment ''a''), w_version := 3 + 1\<rparr>) #
       replicate (length [demo_assignment ''b'', demo_assignment ''c'']) (Inl (VersionConflict 3 (3 + 1))),
     dput ''w-1'' (demo_worker\<lparr>w_assignment := Some (demo_assignment ''a''), w_version := 3 + 1\<rparr>) demo_store)"
  by (rule claim_race [where w = demo_worker]) (simp_all add: demo_store_def demo_worker_def)

text \<open>
  In either store, of any writers that carry one version of one record at most one succeeds,
  whatever they write and whatever the store holds.
\<close>

theorem one_winner_per_version:
  "length (filter is_ok (fst (contend (worker_cas wid) v ops st))) \<le> 1 \<and>
   length (filter is_ok (fst (contend (actor_cas k) v writes st'))) \<le> 1"
  by (intro conjI worker_cas.at_most_one_winner actor_cas.at_most_one_winner)

text \<open>
  C14: Versions count the writes exactly. Over any history of operations on a store, writes of any
  callers to any records with whatever versions, registrations, creations and deletions, a record
  that is there and is not deleted ends with its first version plus the number of writes to it
  that were accepted, and the accepted ones carried the versions from the first one on, each
  exactly once: no two of them were made from the same version, and none from a stale one.
\<close>

theorem versions_count_writes:
  assumes "worker_ver st wid = Some u" and "Inr (Remove wid) \<notin> set ws"
    and "store_history worker_cas worker_other wid ws st = (vs, st1)"
    and "actor_ver st' k = Some u'" and "Inr (Discard k) \<notin> set as"
    and "store_history actor_cas actor_other k as st' = (vs', st1')"
  shows "vs = map (\<lambda>i. u + int i) [0..<length vs] \<and> worker_ver st1 wid = Some (u + int (length vs)) \<and>
    vs' = map (\<lambda>i. u' + int i) [0..<length vs'] \<and> actor_ver st1' k = Some (u' + int (length vs'))"
  using worker_records.history_counts [OF assms(1) _ assms(3)] actor_records.history_counts [OF assms(4) _ assms(6)]
    assms(2,5) by blast

definition demo_actor :: actor where
  "demo_actor =
     \<lparr>a_actor_id = ''a'', a_namespace = ''ns'', a_template_id = ''t'', a_status = SUSPENDED, a_version = 1,
      a_worker_assignment = None, a_latest_snapshot_ref = None, a_worker_selector = [],
      a_created_at = 1, a_updated_at = 1\<rparr>"

theorem versions_count_writes_witness:
  "worker_ver (snd (store_history worker_cas worker_other ''w-1''
       [Inl (''w-1'', Claim (demo_assignment ''a''), 3), Inl (''w-1'', Release, 3), Inr (Register demo_worker), Inl (''w-1'', Release, 4)]
       demo_store)) ''w-1'' = Some 5 \<and>
   actor_ver (snd (store_history actor_cas actor_other (''ns'', ''a'')
       [Inl ((''ns'', ''a''), (5, demo_actor), 1), Inr (Create 5 demo_actor)] [((''ns'', ''a''), demo_actor)])) (''ns'', ''a'') = Some 2"
proof -
  let ?ws = "[Inl (''w-1'', Claim (demo_assignment ''a''), 3), Inl (''w-1'', Release, 3), Inr (Register demo_worker), Inl (''w-1'', Release, 4)]"
  let ?as = "[Inl ((''ns'', ''a''), (5, demo_actor), 1), Inr (Create 5 demo_actor)]"
  obtain vs st1 where w: "store_history worker_cas worker_other ''w-1'' ?ws demo_store = (vs, st1)" by fastforce
  obtain vs' st1' where a: "store_history actor_cas actor_other (''ns'', ''a'') ?as [((''ns'', ''a''), demo_actor)] = (vs', st1')" by fastforce
  have "worker_ver demo_store ''w-1'' = Some 3" "actor_ver [((''ns'', ''a''), demo_actor)] (''ns'', ''a'') = Some 1"
    by (simp_all add: worker_ver_def actor_ver_def demo_store_def demo_worker_def demo_actor_def)
  note V = versions_count_writes [OF this(1) _ w this(2) _ a]
  have "fst (store_history worker_cas worker_other ''w-1'' ?ws demo_store) = [3, 4]"
    "fst (store_history actor_cas actor_other (''ns'', ''a'') ?as [((''ns'', ''a''), demo_actor)]) = [1]" by code_simp+
  with w a V show ?thesis by simp
qed

text \<open>
  \<open>list_idle\<close> returns exactly the stored workers that are active, unassigned, carry a sandbox
  and meet the constraints: class, required node and every label of both selectors.
\<close>

theorem list_idle_exact:
  assumes "worker_store_ok st"
  shows "set (list_idle c st) =
    {w. dget st (w_worker_id w) = Some w \<and> w_state w = ACTIVE \<and> w_assignment w = None \<and> w_sandbox w \<noteq> None \<and>
        w_sandbox_class w = c_sandbox_class c \<and>
        c_required_node c \<in> {None, w_node w} \<and>
        (\<forall>(k, v) \<in> set (c_template_selector c @ c_actor_selector c). dget (w_labels w) k = Some v)}"
proof -
  have "matches w c \<longleftrightarrow> w_sandbox_class w = c_sandbox_class c \<and> c_required_node c \<in> {None, w_node w} \<and>
      (\<forall>(k, v) \<in> set (c_template_selector c @ c_actor_selector c). dget (w_labels w) k = Some v)" for w
    by (auto simp: matches_def selector_matches_def list_all_iff)
  then show ?thesis unfolding set_eq_iff mem_Collect_eq list_idle_iff [OF assms] is_idle_def by (simp only: conj_assoc simp_thms)
qed

theorem list_idle_exact_witness:
  "list_idle \<lparr>c_sandbox_class = CONTAINER, c_template_selector = [(''gpu'', ''a100'')],
              c_actor_selector = [], c_required_node = Some ''n1''\<rparr> demo_store = [demo_worker] \<and>
   demo_worker \<in> set (list_idle \<lparr>c_sandbox_class = CONTAINER, c_template_selector = [(''gpu'', ''a100'')],
              c_actor_selector = [], c_required_node = Some ''n1''\<rparr> demo_store)"
proof
  show "list_idle \<lparr>c_sandbox_class = CONTAINER, c_template_selector = [(''gpu'', ''a100'')],
              c_actor_selector = [], c_required_node = Some ''n1''\<rparr> demo_store = [demo_worker]"
    by (simp add: list_idle_def is_idle_def matches_def selector_matches_def demo_store_def demo_worker_def)
  have "worker_store_ok demo_store"
    by (simp add: worker_store_ok_def demo_store_def demo_worker_def dict_ok_def)
  from list_idle_exact [OF this] show "demo_worker \<in> set (list_idle \<lparr>c_sandbox_class = CONTAINER,
      c_template_selector = [(''gpu'', ''a100'')], c_actor_selector = [], c_required_node = Some ''n1''\<rparr> demo_store)"
    by (simp add: demo_store_def demo_worker_def)
qed

end
