(* ===== verification/Worker_Pool.thy ===== *)
theory Worker_Pool
  imports Orch_Store Sandbox_Pool
begin

text \<open>
  \<open>_orchestration/worker_pool.py\<close>: the scheduler and the worker pool, on top of the worker
  store and the sandbox pool. The state is the pool object's fields together with what its
  methods read of the world: the monotonic clock, the sandbox objects' attributes, the random
  draws (of \<open>random.Random.choice\<close> and \<open>uuid4\<close>) and the environment of the sandbox pool.

  With the in-memory store every method but the sandbox pool's \<open>acquire\<close> and the teardown of
  a sandbox runs without suspending; the sweeper is split where it reads the store again, so
  that what another task does in between can be put there.
\<close>

section \<open>State\<close>

record sandbox_obj =
  sb_kind :: "string option"
  sb_is_alive :: "bool option"

record worker_pool =
  wp_store :: worker_store
  wp_sandbox_pool :: pool
  wp_max_warm_idle :: int
  wp_idle_ttl :: time
  wp_sweep_interval :: time
  wp_labels :: "(string, string) dict"
  wp_node :: "string option"
  wp_warm_idle_since :: "(string, time) dict"
  wp_sweep_task :: bool
  wp_closed :: bool
  wp_env :: pool_env
  wp_now :: time
  wp_objs :: "sandbox \<Rightarrow> sandbox_obj"
  wp_draws :: "nat \<Rightarrow> nat"
  wp_ndraws :: nat

definition worker_pool_init ::
  "worker_store \<Rightarrow> pool \<Rightarrow> int \<Rightarrow> time \<Rightarrow> time \<Rightarrow> (string, string) dict \<Rightarrow> string option \<Rightarrow>
   pool_env \<Rightarrow> (sandbox \<Rightarrow> sandbox_obj) \<Rightarrow> (nat \<Rightarrow> nat) \<Rightarrow> worker_pool" where
  "worker_pool_init store sandbox_pool max_warm_idle idle_ttl sweep_interval labels node env objs draws =
     \<lparr>wp_store = store, wp_sandbox_pool = sandbox_pool, wp_max_warm_idle = max_warm_idle,
      wp_idle_ttl = idle_ttl, wp_sweep_interval = sweep_interval, wp_labels = labels,
      wp_node = node, wp_warm_idle_since = [], wp_sweep_task = False, wp_closed = False,
      wp_env = env, wp_now = 0, wp_objs = objs, wp_draws = draws, wp_ndraws = 0\<rparr>"

section \<open>Random draws and identifiers\<close>

definition draw :: "worker_pool \<Rightarrow> nat \<times> worker_pool" where
  "draw wp = (wp_draws wp (wp_ndraws wp), wp\<lparr>wp_ndraws := Suc (wp_ndraws wp)\<rparr>)"

definition hex_digit :: "nat \<Rightarrow> char" where
  "hex_digit d = ''0123456789abcdef'' ! (d mod 16)"

definition uuid_hex12 :: "nat \<Rightarrow> string" where
  "uuid_hex12 n = map (\<lambda>i. hex_digit (n div 16 ^ i)) (rev [0..<12])"

section \<open>Scheduling\<close>

definition kind_to_class :: "(string, sandbox_class) dict" where
  "kind_to_class =
     [(''firecracker'', MICROVM), (''gvisor'', CONTAINER), (''kata'', CONTAINER),
      (''sysbox'', CONTAINER), (''docker'', CONTAINER), (''agentfs'', VFS), (''vfs'', VFS)]"

definition infer_sandbox_class :: "sandbox_obj \<Rightarrow> sandbox_class" where
  "infer_sandbox_class sb =
     (let kind = (case sb_kind sb of None \<Rightarrow> ''vfs'' | Some k \<Rightarrow> k)
      in case dget kind_to_class kind of None \<Rightarrow> VFS | Some c \<Rightarrow> c)"

definition satisfies :: "worker \<Rightarrow> constraints \<Rightarrow> bool" where
  "satisfies w c = (if \<not> is_idle w then False else matches w c)"

definition scheduler_pick ::
  "worker list \<Rightarrow> constraints \<Rightarrow> worker_pool \<Rightarrow> worker option \<times> worker_pool" where
  "scheduler_pick workers c wp =
     (let eligible = filter (\<lambda>w. satisfies w c) workers in
      if eligible = [] then (None, wp)
      else (case draw wp of (n, wp1) \<Rightarrow> (Some (eligible ! (n mod length eligible)), wp1)))"

section \<open>The pool's methods\<close>

definition sandbox_alive :: "worker_pool \<Rightarrow> worker \<Rightarrow> bool" where
  "sandbox_alive wp w =
     (case w_sandbox w of
        None \<Rightarrow> False
      | Some sb \<Rightarrow> (case sb_is_alive (wp_objs wp sb) of None \<Rightarrow> False | Some b \<Rightarrow> b))"

definition wp_start :: "worker_pool \<Rightarrow> worker_pool" where
  "wp_start wp =
     (if \<not> wp_sweep_task wp \<and> wp_sweep_interval wp > 0 then wp\<lparr>wp_sweep_task := True\<rparr> else wp)"

definition materialise_worker :: "worker_pool \<Rightarrow> worker result \<times> worker_pool" where
  "materialise_worker wp =
     (case pool_acquire (wp_sandbox_pool wp) (wp_env wp) of
        (Inl e, p, env) \<Rightarrow> (Inl e, wp\<lparr>wp_sandbox_pool := p, wp_env := env\<rparr>)
      | (Inr sb, p, env) \<Rightarrow>
          (case draw (wp\<lparr>wp_sandbox_pool := p, wp_env := env\<rparr>) of (n, wp1) \<Rightarrow>
           let w = \<lparr>w_worker_id = ''w-'' @ uuid_hex12 n, w_state = ACTIVE,
                    w_sandbox_class = infer_sandbox_class (wp_objs wp1 sb), w_version = 1,
                    w_assignment = None, w_labels = wp_labels wp1, w_node = wp_node wp1,
                    w_sandbox = Some sb\<rparr>
           in case worker_register w (wp_store wp1) of
                (r, st) \<Rightarrow> (r, wp1\<lparr>wp_store := st\<rparr>)))"

definition acquire_worker :: "constraints \<Rightarrow> worker_pool \<Rightarrow> worker result \<times> worker_pool" where
  "acquire_worker c wp =
     (let idle = list_idle c (wp_store wp) in
      if idle \<noteq> [] then
        (case scheduler_pick idle c wp of
           (Some picked, wp1) \<Rightarrow>
             (Inr picked, wp1\<lparr>wp_warm_idle_since := ddel (w_worker_id picked) (wp_warm_idle_since wp1)\<rparr>)
         | (None, wp1) \<Rightarrow> materialise_worker wp1)
      else materialise_worker wp)"

definition claim_for_actor ::
  "worker \<Rightarrow> worker_assignment \<Rightarrow> worker_pool \<Rightarrow> worker result \<times> worker_pool" where
  "claim_for_actor w asg wp =
     (case worker_claim (w_worker_id w) asg (w_version w) (wp_store wp) of
        (r, st) \<Rightarrow> (r, wp\<lparr>wp_store := st\<rparr>))"

definition retire :: "worker \<Rightarrow> worker_pool \<Rightarrow> worker_pool" where
  "retire w wp =
     (let wp1 = wp\<lparr>wp_warm_idle_since := ddel (w_worker_id w) (wp_warm_idle_since wp)\<rparr>;
          wp2 = wp1\<lparr>wp_store := worker_delete (w_worker_id w) (wp_store wp1)\<rparr>
      in case w_sandbox w of
           None \<Rightarrow> wp2
         | Some sb \<Rightarrow>
             wp2\<lparr>wp_sandbox_pool := pool_release sb False (wp_now wp2) (wp_sandbox_pool wp2)\<rparr>)"

definition release_worker :: "worker \<Rightarrow> bool \<Rightarrow> worker_pool \<Rightarrow> unit result \<times> worker_pool" where
  "release_worker w drain wp =
     (case worker_release (w_worker_id w) (w_version w) (wp_store wp) of
        (Inl e, st) \<Rightarrow> (if e = WorkerNotFound then (Inr (), wp) else (Inl e, wp))
      | (Inr released, st) \<Rightarrow>
          (let wp1 = wp\<lparr>wp_store := st\<rparr> in
           if drain \<or> \<not> sandbox_alive wp1 released then (Inr (), retire released wp1)
           else if int (length (wp_warm_idle_since wp1)) \<ge> wp_max_warm_idle wp1
             then (Inr (), retire released wp1)
           else (Inr (), wp1\<lparr>wp_warm_idle_since :=
                   dput (w_worker_id released) (wp_now wp1) (wp_warm_idle_since wp1)\<rparr>)))"

definition warm_idle_count :: "worker_pool \<Rightarrow> int" where
  "warm_idle_count wp = int (length (wp_warm_idle_since wp))"

text \<open>The sweeper: first the expired ids leave the registry, then each is read and retired.\<close>

definition sweep_expired :: "worker_pool \<Rightarrow> string list" where
  "sweep_expired wp =
     map fst (filter (\<lambda>(wid, since). wp_now wp - since > wp_idle_ttl wp) (wp_warm_idle_since wp))"

definition forget_warm :: "string list \<Rightarrow> worker_pool \<Rightarrow> worker_pool" where
  "forget_warm wids wp =
     wp\<lparr>wp_warm_idle_since := fold (\<lambda>wid d. ddel wid d) wids (wp_warm_idle_since wp)\<rparr>"

definition retire_by_id :: "string \<Rightarrow> worker_pool \<Rightarrow> worker_pool" where
  "retire_by_id wid wp =
     (case worker_get wid (wp_store wp) of Inl e \<Rightarrow> wp | Inr w \<Rightarrow> retire w wp)"

definition wp_sweep_once :: "worker_pool \<Rightarrow> worker_pool" where
  "wp_sweep_once wp =
     (let expired = sweep_expired wp in fold retire_by_id expired (forget_warm expired wp))"

definition wp_aclose :: "worker_pool \<Rightarrow> worker_pool" where
  "wp_aclose wp =
     (if wp_closed wp then wp
      else (let wids = map fst (wp_warm_idle_since wp);
                wp1 = wp\<lparr>wp_closed := True, wp_sweep_task := False, wp_warm_idle_since := []\<rparr>
            in fold retire_by_id wids wp1))"

record wp_metrics =
  wm_warm_idle :: int
  wm_max_warm_idle :: int
  wm_idle_ttl :: time
  wm_store_idle_total :: int
  wm_closed :: bool

definition wp_metrics_of :: "worker_pool \<Rightarrow> wp_metrics" where
  "wp_metrics_of wp =
     (let idle = list_idle \<lparr>c_sandbox_class = VFS, c_template_selector = [],
                           c_actor_selector = [], c_required_node = None\<rparr> (wp_store wp)
      in \<lparr>wm_warm_idle = int (length (wp_warm_idle_since wp)),
          wm_max_warm_idle = wp_max_warm_idle wp, wm_idle_ttl = wp_idle_ttl wp,
          wm_store_idle_total = (if idle \<noteq> [] then int (length idle) else 0),
          wm_closed = wp_closed wp\<rparr>)"

section \<open>The invariant\<close>

text \<open>
  Every sandbox a worker record carries is checked out of the sandbox pool, no two workers
  share one, and the warm-idle registry is within its cap and holds unassigned workers only.
\<close>

definition hosts :: "worker_store \<Rightarrow> string \<Rightarrow> sandbox option" where
  "hosts st wid = (case dget st wid of None \<Rightarrow> None | Some w \<Rightarrow> w_sandbox w)"

definition warm_ok :: "worker_pool \<Rightarrow> bool" where
  "warm_ok wp \<longleftrightarrow>
     dict_ok (wp_warm_idle_since wp) \<and>
     int (length (wp_warm_idle_since wp)) \<le> max 0 (wp_max_warm_idle wp) \<and>
     (\<forall>wid \<in> fst ` set (wp_warm_idle_since wp).
        \<exists>w. dget (wp_store wp) wid = Some w \<and> w_assignment w = None)"

definition hosts_ok :: "worker_store \<Rightarrow> pool \<Rightarrow> bool" where
  "hosts_ok st p \<longleftrightarrow>
     (\<forall>wid sb. hosts st wid = Some sb \<longrightarrow> sb \<in> p_in_use p) \<and>
     (\<forall>wid wid' sb. hosts st wid = Some sb \<longrightarrow> hosts st wid' = Some sb \<longrightarrow> wid = wid')"

definition wp_ok :: "worker_pool \<Rightarrow> bool" where
  "wp_ok wp \<longleftrightarrow>
     worker_store_ok (wp_store wp) \<and> pool_ok (wp_sandbox_pool wp) \<and>
     hosts_ok (wp_store wp) (wp_sandbox_pool wp) \<and> warm_ok wp"

lemma hosts_dput: "hosts (dput k w st) wid = (if wid = k then w_sandbox w else hosts st wid)"
  by (simp add: hosts_def dict_simps)

lemma hosts_delete: "hosts (worker_delete k st) wid = (if wid = k then None else hosts st wid)"
  by (simp add: hosts_def worker_delete_def dict_simps)

lemma hosts_same: "dget st k = Some w \<Longrightarrow> w_sandbox w' = w_sandbox w \<Longrightarrow> hosts (dput k w' st) = hosts st"
  by (rule ext) (simp add: hosts_dput, simp add: hosts_def)

lemma hosts_ok_cong: "hosts st' = hosts st \<Longrightarrow> hosts_ok st p \<Longrightarrow> hosts_ok st' p"
  by (simp add: hosts_ok_def)

lemma hosts_ok_grow: "hosts_ok st p \<Longrightarrow> p_in_use p \<subseteq> p_in_use p' \<Longrightarrow> hosts_ok st p'"
  by (auto simp: hosts_ok_def)

lemma hosts_ok_new:
  "hosts_ok st p \<Longrightarrow> sb \<notin> p_in_use p \<Longrightarrow> p_in_use p' = insert sb (p_in_use p) \<Longrightarrow>
   w_sandbox w = Some sb \<Longrightarrow> hosts_ok (dput k w st) p'"
  by (auto simp: hosts_ok_def hosts_dput)

lemma warm_ok_mono:
  "warm_ok wp \<Longrightarrow> wp_warm_idle_since wp' = wp_warm_idle_since wp \<Longrightarrow>
   wp_max_warm_idle wp' = wp_max_warm_idle wp \<Longrightarrow>
   (\<And>wid w. dget (wp_store wp) wid = Some w \<Longrightarrow> w_assignment w = None \<Longrightarrow>
       wid \<in> fst ` set (wp_warm_idle_since wp) \<Longrightarrow>
       \<exists>w'. dget (wp_store wp') wid = Some w' \<and> w_assignment w' = None) \<Longrightarrow> warm_ok wp'"
  unfolding warm_ok_def by metis

lemma ddel_keys: "fst ` set (ddel k d) = fst ` set d - {k}"
  by (auto simp: AList.delete_eq)

lemma ddel_not_key: "k \<notin> fst ` set (ddel k d)" "(k, v) \<notin> set (ddel k d)"
  by (auto simp: AList.delete_eq)

lemma warm_ok_forget:
  assumes "warm_ok wp"
  shows "warm_ok (wp\<lparr>wp_warm_idle_since := ddel wid (wp_warm_idle_since wp)\<rparr>)"
  using assms length_ddel_le [of wid "wp_warm_idle_since wp"]
  by (auto simp: warm_ok_def ddel_keys)

lemma wp_ok_forget: "wp_ok wp \<Longrightarrow> wp_ok (wp\<lparr>wp_warm_idle_since := ddel wid (wp_warm_idle_since wp)\<rparr>)"
  using warm_ok_forget [of wp wid] by (simp add: wp_ok_def)

section \<open>Acquiring\<close>

lemma scheduler_pick_spec:
  assumes "scheduler_pick ws c wp = (r, wp')"
  shows "case r of
      None \<Rightarrow> (\<forall>w \<in> set ws. \<not> satisfies w c) \<and> wp' = wp
    | Some w \<Rightarrow> w \<in> set ws \<and> satisfies w c \<and> wp' = snd (draw wp)"
proof (cases "filter (\<lambda>w. satisfies w c) ws = []")
  case True
  with assms show ?thesis by (auto simp: scheduler_pick_def filter_empty_conv)
next
  case False
  let ?el = "filter (\<lambda>w. satisfies w c) ws"
  obtain n wp1 where d: "draw wp = (n, wp1)" by (cases "draw wp")
  from False have "n mod length ?el < length ?el" by simp
  then have "?el ! (n mod length ?el) \<in> set ?el" by (rule nth_mem)
  with assms False d show ?thesis by (auto simp: scheduler_pick_def Let_def)
qed

lemma list_idle_satisfies: "w \<in> set (list_idle c st) \<Longrightarrow> satisfies w c"
  by (auto simp: list_idle_def satisfies_def)

lemma materialise_worker_spec:
  assumes ok: "wp_ok wp" and fresh: "factory_fresh (wp_sandbox_pool wp) (wp_env wp)"
    and run: "materialise_worker wp = (r, wp')"
  shows "wp_ok wp' \<and> wp_warm_idle_since wp' = wp_warm_idle_since wp \<and>
    (case r of
       Inl e \<Rightarrow> wp_store wp' = wp_store wp
     | Inr w \<Rightarrow> dget (wp_store wp) (w_worker_id w) = None \<and>
         wp_store wp' = dput (w_worker_id w) w (wp_store wp) \<and>
         is_idle w \<and> w_version w = 1 \<and> w_labels w = wp_labels wp \<and> w_node w = wp_node wp \<and>
         (\<exists>sb. w_sandbox w = Some sb \<and> sb \<notin> p_in_use (wp_sandbox_pool wp) \<and>
               w_sandbox_class w = infer_sandbox_class (wp_objs wp sb)))"
proof -
  obtain a p env where acq: "pool_acquire (wp_sandbox_pool wp) (wp_env wp) = (a, p, env)"
    by (metis prod_cases3)
  have spec: "pool_ok p \<and> (case a of
      Inr ws \<Rightarrow> ws \<notin> p_in_use (wp_sandbox_pool wp) \<and>
        p_in_use p = insert ws (p_in_use (wp_sandbox_pool wp))
    | Inl _ \<Rightarrow> p_in_use (wp_sandbox_pool wp) \<subseteq> p_in_use p)"
    using pool_acquire_spec [OF _ fresh acq] ok by (simp add: wp_ok_def)
  show ?thesis
  proof (cases a)
    case (Inl e)
    with run acq have "r = Inl e" "wp' = wp\<lparr>wp_sandbox_pool := p, wp_env := env\<rparr>"
      by (auto simp: materialise_worker_def)
    with ok spec Inl hosts_ok_grow [of "wp_store wp" "wp_sandbox_pool wp" p] show ?thesis
      by (auto simp: wp_ok_def warm_ok_def)
  next
    case (Inr sb)
    let ?wp0 = "wp\<lparr>wp_sandbox_pool := p, wp_env := env\<rparr>"
    obtain n wp1 where d: "draw ?wp0 = (n, wp1)" by (cases "draw ?wp0")
    let ?w = "\<lparr>w_worker_id = ''w-'' @ uuid_hex12 n, w_state = ACTIVE,
                w_sandbox_class = infer_sandbox_class (wp_objs wp1 sb), w_version = 1,
                w_assignment = None, w_labels = wp_labels wp1, w_node = wp_node wp1,
                w_sandbox = Some sb\<rparr>"
    have fields: "wp_store wp1 = wp_store wp" "wp_sandbox_pool wp1 = p"
      "wp_warm_idle_since wp1 = wp_warm_idle_since wp" "wp_max_warm_idle wp1 = wp_max_warm_idle wp"
      "wp_objs wp1 = wp_objs wp" "wp_labels wp1 = wp_labels wp" "wp_node wp1 = wp_node wp"
      using d by (auto simp: draw_def)
    have run1: "(r, wp') = (case worker_register ?w (wp_store wp1) of (r, st) \<Rightarrow> (r, wp1\<lparr>wp_store := st\<rparr>))"
      using run acq Inr d by (simp add: materialise_worker_def)
    have in_use: "sb \<notin> p_in_use (wp_sandbox_pool wp)"
      "p_in_use p = insert sb (p_in_use (wp_sandbox_pool wp))" and pok: "pool_ok p"
      using spec Inr by simp_all
    show ?thesis
    proof (cases "dget (wp_store wp) (w_worker_id ?w)")
      case (Some e)
      with run1 fields have "r = Inl (VersionConflict (-1) (w_version e))" "wp' = wp1\<lparr>wp_store := wp_store wp\<rparr>"
        by (auto simp: worker_register_def)
      moreover have "hosts_ok (wp_store wp) p"
        using ok in_use by - (rule hosts_ok_grow [of _ "wp_sandbox_pool wp"], auto simp: wp_ok_def)
      ultimately show ?thesis using ok pok fields by (auto simp: wp_ok_def warm_ok_def)
    next
      case None
      with run1 fields have r: "r = Inr ?w" and wp': "wp' = wp1\<lparr>wp_store := dput (w_worker_id ?w) ?w (wp_store wp)\<rparr>"
        by (auto simp: worker_register_def Let_def)
      have "hosts_ok (dput (w_worker_id ?w) ?w (wp_store wp)) p"
        using ok in_use by - (rule hosts_ok_new [of _ "wp_sandbox_pool wp" sb], auto simp: wp_ok_def)
      moreover have "worker_store_ok (dput (w_worker_id ?w) ?w (wp_store wp))"
        using ok by (intro worker_store_ok_dput) (auto simp: wp_ok_def)
      moreover have "warm_ok wp'"
        using ok None fields wp' by - (rule warm_ok_mono [of wp], auto simp: wp_ok_def dict_simps)
      ultimately have "wp_ok wp'" using pok fields wp' by (simp add: wp_ok_def)
      then show ?thesis using r wp' None fields in_use by (simp add: is_idle_def)
    qed
  qed
qed

lemma acquire_warm:
  assumes "list_idle c (wp_store wp) \<noteq> []"
  shows "\<exists>w \<in> set (list_idle c (wp_store wp)).
    acquire_worker c wp =
      (Inr w, (snd (draw wp))\<lparr>wp_warm_idle_since := ddel (w_worker_id w) (wp_warm_idle_since wp)\<rparr>)"
proof -
  let ?idle = "list_idle c (wp_store wp)"
  obtain r wp1 where pick: "scheduler_pick ?idle c wp = (r, wp1)" by (cases "scheduler_pick ?idle c wp")
  from assms obtain w0 where "w0 \<in> set ?idle" by (cases ?idle) auto
  then have "satisfies w0 c" by (rule list_idle_satisfies)
  with \<open>w0 \<in> set ?idle\<close> scheduler_pick_spec [OF pick] obtain w
    where "r = Some w" "w \<in> set ?idle" "wp1 = snd (draw wp)" by (cases r) auto
  with pick assms show ?thesis by (auto simp: acquire_worker_def Let_def draw_def)
qed

lemma acquire_miss: "list_idle c (wp_store wp) = [] \<Longrightarrow> acquire_worker c wp = materialise_worker wp"
  by (simp add: acquire_worker_def)

lemma acquire_worker_ok:
  assumes ok: "wp_ok wp" and fresh: "factory_fresh (wp_sandbox_pool wp) (wp_env wp)"
    and run: "acquire_worker c wp = (r, wp')"
  shows "wp_ok wp' \<and> (\<forall>w. r = Inr w \<longrightarrow>
    is_idle w \<and> dget (wp_store wp') (w_worker_id w) = Some w \<and>
    w_worker_id w \<notin> fst ` set (wp_warm_idle_since wp'))"
proof (cases "list_idle c (wp_store wp) = []")
  case True
  with run have mat: "materialise_worker wp = (r, wp')" by (simp add: acquire_miss)
  note spec = materialise_worker_spec [OF ok fresh mat]
  show ?thesis
  proof (cases r)
    case (Inr w)
    with spec ok have "w_worker_id w \<notin> fst ` set (wp_warm_idle_since wp)"
      by (fastforce simp: wp_ok_def warm_ok_def)
    with spec Inr show ?thesis by (simp add: dict_simps)
  qed (use spec in simp)
next
  case False
  from acquire_warm [OF False] obtain w where w: "w \<in> set (list_idle c (wp_store wp))"
    and eq: "acquire_worker c wp =
      (Inr w, (snd (draw wp))\<lparr>wp_warm_idle_since := ddel (w_worker_id w) (wp_warm_idle_since wp)\<rparr>)"
    by blast
  have idle: "dget (wp_store wp) (w_worker_id w) = Some w" "is_idle w"
    using w ok by (simp_all add: wp_ok_def list_idle_iff)
  have "wp_ok (snd (draw wp))" using ok by (simp add: wp_ok_def warm_ok_def draw_def)
  from wp_ok_forget [OF this, of "w_worker_id w"] idle run eq
  show ?thesis by (simp add: draw_def) (auto simp: ddel_not_key)
qed

section \<open>Claiming, releasing, retiring\<close>

lemma claim_for_actor_ok:
  assumes ok: "wp_ok wp" and "w_worker_id w \<notin> fst ` set (wp_warm_idle_since wp)"
    and run: "claim_for_actor w asg wp = (r, wp')"
  shows "wp_ok wp'"
proof (cases r)
  case (Inl e)
  then have "wp' = wp" using run worker_cas.cas_refused [of "w_worker_id w" "Claim asg"]
    by (auto simp: claim_for_actor_def split: prod.splits)
  with ok show ?thesis by simp
next
  case (Inr w')
  then obtain st where claim: "worker_claim (w_worker_id w) asg (w_version w) (wp_store wp) = (Inr w', st)"
    and wp': "wp' = wp\<lparr>wp_store := st\<rparr>"
    using run by (auto simp: claim_for_actor_def split: prod.splits)
  from claim obtain e where e: "dget (wp_store wp) (w_worker_id w) = Some e"
    and w': "w' = e\<lparr>w_assignment := Some asg, w_version := w_version w + 1\<rparr>"
    and st: "st = dput (w_worker_id w) w' (wp_store wp)" by (auto simp: worker_claim_Inr)
  have "worker_store_ok st"
    using worker_cas_ok [of "wp_store wp" "w_worker_id w" "Claim asg" "w_version w"] claim ok
    by (simp add: wp_ok_def)
  moreover have "hosts_ok st (wp_sandbox_pool wp)"
    unfolding st using e w' ok hosts_same [of "wp_store wp" "w_worker_id w" e w']
    by (simp add: wp_ok_def hosts_ok_def)
  moreover have "warm_ok wp'"
    using ok assms(2) wp' st
    by - (rule warm_ok_mono [of wp], auto simp: wp_ok_def dict_simps intro: rev_image_eqI)
  ultimately show ?thesis using ok wp' by (simp add: wp_ok_def)
qed

lemma retire_ok:
  assumes ok: "wp_ok wp" and stored: "hosts (wp_store wp) (w_worker_id w) = w_sandbox w"
  shows "wp_ok (retire w wp)"
proof -
  let ?wid = "w_worker_id w"
  let ?wp2 = "(wp\<lparr>wp_warm_idle_since := ddel ?wid (wp_warm_idle_since wp)\<rparr>)
                \<lparr>wp_store := worker_delete ?wid (wp_store wp)\<rparr>"
  have store: "worker_store_ok (worker_delete ?wid (wp_store wp))"
    using ok by (simp add: wp_ok_def worker_delete_ok)
  have warm: "warm_ok ?wp2"
    using warm_ok_forget [of wp ?wid] ok
    by (auto simp: wp_ok_def warm_ok_def ddel_keys worker_delete_def dict_simps)
  have gone: "hosts (worker_delete ?wid (wp_store wp)) wid \<noteq> Some sb" if "w_sandbox w = Some sb" for wid sb
    using ok stored that by (auto simp: wp_ok_def hosts_ok_def hosts_delete)
  have keep: "hosts_ok (worker_delete ?wid (wp_store wp)) (wp_sandbox_pool wp)"
    using ok by (auto simp: wp_ok_def hosts_ok_def hosts_delete)
  show ?thesis
  proof (cases "w_sandbox w")
    case None
    with store warm keep ok show ?thesis by (simp add: retire_def Let_def wp_ok_def)
  next
    case (Some sb)
    let ?p = "pool_release sb False (wp_now wp) (wp_sandbox_pool wp)"
    have "p_in_use (wp_sandbox_pool wp) - {sb} \<subseteq> p_in_use ?p"
      by (auto simp: pool_release_def safe_close_def Let_def)
    then have "hosts_ok (worker_delete ?wid (wp_store wp)) ?p"
      using keep gone [OF Some] unfolding hosts_ok_def by blast
    moreover have "pool_ok ?p" using ok by (simp add: wp_ok_def pool_release_ok)
    moreover have "warm_ok (?wp2\<lparr>wp_sandbox_pool := ?p\<rparr>)" using warm by (simp add: warm_ok_def)
    ultimately show ?thesis using store Some by (simp add: retire_def Let_def wp_ok_def)
  qed
qed

lemma retire_by_id_ok: "wp_ok wp \<Longrightarrow> wp_ok (retire_by_id wid wp)"
  by (auto simp: retire_by_id_def worker_get_def wp_ok_def hosts_def
      dest: worker_store_ok_get intro!: retire_ok [unfolded wp_ok_def] split: option.split sum.split)

lemma fold_retire_ok: "wp_ok wp \<Longrightarrow> wp_ok (fold retire_by_id wids wp)"
  by (induction wids arbitrary: wp) (simp_all add: retire_by_id_ok)

lemma forget_warm_Cons: "forget_warm (wid # wids) wp =
    forget_warm wids (wp\<lparr>wp_warm_idle_since := ddel wid (wp_warm_idle_since wp)\<rparr>)"
  by (simp add: forget_warm_def)

lemma forget_warm_ok: "wp_ok wp \<Longrightarrow> wp_ok (forget_warm wids wp)"
  by (induction wids arbitrary: wp)
    (simp_all add: forget_warm_Cons wp_ok_forget, simp add: forget_warm_def)

lemma wp_sweep_once_ok: "wp_ok wp \<Longrightarrow> wp_ok (wp_sweep_once wp)"
  by (simp add: wp_sweep_once_def Let_def fold_retire_ok forget_warm_ok)

lemma wp_aclose_ok: "wp_ok wp \<Longrightarrow> wp_ok (wp_aclose wp)"
proof (cases "wp_closed wp")
  case False
  assume "wp_ok wp"
  then have "wp_ok (wp\<lparr>wp_closed := True, wp_sweep_task := False, wp_warm_idle_since := []\<rparr>)"
    by (simp add: wp_ok_def warm_ok_def)
  with False show ?thesis by (simp add: wp_aclose_def Let_def fold_retire_ok)
qed (simp add: wp_aclose_def)

lemma release_worker_ok:
  assumes ok: "wp_ok wp"
  shows "wp_ok (snd (release_worker w drain wp))"
proof (cases "worker_release (w_worker_id w) (w_version w) (wp_store wp)")
  case (Pair r st)
  show ?thesis
  proof (cases r)
    case (Inl e)
    with Pair ok show ?thesis by (auto simp: release_worker_def)
  next
    case (Inr w')
    from Pair Inr obtain e where e: "dget (wp_store wp) (w_worker_id w) = Some e"
      and w': "w' = e\<lparr>w_assignment := None, w_version := w_version w + 1\<rparr>"
      and st: "st = dput (w_worker_id w) w' (wp_store wp)" by (auto simp: worker_release_Inr)
    let ?wp1 = "wp\<lparr>wp_store := st\<rparr>"
    have id': "w_worker_id w' = w_worker_id w"
      using ok e w' by (auto simp: wp_ok_def dest: worker_store_ok_get)
    have "worker_store_ok st"
      using worker_cas_ok [of "wp_store wp" "w_worker_id w" Release "w_version w"] Pair ok
      by (simp add: wp_ok_def)
    moreover have "hosts_ok st (wp_sandbox_pool wp)"
      unfolding st using e w' ok hosts_same [of "wp_store wp" "w_worker_id w" e w']
    by (simp add: wp_ok_def hosts_ok_def)
    moreover have "warm_ok ?wp1"
      using ok w' st by - (rule warm_ok_mono [of wp], auto simp: wp_ok_def dict_simps)
    ultimately have ok1: "wp_ok ?wp1" using ok by (simp add: wp_ok_def)
    have retire: "wp_ok (retire w' ?wp1)"
      by (rule retire_ok [OF ok1]) (simp add: st hosts_dput id')
    have warm: "warm_ok (?wp1\<lparr>wp_warm_idle_since := dput (w_worker_id w') t (wp_warm_idle_since wp)\<rparr>)"
      if "\<not> int (length (wp_warm_idle_since wp)) \<ge> wp_max_warm_idle wp" for t
      using ok1 that w' st id'
      by (auto simp: wp_ok_def warm_ok_def dput_keys length_dput dict_simps)
    show ?thesis
      using Pair Inr retire ok1 warm [of "wp_now wp"]
      by (auto simp: release_worker_def Let_def wp_ok_def warm_ok_def)
  qed
qed

section \<open>What the sweeper and closing do\<close>

lemma ddel_filter: "ddel k d = filter (\<lambda>(k', v). k' \<noteq> k) d"
  unfolding AList.delete_eq by (rule filter_cong) auto

lemma retire_in_use:
  "p_in_use (pool_release sb b now p) = p_in_use p - {sb}"
  by (auto simp: pool_release_def safe_close_def Let_def)

lemma retire_by_id_spec:
  assumes "wp_ok wp"
  shows "wp_store (retire_by_id wid wp) = ddel wid (wp_store wp) \<and>
    p_in_use (wp_sandbox_pool (retire_by_id wid wp)) =
      p_in_use (wp_sandbox_pool wp) - {sb. hosts (wp_store wp) wid = Some sb} \<and>
    (wid \<notin> fst ` set (wp_warm_idle_since wp) \<longrightarrow>
       wp_warm_idle_since (retire_by_id wid wp) = wp_warm_idle_since wp)"
proof (cases "dget (wp_store wp) wid")
  case None
  then have "ddel wid (wp_store wp) = wp_store wp" by (simp add: dget_None_key)
  with None show ?thesis by (simp add: retire_by_id_def worker_get_def hosts_def)
next
  case (Some w)
  then have "w_worker_id w = wid" using assms by (auto simp: wp_ok_def dest: worker_store_ok_get)
  with Some show ?thesis
    by (cases "w_sandbox w")
      (auto simp: retire_by_id_def worker_get_def hosts_def retire_def Let_def retire_in_use
        worker_delete_def delete_idem)
qed

lemma fold_retire_spec:
  "wp_ok wp \<Longrightarrow> set wids \<inter> fst ` set (wp_warm_idle_since wp) = {} \<Longrightarrow>
   wp_store (fold retire_by_id wids wp) = filter (\<lambda>(k, w). k \<notin> set wids) (wp_store wp) \<and>
   p_in_use (wp_sandbox_pool (fold retire_by_id wids wp)) =
     p_in_use (wp_sandbox_pool wp) - {sb. \<exists>wid \<in> set wids. hosts (wp_store wp) wid = Some sb} \<and>
   wp_warm_idle_since (fold retire_by_id wids wp) = wp_warm_idle_since wp"
proof (induction wids arbitrary: wp)
  case Nil
  show ?case by simp
next
  case (Cons wid wids)
  note one = retire_by_id_spec [OF Cons.prems(1), of wid]
  have dis: "set wids \<inter> fst ` set (wp_warm_idle_since (retire_by_id wid wp)) = {}"
    and warm: "wp_warm_idle_since (retire_by_id wid wp) = wp_warm_idle_since wp"
    using one Cons.prems(2) by auto
  note IH = Cons.IH [OF retire_by_id_ok [OF Cons.prems(1), of wid] dis]
  have hosts': "hosts (wp_store (retire_by_id wid wp)) k =
      (if k = wid then None else hosts (wp_store wp) k)" for k
    using one by (simp add: hosts_def dict_simps)
  have "wp_store (fold retire_by_id (wid # wids) wp) =
      filter (\<lambda>(k, w). k \<notin> set wids) (ddel wid (wp_store wp))" using IH one by simp
  also have "\<dots> = filter (\<lambda>(k, w). k \<notin> set (wid # wids)) (wp_store wp)"
    unfolding ddel_filter filter_filter by (rule filter_cong) auto
  finally have store: "wp_store (fold retire_by_id (wid # wids) wp) =
      filter (\<lambda>(k, w). k \<notin> set (wid # wids)) (wp_store wp)" .
  have "p_in_use (wp_sandbox_pool (fold retire_by_id (wid # wids) wp)) =
      p_in_use (wp_sandbox_pool wp) - {sb. \<exists>k \<in> set (wid # wids). hosts (wp_store wp) k = Some sb}"
    using IH one hosts' by (auto split: if_splits)
  with store IH warm show ?case by simp
qed

lemma forget_warm_fields:
  "wp_store (forget_warm wids wp) = wp_store wp"
  "wp_sandbox_pool (forget_warm wids wp) = wp_sandbox_pool wp"
  by (simp_all add: forget_warm_def)

lemma forget_warm_registry:
  "wp_warm_idle_since (forget_warm wids wp) = filter (\<lambda>(k, v). k \<notin> set wids) (wp_warm_idle_since wp)"
proof -
  have "fold (\<lambda>wid d. ddel wid d) wids d = filter (\<lambda>(k, v). k \<notin> set wids) d" for d :: "(string, time) dict"
  proof (induction wids arbitrary: d)
    case (Cons wid wids)
    have "fold (\<lambda>wid d. ddel wid d) (wid # wids) d = filter (\<lambda>(k, v). k \<notin> set wids) (ddel wid d)"
      by (simp add: Cons.IH)
    also have "\<dots> = filter (\<lambda>(k, v). k \<notin> set (wid # wids)) d"
      unfolding ddel_filter filter_filter by (rule filter_cong) auto
    finally show ?case .
  qed simp
  then show ?thesis by (simp add: forget_warm_def)
qed

lemma wp_sweep_spec:
  assumes ok: "wp_ok wp"
  shows "wp_store (wp_sweep_once wp) = filter (\<lambda>(k, w). k \<notin> set (sweep_expired wp)) (wp_store wp) \<and>
    p_in_use (wp_sandbox_pool (wp_sweep_once wp)) = p_in_use (wp_sandbox_pool wp) -
      {sb. \<exists>wid \<in> set (sweep_expired wp). hosts (wp_store wp) wid = Some sb} \<and>
    wp_warm_idle_since (wp_sweep_once wp) =
      filter (\<lambda>(wid, since). \<not> wp_now wp - since > wp_idle_ttl wp) (wp_warm_idle_since wp)"
proof -
  let ?ex = "sweep_expired wp"
  have dis: "set ?ex \<inter> fst ` set (wp_warm_idle_since (forget_warm ?ex wp)) = {}"
    by (auto simp: forget_warm_registry)
  have "distinct (map fst (wp_warm_idle_since wp))" using ok by (simp add: wp_ok_def warm_ok_def dict_ok_def)
  then have uniq: "since = since'" if "(wid, since) \<in> set (wp_warm_idle_since wp)"
    "(wid, since') \<in> set (wp_warm_idle_since wp)" for wid since since'
    using that by (rule eq_key_imp_eq_value)
  have "filter (\<lambda>(k, v). k \<notin> set ?ex) (wp_warm_idle_since wp) =
      filter (\<lambda>(wid, since). \<not> wp_now wp - since > wp_idle_ttl wp) (wp_warm_idle_since wp)"
    by (rule filter_cong [OF refl]) (force simp: sweep_expired_def dest: uniq)
  with fold_retire_spec [OF forget_warm_ok [OF ok] dis] show ?thesis
    by (simp add: wp_sweep_once_def Let_def forget_warm_fields forget_warm_registry)
qed

lemma wp_aclose_spec:
  assumes ok: "wp_ok wp" and "\<not> wp_closed wp"
  shows "wp_store (wp_aclose wp) =
      filter (\<lambda>(k, w). k \<notin> fst ` set (wp_warm_idle_since wp)) (wp_store wp) \<and>
    wp_warm_idle_since (wp_aclose wp) = []"
proof -
  let ?wp1 = "wp\<lparr>wp_closed := True, wp_sweep_task := False, wp_warm_idle_since := []\<rparr>"
  have "wp_ok ?wp1" using ok by (simp add: wp_ok_def warm_ok_def)
  from fold_retire_spec [OF this, of "map fst (wp_warm_idle_since wp)"] assms(2)
  show ?thesis by (simp add: wp_aclose_def Let_def)
qed

section \<open>The invariant with the factory's freshness\<close>

definition wp_inv :: "worker_pool \<Rightarrow> bool" where
  "wp_inv wp \<longleftrightarrow> wp_ok wp \<and> factory_ok (wp_sandbox_pool wp) (wp_env wp)"

lemma wp_inv_same:
  "wp_inv wp \<Longrightarrow> wp_ok wp' \<Longrightarrow> wp_sandbox_pool wp' = wp_sandbox_pool wp \<Longrightarrow> wp_env wp' = wp_env wp \<Longrightarrow>
   wp_inv wp'"
  by (simp add: wp_inv_def)

lemma materialise_factory:
  assumes inv: "wp_inv wp" and run: "materialise_worker wp = (r, wp')"
  shows "factory_ok (wp_sandbox_pool wp') (wp_env wp')"
proof -
  obtain a p env where acq: "pool_acquire (wp_sandbox_pool wp) (wp_env wp) = (a, p, env)"
    by (metis prod_cases3)
  have "factory_ok p env"
    using pool_acquire_factory [OF _ _ acq] inv by (simp add: wp_inv_def wp_ok_def)
  moreover have "wp_sandbox_pool wp' = p \<and> wp_env wp' = env"
    using run acq by (auto simp: materialise_worker_def draw_def Let_def split: sum.splits prod.splits)
  ultimately show ?thesis by simp
qed

lemma acquire_worker_inv:
  assumes inv: "wp_inv wp" and run: "acquire_worker c wp = (r, wp')"
  shows "wp_inv wp'"
    and "dget (wp_store wp) wid = Some w0 \<Longrightarrow> dget (wp_store wp') wid = Some w0"
    and "r = Inr w \<Longrightarrow> is_idle w \<and> dget (wp_store wp') (w_worker_id w) = Some w \<and>
           w_worker_id w \<notin> fst ` set (wp_warm_idle_since wp')"
    and "r = Inr w \<Longrightarrow> dget (wp_store wp) (w_worker_id w) \<in> {None, Some w}"
proof -
  have ok: "wp_ok wp" and fresh: "factory_fresh (wp_sandbox_pool wp) (wp_env wp)"
    using inv by (simp_all add: wp_inv_def factory_ok_fresh)
  note acq = acquire_worker_ok [OF ok fresh run]
  show "r = Inr w \<Longrightarrow> is_idle w \<and> dget (wp_store wp') (w_worker_id w) = Some w \<and>
           w_worker_id w \<notin> fst ` set (wp_warm_idle_since wp')"
    using acq by blast
  have "factory_ok (wp_sandbox_pool wp') (wp_env wp') \<and>
    (\<forall>wid w0. dget (wp_store wp) wid = Some w0 \<longrightarrow> dget (wp_store wp') wid = Some w0) \<and>
    (\<forall>w. r = Inr w \<longrightarrow> dget (wp_store wp) (w_worker_id w) \<in> {None, Some w})"
  proof (cases "list_idle c (wp_store wp) = []")
    case True
    with run have mat: "materialise_worker wp = (r, wp')" by (simp add: acquire_miss)
    show ?thesis
      using materialise_worker_spec [OF ok fresh mat] materialise_factory [OF inv mat]
      by (cases r) (auto simp: dict_simps)
  next
    case False
    from acquire_warm [OF False] run have "wp_store wp' = wp_store wp"
      "wp_sandbox_pool wp' = wp_sandbox_pool wp" "wp_env wp' = wp_env wp"
      by (auto simp: draw_def)
    with inv acq show ?thesis by (auto simp: wp_inv_def)
  qed
  with acq show "wp_inv wp'"
    and "dget (wp_store wp) wid = Some w0 \<Longrightarrow> dget (wp_store wp') wid = Some w0"
    and "r = Inr w \<Longrightarrow> dget (wp_store wp) (w_worker_id w) \<in> {None, Some w}"
    by (simp_all add: wp_inv_def)
qed

lemma claim_for_actor_fields:
  "claim_for_actor w asg wp = (r, wp') \<Longrightarrow>
   wp_sandbox_pool wp' = wp_sandbox_pool wp \<and> wp_env wp' = wp_env wp"
  by (auto simp: claim_for_actor_def split: prod.splits)

lemma claim_idle:
  assumes "dget (wp_store wp) (w_worker_id w) = Some w" and "is_idle w"
  shows "claim_for_actor w asg wp =
    (Inr (w\<lparr>w_assignment := Some asg, w_version := w_version w + 1\<rparr>),
     wp\<lparr>wp_store := dput (w_worker_id w) (w\<lparr>w_assignment := Some asg, w_version := w_version w + 1\<rparr>)
                    (wp_store wp)\<rparr>)"
  using assms by (simp add: claim_for_actor_def worker_claim_def is_idle_def Let_def)

lemma retire_factory:
  assumes "wp_inv wp"
  shows "factory_ok (wp_sandbox_pool (retire w wp)) (wp_env (retire w wp))"
proof -
  have sub: "pool_known (pool_release sb b t (wp_sandbox_pool wp)) \<subseteq> pool_known (wp_sandbox_pool wp)"
    for sb b t
    using pool_release_effect [of "wp_sandbox_pool wp" sb b t] assms
    by (auto simp: wp_inv_def wp_ok_def pool_effect_def)
  have fac: "factory_ok (wp_sandbox_pool wp) (wp_env wp)" using assms by (simp add: wp_inv_def)
  have "factory_ok (pool_release sb b t (wp_sandbox_pool wp)) (wp_env wp)" for sb b t
    by (rule factory_ok_shrink [OF fac sub])
  then show ?thesis
    using assms by (auto simp: retire_def Let_def wp_inv_def split: option.split)
qed

lemma retire_by_id_inv: "wp_inv wp \<Longrightarrow> wp_inv (retire_by_id wid wp)"
  using retire_factory [of wp] retire_by_id_ok [of wp wid]
  by (auto simp: wp_inv_def retire_by_id_def split: sum.split)

lemma fold_retire_inv: "wp_inv wp \<Longrightarrow> wp_inv (fold retire_by_id wids wp)"
  by (induction wids arbitrary: wp) (simp_all add: retire_by_id_inv)

lemma forget_warm_inv: "wp_inv wp \<Longrightarrow> wp_inv (forget_warm wids wp)"
  using forget_warm_ok [of wp wids] by (simp add: wp_inv_def, simp add: forget_warm_def)

lemma wp_sweep_once_inv: "wp_inv wp \<Longrightarrow> wp_inv (wp_sweep_once wp)"
  by (simp add: wp_sweep_once_def Let_def fold_retire_inv forget_warm_inv)

text \<open>Releasing the worker the caller holds the current version of.\<close>

lemma release_current:
  assumes inv: "wp_inv wp" and w: "dget (wp_store wp) (w_worker_id w) = Some w"
  shows "\<exists>wp'. release_worker w drain wp = (Inr (), wp') \<and> wp_inv wp' \<and>
    (\<forall>wid. wid \<noteq> w_worker_id w \<longrightarrow> dget (wp_store wp') wid = dget (wp_store wp) wid) \<and>
    (\<forall>w'. dget (wp_store wp') (w_worker_id w) = Some w' \<longrightarrow> w_assignment w' = None) \<and>
    wp_objs wp' = wp_objs wp"
proof -
  let ?w' = "w\<lparr>w_assignment := None, w_version := w_version w + 1\<rparr>"
  let ?wp1 = "wp\<lparr>wp_store := dput (w_worker_id w) ?w' (wp_store wp)\<rparr>"
  have rel: "worker_release (w_worker_id w) (w_version w) (wp_store wp) =
      (Inr ?w', dput (w_worker_id w) ?w' (wp_store wp))"
    using w by (simp add: worker_release_def Let_def)
  obtain r wp' where run: "release_worker w drain wp = (r, wp')" by (cases "release_worker w drain wp")
  have ok: "wp_ok wp'" using release_worker_ok [of wp w drain] inv run by (simp add: wp_inv_def)
  have eq: "release_worker w drain wp =
    (if drain \<or> \<not> sandbox_alive ?wp1 ?w' \<or> int (length (wp_warm_idle_since wp)) \<ge> wp_max_warm_idle wp
     then (Inr (), retire ?w' ?wp1)
     else (Inr (), ?wp1\<lparr>wp_warm_idle_since := dput (w_worker_id w) (wp_now wp) (wp_warm_idle_since wp)\<rparr>))"
    by (simp add: release_worker_def rel Let_def)
  have facts: "wp_store (retire ?w' ?wp1) = ddel (w_worker_id w) (dput (w_worker_id w) ?w' (wp_store wp))"
    "wp_env (retire ?w' ?wp1) = wp_env wp" "wp_objs (retire ?w' ?wp1) = wp_objs wp"
    "pool_known (wp_sandbox_pool (retire ?w' ?wp1)) \<subseteq> pool_known (wp_sandbox_pool wp)"
  proof -
    have "pool_known (pool_release sb b t (wp_sandbox_pool wp)) \<subseteq> pool_known (wp_sandbox_pool wp)" for sb b t
      using pool_release_effect [of "wp_sandbox_pool wp" sb b t] inv
      by (auto simp: wp_inv_def wp_ok_def pool_effect_def)
    then show "wp_store (retire ?w' ?wp1) = ddel (w_worker_id w) (dput (w_worker_id w) ?w' (wp_store wp))"
      "wp_env (retire ?w' ?wp1) = wp_env wp" "wp_objs (retire ?w' ?wp1) = wp_objs wp"
      "pool_known (wp_sandbox_pool (retire ?w' ?wp1)) \<subseteq> pool_known (wp_sandbox_pool wp)"
      by (auto simp: retire_def Let_def worker_delete_def split: option.split)
  qed
  show ?thesis
  proof (cases "drain \<or> \<not> sandbox_alive ?wp1 ?w' \<or> int (length (wp_warm_idle_since wp)) \<ge> wp_max_warm_idle wp")
    case True
    then have run': "release_worker w drain wp = (Inr (), retire ?w' ?wp1)" using eq by simp
    then have "wp_ok (retire ?w' ?wp1)" using ok run by simp
    then have "wp_inv (retire ?w' ?wp1)"
      using inv facts(2,4) by (auto simp: wp_inv_def intro: factory_ok_shrink)
    with run' facts show ?thesis by (auto simp: dict_simps)
  next
    case False
    let ?wp2 = "?wp1\<lparr>wp_warm_idle_since := dput (w_worker_id w) (wp_now wp) (wp_warm_idle_since wp)\<rparr>"
    from False have run': "release_worker w drain wp = (Inr (), ?wp2)" using eq by simp
    then have "wp_ok ?wp2" using ok run by simp
    then have "wp_inv ?wp2" using inv by (simp add: wp_inv_def)
    with run' show ?thesis by (auto simp: dict_simps)
  qed
qed

section \<open>Tasks that share the pool\<close>

text \<open>
  Callers keep the records \<open>acquire\<close> and \<open>claim_for_actor\<close> gave them and come back with them
  later, when other callers may have been handed the same worker: \<open>held\<close> is all they were ever
  given. The methods run one after the other in any order; ids drawn by \<open>uuid4\<close> do not come back.
  A release may be of any record, also one read from the store.
\<close>

inductive wp_step :: "worker_pool \<times> worker set \<Rightarrow> worker_pool \<times> worker set \<Rightarrow> bool" where
  acquired: "acquire_worker c wp = (Inr w, wp') \<Longrightarrow>
     dget (wp_store wp) (w_worker_id w) = None \<longrightarrow> w_worker_id w \<notin> w_worker_id ` held \<Longrightarrow>
     wp_step (wp, held) (wp', insert w held)"
| not_acquired: "acquire_worker c wp = (Inl e, wp') \<Longrightarrow> wp_step (wp, held) (wp', held)"
| claimed: "w \<in> held \<Longrightarrow> claim_for_actor w asg wp = (Inr w', wp') \<Longrightarrow> wp_step (wp, held) (wp', insert w' held)"
| not_claimed: "claim_for_actor w asg wp = (Inl e, wp') \<Longrightarrow> wp_step (wp, held) (wp', held)"
| released: "wp_step (wp, held) (snd (release_worker w drain wp), held)"
| swept: "wp_step (wp, held) (wp_sweep_once wp, held)"
| closed: "wp_step (wp, held) (wp_aclose wp, held)"
| started: "wp_step (wp, held) (wp_start wp, held)"
| moved_on: "wp_step (wp, held) (wp\<lparr>wp_now := now, wp_objs := objs\<rparr>, held)"

inductive wp_reach :: "worker_pool \<Rightarrow> worker_pool \<times> worker set \<Rightarrow> bool" for wp0 where
  start: "wp_reach wp0 (wp0, {})"
| step: "wp_reach wp0 x \<Longrightarrow> wp_step x y \<Longrightarrow> wp_reach wp0 y"

text \<open>A record somebody holds is not newer than the store's, and a warm worker has moved past it.\<close>

definition held_ok :: "worker set \<Rightarrow> worker_pool \<Rightarrow> bool" where
  "held_ok held wp \<longleftrightarrow>
     (\<forall>w \<in> held. \<forall>e. dget (wp_store wp) (w_worker_id w) = Some e \<longrightarrow>
        w_version w \<le> w_version e \<and>
        (w_version w = w_version e \<longrightarrow> w_worker_id w \<notin> fst ` set (wp_warm_idle_since wp)))"

lemma held_ok_shrink:
  assumes "held_ok held wp" and "fst ` set (wp_warm_idle_since wp') \<subseteq> fst ` set (wp_warm_idle_since wp)"
    and "\<And>k e. dget (wp_store wp') k = Some e \<Longrightarrow> k \<in> w_worker_id ` held \<Longrightarrow> dget (wp_store wp) k = Some e"
  shows "held_ok held wp'"
  using assms unfolding held_ok_def by blast

lemma dget_filter_keys: "dget (filter (\<lambda>(k, w). P k) d) k = (if P k then dget d k else None)"
  by (induction d) auto

lemma in_registry:
  "(k, t) \<in> set (ddel k' d) \<Longrightarrow> k \<in> fst ` set d"
  "(k, t) \<in> set (dput k' v d) \<Longrightarrow> k \<noteq> k' \<Longrightarrow> k \<in> fst ` set d"
proof -
  show "(k, t) \<in> set (ddel k' d) \<Longrightarrow> k \<in> fst ` set d"
    using ddel_keys [of k' d] imageI [of "(k, t)" "set (ddel k' d)" fst] by simp
  show "(k, t) \<in> set (dput k' v d) \<Longrightarrow> k \<noteq> k' \<Longrightarrow> k \<in> fst ` set d"
    using dput_keys [of k' v d] imageI [of "(k, t)" "set (dput k' v d)" fst] by simp
qed

lemma acquire_effect:
  assumes inv: "wp_inv wp" and run: "acquire_worker c wp = (r, wp')"
  shows "fst ` set (wp_warm_idle_since wp') \<subseteq> fst ` set (wp_warm_idle_since wp)"
    and "dget (wp_store wp') k = dget (wp_store wp) k \<or> dget (wp_store wp) k = None \<and> (\<exists>w. r = Inr w \<and> k = w_worker_id w)"
proof -
  have ok: "wp_ok wp" and fresh: "factory_fresh (wp_sandbox_pool wp) (wp_env wp)"
    using inv by (simp_all add: wp_inv_def factory_ok_fresh)
  have "fst ` set (wp_warm_idle_since wp') \<subseteq> fst ` set (wp_warm_idle_since wp) \<and>
    (dget (wp_store wp') k = dget (wp_store wp) k \<or> dget (wp_store wp) k = None \<and> (\<exists>w. r = Inr w \<and> k = w_worker_id w))"
  proof (cases "list_idle c (wp_store wp) = []")
    case True
    with run have mat: "materialise_worker wp = (r, wp')" by (simp add: acquire_miss)
    show ?thesis using materialise_worker_spec [OF ok fresh mat] by (cases r) (auto simp: dict_simps)
  next
    case False
    from acquire_warm [OF False] run show ?thesis by (auto simp: draw_def dest: in_registry)
  qed
  then show "fst ` set (wp_warm_idle_since wp') \<subseteq> fst ` set (wp_warm_idle_since wp)"
    and "dget (wp_store wp') k = dget (wp_store wp) k \<or> dget (wp_store wp) k = None \<and> (\<exists>w. r = Inr w \<and> k = w_worker_id w)"
    by simp_all
qed

lemma claim_for_actor_cases:
  assumes "claim_for_actor w asg wp = (r, wp')"
  obtains e where "r = Inl e" "wp' = wp"
  | e w' where "r = Inr w'" "dget (wp_store wp) (w_worker_id w) = Some e" "w_version e = w_version w"
      "w' = e\<lparr>w_assignment := Some asg, w_version := w_version w + 1\<rparr>"
      "wp' = wp\<lparr>wp_store := dput (w_worker_id w) w' (wp_store wp)\<rparr>"
proof (cases r)
  case (Inl e)
  then have "wp' = wp" using assms worker_cas.cas_refused [of "w_worker_id w" "Claim asg"]
    by (auto simp: claim_for_actor_def split: prod.splits)
  with Inl that(1) show ?thesis by blast
next
  case (Inr w')
  with assms that(2) show ?thesis by (auto simp: claim_for_actor_def worker_claim_Inr split: prod.splits)
qed

lemma retire_fields:
  "wp_store (retire w wp) = ddel (w_worker_id w) (wp_store wp)"
  "wp_warm_idle_since (retire w wp) = ddel (w_worker_id w) (wp_warm_idle_since wp)"
  by (simp_all add: retire_def Let_def worker_delete_def split: option.split)

text \<open>A release is refused, or moves the record past the version it was made from.\<close>

lemma release_effect:
  assumes inv: "wp_inv wp"
  shows "wp_inv (snd (release_worker w drain wp))"
    and "k \<noteq> w_worker_id w \<Longrightarrow> dget (wp_store (snd (release_worker w drain wp))) k = dget (wp_store wp) k"
    and "k \<noteq> w_worker_id w \<Longrightarrow> k \<in> fst ` set (wp_warm_idle_since (snd (release_worker w drain wp))) \<Longrightarrow>
      k \<in> fst ` set (wp_warm_idle_since wp)"
    and "snd (release_worker w drain wp) = wp \<or>
      (\<forall>e e'. dget (wp_store (snd (release_worker w drain wp))) (w_worker_id w) = Some e' \<longrightarrow>
         dget (wp_store wp) (w_worker_id w) = Some e \<longrightarrow> w_version e' = w_version e + 1)"
proof -
  let ?k = "w_worker_id w"
  have ok: "wp_ok wp" using inv by (simp add: wp_inv_def)
  obtain r st where rel: "worker_release ?k (w_version w) (wp_store wp) = (r, st)" by fastforce
  have "wp_inv (snd (release_worker w drain wp)) \<and>
    (k \<noteq> ?k \<longrightarrow> dget (wp_store (snd (release_worker w drain wp))) k = dget (wp_store wp) k) \<and>
    (k \<noteq> ?k \<longrightarrow> k \<in> fst ` set (wp_warm_idle_since (snd (release_worker w drain wp))) \<longrightarrow>
      k \<in> fst ` set (wp_warm_idle_since wp)) \<and>
    (snd (release_worker w drain wp) = wp \<or>
      (\<forall>e e'. dget (wp_store (snd (release_worker w drain wp))) ?k = Some e' \<longrightarrow>
         dget (wp_store wp) ?k = Some e \<longrightarrow> w_version e' = w_version e + 1))"
  proof (cases r)
    case (Inl e)
    then show ?thesis using rel inv by (simp add: release_worker_def)
  next
    case (Inr w')
    from rel Inr obtain e where e: "dget (wp_store wp) ?k = Some e" "w_version e = w_version w"
      and w': "w' = e\<lparr>w_assignment := None, w_version := w_version w + 1\<rparr>"
      and st: "st = dput ?k w' (wp_store wp)" by (auto simp: worker_release_Inr)
    have id': "w_worker_id w' = ?k" using ok e w' by (auto simp: wp_ok_def dest: worker_store_ok_get)
    let ?wp1 = "wp\<lparr>wp_store := st\<rparr>"
    let ?warm = "?wp1\<lparr>wp_warm_idle_since := dput ?k (wp_now wp) (wp_warm_idle_since wp)\<rparr>"
    have "snd (release_worker w drain wp) = retire w' ?wp1 \<or> snd (release_worker w drain wp) = ?warm"
      using rel Inr id' by (simp add: release_worker_def Let_def)
    moreover have "factory_ok (wp_sandbox_pool (retire w' ?wp1)) (wp_env (retire w' ?wp1))"
    proof -
      have fac: "factory_ok (wp_sandbox_pool wp) (wp_env wp)" using inv by (simp add: wp_inv_def)
      have "pool_known (pool_release sb b t (wp_sandbox_pool wp)) \<subseteq> pool_known (wp_sandbox_pool wp)" for sb b t
        using pool_release_effect [of "wp_sandbox_pool wp" sb b t] ok by (auto simp: wp_ok_def pool_effect_def)
      from factory_ok_shrink [OF fac this] fac show ?thesis by (auto simp: retire_def Let_def split: option.split)
    qed
    moreover have "factory_ok (wp_sandbox_pool ?warm) (wp_env ?warm)" using inv by (simp add: wp_inv_def)
    ultimately show ?thesis
      using release_worker_ok [OF ok, of w drain] e w' st id'
      by (auto simp: wp_inv_def retire_fields dict_simps dest: in_registry)
  qed
  then show "wp_inv (snd (release_worker w drain wp))"
    and "k \<noteq> ?k \<Longrightarrow> dget (wp_store (snd (release_worker w drain wp))) k = dget (wp_store wp) k"
    and "k \<noteq> ?k \<Longrightarrow> k \<in> fst ` set (wp_warm_idle_since (snd (release_worker w drain wp))) \<Longrightarrow>
      k \<in> fst ` set (wp_warm_idle_since wp)"
    and "snd (release_worker w drain wp) = wp \<or>
      (\<forall>e e'. dget (wp_store (snd (release_worker w drain wp))) ?k = Some e' \<longrightarrow>
         dget (wp_store wp) ?k = Some e \<longrightarrow> w_version e' = w_version e + 1)"
    by blast+
qed

lemma aclose_effect:
  assumes inv: "wp_inv wp"
  shows "wp_inv (wp_aclose wp)"
    and "dget (wp_store (wp_aclose wp)) k = Some e \<Longrightarrow> dget (wp_store wp) k = Some e"
    and "fst ` set (wp_warm_idle_since (wp_aclose wp)) \<subseteq> fst ` set (wp_warm_idle_since wp)"
proof -
  have ok: "wp_ok wp" using inv by (simp add: wp_inv_def)
  have "wp_inv (wp_aclose wp) \<and> (dget (wp_store (wp_aclose wp)) k = Some e \<longrightarrow> dget (wp_store wp) k = Some e) \<and>
    fst ` set (wp_warm_idle_since (wp_aclose wp)) \<subseteq> fst ` set (wp_warm_idle_since wp)"
  proof (cases "wp_closed wp")
    case False
    let ?wp1 = "wp\<lparr>wp_closed := True, wp_sweep_task := False, wp_warm_idle_since := []\<rparr>"
    have "wp_inv ?wp1" using inv by (simp add: wp_inv_def wp_ok_def warm_ok_def)
    then have "wp_inv (wp_aclose wp)" using False by (simp add: wp_aclose_def Let_def fold_retire_inv)
    with wp_aclose_spec [OF ok False] show ?thesis by (auto simp: dget_filter_keys)
  qed (use inv in \<open>simp add: wp_aclose_def\<close>)
  then show "wp_inv (wp_aclose wp)"
    and "dget (wp_store (wp_aclose wp)) k = Some e \<Longrightarrow> dget (wp_store wp) k = Some e"
    and "fst ` set (wp_warm_idle_since (wp_aclose wp)) \<subseteq> fst ` set (wp_warm_idle_since wp)" by simp_all
qed

lemma wp_step_inv:
  "wp_step x y \<Longrightarrow> wp_inv (fst x) \<and> held_ok (snd x) (fst x) \<Longrightarrow> wp_inv (fst y) \<and> held_ok (snd y) (fst y)"
proof (induction rule: wp_step.induct)
  case (acquired c wp w wp' held)
  then have inv: "wp_inv wp" and H: "held_ok held wp" by simp_all
  note A = acquire_worker_inv [OF inv acquired(1)] and E = acquire_effect [OF inv acquired(1)]
  have "held_ok held wp'"
  proof (rule held_ok_shrink [OF H E(1)])
    fix k e
    assume "dget (wp_store wp') k = Some e" "k \<in> w_worker_id ` held"
    then show "dget (wp_store wp) k = Some e" using E(2) [of k] acquired(2) by (metis sum.inject(2))
  qed
  then show ?case using A(1) A(3) [OF refl] by (auto simp: held_ok_def)
next
  case (not_acquired c wp e wp' held)
  then have inv: "wp_inv wp" and H: "held_ok held wp" by simp_all
  note E = acquire_effect [OF inv not_acquired(1)]
  have "held_ok held wp'" by (rule held_ok_shrink [OF H E(1)]) (use E(2) in auto)
  then show ?case using acquire_worker_inv(1) [OF inv not_acquired(1)] by simp
next
  case (claimed w held asg wp w' wp')
  then have inv: "wp_inv wp" and H: "held_ok held wp" and ok: "wp_ok wp" by (simp_all add: wp_inv_def)
  from claim_for_actor_cases [OF claimed(2)] obtain e where e: "dget (wp_store wp) (w_worker_id w) = Some e"
    "w_version e = w_version w" "w' = e\<lparr>w_assignment := Some asg, w_version := w_version w + 1\<rparr>"
    "wp' = wp\<lparr>wp_store := dput (w_worker_id w) w' (wp_store wp)\<rparr>" by auto
  have cold: "w_worker_id w \<notin> fst ` set (wp_warm_idle_since wp)" using H claimed(1) e by (auto simp: held_ok_def)
  have id': "w_worker_id w' = w_worker_id w" using ok e by (auto simp: wp_ok_def dest: worker_store_ok_get)
  have "held_ok (insert w' held) wp'" using H e cold id' by (fastforce simp: held_ok_def dict_simps)
  moreover have "wp_ok wp'" by (rule claim_for_actor_ok [OF ok cold claimed(2)])
  ultimately show ?case using inv claim_for_actor_fields [OF claimed(2)] by (simp add: wp_inv_def)
next
  case (not_claimed w asg wp e wp' held)
  then show ?case by (auto elim: claim_for_actor_cases)
next
  case (released wp held w drain)
  then have inv: "wp_inv wp" and H: "held_ok held wp" by simp_all
  note R = release_effect [OF inv, where w = w and drain = drain]
  let ?wp' = "snd (release_worker w drain wp)"
  have "w_version h \<le> w_version e \<and> (w_version h = w_version e \<longrightarrow> w_worker_id h \<notin> fst ` set (wp_warm_idle_since ?wp'))"
    if h: "h \<in> held" "dget (wp_store ?wp') (w_worker_id h) = Some e" for h e
  proof (cases "w_worker_id h = w_worker_id w \<and> ?wp' \<noteq> wp")
    case True
    have "dget (wp_store wp) (w_worker_id w) \<noteq> None"
      using True by (auto simp: release_worker_def worker_release_def Let_def split: option.splits if_splits)
    then obtain e0 where e0: "dget (wp_store wp) (w_worker_id w) = Some e0" by auto
    with R(4) True h have "w_version e = w_version e0 + 1" by auto
    moreover have "w_version h \<le> w_version e0" using H h(1) e0 True by (auto simp: held_ok_def)
    ultimately show ?thesis by simp
  next
    case False
    then consider "?wp' = wp" | "w_worker_id h \<noteq> w_worker_id w" by blast
    then have "dget (wp_store wp) (w_worker_id h) = Some e \<and>
      (w_worker_id h \<in> fst ` set (wp_warm_idle_since ?wp') \<longrightarrow> w_worker_id h \<in> fst ` set (wp_warm_idle_since wp))"
    proof cases
      case 1
      then show ?thesis using h(2) by metis
    next
      case 2
      then show ?thesis using h(2) R(2,3) [OF 2] by metis
    qed
    then show ?thesis using H h(1) unfolding held_ok_def by blast
  qed
  then have "held_ok held ?wp'" unfolding held_ok_def by blast
  then show ?case using R(1) by simp
next
  case (swept wp held)
  then have inv: "wp_inv wp" and H: "held_ok held wp" and ok: "wp_ok wp" by (simp_all add: wp_inv_def)
  have "held_ok held (wp_sweep_once wp)"
    by (rule held_ok_shrink [OF H]) (use wp_sweep_spec [OF ok] in \<open>auto simp: dget_filter_keys split: if_splits\<close>)
  then show ?case using wp_sweep_once_inv [OF inv] by simp
next
  case (closed wp held)
  then have inv: "wp_inv wp" and H: "held_ok held wp" by simp_all
  have "held_ok held (wp_aclose wp)"
    by (rule held_ok_shrink [OF H aclose_effect(3) [OF inv]]) (use aclose_effect(2) [OF inv] in blast)
  then show ?case using aclose_effect(1) [OF inv] by simp
next
  case (started wp held)
  then show ?case by (auto simp: wp_start_def held_ok_def wp_inv_def wp_ok_def warm_ok_def)
next
  case (moved_on wp held now objs)
  then show ?case by (simp add: held_ok_def wp_inv_def wp_ok_def warm_ok_def)
qed

lemma wp_reach_inv: "wp_reach wp0 x \<Longrightarrow> wp_inv wp0 \<Longrightarrow> wp_inv (fst x) \<and> held_ok (snd x) (fst x)"
proof (induction rule: wp_reach.induct)
  case (step x y)
  then show ?case using wp_step_inv by blast
qed (simp add: held_ok_def)


section \<open>Properties\<close>

text \<open>A pool with one warm worker, hosting sandbox 7.\<close>

definition demo_warm_worker :: worker where
  "demo_warm_worker =
     \<lparr>w_worker_id = ''w-1'', w_state = ACTIVE, w_sandbox_class = VFS, w_version = 3,
      w_assignment = None, w_labels = [], w_node = None, w_sandbox = Some 7\<rparr>"

definition demo_warm_pool :: worker_pool where
  "demo_warm_pool = (worker_pool_init [(''w-1'', demo_warm_worker)]
     ((projr (pool_init 2 0 60 10 30 False ''fifo'' False 0))\<lparr>p_in_use := {7}\<rparr>) 4 60 10 [] None
     \<lparr>pe_factory = (\<lambda>n. Inr (100 + n)), pe_factory_calls = 0, pe_probe = (\<lambda>n. Inr True), pe_probe_calls = 0\<rparr>
     (\<lambda>sb. \<lparr>sb_kind = Some ''vfs'', sb_is_alive = Some True\<rparr>) (\<lambda>n. n))\<lparr>wp_warm_idle_since := [(''w-1'', 1)], wp_now := 100\<rparr>"

lemma demo_warm_ok: "wp_ok demo_warm_pool"
  by (auto simp: wp_ok_def demo_warm_pool_def worker_pool_init_def worker_store_ok_def dict_ok_def demo_warm_worker_def
    pool_ok_def pool_init_def parse_strategy_def count_defs hosts_ok_def hosts_def warm_ok_def)

lemma demo_warm_fresh: "factory_fresh (wp_sandbox_pool demo_warm_pool) (wp_env demo_warm_pool)"
  by (simp add: factory_fresh_def demo_warm_pool_def worker_pool_init_def pool_init_def parse_strategy_def pool_known_def)

text \<open>
  C28: Acquiring keeps the pool consistent, and what it returns is a registered idle worker that
  has left the warm registry. When some idle worker meets the constraints, one that meets them
  is returned and neither a record nor a sandbox changes. When none does, a new worker is
  registered around a newly leased sandbox: its labels and node are the pool's and its class is the
  sandbox's, and the constraints play no part in it: any constraints no idle worker meets get the
  same worker, fitting or not.
\<close>

theorem acquire_worker_correct:
  assumes "wp_ok wp" and "factory_fresh (wp_sandbox_pool wp) (wp_env wp)" and "acquire_worker c wp = (Inr w, wp')"
  shows "wp_ok wp' \<and> is_idle w \<and> dget (wp_store wp') (w_worker_id w) = Some w \<and>
    w_worker_id w \<notin> fst ` set (wp_warm_idle_since wp') \<and>
    (if list_idle c (wp_store wp) \<noteq> []
     then w \<in> set (list_idle c (wp_store wp)) \<and> satisfies w c \<and>
       wp_store wp' = wp_store wp \<and> wp_sandbox_pool wp' = wp_sandbox_pool wp
     else dget (wp_store wp) (w_worker_id w) = None \<and> wp_store wp' = dput (w_worker_id w) w (wp_store wp) \<and>
       w_version w = 1 \<and> w_labels w = wp_labels wp \<and> w_node w = wp_node wp \<and>
       (\<exists>sb. w_sandbox w = Some sb \<and> sb \<notin> p_in_use (wp_sandbox_pool wp) \<and> sb \<in> p_in_use (wp_sandbox_pool wp') \<and>
          w_sandbox_class w = infer_sandbox_class (wp_objs wp sb)) \<and>
       (\<forall>c'. list_idle c' (wp_store wp) = [] \<longrightarrow> acquire_worker c' wp = (Inr w, wp')))"
proof (cases "list_idle c (wp_store wp) = []")
  case False
  then have "w \<in> set (list_idle c (wp_store wp))" "wp_store wp' = wp_store wp" "wp_sandbox_pool wp' = wp_sandbox_pool wp"
    using acquire_warm [OF False] assms(3) by (auto simp: draw_def)
  with False acquire_worker_ok [OF assms] list_idle_satisfies show ?thesis by auto
next
  case True
  with assms(3) have mat: "materialise_worker wp = (Inr w, wp')" by (simp add: acquire_miss)
  then have "\<forall>c'. list_idle c' (wp_store wp) = [] \<longrightarrow> acquire_worker c' wp = (Inr w, wp')" by (simp add: acquire_miss)
  moreover have "hosts_ok (wp_store wp') (wp_sandbox_pool wp')" using acquire_worker_ok [OF assms] by (simp add: wp_ok_def)
  then have "sb \<in> p_in_use (wp_sandbox_pool wp')" if "w_sandbox w = Some sb" for sb
    using acquire_worker_ok [OF assms] that by (auto simp: hosts_ok_def hosts_def split: option.splits)
  ultimately show ?thesis
    using True acquire_worker_ok [OF assms] materialise_worker_spec [OF assms(1,2) mat] by auto
qed

theorem acquire_worker_correct_witness:
  "\<exists>w wp'. acquire_worker \<lparr>c_sandbox_class = MICROVM, c_template_selector = [], c_actor_selector = [], c_required_node = Some ''n9''\<rparr>
      demo_warm_pool = (Inr w, wp') \<and> wp_ok wp' \<and> is_idle w \<and> w_sandbox_class w = VFS \<and> w_node w = None"
proof -
  let ?c = "\<lparr>c_sandbox_class = MICROVM, c_template_selector = [], c_actor_selector = [], c_required_node = Some ''n9''\<rparr>"
  have "list_idle ?c (wp_store demo_warm_pool) = []" by code_simp
  then have "acquire_worker ?c demo_warm_pool = materialise_worker demo_warm_pool" by (rule acquire_miss)
  moreover obtain p env where "pool_acquire (wp_sandbox_pool demo_warm_pool) (wp_env demo_warm_pool) = (Inr 100, p, env)"
    by (simp add: pool_acquire.simps demo_warm_pool_def worker_pool_init_def pool_init_def parse_strategy_def
        acquire_locked_def pop_free_locked_def call_factory_def provision_done_def count_defs)
  moreover have "''w-'' @ uuid_hex12 n \<noteq> ''w-1''" for n
  proof
    assume "''w-'' @ uuid_hex12 n = ''w-1''"
    then have "length (uuid_hex12 n) = 1" by simp
    then show False by (simp add: uuid_hex12_def)
  qed
  ultimately obtain w wp' where acq: "acquire_worker ?c demo_warm_pool = (Inr w, wp')" "w_sandbox_class w = VFS"
    by (auto simp: materialise_worker_def draw_def worker_register_def Let_def demo_warm_pool_def worker_pool_init_def
        infer_sandbox_class_def kind_to_class_def)
  moreover have "list_idle ?c (wp_store demo_warm_pool) = []" by fact
  moreover have "wp_node demo_warm_pool = None" by (simp add: demo_warm_pool_def worker_pool_init_def)
  ultimately show ?thesis using acquire_worker_correct [OF demo_warm_ok demo_warm_fresh acq(1)] by auto
qed

text \<open>
  C15: The pool stays consistent under many callers: whatever sequence of acquires, claims, releases
  (of records the callers were handed at any time, or of any other record), sweeps, starts and
  closings runs on a consistent pool, every sandbox a registered worker hosts is leased from the
  sandbox pool and hosted by no other worker, the warm registry is within its cap, and no
  assigned worker is in it, so the sweeper never retires a worker that serves an actor. Claims are
  of records handed out by an acquire or a claim; the ids drawn do not repeat.
\<close>

theorem worker_pool_consistent:
  assumes "wp_inv wp0" and "wp_reach wp0 (wp, held)"
  shows "(\<forall>wid sb. hosts (wp_store wp) wid = Some sb \<longrightarrow> sb \<in> p_in_use (wp_sandbox_pool wp)) \<and>
    (\<forall>wid wid' sb. hosts (wp_store wp) wid = Some sb \<longrightarrow> hosts (wp_store wp) wid' = Some sb \<longrightarrow> wid = wid') \<and>
    int (length (wp_warm_idle_since wp)) \<le> max 0 (wp_max_warm_idle wp) \<and>
    (\<forall>wid w. dget (wp_store wp) wid = Some w \<longrightarrow> w_assignment w \<noteq> None \<longrightarrow>
       wid \<notin> fst ` set (wp_warm_idle_since wp) \<and> dget (wp_store (wp_sweep_once wp)) wid = Some w)"
proof -
  have ok: "wp_ok wp" using wp_reach_inv [OF assms(2,1)] by (simp add: wp_inv_def)
  have cold: "wid \<notin> fst ` set (wp_warm_idle_since wp)"
    if "dget (wp_store wp) wid = Some w" "w_assignment w \<noteq> None" for wid w
    using ok that unfolding wp_ok_def warm_ok_def by fastforce
  moreover have "dget (wp_store (wp_sweep_once wp)) wid = Some w"
    if "dget (wp_store wp) wid = Some w" "w_assignment w \<noteq> None" for wid w
  proof -
    have "wid \<notin> set (sweep_expired wp)" using cold [OF that] by (force simp: sweep_expired_def)
    with wp_sweep_spec [OF ok] that(1) show ?thesis by (simp add: dget_filter_keys)
  qed
  moreover have "hosts_ok (wp_store wp) (wp_sandbox_pool wp)" "warm_ok wp" using ok by (simp_all add: wp_ok_def)
  ultimately show ?thesis unfolding hosts_ok_def warm_ok_def by (intro conjI allI impI) (elim conjE; blast)+
qed

lemma demo_warm_inv: "wp_inv demo_warm_pool"
  using demo_warm_ok
  by (auto simp: wp_inv_def factory_ok_def pool_known_def demo_warm_pool_def worker_pool_init_def pool_init_def parse_strategy_def)

definition demo_vfs_need :: constraints where
  "demo_vfs_need = \<lparr>c_sandbox_class = VFS, c_template_selector = [], c_actor_selector = [], c_required_node = None\<rparr>"

definition demo_serving :: worker_pool where
  "demo_serving = snd (claim_for_actor demo_warm_worker
     \<lparr>wa_actor_id = ''a'', wa_worker_id = ''w-1'', wa_sandbox_class = VFS, wa_node = None, wa_address = None, wa_activated_at = 0\<rparr>
     (snd (acquire_worker demo_vfs_need demo_warm_pool)))"

theorem worker_pool_consistent_witness:
  "\<exists>w. dget (wp_store (wp_sweep_once demo_serving)) ''w-1'' = Some w \<and> w_assignment w \<noteq> None"
proof -
  let ?asg = "\<lparr>wa_actor_id = ''a'', wa_worker_id = ''w-1'', wa_sandbox_class = VFS, wa_node = None, wa_address = None, wa_activated_at = 0\<rparr>"
  have "list_idle demo_vfs_need (wp_store demo_warm_pool) = [demo_warm_worker]" by code_simp
  then obtain wp1 where acq: "acquire_worker demo_vfs_need demo_warm_pool = (Inr demo_warm_worker, wp1)"
    using acquire_warm [of demo_vfs_need demo_warm_pool] by auto
  have st: "dget (wp_store wp1) ''w-1'' = Some demo_warm_worker"
    using acquire_worker_ok [OF demo_warm_ok demo_warm_fresh acq] by (simp add: demo_warm_worker_def)
  have idle: "is_idle demo_warm_worker" "w_worker_id demo_warm_worker = ''w-1''" by (simp_all add: is_idle_def demo_warm_worker_def)
  let ?w = "demo_warm_worker\<lparr>w_assignment := Some ?asg, w_version := w_version demo_warm_worker + 1\<rparr>"
  have claim: "claim_for_actor demo_warm_worker ?asg wp1 = (Inr ?w, demo_serving)"
    and got: "dget (wp_store demo_serving) ''w-1'' = Some ?w"
    using claim_idle [of wp1 demo_warm_worker ?asg] st idle acq by (simp_all add: demo_serving_def dict_simps)
  have "wp_reach demo_warm_pool (wp1, insert demo_warm_worker {})"
    by (rule wp_reach.step [OF wp_reach.start wp_step.acquired [OF acq]]) simp
  from wp_reach.step [OF this wp_step.claimed [OF _ claim]] have
    "wp_reach demo_warm_pool (demo_serving, insert ?w (insert demo_warm_worker {}))" by simp
  from worker_pool_consistent [OF demo_warm_inv this] got have
    "dget (wp_store (wp_sweep_once demo_serving)) ''w-1'' = Some ?w" by fastforce
  then show ?thesis by simp
qed

text \<open>
  The sweeper retires exactly the workers that have been warm for longer than the time to live:
  their records are gone, their sandboxes are back with the sandbox pool, and every other worker
  and every younger registration is untouched.
\<close>

theorem worker_sweep_exact:
  assumes "wp_ok wp"
  shows "wp_ok (wp_sweep_once wp) \<and>
    wp_store (wp_sweep_once wp) = filter (\<lambda>(k, w). k \<notin> set (sweep_expired wp)) (wp_store wp) \<and>
    wp_warm_idle_since (wp_sweep_once wp) =
      filter (\<lambda>(wid, since). \<not> wp_now wp - since > wp_idle_ttl wp) (wp_warm_idle_since wp) \<and>
    p_in_use (wp_sandbox_pool (wp_sweep_once wp)) = p_in_use (wp_sandbox_pool wp) -
      {sb. \<exists>wid \<in> set (sweep_expired wp). hosts (wp_store wp) wid = Some sb}"
  using wp_sweep_spec [OF assms] wp_sweep_once_ok [OF assms] by simp

theorem worker_sweep_exact_witness: "wp_store (wp_sweep_once demo_warm_pool) = []"
proof -
  have "sweep_expired demo_warm_pool = [''w-1'']" by (simp add: sweep_expired_def demo_warm_pool_def worker_pool_init_def)
  with worker_sweep_exact [OF demo_warm_ok] show ?thesis by (simp add: demo_warm_pool_def worker_pool_init_def)
qed

end
