(* ===== verification/Orch_Router.thy ===== *)
theory Orch_Router
  imports Orch_Model
begin

text \<open>
  \<open>_orchestration/router.py\<close>: the in-memory routing table from actors to the assignment of
  the worker that hosts them. The table is keyed by \<open>str(actor)\<close>, so two references with
  one string form share a binding. The contract of the \<open>Router\<close> interface is the locale
  \<open>router\<close>; its laws about other actors hold for references the key tells apart.
\<close>

type_synonym bindings = "(string, worker_assignment) dict"

definition router_resolve :: "actor_ref \<Rightarrow> bindings \<Rightarrow> worker_assignment option" where
  "router_resolve r b = dget b (actor_ref_str r)"

definition router_bind :: "actor_ref \<Rightarrow> worker_assignment \<Rightarrow> bindings \<Rightarrow> bindings" where
  "router_bind r asg b = dput (actor_ref_str r) asg b"

definition router_unbind :: "actor_ref \<Rightarrow> bindings \<Rightarrow> bindings" where
  "router_unbind r b = ddel (actor_ref_str r) b"

definition router_list_bindings :: "bindings \<Rightarrow> (string, worker_assignment) dict" where
  "router_list_bindings b = b"

lemmas router_defs = router_resolve_def router_bind_def router_unbind_def router_list_bindings_def

text \<open>A reference whose namespace has no slash is told apart from every other such one.\<close>

definition plain_ref :: "actor_ref \<Rightarrow> bool" where
  "plain_ref r \<longleftrightarrow> CHR ''/'' \<notin> set (ref_namespace r)"

datatype route_op = Bind actor_ref worker_assignment | Unbind actor_ref

fun route_op_ref :: "route_op \<Rightarrow> actor_ref" where
  "route_op_ref (Bind r asg) = r"
| "route_op_ref (Unbind r) = r"

fun route_op_result :: "route_op \<Rightarrow> worker_assignment option" where
  "route_op_result (Bind r asg) = Some asg"
| "route_op_result (Unbind r) = None"

fun route_run ::
  "(actor_ref \<Rightarrow> worker_assignment \<Rightarrow> 'b \<Rightarrow> 'b) \<Rightarrow> (actor_ref \<Rightarrow> 'b \<Rightarrow> 'b) \<Rightarrow> route_op list \<Rightarrow> 'b \<Rightarrow> 'b"
where
  "route_run bind unbind [] b = b"
| "route_run bind unbind (Bind r asg # xs) b = route_run bind unbind xs (bind r asg b)"
| "route_run bind unbind (Unbind r # xs) b = route_run bind unbind xs (unbind r b)"

locale router =
  fixes resolve :: "actor_ref \<Rightarrow> 'b \<Rightarrow> worker_assignment option"
    and bind :: "actor_ref \<Rightarrow> worker_assignment \<Rightarrow> 'b \<Rightarrow> 'b"
    and unbind :: "actor_ref \<Rightarrow> 'b \<Rightarrow> 'b"
    and ok :: "actor_ref \<Rightarrow> bool"
  assumes resolve_bind: "resolve r (bind r asg b) = Some asg"
    and resolve_unbind: "resolve r (unbind r b) = None"
    and bind_other: "ok r \<Longrightarrow> ok r' \<Longrightarrow> r' \<noteq> r \<Longrightarrow> resolve r' (bind r asg b) = resolve r' b"
    and unbind_other: "ok r \<Longrightarrow> ok r' \<Longrightarrow> r' \<noteq> r \<Longrightarrow> resolve r' (unbind r b) = resolve r' b"
begin

text \<open>What an actor resolves to is decided by the last operation on that actor alone.\<close>

lemma resolve_run:
  "ok r \<Longrightarrow> \<forall>x \<in> set xs. ok (route_op_ref x) \<Longrightarrow>
   resolve r (route_run bind unbind xs b) =
     (case filter (\<lambda>x. route_op_ref x = r) (rev xs) of
        [] \<Rightarrow> resolve r b
      | x # _ \<Rightarrow> route_op_result x)"
proof (induction xs arbitrary: b)
  case (Cons x xs)
  show ?case
  proof (cases "filter (\<lambda>x. route_op_ref x = r) (rev xs)")
    case Nil
    with Cons show ?thesis
      by (cases x)
        (auto simp: resolve_bind resolve_unbind bind_other unbind_other split: list.splits)
  next
    case (Cons y ys)
    with Cons.IH Cons.prems show ?thesis by (cases x) auto
  qed
qed simp

end

interpretation in_memory: router router_resolve router_bind router_unbind plain_ref
  by unfold_locales
    (auto simp: router_defs dict_simps plain_ref_def dest: actor_ref_str_inj)


section \<open>Properties\<close>

text \<open>
  Among references whose namespace holds no slash, what an actor resolves to is decided by the
  last bind or unbind of that actor alone, whatever was done to other actors since.
\<close>

theorem router_last_write:
  assumes "plain_ref r" and "\<forall>x \<in> set xs. plain_ref (route_op_ref x)"
  shows "router_resolve r (route_run router_bind router_unbind xs b) =
    (case filter (\<lambda>x. route_op_ref x = r) (rev xs) of
       [] \<Rightarrow> router_resolve r b
     | x # _ \<Rightarrow> route_op_result x)"
  using assms by (rule in_memory.resolve_run)

definition demo_route :: worker_assignment where
  "demo_route =
     \<lparr>wa_actor_id = ''a'', wa_worker_id = ''w-1'', wa_sandbox_class = VFS, wa_node = None, wa_address = None,
      wa_activated_at = 0\<rparr>"

theorem router_last_write_witness:
  "router_resolve \<lparr>ref_namespace = ''n'', ref_actor_id = ''a''\<rparr>
     (route_run router_bind router_unbind
        [Bind \<lparr>ref_namespace = ''n'', ref_actor_id = ''a''\<rparr> demo_route, Unbind \<lparr>ref_namespace = ''n'', ref_actor_id = ''b''\<rparr>] [])
   = Some demo_route"
proof -
  have "plain_ref \<lparr>ref_namespace = ''n'', ref_actor_id = ''a''\<rparr>"
    and "\<forall>x \<in> set [Bind \<lparr>ref_namespace = ''n'', ref_actor_id = ''a''\<rparr> demo_route,
        Unbind \<lparr>ref_namespace = ''n'', ref_actor_id = ''b''\<rparr>]. plain_ref (route_op_ref x)"
    by (simp_all add: plain_ref_def)
  from router_last_write [OF this, of "[]"] show ?thesis by simp
qed

text \<open>
  The routing key does not tell every two references apart: binding the actor \<open>x/y\<close> of one
  namespace also answers for the actor \<open>y\<close> of the namespace that has \<open>x\<close> appended.
\<close>

theorem router_key_collision:
  "router_resolve \<lparr>ref_namespace = ns @ ''/'' @ x, ref_actor_id = y\<rparr>
     (router_bind \<lparr>ref_namespace = ns, ref_actor_id = x @ ''/'' @ y\<rparr> asg b) = Some asg"
  by (simp add: router_defs dict_simps actor_ref_str_def)

end
