(* ===== verification/Orch_Lifecycle.thy ===== *)
theory Orch_Lifecycle
  imports Sandbox_Prelude
begin

text \<open>
  \<open>_orchestration/lifecycle.py\<close>: the workflow engine. A workflow is a non-empty list of
  steps run in order against one state \<open>'s\<close> (the workflow context together with everything
  the steps touch). A step whose \<open>is_complete\<close> holds is skipped; otherwise \<open>pre_check\<close> and
  \<open>execute\<close> run; the first exception ends the run and leaves the state as it then is.

  The contract the module states for its steps is the locale \<open>idempotent_steps\<close>; under it a
  re-run skips everything that was completed.
\<close>

section \<open>The engine\<close>

record 's wf_step =
  step_name :: string
  step_is_complete :: "'s \<Rightarrow> bool result \<times> 's"
  step_pre_check :: "'s \<Rightarrow> unit result \<times> 's"
  step_execute :: "'s \<Rightarrow> unit result \<times> 's"

definition default_pre_check :: "'s \<Rightarrow> unit result \<times> 's" where
  "default_pre_check s = (Inr (), s)"

definition workflow_init :: "'s wf_step list \<Rightarrow> 's wf_step list result" where
  "workflow_init steps = (if steps = [] then Inl ValueError else Inr steps)"

definition workflow_step :: "'s wf_step \<Rightarrow> 's \<Rightarrow> unit result \<times> 's" where
  "workflow_step st s =
     (case step_is_complete st s of
        (Inl e, s1) \<Rightarrow> (Inl e, s1)
      | (Inr True, s1) \<Rightarrow> (Inr (), s1)
      | (Inr False, s1) \<Rightarrow>
          (case step_pre_check st s1 of
             (Inl e, s2) \<Rightarrow> (Inl e, s2)
           | (Inr _, s2) \<Rightarrow> step_execute st s2))"

fun workflow_run :: "'s wf_step list \<Rightarrow> 's \<Rightarrow> unit result \<times> 's" where
  "workflow_run [] s = (Inr (), s)"
| "workflow_run (st # sts) s =
     (case workflow_step st s of
        (Inl e, s1) \<Rightarrow> (Inl e, s1)
      | (Inr _, s1) \<Rightarrow> workflow_run sts s1)"

section \<open>Composition\<close>

lemma workflow_run_append:
  "workflow_run (xs @ ys) s =
     (case workflow_run xs s of
        (Inl e, s1) \<Rightarrow> (Inl e, s1)
      | (Inr _, s1) \<Rightarrow> workflow_run ys s1)"
  by (induction xs arbitrary: s) (auto split: prod.split sum.split)

lemma workflow_run_Inl:
  "workflow_run sts s = (Inl e, s') \<Longrightarrow>
   \<exists>i s1. i < length sts \<and> workflow_run (take i sts) s = (Inr (), s1) \<and>
          workflow_step (sts ! i) s1 = (Inl e, s')"
proof (induction sts arbitrary: s)
  case (Cons st sts)
  obtain r s1 where st: "workflow_step st s = (r, s1)" by (cases "workflow_step st s")
  show ?case
  proof (cases r)
    case (Inl e')
    with Cons.prems st show ?thesis by (intro exI [of _ 0] exI [of _ s]) auto
  next
    case (Inr u)
    with Cons.prems st have "workflow_run sts s1 = (Inl e, s')" by simp
    from Cons.IH [OF this] obtain i s2 where "i < length sts"
      and "workflow_run (take i sts) s1 = (Inr (), s2)"
      and "workflow_step (sts ! i) s2 = (Inl e, s')" by blast
    with st Inr show ?thesis by (intro exI [of _ "Suc i"] exI [of _ s2]) auto
  qed
qed simp

section \<open>The step contract and resuming\<close>

text \<open>
  \<open>complete st s\<close> says that the step's effect is present. The contract: \<open>is_complete\<close>
  reports it and changes nothing, a successful \<open>execute\<close> brings it about, and no step,
  failing or not, undoes an earlier step's effect.
\<close>

locale idempotent_steps =
  fixes steps :: "'s wf_step list"
    and complete :: "'s wf_step \<Rightarrow> 's \<Rightarrow> bool"
  assumes reports: "st \<in> set steps \<Longrightarrow> step_is_complete st s = (Inr (complete st s), s)"
    and establishes: "st \<in> set steps \<Longrightarrow> step_pre_check st s = (Inr u, s1) \<Longrightarrow>
          step_execute st s1 = (Inr u', s2) \<Longrightarrow> complete st s2"
    and keeps: "st \<in> set steps \<Longrightarrow> st' \<in> set steps \<Longrightarrow> complete st' s \<Longrightarrow>
          complete st' (snd (workflow_step st s))"
begin

lemma skip_complete: "st \<in> set steps \<Longrightarrow> complete st s \<Longrightarrow> workflow_step st s = (Inr (), s)"
  by (simp add: workflow_step_def reports)

lemma step_establishes:
  "st \<in> set steps \<Longrightarrow> workflow_step st s = (Inr u, s') \<Longrightarrow> complete st s'"
  using establishes [of st s]
  by (cases "complete st s")
    (auto simp: workflow_step_def reports split: prod.splits sum.splits)

lemma run_keeps:
  "set sts \<subseteq> set steps \<Longrightarrow> st' \<in> set steps \<Longrightarrow> complete st' s \<Longrightarrow>
   complete st' (snd (workflow_run sts s))"
proof (induction sts arbitrary: s)
  case (Cons st sts)
  with keeps [of st st' s] show ?case
    by (cases "workflow_step st s") (auto split: sum.split)
qed simp

lemma run_establishes:
  "set sts \<subseteq> set steps \<Longrightarrow> workflow_run sts s = (Inr u, s') \<Longrightarrow> \<forall>st \<in> set sts. complete st s'"
proof (induction sts arbitrary: s)
  case (Cons st sts)
  obtain r s1 where st: "workflow_step st s = (r, s1)" by (cases "workflow_step st s")
  with Cons.prems obtain u1 where r: "r = Inr u1" and run: "workflow_run sts s1 = (Inr u, s')"
    by (cases r) auto
  from st r Cons.prems(1) have "complete st s1" by (auto dest: step_establishes)
  with run Cons.prems(1) run_keeps [of sts st s1] have "complete st s'" by simp
  with Cons.IH [OF _ run] Cons.prems(1) show ?case by simp
qed simp

lemma run_skips:
  "set sts \<subseteq> set steps \<Longrightarrow> \<forall>st \<in> set sts. complete st s \<Longrightarrow> workflow_run sts s = (Inr (), s)"
  by (induction sts) (auto simp: skip_complete)

text \<open>
  After a run that failed, a re-run starts at the step that failed; after a run that
  succeeded, a re-run does nothing.
\<close>

lemma rerun_after_failure:
  assumes "workflow_run steps s = (Inl e, s')"
  shows "\<exists>i < length steps. workflow_run steps s' = workflow_run (drop i steps) s'"
proof -
  from workflow_run_Inl [OF assms] obtain i s1 where i: "i < length steps"
    and pre: "workflow_run (take i steps) s = (Inr (), s1)"
    and st: "workflow_step (steps ! i) s1 = (Inl e, s')" by blast
  have sub: "set (take i steps) \<subseteq> set steps" by (rule set_take_subset)
  from run_establishes [OF sub pre] have c1: "\<forall>st \<in> set (take i steps). complete st s1" .
  have "\<forall>st \<in> set (take i steps). complete st s'"
    using c1 sub keeps [of "steps ! i" _ s1] i st by fastforce
  with run_skips [OF sub] have "workflow_run (take i steps) s' = (Inr (), s')" .
  then have "workflow_run (take i steps @ drop i steps) s' = workflow_run (drop i steps) s'"
    unfolding workflow_run_append by simp
  then have "workflow_run steps s' = workflow_run (drop i steps) s'"
    unfolding append_take_drop_id .
  with i show ?thesis by blast
qed

lemma rerun_after_success:
  "workflow_run steps s = (Inr u, s') \<Longrightarrow> workflow_run steps s' = (Inr (), s')"
  using run_establishes [of steps s u s'] by (simp add: run_skips)

end

end
