(* ===== verification/Host_FS.thy ===== *)
theory Host_FS
  imports Sandbox_Prelude "HOL-Library.Sublist"
begin

text \<open>
  The part of Python's standard library the package's file handling rests on: POSIX path
  strings (\<open>os.path.join\<close>, \<open>dirname\<close>, \<open>rstrip(os.sep)\<close>), the file tree with \<open>os.replace\<close>,
  \<open>os.makedirs\<close>, \<open>shutil.rmtree\<close>, \<open>shutil.copytree\<close> and \<open>tempfile.mkdtemp\<close>, tar archives, and
  the number formats that end up in file names.

  A path string denotes the list of its components; the tree is a dictionary from component
  lists to entries, the root directory being always there. The working directory is the
  root, there are no symbolic links, permissions or quotas, and every directory is on one
  file system.
\<close>

section \<open>Path strings\<close>

type_synonym path = "string list"

fun split_on :: "char \<Rightarrow> string \<Rightarrow> string list" where
  "split_on c [] = [[]]"
| "split_on c (x # xs) =
     (if x = c then [] # split_on c xs
      else (case split_on c xs of [] \<Rightarrow> [[x]] | y # ys \<Rightarrow> (x # y) # ys))"

definition path_step :: "path \<Rightarrow> string \<Rightarrow> path" where
  "path_step acc c =
     (if c = [] \<or> c = ''.'' then acc else if c = ''..'' then butlast acc else acc @ [c])"

text \<open>The components a path string denotes, and the string of a component list.\<close>

definition fs_path :: "string \<Rightarrow> path" where
  "fs_path s = foldl path_step [] (split_on CHR ''/'' s)"

definition path_str :: "path \<Rightarrow> string" where
  "path_str p = concat (map (\<lambda>c. CHR ''/'' # c) p)"

definition path_join :: "string \<Rightarrow> string \<Rightarrow> string" where
  "path_join a b =
     (if b \<noteq> [] \<and> hd b = CHR ''/'' then b
      else if a = [] \<or> last a = CHR ''/'' then a @ b
      else a @ ''/'' @ b)"

definition rstrip_sep :: "string \<Rightarrow> string" where
  "rstrip_sep s = rev (dropWhile (\<lambda>c. c = CHR ''/'') (rev s))"

definition path_dirname :: "string \<Rightarrow> string" where
  "path_dirname s =
     (let head = rev (dropWhile (\<lambda>c. c \<noteq> CHR ''/'') (rev s))
      in if rstrip_sep head = [] then head else rstrip_sep head)"

definition comp_ok :: "string \<Rightarrow> bool" where
  "comp_ok c \<longleftrightarrow> c \<noteq> [] \<and> CHR ''/'' \<notin> set c \<and> c \<noteq> ''.'' \<and> c \<noteq> ''..''"

section \<open>The tree\<close>

text \<open>
  File contents: plain bytes, a tar archive (its compression and its members) or a JSON
  document; \<open>json.load\<close> and \<open>tarfile.open\<close> give back what was written.
\<close>

datatype json = JNull | JNum rat | JStr string | JObj "(string \<times> json) list"

datatype entry = DirE | FileE blob
and blob = Raw string | Tar string "(path \<times> entry) list" | Json json

type_synonym fs = "(path, entry) dict"

definition fs_lookup :: "fs \<Rightarrow> path \<Rightarrow> entry option" where
  "fs_lookup f p = (if p = [] then Some DirE else dget f p)"

definition fs_isdir :: "fs \<Rightarrow> path \<Rightarrow> bool" where
  "fs_isdir f p \<longleftrightarrow> fs_lookup f p = Some DirE"

definition fs_exists :: "fs \<Rightarrow> path \<Rightarrow> bool" where
  "fs_exists f p \<longleftrightarrow> fs_lookup f p \<noteq> None"

definition fs_isfile :: "fs \<Rightarrow> path \<Rightarrow> bool" where
  "fs_isfile f p \<longleftrightarrow> (case fs_lookup f p of Some (FileE _) \<Rightarrow> True | _ \<Rightarrow> False)"

text \<open>Everything below a path, with names relative to it, and the tree without it.\<close>

definition fs_subtree :: "path \<Rightarrow> fs \<Rightarrow> fs" where
  "fs_subtree p f =
     map (\<lambda>(q, e). (drop (length p) q, e)) (filter (\<lambda>(q, e). strict_prefix p q) f)"

definition fs_remove :: "path \<Rightarrow> fs \<Rightarrow> fs" where
  "fs_remove p f = filter (\<lambda>(q, e). \<not> prefix p q) f"

definition fs_graft :: "path \<Rightarrow> fs \<Rightarrow> fs \<Rightarrow> fs" where
  "fs_graft p t f = fold (\<lambda>(q, e) f. if q = [] then f else dput (p @ q) e f) t f"

definition fs_unlink :: "path \<Rightarrow> fs \<Rightarrow> fs" where
  "fs_unlink p f = ddel p f"

text \<open>What the kernel answers for a path whose directory is not there.\<close>

definition fs_missing :: "fs \<Rightarrow> path \<Rightarrow> exn" where
  "fs_missing f p = (if list_ex (fs_isfile f) (prefixes p) then OSError else FileNotFoundError)"

definition fs_write :: "path \<Rightarrow> blob \<Rightarrow> fs \<Rightarrow> unit result \<times> fs" where
  "fs_write p b f =
     (if fs_isdir f p then (Inl OSError, f)
      else if \<not> fs_isdir f (butlast p) then (Inl (fs_missing f (butlast p)), f)
      else (Inr (), dput p (FileE b) f))"

text \<open>\<open>os.makedirs(exist_ok=True)\<close>: every missing ancestor, then the directory.\<close>

fun fs_makedirs_from :: "path \<Rightarrow> path \<Rightarrow> fs \<Rightarrow> unit result \<times> fs" where
  "fs_makedirs_from base [] f = (Inr (), f)"
| "fs_makedirs_from base (c # cs) f =
     (let p = base @ [c] in
      case fs_lookup f p of
        None \<Rightarrow> fs_makedirs_from p cs (dput p DirE f)
      | Some DirE \<Rightarrow> fs_makedirs_from p cs f
      | Some (FileE _) \<Rightarrow> (Inl OSError, f))"

definition fs_makedirs :: "path \<Rightarrow> fs \<Rightarrow> unit result \<times> fs" where
  "fs_makedirs p f = fs_makedirs_from [] p f"

text \<open>\<open>shutil.rmtree\<close>, raising and with \<open>ignore_errors\<close>; a file is not a tree.\<close>

definition fs_rmtree :: "path \<Rightarrow> fs \<Rightarrow> unit result \<times> fs" where
  "fs_rmtree p f =
     (case fs_lookup f p of
        None \<Rightarrow> (Inl (fs_missing f p), f)
      | Some DirE \<Rightarrow> (Inr (), fs_remove p f)
      | Some (FileE _) \<Rightarrow> (Inl OSError, f))"

definition fs_rmtree_ignore :: "path \<Rightarrow> fs \<Rightarrow> fs" where
  "fs_rmtree_ignore p f = snd (fs_rmtree p f)"

text \<open>
  \<open>os.replace\<close> is rename(2): a directory replaces only an empty directory, a file only a
  file, and a directory cannot be moved below itself.
\<close>

definition fs_move :: "path \<Rightarrow> path \<Rightarrow> fs \<Rightarrow> fs" where
  "fs_move a b f =
     map (\<lambda>(q, e). (if prefix a q then b @ drop (length a) q else q, e)) (fs_remove b f)"

definition fs_replace :: "path \<Rightarrow> path \<Rightarrow> fs \<Rightarrow> unit result \<times> fs" where
  "fs_replace a b f =
     (case fs_lookup f a of
        None \<Rightarrow> (Inl (fs_missing f a), f)
      | Some e \<Rightarrow>
          if a = b then (Inr (), f)
          else if prefix a b \<or> prefix b a then (Inl OSError, f)
          else if \<not> fs_isdir f (butlast b) then (Inl (fs_missing f (butlast b)), f)
          else (case fs_lookup f b of
              None \<Rightarrow> (Inr (), fs_move a b f)
            | Some DirE \<Rightarrow>
                if e = DirE \<and> fs_subtree b f = [] then (Inr (), fs_move a b f) else (Inl OSError, f)
            | Some (FileE _) \<Rightarrow>
                if e = DirE then (Inl OSError, f) else (Inr (), fs_move a b f)))"

text \<open>\<open>shutil.copytree\<close> to a destination that must not exist, and unpacking over a directory.\<close>

definition fs_copytree :: "path \<Rightarrow> path \<Rightarrow> fs \<Rightarrow> unit result \<times> fs" where
  "fs_copytree src dst f =
     (if \<not> fs_isdir f src then (Inl (fs_missing f src), f)
      else if fs_exists f dst then (Inl OSError, f)
      else (case fs_makedirs dst f of
          (Inl e, f1) \<Rightarrow> (Inl e, f1)
        | (Inr _, f1) \<Rightarrow> (Inr (), fs_graft dst (fs_subtree src f) f1)))"

text \<open>
  \<open>tarfile.open\<close>: the write mode names the compression; the plain read mode accepts every
  compression, \<open>r:gz\<close> and its like only their own.
\<close>

definition tar_mode_ok :: "string \<Rightarrow> bool" where
  "tar_mode_ok c \<longleftrightarrow> c = [] \<or> c = ''gz'' \<or> c = ''bz2'' \<or> c = ''xz''"

definition tar_pack :: "string \<Rightarrow> path \<Rightarrow> fs \<Rightarrow> blob result" where
  "tar_pack c p f =
     (if tar_mode_ok c then Inr (Tar c (fs_subtree p f)) else Inl (OtherError ''CompressionError''))"

definition tar_unpack :: "string \<Rightarrow> blob \<Rightarrow> path \<Rightarrow> fs \<Rightarrow> unit result \<times> fs" where
  "tar_unpack c b p f =
     (if \<not> tar_mode_ok c then (Inl (OtherError ''CompressionError''), f)
      else case b of
        Tar c' t \<Rightarrow>
          if c = [] \<or> c' = c then (Inr (), fs_graft p t f) else (Inl (OtherError ''ReadError''), f)
      | _ \<Rightarrow> (Inl (OtherError ''ReadError''), f))"

section \<open>Numbers in names\<close>

definition digit_char :: "nat \<Rightarrow> char" where
  "digit_char d = ''0123456789'' ! (d mod 10)"

fun show_nat :: "nat \<Rightarrow> string" where
  "show_nat n = (if n < 10 then [digit_char n] else show_nat (n div 10) @ [digit_char n])"

declare show_nat.simps [simp del]

definition show_int :: "int \<Rightarrow> string" where
  "show_int i = (if i < 0 then ''-'' @ show_nat (nat (- i)) else show_nat (nat i))"

definition round_half_even :: "rat \<Rightarrow> int" where
  "round_half_even r =
     (let n = \<lfloor>r\<rfloor>; d = r - of_int n in
      if d < 1 / 2 then n else if d > 1 / 2 then n + 1 else if even n then n else n + 1)"

text \<open>The format \<open>:.6f\<close>.\<close>

definition show_fixed6 :: "rat \<Rightarrow> string" where
  "show_fixed6 r =
     (let u = round_half_even (\<bar>r\<bar> * 1000000);
          frac = map (\<lambda>i. digit_char (nat u div 10 ^ i)) (rev [0..<6])
      in (if r < 0 then ''-'' else '''') @ show_nat (nat u div 1000000) @ ''.'' @ frac)"

section \<open>The host\<close>

text \<open>
  What the code reads of its surroundings: the tree, the wall and monotonic clocks, the
  process id, the random names of \<open>tempfile\<close>, and the digest and size of a file content.
\<close>

record host =
  h_fs :: fs
  h_time :: time
  h_mono :: time
  h_pid :: nat
  h_names :: "nat \<Rightarrow> string"
  h_nnames :: nat
  h_digest :: "blob \<Rightarrow> string"
  h_size :: "blob \<Rightarrow> nat"

text \<open>
  \<open>tempfile.mkdtemp\<close>: random names are tried until one is free, at most \<open>TMP_MAX\<close> times.
\<close>

definition tmp_max :: nat where
  "tmp_max = 10000"

fun mkdtemp_try :: "nat \<Rightarrow> string \<Rightarrow> string \<Rightarrow> host \<Rightarrow> string result \<times> host" where
  "mkdtemp_try 0 pre dir h = (Inl OSError, h)"
| "mkdtemp_try (Suc n) pre dir h =
     (let name = path_join dir (pre @ h_names h (h_nnames h));
          h1 = h\<lparr>h_nnames := Suc (h_nnames h)\<rparr>;
          p = fs_path name
      in if fs_exists (h_fs h1) p then mkdtemp_try n pre dir h1
         else if \<not> fs_isdir (h_fs h1) (butlast p) then (Inl (fs_missing (h_fs h1) (butlast p)), h1)
         else (Inr name, h1\<lparr>h_fs := dput p DirE (h_fs h1)\<rparr>))"

definition mkdtemp :: "string \<Rightarrow> string \<Rightarrow> host \<Rightarrow> string result \<times> host" where
  "mkdtemp pre dir h = mkdtemp_try tmp_max pre dir h"

section \<open>Facts about path strings\<close>

lemma split_on_ne [simp]: "split_on c s \<noteq> []"
  by (cases s) (auto split: list.split)

lemma split_on_plain: "c \<notin> set s \<Longrightarrow> split_on c s = [s]"
  by (induction s) auto

lemma split_on_append: "split_on c (s @ c # t) = split_on c s @ split_on c t"
  by (induction s) (auto split: list.split simp: split_on_ne)

lemma split_path_str:
  "\<forall>c \<in> set p. CHR ''/'' \<notin> set c \<Longrightarrow> split_on CHR ''/'' (path_str p) = [] # p"
proof (induction p rule: rev_induct)
  case (snoc c p)
  then have "split_on CHR ''/'' (path_str p @ CHR ''/'' # c) = ([] # p) @ [c]"
    by (simp add: split_on_append split_on_plain)
  then show ?case by (simp add: path_str_def)
qed (simp add: path_str_def)

lemma path_steps_ok: "\<forall>c \<in> set p. comp_ok c \<Longrightarrow> foldl path_step q p = q @ p"
  by (induction p arbitrary: q) (auto simp: path_step_def comp_ok_def)

lemma fs_path_str [simp]: "\<forall>c \<in> set p. comp_ok c \<Longrightarrow> fs_path (path_str p) = p"
  by (simp add: fs_path_def split_path_str comp_ok_def path_step_def)
    (simp add: path_steps_ok comp_ok_def)

lemma path_str_snoc: "path_str (p @ [c]) = path_str p @ CHR ''/'' # c"
  by (simp add: path_str_def)

lemma path_str_ext: "p \<noteq> [] \<Longrightarrow> path_str p @ s = path_str (butlast p @ [last p @ s])"
  by (cases p rule: rev_cases) (simp_all add: path_str_def)

lemma path_join_str:
  "p \<noteq> [] \<Longrightarrow> \<forall>c \<in> set p. comp_ok c \<Longrightarrow> comp_ok d \<Longrightarrow> path_join (path_str p) d = path_str (p @ [d])"
proof (cases p rule: rev_cases)
  case (snoc q c)
  assume ok: "\<forall>c \<in> set p. comp_ok c" "comp_ok d"
  with snoc have c: "c \<noteq> []" "CHR ''/'' \<notin> set c" by (simp_all add: comp_ok_def)
  then have "last c \<noteq> CHR ''/''" using last_in_set [of c] by metis
  with c snoc have "last (path_str p) \<noteq> CHR ''/''" "path_str p \<noteq> []"
    by (simp_all add: path_str_def)
  moreover from ok(2) have d: "d \<noteq> []" "CHR ''/'' \<notin> set d" by (simp_all add: comp_ok_def)
  moreover from d have "hd d \<noteq> CHR ''/''" using hd_in_set [of d] by metis
  ultimately show ?thesis by (simp add: path_join_def path_str_snoc)
qed simp

lemma rstrip_str: "p \<noteq> [] \<Longrightarrow> \<forall>c \<in> set p. comp_ok c \<Longrightarrow> rstrip_sep (path_str p) = path_str p"
proof (cases p rule: rev_cases)
  case (snoc q c)
  assume "\<forall>c \<in> set p. comp_ok c"
  with snoc have "c \<noteq> []" "CHR ''/'' \<notin> set c" by (auto simp: comp_ok_def)
  then obtain c' x where "c = c' @ [x]" "x \<noteq> CHR ''/''" by (cases c rule: rev_cases) auto
  with snoc show ?thesis by (simp add: rstrip_sep_def path_str_def)
qed simp

lemma dropWhile_neq_append:
  "x \<notin> set xs \<Longrightarrow> dropWhile (\<lambda>c. c \<noteq> x) (xs @ x # ys) = x # ys"
  by (induction xs) auto

lemma path_dirname_str:
  assumes "p \<noteq> []" and "\<forall>c \<in> set p. comp_ok c"
  shows "path_dirname (path_str p) = (if butlast p = [] then ''/'' else path_str (butlast p))"
proof (cases p rule: rev_cases)
  case (snoc q c)
  with assms have c: "CHR ''/'' \<notin> set (rev c)" and q: "\<forall>c \<in> set q. comp_ok c"
    by (auto simp: comp_ok_def)
  have "rev (path_str p) = rev c @ CHR ''/'' # rev (path_str q)" by (simp add: snoc path_str_snoc)
  with dropWhile_neq_append [OF c] have head:
    "rev (dropWhile (\<lambda>c. c \<noteq> CHR ''/'') (rev (path_str p))) = path_str q @ ''/''" by simp
  have strip: "rstrip_sep (path_str q @ ''/'') = rstrip_sep (path_str q)"
    by (simp add: rstrip_sep_def)
  show ?thesis
  proof (cases "q = []")
    case True
    with head strip snoc show ?thesis
      by (simp add: path_dirname_def Let_def path_str_def rstrip_sep_def)
  next
    case False
    then have "path_str q \<noteq> []" by (cases q) (simp_all add: path_str_def)
    with False head strip snoc rstrip_str [OF False q] show ?thesis
      by (simp add: path_dirname_def Let_def)
  qed
qed (use assms in simp)

lemma path_sibling:
  assumes "p \<noteq> []" and "\<forall>c \<in> set p. comp_ok c" and "comp_ok d"
  shows "fs_path (path_join (path_dirname (path_str p)) d) = butlast p @ [d]"
    and "path_dirname (path_str p) \<noteq> []"
proof -
  have comps: "\<forall>c \<in> set (butlast p @ [d]). comp_ok c"
    using assms by (auto dest: in_set_butlastD)
  have "path_join (path_dirname (path_str p)) d = path_str (butlast p @ [d])"
  proof (cases "butlast p = []")
    case True
    have "d \<noteq> [] \<and> hd d \<noteq> CHR ''/''" using assms(3) by (cases d) (auto simp: comp_ok_def)
    with True show ?thesis
      unfolding path_dirname_str [OF assms(1,2)] by (simp add: path_join_def path_str_def)
  next
    case False
    have "\<forall>c \<in> set (butlast p). comp_ok c" using assms(2) by (auto dest: in_set_butlastD)
    with False show ?thesis
      by (simp add: path_dirname_str [OF assms(1,2)] path_join_str assms(3))
  qed
  with fs_path_str [OF comps] show "fs_path (path_join (path_dirname (path_str p)) d) = butlast p @ [d]"
    by simp
  show "path_dirname (path_str p) \<noteq> []"
    unfolding path_dirname_str [OF assms(1,2)] by (cases "butlast p") (simp_all add: path_str_def)
qed

section \<open>Facts about the tree\<close>

named_theorems fs_simps \<open>lookups in changed trees\<close>

lemma fs_get_remove [fs_simps]: "dget (fs_remove p f) q = (if prefix p q then None else dget f q)"
  by (induction f) (auto simp: fs_remove_def)

lemma fs_get_subtree [fs_simps]:
  "dget (fs_subtree p f) r = (if r = [] then None else dget f (p @ r))"
proof (induction f)
  case (Cons x f)
  obtain q e where x: "x = (q, e)" by (cases x)
  show ?case
  proof (cases "strict_prefix p q")
    case True
    then obtain s where "q = p @ s" "s \<noteq> []" by (auto simp: strict_prefix_def prefix_def)
    with Cons x True show ?thesis by (auto simp: fs_subtree_def)
  next
    case False
    then have "r \<noteq> [] \<Longrightarrow> q \<noteq> p @ r" by (auto simp: strict_prefix_def)
    with Cons x False show ?thesis by (auto simp: fs_subtree_def)
  qed
qed (simp add: fs_subtree_def)

lemma dict_ok_subtree: "dict_ok f \<Longrightarrow> dict_ok (fs_subtree p f)"
proof (induction f)
  case (Cons x f)
  obtain q e where x: "x = (q, e)" by (cases x)
  with Cons.prems have f: "dict_ok f" and q: "dget f q = None" by (auto simp: dict_ok_def dget_None_key)
  show ?case
  proof (cases "strict_prefix p q")
    case True
    then obtain s where s: "q = p @ s" "s \<noteq> []" by (auto simp: strict_prefix_def prefix_def)
    with q have "dget (fs_subtree p f) s = None" by (simp add: fs_simps)
    with Cons.IH [OF f] x True s show ?thesis
      by (auto simp: fs_subtree_def dict_ok_def dget_None_key)
  next
    case False
    with Cons.IH [OF f] x show ?thesis by (simp add: fs_subtree_def)
  qed
qed (simp add: fs_subtree_def)

lemma fs_get_graft:
  "dict_ok t \<Longrightarrow>
   dget (fs_graft p t f) q =
     (case (if strict_prefix p q then dget t (drop (length p) q) else None) of
        Some e \<Rightarrow> Some e
      | None \<Rightarrow> dget f q)"
proof (induction t arbitrary: f)
  case (Cons x t)
  obtain r e where x: "x = (r, e)" by (cases x)
  with Cons.prems have t: "dict_ok t" and r: "dget t r = None" by (auto simp: dict_ok_def dget_None_key)
  have "fs_graft p (x # t) f = fs_graft p t (if r = [] then f else dput (p @ r) e f)"
    by (simp add: fs_graft_def x)
  with Cons.IH [OF t, of "if r = [] then f else dput (p @ r) e f"]
  have step: "dget (fs_graft p (x # t) f) q =
      (case (if strict_prefix p q then dget t (drop (length p) q) else None) of
         Some e' \<Rightarrow> Some e'
       | None \<Rightarrow> if r \<noteq> [] \<and> q = p @ r then Some e else dget f q)"
    by (simp add: dict_simps split: option.split)
  show ?case
  proof (cases "strict_prefix p q")
    case True
    then obtain r' where "q = p @ r'" "r' \<noteq> []" by (elim strict_prefixE') auto
    with step x r True show ?thesis by (simp split: option.split)
  next
    case False
    then have "\<not> (r \<noteq> [] \<and> q = p @ r)" by (auto simp: strict_prefix_def)
    with step False show ?thesis by simp
  qed
qed (simp add: fs_graft_def)

lemma dict_ok_graft: "dict_ok f \<Longrightarrow> dict_ok (fs_graft p t f)"
proof (induction t arbitrary: f)
  case (Cons x t)
  then show ?case by (cases x) (simp add: fs_graft_def)
qed (simp add: fs_graft_def)

lemma dict_ok_remove: "dict_ok f \<Longrightarrow> dict_ok (fs_remove p f)"
  by (simp add: fs_remove_def dict_ok_filter)

lemma fs_get_move:
  assumes "\<not> prefix a b" and "\<not> prefix b a" and "dict_ok f"
  shows "dget (fs_move a b f) q =
    (if prefix b q then dget f (a @ drop (length b) q) else if prefix a q then None else dget f q)"
  using assms(3) unfolding fs_move_def
proof (induction f)
  case (Cons x f)
  obtain k e where x: "x = (k, e)" by (cases x)
  have ab: "\<not> (prefix a k \<and> prefix b k)" for k
    using assms(1,2) prefix_same_cases by blast
  have IH: "dget (map (\<lambda>(q, e). (if prefix a q then b @ drop (length a) q else q, e)) (fs_remove b f)) q =
    (if prefix b q then dget f (a @ drop (length b) q) else if prefix a q then None else dget f q)"
    using Cons by (simp add: dict_ok_def)
  consider (b) "prefix b k" | (a) r where "k = a @ r" "\<not> prefix b k"
    | (other) "\<not> prefix b k" "\<not> prefix a k" by (auto simp: prefix_def)
  then show ?case
  proof cases
    case b
    then have "fs_remove b (x # f) = fs_remove b f" by (simp add: fs_remove_def x)
    moreover have "k \<noteq> a @ drop (length b) q" using b ab [of k] by auto
    moreover have "\<not> prefix b q \<Longrightarrow> k \<noteq> q" using b by auto
    ultimately show ?thesis using IH x by auto
  next
    case a
    have "fs_remove b (x # f) = x # fs_remove b f" using a by (simp add: fs_remove_def x)
    moreover have pa: "prefix a k" using a by simp
    ultimately have lhs: "dget (map (\<lambda>(q, e). (if prefix a q then b @ drop (length a) q else q, e))
        (fs_remove b (x # f))) q = (if q = b @ r then Some e else
      (if prefix b q then dget f (a @ drop (length b) q) else if prefix a q then None else dget f q))"
      using IH a x by simp
    show ?thesis
    proof (cases "prefix b q")
      case True
      then obtain s where "q = b @ s" by (auto simp: prefix_def)
      with lhs a x show ?thesis by simp
    next
      case False
      then have "q \<noteq> b @ r" by auto
      with lhs False pa x show ?thesis by auto
    qed
  next
    case other
    have "fs_remove b (x # f) = x # fs_remove b f" using other by (simp add: fs_remove_def x)
    moreover have "k \<noteq> a @ drop (length b) q" using other by auto
    ultimately show ?thesis using IH other x by auto
  qed
qed (simp add: fs_remove_def)

lemma dict_ok_move:
  assumes "\<not> prefix a b" and "\<not> prefix b a" and "dict_ok f"
  shows "dict_ok (fs_move a b f)"
proof -
  let ?g = "\<lambda>q. if prefix a q then b @ drop (length a) q else q"
  have "inj_on ?g (fst ` set (fs_remove b f))"
  proof (rule inj_onI)
    fix q q' assume q: "q \<in> fst ` set (fs_remove b f)" "q' \<in> fst ` set (fs_remove b f)" "?g q = ?g q'"
    then have nb: "\<not> prefix b q" "\<not> prefix b q'" by (auto simp: fs_remove_def)
    show "q = q'"
    proof (cases "prefix a q"; cases "prefix a q'")
      assume "prefix a q" "prefix a q'"
      then obtain r r' where "q = a @ r" "q' = a @ r'" by (auto simp: prefix_def)
      with q(3) show ?thesis by simp
    next
      assume "prefix a q" "\<not> prefix a q'"
      with q(3) have "q' = b @ drop (length a) q" by simp
      with nb(2) show ?thesis by simp
    next
      assume "\<not> prefix a q" "prefix a q'"
      with q(3) have "q = b @ drop (length a) q'" by simp
      with nb(1) show ?thesis by simp
    next
      assume "\<not> prefix a q" "\<not> prefix a q'"
      with q(3) show ?thesis by simp
    qed
  qed
  moreover have keys: "map fst (fs_move a b f) = map ?g (map fst (fs_remove b f))"
    by (simp add: fs_move_def split_beta)
  moreover have "distinct (map fst (fs_remove b f))"
    using dict_ok_remove [OF assms(3)] by (simp add: dict_ok_def)
  ultimately have "distinct (map ?g (map fst (fs_remove b f)))"
    unfolding distinct_map [of ?g] by (simp only: set_map simp_thms)
  then show ?thesis unfolding dict_ok_def keys .
qed

text \<open>What is at and below a path.\<close>

definition tree_at :: "fs \<Rightarrow> path \<Rightarrow> path \<Rightarrow> entry option" where
  "tree_at f p r = fs_lookup f (p @ r)"

text \<open>No entry hangs below a missing path or a file.\<close>

definition fs_ok :: "fs \<Rightarrow> bool" where
  "fs_ok f \<longleftrightarrow>
     dict_ok f \<and> (\<forall>p c. fs_lookup f (p @ [c]) \<noteq> None \<longrightarrow> fs_isdir f p)"

section \<open>Facts about the operations\<close>

lemma digit_char_no_sep: "digit_char d \<noteq> CHR ''/''"
proof -
  have "d mod 10 < length ''0123456789''" by simp
  from nth_mem [OF this] have "digit_char d \<in> set ''0123456789''" by (simp only: digit_char_def)
  then show ?thesis by auto
qed

lemma show_nat_no_sep: "CHR ''/'' \<notin> set (show_nat n)"
proof (induction n rule: show_nat.induct)
  case (1 n)
  show ?case
    by (subst show_nat.simps) (use 1 digit_char_no_sep [of n, symmetric] in auto)
qed

lemma show_fixed6_no_sep: "CHR ''/'' \<notin> set (show_fixed6 r)"
  by (auto simp: show_fixed6_def Let_def show_nat_no_sep digit_char_no_sep [symmetric])

lemma fs_lookup_dput: "p \<noteq> [] \<Longrightarrow> fs_lookup (dput p e f) q = (if q = p then Some e else fs_lookup f q)"
  by (auto simp: fs_lookup_def dict_simps)

lemma makedirs_from_changes:
  "fs_makedirs_from b cs f = (r, f') \<Longrightarrow> dict_ok f \<Longrightarrow>
   dict_ok f' \<and>
   (\<forall>q. dget f' q = dget f q \<or>
        (dget f q = None \<and> dget f' q = Some DirE \<and> q \<noteq> [] \<and> prefix q (b @ cs))) \<and>
   (r = Inr u \<longrightarrow> fs_isdir f b \<longrightarrow> fs_isdir f' (b @ cs))"
proof (induction cs arbitrary: b f)
  case (Cons c cs)
  let ?p = "b @ [c]"
  show ?case
  proof (cases "fs_lookup f ?p")
    case None
    then have new: "dget f ?p = None" by (simp add: fs_lookup_def)
    from None Cons.prems have rec: "fs_makedirs_from ?p cs (dput ?p DirE f) = (r, f')"
      by (simp add: Let_def)
    note IH = Cons.IH [OF rec dict_ok_dput [OF Cons.prems(2)]]
    have "fs_isdir (dput ?p DirE f) ?p" by (simp add: fs_isdir_def fs_lookup_def dict_simps)
    moreover have "dget f' q = dget f q \<or>
        (dget f q = None \<and> dget f' q = Some DirE \<and> q \<noteq> [] \<and> prefix q (b @ c # cs))" for q
    proof -
      from IH have "dget f' q = dget (dput ?p DirE f) q \<or>
        (dget (dput ?p DirE f) q = None \<and> dget f' q = Some DirE \<and> q \<noteq> [] \<and> prefix q (?p @ cs))" by blast
      moreover have "prefix ?p (b @ c # cs)" by (simp add: prefix_def)
      ultimately show ?thesis using new by (auto simp: dict_simps split: if_splits)
    qed
    ultimately show ?thesis using IH by simp
  next
    case (Some e)
    show ?thesis
    proof (cases e)
      case DirE
      with Some Cons.prems have rec: "fs_makedirs_from ?p cs f = (r, f')" by (simp add: Let_def)
      have "fs_isdir f ?p" using Some DirE by (simp add: fs_isdir_def)
      with Cons.IH [OF rec Cons.prems(2)] show ?thesis by simp
    next
      case (FileE x)
      with Some Cons.prems show ?thesis by (auto simp: Let_def)
    qed
  qed
qed simp

lemma makedirs_changes:
  assumes "fs_makedirs p f = (r, f')" and "dict_ok f"
  shows "dict_ok f'"
    and "dget f' q = dget f q \<or> (dget f q = None \<and> dget f' q = Some DirE \<and> q \<noteq> [] \<and> prefix q p)"
    and "r = Inr u \<Longrightarrow> fs_isdir f' p"
  using makedirs_from_changes [of "[]" p f r f' u] assms
  by (auto simp: fs_makedirs_def fs_isdir_def fs_lookup_def)

text \<open>Two paths neither of which contains the other.\<close>

definition apart :: "path \<Rightarrow> path \<Rightarrow> bool" where
  "apart p q \<longleftrightarrow> \<not> prefix p q \<and> \<not> prefix q p"

lemma apart_sym: "apart p q \<Longrightarrow> apart q p"
  by (simp add: apart_def)

lemma apart_below: "apart p q \<Longrightarrow> prefix p r \<Longrightarrow> \<not> prefix q r"
  using prefix_same_cases by (auto simp: apart_def)

lemma apart_siblings: "c \<noteq> d \<Longrightarrow> apart (p @ [c]) (p @ [d])"
  by (simp add: apart_def)

lemma fs_replace_changes:
  assumes "fs_replace a b f = (r, f')" and "dict_ok f"
  shows "dict_ok f'" and "\<not> prefix a q \<Longrightarrow> \<not> prefix b q \<Longrightarrow> dget f' q = dget f q"
proof -
  consider "f' = f" | "apart a b" "f' = fs_move a b f"
    using assms(1)
    by (auto simp: fs_replace_def apart_def split: option.splits if_splits entry.splits)
  then have "dict_ok f' \<and> (\<not> prefix a q \<longrightarrow> \<not> prefix b q \<longrightarrow> dget f' q = dget f q)"
    by cases (use assms(2) dict_ok_move [of a b f] fs_get_move [of a b f] in \<open>auto simp: apart_def\<close>)
  then show "dict_ok f'" and "\<not> prefix a q \<Longrightarrow> \<not> prefix b q \<Longrightarrow> dget f' q = dget f q" by auto
qed

text \<open>In a closed tree nothing is below a path that is not there.\<close>

lemma fs_closed_above: "fs_ok f \<Longrightarrow> fs_lookup f (p @ r) \<noteq> None \<Longrightarrow> r \<noteq> [] \<Longrightarrow> fs_isdir f p"
proof (induction r rule: rev_induct)
  case (snoc c r)
  then have "fs_isdir f (p @ r)"
    unfolding fs_ok_def append_assoc [symmetric] by blast
  with snoc show ?case by (cases "r = []") (auto simp: fs_isdir_def)
qed simp

lemma fs_missing_below: "fs_ok f \<Longrightarrow> \<not> fs_exists f p \<Longrightarrow> fs_lookup f (p @ r) = None"
  using fs_closed_above [of f p r]
  by (cases "fs_lookup f (p @ r)"; cases "r = []") (auto simp: fs_exists_def fs_isdir_def)

lemma fs_replace_move:
  assumes "fs_lookup f a = Some e" and "apart a b" and "fs_isdir f (butlast b)"
    and "fs_lookup f b = None"
  shows "fs_replace a b f = (Inr (), fs_move a b f)"
  using assms by (auto simp: fs_replace_def apart_def)

lemma makedirs_there: "\<forall>q. prefix q (base @ cs) \<longrightarrow> fs_isdir f q \<Longrightarrow> fs_makedirs_from base cs f = (Inr (), f)"
proof (induction cs arbitrary: base)
  case (Cons c cs)
  have "fs_isdir f (base @ [c])" using Cons.prems by (auto simp: prefix_def)
  moreover have "fs_makedirs_from (base @ [c]) cs f = (Inr (), f)" by (rule Cons.IH) (use Cons.prems in simp)
  ultimately show ?case by (simp add: fs_isdir_def Let_def)
qed simp

text \<open>A host with a given tree, for the concrete instances.\<close>

definition demo_host :: "fs \<Rightarrow> host" where
  "demo_host f =
     \<lparr>h_fs = f, h_time = 1, h_mono = 2, h_pid = 7, h_names = (\<lambda>n. ''abcdefgh''), h_nnames = 0,
      h_digest = (\<lambda>b. ''d''), h_size = (\<lambda>b. 1)\<rparr>"

lemma demo_time: "show_fixed6 2 = ''2.000000''"
  by (simp add: show_fixed6_def round_half_even_def show_nat.simps digit_char_def upt_rec Let_def)

end
