(* ===== verification/Snapshot_Store.thy ===== *)
theory Snapshot_Store
  imports Host_FS
begin

text \<open>
  \<open>_runtime/snapshot_store.py\<close> and \<open>_runtime/local_snapshot_store.py\<close>: the interface of a
  snapshot store as a record of its methods over the host they work on, the defaults the
  abstract class gives for directory trees, and the local file-system store.

  What the checkpoint bridge relies on, that a stored tree comes back as it was and that
  nothing else changes, is the locale \<open>tree_store\<close>, interpreted on the local store.
\<close>

section \<open>Data model\<close>

record snapshot_meta =
  sm_snapshot_ref :: string
  sm_actor_id :: string
  sm_template_id :: "string option"
  sm_tag :: string
  sm_size_bytes :: int
  sm_created_at :: time
  sm_compression :: string
  sm_checksum :: "string option"

datatype eviction_policy = NONE | LRU | SIZE_BASED | TTL

fun eviction_policy_value :: "eviction_policy \<Rightarrow> string" where
  "eviction_policy_value NONE = ''none''"
| "eviction_policy_value LRU = ''lru''"
| "eviction_policy_value SIZE_BASED = ''size_based''"
| "eviction_policy_value TTL = ''ttl''"

text \<open>A payload is a byte string or a stream of bytes (an \<open>io.BytesIO\<close>).\<close>

datatype payload = Bytes blob | Stream blob

record 'h snapshot_store =
  ss_put :: "string \<Rightarrow> string \<Rightarrow> payload \<Rightarrow> string \<Rightarrow> string option \<Rightarrow> string option \<Rightarrow>
             'h \<Rightarrow> snapshot_meta result \<times> 'h"
  ss_get :: "string \<Rightarrow> 'h \<Rightarrow> blob result \<times> 'h"
  ss_delete :: "string \<Rightarrow> 'h \<Rightarrow> unit result \<times> 'h"
  ss_put_tree :: "string \<Rightarrow> string \<Rightarrow> string \<Rightarrow> string option \<Rightarrow> 'h \<Rightarrow> snapshot_meta result \<times> 'h"
  ss_restore_tree :: "string \<Rightarrow> string \<Rightarrow> 'h \<Rightarrow> unit result \<times> 'h"

section \<open>The tree defaults of the abstract class\<close>

definition default_put_tree ::
  "(string \<Rightarrow> string \<Rightarrow> payload \<Rightarrow> string \<Rightarrow> string option \<Rightarrow> string option \<Rightarrow> host \<Rightarrow>
    snapshot_meta result \<times> host) \<Rightarrow>
   string \<Rightarrow> string \<Rightarrow> string \<Rightarrow> string option \<Rightarrow> host \<Rightarrow> snapshot_meta result \<times> host" where
  "default_put_tree put actor_id tag source_dir template_id h =
     (if \<not> fs_exists (h_fs h) (fs_path source_dir) then (Inl FileNotFoundError, h)
      else case tar_pack ''gz'' (fs_path source_dir) (h_fs h) of
        Inl e \<Rightarrow> (Inl e, h)
      | Inr buf \<Rightarrow> put actor_id tag (Stream buf) ''gz'' template_id None h)"

definition default_restore_tree ::
  "(string \<Rightarrow> host \<Rightarrow> blob result \<times> host) \<Rightarrow> string \<Rightarrow> string \<Rightarrow> host \<Rightarrow> unit result \<times> host" where
  "default_restore_tree get snapshot_ref target_dir h =
     (case get snapshot_ref h of
        (Inl e, h1) \<Rightarrow> (Inl e, h1)
      | (Inr data, h1) \<Rightarrow>
          (case tar_unpack ''gz'' data (fs_path target_dir) (h_fs h1) of
             (r, f) \<Rightarrow> (r, h1\<lparr>h_fs := f\<rparr>)))"

section \<open>The local store\<close>

record local_store =
  ls_base_dir :: string
  ls_compression :: string

definition local_init :: "string \<Rightarrow> string \<Rightarrow> host \<Rightarrow> local_store result \<times> host" where
  "local_init base_dir compression h =
     (case fs_makedirs (fs_path base_dir) (h_fs h) of
        (Inl e, f) \<Rightarrow> (Inl e, h\<lparr>h_fs := f\<rparr>)
      | (Inr _, f) \<Rightarrow>
          (Inr \<lparr>ls_base_dir = base_dir, ls_compression = compression\<rparr>, h\<lparr>h_fs := f\<rparr>))"

definition local_suffix :: "local_store \<Rightarrow> string" where
  "local_suffix ls = (if ls_compression ls \<noteq> [] then ''.tar.'' @ ls_compression ls else ''.tar'')"

definition safe_ref :: "string \<Rightarrow> string" where
  "safe_ref r = map (\<lambda>c. if c = CHR '':'' then CHR ''_'' else c)
                    (map (\<lambda>c. if c = CHR ''/'' then CHR ''_'' else c) r)"

text \<open>A flat archive of tiered mode, and a per-actor archive of standalone mode.\<close>

definition tiered_path :: "local_store \<Rightarrow> string \<Rightarrow> string" where
  "tiered_path ls ref = path_join (ls_base_dir ls) (safe_ref ref @ local_suffix ls)"

definition actor_dir_of :: "local_store \<Rightarrow> string \<Rightarrow> string" where
  "actor_dir_of ls actor_id = path_join (ls_base_dir ls) actor_id"

definition standalone_name :: "local_store \<Rightarrow> string \<Rightarrow> time \<Rightarrow> string" where
  "standalone_name ls tag ts = tag @ ''.'' @ show_fixed6 ts @ ''.tar'' @ local_suffix ls"

text \<open>Writing to a temporary sibling and renaming it into place; a failure removes the sibling.\<close>

definition drop_tmp :: "path \<Rightarrow> fs \<Rightarrow> fs" where
  "drop_tmp tmp f = (if fs_isfile f tmp then fs_unlink tmp f else f)"

definition write_atomic :: "string \<Rightarrow> blob \<Rightarrow> fs \<Rightarrow> unit result \<times> fs" where
  "write_atomic archive_path b f =
     (let tmp = fs_path (archive_path @ ''.tmp'') in
      case fs_write tmp b f of
        (Inl e, f1) \<Rightarrow> (Inl e, drop_tmp tmp f1)
      | (Inr _, f1) \<Rightarrow>
          (case fs_replace tmp (fs_path archive_path) f1 of
             (Inl e, f2) \<Rightarrow> (Inl e, drop_tmp tmp f2)
           | (Inr _, f2) \<Rightarrow> (Inr (), f2)))"

definition meta_json :: "snapshot_meta \<Rightarrow> json" where
  "meta_json m = JObj
     [(''snapshot_ref'', JStr (sm_snapshot_ref m)), (''actor_id'', JStr (sm_actor_id m)),
      (''tag'', JStr (sm_tag m)),
      (''template_id'', (case sm_template_id m of None \<Rightarrow> JNull | Some t \<Rightarrow> JStr t)),
      (''size_bytes'', JNum (of_int (sm_size_bytes m))), (''created_at'', JNum (sm_created_at m)),
      (''compression'', JStr (sm_compression m)),
      (''checksum'', (case sm_checksum m of None \<Rightarrow> JNull | Some c \<Rightarrow> JStr c))]"

definition local_put ::
  "local_store \<Rightarrow> string \<Rightarrow> string \<Rightarrow> payload \<Rightarrow> string \<Rightarrow> string option \<Rightarrow> string option \<Rightarrow> host \<Rightarrow>
   snapshot_meta result \<times> host" where
  "local_put ls actor_id tag data compression template_id ref h =
     (let ts = h_mono h;
          dir = (case ref of Some _ \<Rightarrow> ls_base_dir ls | None \<Rightarrow> actor_dir_of ls actor_id);
          archive_path = (case ref of Some r \<Rightarrow> tiered_path ls r
                                    | None \<Rightarrow> path_join dir (standalone_name ls tag ts))
      in case fs_makedirs (fs_path dir) (h_fs h) of
        (Inl e, f) \<Rightarrow> (Inl e, h\<lparr>h_fs := f\<rparr>)
      | (Inr _, f) \<Rightarrow>
          (let content = (case data of Bytes b \<Rightarrow> b | Stream b \<Rightarrow> b);
               meta = \<lparr>sm_snapshot_ref = (case ref of Some r \<Rightarrow> r | None \<Rightarrow> archive_path),
                       sm_actor_id = actor_id, sm_template_id = template_id, sm_tag = tag,
                       sm_size_bytes = int (h_size h content), sm_created_at = ts,
                       sm_compression = compression, sm_checksum = Some (h_digest h content)\<rparr>
           in case (case data of
                      Bytes b \<Rightarrow> fs_write (fs_path archive_path) b f
                    | Stream b \<Rightarrow> write_atomic archive_path b f) of
                (Inl e, f1) \<Rightarrow> (Inl e, h\<lparr>h_fs := f1\<rparr>)
              | (Inr _, f1) \<Rightarrow>
                  (case ref of
                     None \<Rightarrow> (Inr meta, h\<lparr>h_fs := f1\<rparr>)
                   | Some _ \<Rightarrow>
                       (case fs_write (fs_path (archive_path @ ''.meta.json'')) (Json (meta_json meta)) f1 of
                          (Inl e, f2) \<Rightarrow> (Inl e, h\<lparr>h_fs := f2\<rparr>)
                        | (Inr _, f2) \<Rightarrow> (Inr meta, h\<lparr>h_fs := f2\<rparr>)))))"

definition fs_read :: "fs \<Rightarrow> path \<Rightarrow> blob option" where
  "fs_read f p = (case fs_lookup f p of Some (FileE b) \<Rightarrow> Some b | _ \<Rightarrow> None)"

definition local_get :: "local_store \<Rightarrow> string \<Rightarrow> host \<Rightarrow> blob result \<times> host" where
  "local_get ls ref h =
     (case fs_read (h_fs h) (fs_path ref) of
        Some b \<Rightarrow> (Inr b, h)
      | None \<Rightarrow>
          (case fs_read (h_fs h) (fs_path (tiered_path ls ref)) of
             Some b \<Rightarrow> (Inr b, h)
           | None \<Rightarrow> (Inl KeyError, h)))"

definition local_delete :: "local_store \<Rightarrow> string \<Rightarrow> host \<Rightarrow> unit result \<times> host" where
  "local_delete ls ref h =
     (let f = h_fs h; p = fs_path ref in
      if fs_isfile f p then (Inr (), h\<lparr>h_fs := fs_unlink p f\<rparr>)
      else (let path = tiered_path ls ref; q = fs_path path; m = fs_path (path @ ''.meta.json'') in
        if fs_isfile f q then
          (let f1 = fs_unlink q f in
           (Inr (), h\<lparr>h_fs := (if fs_isfile f1 m then fs_unlink m f1 else f1)\<rparr>))
        else (Inl KeyError, h)))"

definition local_copy ::
  "local_store \<Rightarrow> string \<Rightarrow> string \<Rightarrow> string \<Rightarrow> host \<Rightarrow> snapshot_meta result \<times> host" where
  "local_copy ls ref target_actor target_tag h =
     (case local_get ls ref h of
        (Inl e, h1) \<Rightarrow> (Inl e, h1)
      | (Inr data, h1) \<Rightarrow> local_put ls target_actor target_tag (Bytes data) ''none'' None None h1)"

definition local_put_tree ::
  "local_store \<Rightarrow> string \<Rightarrow> string \<Rightarrow> string \<Rightarrow> string option \<Rightarrow> host \<Rightarrow> snapshot_meta result \<times> host" where
  "local_put_tree ls actor_id tag source_dir template_id h =
     (if \<not> fs_isdir (h_fs h) (fs_path source_dir) then (Inl ValueError, h)
      else (let actor_dir = actor_dir_of ls actor_id;
                ts = h_mono h;
                archive_path = path_join actor_dir (standalone_name ls tag ts)
        in case fs_makedirs (fs_path actor_dir) (h_fs h) of
          (Inl e, f) \<Rightarrow> (Inl e, h\<lparr>h_fs := f\<rparr>)
        | (Inr _, f) \<Rightarrow>
            (case tar_pack (ls_compression ls) (fs_path source_dir) f of
               Inl e \<Rightarrow> (Inl e, h\<lparr>h_fs := drop_tmp (fs_path (archive_path @ ''.tmp'')) f\<rparr>)
             | Inr content \<Rightarrow>
                 (case write_atomic archive_path content f of
                    (Inl e, f1) \<Rightarrow> (Inl e, h\<lparr>h_fs := f1\<rparr>)
                  | (Inr _, f1) \<Rightarrow>
                      (Inr \<lparr>sm_snapshot_ref = archive_path, sm_actor_id = actor_id,
                            sm_template_id = template_id, sm_tag = tag,
                            sm_size_bytes = int (h_size h content), sm_created_at = ts,
                            sm_compression = ls_compression ls,
                            sm_checksum = Some (h_digest h content)\<rparr>, h\<lparr>h_fs := f1\<rparr>)))))"

definition local_restore_tree :: "local_store \<Rightarrow> string \<Rightarrow> string \<Rightarrow> host \<Rightarrow> unit result \<times> host" where
  "local_restore_tree ls ref target_dir h =
     (case fs_read (h_fs h) (fs_path ref) of
        None \<Rightarrow> (Inl KeyError, h)
      | Some b \<Rightarrow>
          if \<not> fs_isdir (h_fs h) (fs_path target_dir) then (Inl ValueError, h)
          else (case tar_unpack (ls_compression ls) b (fs_path target_dir) (h_fs h) of
                  (r, f) \<Rightarrow> (r, h\<lparr>h_fs := f\<rparr>)))"

definition local_ops :: "local_store \<Rightarrow> host snapshot_store" where
  "local_ops ls =
     \<lparr>ss_put = local_put ls, ss_get = local_get ls, ss_delete = local_delete ls,
      ss_put_tree = local_put_tree ls, ss_restore_tree = local_restore_tree ls\<rparr>"

section \<open>The contract of a tree store\<close>

text \<open>The store's directory and all its ancestors are there.\<close>

definition fs_ready :: "path \<Rightarrow> fs \<Rightarrow> bool" where
  "fs_ready base f \<longleftrightarrow> dict_ok f \<and> (\<forall>q. prefix q base \<longrightarrow> fs_isdir f q)"

lemma fs_ready_cong:
  "fs_ready base f \<Longrightarrow> dict_ok f' \<Longrightarrow> (\<And>q. prefix q base \<Longrightarrow> dget f' q = dget f q) \<Longrightarrow>
   fs_ready base f'"
  by (auto simp: fs_ready_def fs_isdir_def fs_lookup_def)

text \<open>
  \<open>saved h ref t\<close>: reference \<open>ref\<close> holds the tree \<open>t\<close>. A stored tree is saved, storing
  touches nothing outside the store's directory, what is saved stays saved while that
  directory is not touched, and restoring writes exactly the tree below the target.
\<close>

locale tree_store =
  fixes ss :: "host snapshot_store"
    and base :: path
    and names_ok :: "string \<Rightarrow> string \<Rightarrow> bool"
    and saved :: "host \<Rightarrow> string \<Rightarrow> (path \<Rightarrow> entry option) \<Rightarrow> bool"
  assumes put_changes: "names_ok a tag \<Longrightarrow> fs_ready base (h_fs h) \<Longrightarrow>
          ss_put_tree ss a tag src tpl h = (r, h') \<Longrightarrow>
          fs_ready base (h_fs h') \<and> h' = h\<lparr>h_fs := h_fs h'\<rparr> \<and>
          (\<forall>q. \<not> prefix base q \<longrightarrow> dget (h_fs h') q = dget (h_fs h) q)"
    and put_saves: "names_ok a tag \<Longrightarrow> fs_ready base (h_fs h) \<Longrightarrow> apart (fs_path src) base \<Longrightarrow>
          ss_put_tree ss a tag src tpl h = (Inr m, h') \<Longrightarrow>
          saved h' (sm_snapshot_ref m) (\<lambda>r. if r = [] then None else dget (h_fs h) (fs_path src @ r))"
    and saved_keeps: "saved h ref t \<Longrightarrow> (\<And>q. prefix base q \<Longrightarrow> dget (h_fs h') q = dget (h_fs h) q) \<Longrightarrow>
          saved h' ref t"
    and restores: "saved h ref t \<Longrightarrow> dict_ok (h_fs h) \<Longrightarrow> fs_isdir (h_fs h) (fs_path target) \<Longrightarrow>
          \<exists>f. ss_restore_tree ss ref target h = (Inr (), h\<lparr>h_fs := f\<rparr>) \<and> dict_ok f \<and>
            (\<forall>q. dget f q = (case (if strict_prefix (fs_path target) q then t (drop (length (fs_path target)) q) else None) of
                               Some e \<Rightarrow> Some e | None \<Rightarrow> dget (h_fs h) q))"
    and restore_changes: "ss_restore_tree ss ref target h = (ru, h') \<Longrightarrow> dict_ok (h_fs h) \<Longrightarrow>
          dict_ok (h_fs h') \<and> h' = h\<lparr>h_fs := h_fs h'\<rparr> \<and>
          (\<forall>q. \<not> strict_prefix (fs_path target) q \<longrightarrow> dget (h_fs h') q = dget (h_fs h) q)"

section \<open>The local store keeps the contract\<close>

lemma drop_tmp_changes:
  "dict_ok f \<Longrightarrow> dict_ok (drop_tmp tmp f)" "q \<noteq> tmp \<Longrightarrow> dget (drop_tmp tmp f) q = dget f q"
  by (auto simp: drop_tmp_def fs_unlink_def dict_simps)

lemma fs_write_changes:
  assumes "fs_write p b f = (r, f')" and "dict_ok f"
  shows "dict_ok f'" and "q \<noteq> p \<Longrightarrow> dget f' q = dget f q"
    and "r = Inr u \<Longrightarrow> dget f' p = Some (FileE b) \<and> p \<noteq> []"
  using assms by (auto simp: fs_write_def dict_simps fs_isdir_def fs_lookup_def split: if_splits)

lemma write_atomic_changes:
  assumes run: "write_atomic ap b f = (r, f')" and ok: "dict_ok f"
    and tmp: "fs_path (ap @ ''.tmp'') = d @ [n @ ''.tmp'']" and ap: "fs_path ap = d @ [n]"
  shows "dict_ok f'"
    and "\<not> prefix (d @ [n]) q \<Longrightarrow> \<not> prefix (d @ [n @ ''.tmp'']) q \<Longrightarrow> dget f' q = dget f q"
    and "r = Inr u \<Longrightarrow> dget f' (d @ [n]) = Some (FileE b)"
proof -
  let ?t = "d @ [n @ ''.tmp'']" and ?a = "d @ [n]"
  have ap_t: "apart ?t ?a" by (rule apart_siblings) simp
  obtain r1 f1 where w: "fs_write ?t b f = (r1, f1)" by (cases "fs_write ?t b f")
  note w' = fs_write_changes [OF w ok]
  obtain r2 f2 where m: "fs_replace ?t ?a f1 = (r2, f2)" by (cases "fs_replace ?t ?a f1")
  note m' = fs_replace_changes [OF m w'(1)]
  have f': "f' = (case r1 of Inl e \<Rightarrow> drop_tmp ?t f1
                  | Inr _ \<Rightarrow> (case r2 of Inl e \<Rightarrow> drop_tmp ?t f2 | Inr _ \<Rightarrow> f2))"
    and r: "r = (case r1 of Inl e \<Rightarrow> Inl e | Inr _ \<Rightarrow> (case r2 of Inl e \<Rightarrow> Inl e | Inr _ \<Rightarrow> Inr ()))"
    using run w m unfolding write_atomic_def tmp ap by (auto simp: Let_def split: sum.splits)
  show "dict_ok f'"
    unfolding f' using w'(1) m'(1) by (auto simp: drop_tmp_changes(1) split: sum.split)
  show "dget f' q = dget f q" if "\<not> prefix ?a q" "\<not> prefix ?t q"
  proof -
    have "q \<noteq> ?t" using that by auto
    with m'(2) [of q] w'(2) [of q] that show ?thesis
      unfolding f' by (auto simp: drop_tmp_changes(2) split: sum.split)
  qed
  show "dget f' ?a = Some (FileE b)" if "r = Inr u"
  proof -
    from that r have r1: "r1 = Inr ()" and r2: "r2 = Inr ()" by (auto split: sum.splits)
    then have t: "dget f1 ?t = Some (FileE b)" using w'(3) [of "()"] by simp
    with m r2 have "f2 = fs_move ?t ?a f1"
      using ap_t by (auto simp: fs_replace_def apart_def split: option.splits if_splits entry.splits)
    moreover have "dget (fs_move ?t ?a f1) ?a = dget f1 ?t"
      using fs_get_move [of ?t ?a f1 ?a] ap_t w'(1) by (simp add: apart_def)
    ultimately show ?thesis using f' r1 r2 t by simp
  qed
qed

definition local_ok :: "path \<Rightarrow> local_store \<Rightarrow> bool" where
  "local_ok base ls \<longleftrightarrow>
     base \<noteq> [] \<and> (\<forall>c \<in> set base. comp_ok c) \<and> ls_base_dir ls = path_str base \<and>
     tar_mode_ok (ls_compression ls)"

definition local_names_ok :: "string \<Rightarrow> string \<Rightarrow> bool" where
  "local_names_ok actor_id tag \<longleftrightarrow> comp_ok actor_id \<and> CHR ''/'' \<notin> set tag"

definition local_saved ::
  "path \<Rightarrow> local_store \<Rightarrow> host \<Rightarrow> string \<Rightarrow> (path \<Rightarrow> entry option) \<Rightarrow> bool" where
  "local_saved base ls h ref t \<longleftrightarrow>
     local_ok base ls \<and> prefix base (fs_path ref) \<and>
     (\<exists>d. fs_read (h_fs h) (fs_path ref) = Some (Tar (ls_compression ls) d) \<and> dict_ok d \<and> map_of d = t)"

lemma standalone_name_ok:
  assumes "CHR ''/'' \<notin> set tag" and "tar_mode_ok (ls_compression ls)"
  shows "comp_ok (standalone_name ls tag ts)" and "comp_ok (standalone_name ls tag ts @ ''.tmp'')"
proof -
  let ?n = "standalone_name ls tag ts"
  have "CHR ''/'' \<notin> set ?n"
    using assms show_fixed6_no_sep [of ts]
    by (auto simp: standalone_name_def local_suffix_def tar_mode_ok_def)
  moreover have "length ?n > 4" by (simp add: standalone_name_def local_suffix_def)
  then have "?n \<noteq> []" "?n \<noteq> ''.''" "?n \<noteq> ''..''" "?n @ ''.tmp'' \<noteq> ''.''" "?n @ ''.tmp'' \<noteq> ''..''"
    by auto
  ultimately show "comp_ok ?n" "comp_ok (?n @ ''.tmp'')" by (auto simp: comp_ok_def)
qed

lemma local_paths:
  assumes "local_ok base ls" and "local_names_ok actor tag"
  shows "fs_path (actor_dir_of ls actor) = base @ [actor]"
    and "fs_path (path_join (actor_dir_of ls actor) (standalone_name ls tag ts)) =
      base @ [actor, standalone_name ls tag ts]"
    and "fs_path (path_join (actor_dir_of ls actor) (standalone_name ls tag ts) @ ''.tmp'') =
      base @ [actor, standalone_name ls tag ts @ ''.tmp'']"
proof -
  let ?n = "standalone_name ls tag ts"
  have dir: "actor_dir_of ls actor = path_str (base @ [actor])"
    using assms path_join_str [of base actor]
    by (simp add: actor_dir_of_def local_ok_def local_names_ok_def)
  have comps: "\<forall>c \<in> set (base @ [actor]). comp_ok c"
    using assms by (auto simp: local_ok_def local_names_ok_def)
  have n: "comp_ok ?n" "comp_ok (?n @ ''.tmp'')"
    using standalone_name_ok assms by (auto simp: local_ok_def local_names_ok_def)
  have arch: "path_join (actor_dir_of ls actor) ?n = path_str (base @ [actor, ?n])"
    unfolding dir using path_join_str [of "base @ [actor]" ?n] comps n(1) by simp
  have tmp: "path_str (base @ [actor, ?n]) @ ''.tmp'' = path_str (base @ [actor, ?n @ ''.tmp''])"
    using path_str_ext [of "base @ [actor, ?n]" "''.tmp''"] by (simp add: butlast_append)
  show "fs_path (actor_dir_of ls actor) = base @ [actor]" unfolding dir by (rule fs_path_str [OF comps])
  show "fs_path (path_join (actor_dir_of ls actor) ?n) = base @ [actor, ?n]"
    unfolding arch using comps n(1) by (intro fs_path_str) auto
  show "fs_path (path_join (actor_dir_of ls actor) ?n @ ''.tmp'') = base @ [actor, ?n @ ''.tmp'']"
    unfolding arch tmp using comps n(2) by (intro fs_path_str) auto
qed

lemma makedirs_ready:
  assumes "fs_makedirs (base @ [actor]) f = (r, f')" and ready: "fs_ready base f"
  shows "dict_ok f'" and "q \<noteq> base @ [actor] \<Longrightarrow> dget f' q = dget f q"
proof -
  have ok: "dict_ok f" using ready by (simp add: fs_ready_def)
  show "dict_ok f'" by (rule makedirs_changes(1) [OF assms(1) ok])
  show "dget f' q = dget f q" if "q \<noteq> base @ [actor]"
    using makedirs_changes(2) [OF assms(1) ok, of q] that ready
    by (auto simp: fs_ready_def fs_isdir_def fs_lookup_def)
qed

lemma local_put_tree_Inr:
  assumes ok: "local_ok base ls" and names: "local_names_ok a tag" and ready: "fs_ready base (h_fs h)"
    and run: "local_put_tree ls a tag src tpl h = (r, h')"
  shows "fs_ready base (h_fs h') \<and> h' = h\<lparr>h_fs := h_fs h'\<rparr> \<and>
      (\<forall>q. \<not> prefix base q \<longrightarrow> dget (h_fs h') q = dget (h_fs h) q) \<and>
      (\<forall>m. r = Inr m \<longrightarrow> fs_path (sm_snapshot_ref m) = base @ [a, standalone_name ls tag (h_mono h)] \<and>
        (\<exists>f. dict_ok f \<and> (\<forall>q. \<not> prefix base q \<longrightarrow> dget f q = dget (h_fs h) q) \<and>
          dget (h_fs h') (base @ [a, standalone_name ls tag (h_mono h)]) =
            Some (FileE (Tar (ls_compression ls) (fs_subtree (fs_path src) f)))))"
proof (cases "fs_isdir (h_fs h) (fs_path src)")
  case False
  with run ready show ?thesis by (auto simp: local_put_tree_def)
next
  case True
  note paths = local_paths(1) [OF ok names] local_paths(2,3) [OF ok names, of "h_mono h"]
  let ?n = "standalone_name ls tag (h_mono h)"
  obtain r1 f1 where mk: "fs_makedirs (base @ [a]) (h_fs h) = (r1, f1)"
    by (cases "fs_makedirs (base @ [a]) (h_fs h)")
  note f1 = makedirs_ready [OF mk ready]
  have ready1: "fs_ready base f1"
    by (rule fs_ready_cong [OF ready f1(1)], rule f1(2)) auto
  have frame1: "\<not> prefix base q \<Longrightarrow> dget f1 q = dget (h_fs h) q" for q
    by (rule f1(2)) auto
  let ?c = "Tar (ls_compression ls) (fs_subtree (fs_path src) f1)"
  have pack: "tar_pack (ls_compression ls) (fs_path src) f1 = Inr ?c"
    using ok by (simp add: local_ok_def tar_pack_def)
  let ?ap = "path_join (actor_dir_of ls a) ?n"
  obtain r2 f2 where wa: "write_atomic ?ap ?c f1 = (r2, f2)" by (cases "write_atomic ?ap ?c f1")
  have "fs_path ?ap = (base @ [a]) @ [?n]" "fs_path (?ap @ ''.tmp'') = (base @ [a]) @ [?n @ ''.tmp'']"
    using paths by simp_all
  note f2 = write_atomic_changes [OF wa f1(1) this(2) this(1)]
  have out: "dget f2 q = dget f1 q" if "\<not> (\<exists>s. q = base @ a # s)" for q
    using f2(2) [of q] that by (auto simp: prefix_def)
  have ready2: "fs_ready base f2"
    by (rule fs_ready_cong [OF ready1 f2(1)], rule out) (auto simp: prefix_def)
  have frame2: "\<not> prefix base q \<Longrightarrow> dget f2 q = dget (h_fs h) q" for q
    by (rule trans [OF out frame1]) auto
  have run': "(r, h') = (case r1 of Inl e \<Rightarrow> (Inl e, h\<lparr>h_fs := f1\<rparr>)
      | Inr _ \<Rightarrow> (case r2 of Inl e \<Rightarrow> (Inl e, h\<lparr>h_fs := f2\<rparr>)
        | Inr _ \<Rightarrow> (Inr \<lparr>sm_snapshot_ref = ?ap, sm_actor_id = a, sm_template_id = tpl, sm_tag = tag,
            sm_size_bytes = int (h_size h ?c), sm_created_at = h_mono h,
            sm_compression = ls_compression ls, sm_checksum = Some (h_digest h ?c)\<rparr>, h\<lparr>h_fs := f2\<rparr>)))"
    using run True mk wa pack paths(1) by (simp add: local_put_tree_def Let_def split: sum.splits)
  show ?thesis
  proof (cases r1)
    case (Inl e)
    with run' ready1 frame1 show ?thesis by simp
  next
    case u: (Inr u)
    show ?thesis
    proof (cases r2)
      case (Inl e)
      with run' u ready2 frame2 show ?thesis by simp
    next
      case (Inr v)
      have "dget f2 (base @ [a, ?n]) = Some (FileE ?c)" using f2(3) [OF Inr] by simp
      with run' u Inr ready2 frame2 f1(1) frame1 paths(2) show ?thesis by auto
    qed
  qed
qed

lemma local_restore_changes:
  assumes "local_restore_tree ls ref target h = (ru, h')" and "dict_ok (h_fs h)"
  shows "dict_ok (h_fs h') \<and> h' = h\<lparr>h_fs := h_fs h'\<rparr> \<and>
    (\<forall>q. \<not> strict_prefix (fs_path target) q \<longrightarrow> dget (h_fs h') q = dget (h_fs h) q)"
proof -
  have graft: "\<not> strict_prefix p q \<Longrightarrow> dget (fs_graft p t f) q = dget f q" for p t q and f :: fs
    by (induction t arbitrary: f) (auto simp: fs_graft_def dict_simps strict_prefix_def)
  show ?thesis
    using assms
    by (auto simp: local_restore_tree_def tar_unpack_def graft dict_ok_graft
        split: option.splits if_splits blob.splits)
qed

interpretation local: tree_store "local_ops ls" base
  "\<lambda>a tag. local_ok base ls \<and> local_names_ok a tag" "local_saved base ls"
  for base ls
proof (unfold_locales, goal_cases)
  case (1 a tag h src tpl r h')
  then show ?case using local_put_tree_Inr [of base ls a tag h src tpl r h'] by (simp add: local_ops_def)
next
  case (2 a tag h src tpl m h')
  then have run: "local_put_tree ls a tag src tpl h = (Inr m, h')" by (simp add: local_ops_def)
  let ?p = "base @ [a, standalone_name ls tag (h_mono h)]"
  from local_put_tree_Inr [OF conjunct1 [OF 2(1)] conjunct2 [OF 2(1)] 2(2) run] obtain f
    where ref: "fs_path (sm_snapshot_ref m) = ?p" and f: "dict_ok f"
      and same: "\<And>q. \<not> prefix base q \<Longrightarrow> dget f q = dget (h_fs h) q"
      and stored: "dget (h_fs h') ?p = Some (FileE (Tar (ls_compression ls) (fs_subtree (fs_path src) f)))"
    by auto
  have "map_of (fs_subtree (fs_path src) f) = (\<lambda>r. if r = [] then None else dget (h_fs h) (fs_path src @ r))"
  proof (rule ext)
    fix r
    have "\<not> prefix base (fs_path src @ r)" using apart_below [OF 2(3)] by simp
    with same show "map_of (fs_subtree (fs_path src) f) r =
        (if r = [] then None else dget (h_fs h) (fs_path src @ r))" by (simp add: fs_simps)
  qed
  then show ?case
    using ref stored dict_ok_subtree [OF f] 2(1)
    by (auto simp: local_saved_def fs_read_def fs_lookup_def)
next
  case (3 h ref t h')
  then show ?case
    by (auto simp: local_saved_def local_ok_def fs_read_def fs_lookup_def split: if_splits)
next
  case (4 h ref t target)
  then obtain d where read: "fs_read (h_fs h) (fs_path ref) = Some (Tar (ls_compression ls) d)"
    and d: "dict_ok d" "map_of d = t" and ok: "local_ok base ls" by (auto simp: local_saved_def)
  have "local_restore_tree ls ref target h =
      (Inr (), h\<lparr>h_fs := fs_graft (fs_path target) d (h_fs h)\<rparr>)"
    using read 4(3) ok by (simp add: local_restore_tree_def tar_unpack_def local_ok_def)
  with d 4(2) show ?case
    by (intro exI [of _ "fs_graft (fs_path target) d (h_fs h)"])
      (simp add: local_ops_def dict_ok_graft fs_get_graft)
next
  case (5 ref target h ru h')
  then show ?case using local_restore_changes [of ls ref target h ru h'] by (simp add: local_ops_def)
qed

end
