(* ===== verification/Host_Faults.thy ===== *)
theory Host_Faults
  imports Host_FS
begin

text \<open>
  Calls of the operating system that fail although nothing in the file tree forbids them: the
  disk is full, a permission is missing, a file is busy. Which renames and copies fail is a
  parameter of the operations that roll back, so their roll-backs are reachable; removals that
  raise may fail half-way as well, one that ignores its errors is taken to succeed.
\<close>

section \<open>Renames and copies that may be refused\<close>

text \<open>
  \<open>fl_rename a b\<close>: \<open>os.replace\<close> from \<open>a\<close> to \<open>b\<close> is refused. \<open>fl_copy dst\<close>: \<open>shutil.copytree\<close> to
  \<open>dst\<close> raises after it has copied only the relative paths it keeps (\<open>[]\<close> is the directory
  itself). \<open>fl_remove p\<close>: \<open>shutil.rmtree\<close> of \<open>p\<close> raises and leaves the relative paths it keeps.
\<close>

record faults =
  fl_rename :: "path \<Rightarrow> path \<Rightarrow> bool"
  fl_copy :: "path \<Rightarrow> (path \<Rightarrow> bool) option"
  fl_remove :: "path \<Rightarrow> (path \<Rightarrow> bool) option"

definition no_faults :: faults where
  "no_faults = \<lparr>fl_rename = (\<lambda>_ _. False), fl_copy = (\<lambda>_. None), fl_remove = (\<lambda>_. None)\<rparr>"

definition os_replace :: "faults \<Rightarrow> path \<Rightarrow> path \<Rightarrow> fs \<Rightarrow> unit result \<times> fs" where
  "os_replace fl a b f =
     (case fs_replace a b f of
        (Inl e, f1) \<Rightarrow> (Inl e, f1)
      | (Inr _, f1) \<Rightarrow> if fl_rename fl a b then (Inl OSError, f) else (Inr (), f1))"

definition copytree_on :: "faults \<Rightarrow> path \<Rightarrow> path \<Rightarrow> fs \<Rightarrow> unit result \<times> fs" where
  "copytree_on fl src dst f =
     (case fl_copy fl dst of
        None \<Rightarrow> fs_copytree src dst f
      | Some keep \<Rightarrow>
          (case fs_copytree src dst f of
             (Inl e, f1) \<Rightarrow> (Inl e, f1)
           | (Inr _, _) \<Rightarrow>
               (Inl OSError,
                if keep [] then fs_graft dst (filter (\<lambda>(q, e). keep q) (fs_subtree src f)) (snd (fs_makedirs dst f))
                else f)))"

definition rmtree_on :: "faults \<Rightarrow> path \<Rightarrow> fs \<Rightarrow> unit result \<times> fs" where
  "rmtree_on fl p f =
     (case fl_remove fl p of
        None \<Rightarrow> fs_rmtree p f
      | Some keep \<Rightarrow>
          if fs_isdir f p
          then (Inl OSError, filter (\<lambda>(q, e). \<not> prefix p q \<or> keep (drop (length p) q)) f)
          else fs_rmtree p f)"

lemma os_replace_no_faults [simp]: "os_replace no_faults = fs_replace"
  by (rule ext)+ (auto simp: os_replace_def no_faults_def split: prod.split sum.split)

lemma copytree_no_faults [simp]: "copytree_on no_faults = fs_copytree"
  by (rule ext)+ (simp add: copytree_on_def no_faults_def)

lemma fs_rmtree_dir: "fs_isdir f p \<Longrightarrow> fs_rmtree_ignore p f = fs_remove p f"
  by (simp add: fs_rmtree_ignore_def fs_rmtree_def fs_isdir_def)

lemma fs_exists_cases: "fs_exists f p \<longleftrightarrow> fs_isdir f p \<or> fs_isfile f p"
  by (auto simp: fs_exists_def fs_isdir_def fs_isfile_def split: option.split entry.splits
      intro: entry.exhaust)

lemma rmtree_no_faults [simp]: "rmtree_on no_faults = fs_rmtree"
  by (rule ext)+ (simp add: rmtree_on_def no_faults_def)

lemma dget_filter: "dget (filter (\<lambda>(q, e). P q) f) q = (if P q then dget f q else None)"
  by (induction f) auto

text \<open>A name made free: the tree there is removed.\<close>

definition cleared :: "path \<Rightarrow> fs \<Rightarrow> fs" where
  "cleared p f = (if fs_exists f p then fs_remove p f else f)"

lemma cleared_ok: "dict_ok f \<Longrightarrow> dict_ok (cleared p f)"
  by (simp add: cleared_def dict_ok_remove)

lemma cleared_get: "\<not> prefix p q \<Longrightarrow> dget (cleared p f) q = dget f q"
  by (simp add: cleared_def fs_simps)

lemma cleared_lookup: "\<not> prefix p q \<Longrightarrow> fs_lookup (cleared p f) q = fs_lookup f q"
  by (simp add: fs_lookup_def cleared_get)

lemma cleared_below: "dget (cleared p f) q = dget f q \<or> prefix p q \<and> dget (cleared p f) q = None"
  by (simp add: cleared_def fs_simps)

lemma cleared_free: "p \<noteq> [] \<Longrightarrow> fs_lookup (cleared p f) p = None"
  by (auto simp: cleared_def fs_lookup_def fs_simps fs_exists_def)

section \<open>Swapping a directory with a roll-back\<close>

text \<open>
  The renames both restores share, once the aside name is free: the directory goes aside, the
  new tree takes its name, and when that is refused the directory comes back.
\<close>

definition swap_in :: "faults \<Rightarrow> path \<Rightarrow> path \<Rightarrow> path \<Rightarrow> fs \<Rightarrow> unit result \<times> fs" where
  "swap_in fl w aside tmp f =
     (case os_replace fl w aside f of
        (Inl e, f2) \<Rightarrow> (Inl e, f2)
      | (Inr _, f2) \<Rightarrow>
          (case os_replace fl tmp w f2 of
             (Inl e, f3) \<Rightarrow>
               (case os_replace fl aside w f3 of
                  (Inl e', f4) \<Rightarrow> (Inl e', f4)
                | (Inr _, f4) \<Rightarrow> (Inl e, f4))
           | (Inr _, f3) \<Rightarrow> (Inr (), fs_rmtree_ignore aside f3)))"

text \<open>The tree after a swap, by the renames that were refused.\<close>

definition swapped_get :: "faults \<Rightarrow> path \<Rightarrow> path \<Rightarrow> path \<Rightarrow> fs \<Rightarrow> path \<Rightarrow> entry option" where
  "swapped_get fl w aside tmp f q =
     (if fl_rename fl w aside then dget f q
      else if \<not> fl_rename fl tmp w then
        (if prefix w q then dget f (tmp @ drop (length w) q)
         else if prefix aside q \<or> prefix tmp q then None else dget f q)
      else if \<not> fl_rename fl aside w then (if prefix aside q then None else dget f q)
      else if prefix aside q then dget f (w @ drop (length aside) q)
      else if prefix w q then None else dget f q)"

definition swap_answer :: "faults \<Rightarrow> path \<Rightarrow> path \<Rightarrow> path \<Rightarrow> unit result" where
  "swap_answer fl w aside tmp =
     (if fl_rename fl w aside \<or> fl_rename fl tmp w then Inl OSError else Inr ())"

lemma swap_in_spec:
  assumes f: "dict_ok f" and dirs: "fs_isdir f w" "fs_isdir f tmp" "fs_isdir f (butlast w)"
    and a: "butlast a = butlast w" "fs_lookup f a = None" "apart w a"
    and tmp: "apart tmp w" "apart tmp a"
  shows "\<exists>f'. swap_in fl w a tmp f = (swap_answer fl w a tmp, f') \<and> dict_ok f' \<and>
    (\<forall>q. dget f' q = swapped_get fl w a tmp f q)"
proof -
  have ne: "w \<noteq> []" "a \<noteq> []" "tmp \<noteq> []" using a(3) tmp(1) by (auto simp: apart_def)
  have mv: "\<not> prefix w a" "\<not> prefix a w" "\<not> prefix w tmp" "\<not> prefix tmp w" "\<not> prefix a tmp" "\<not> prefix tmp a"
    using a(3) tmp by (simp_all add: apart_def)
  have up: "\<not> prefix a (butlast w)" "\<not> prefix w (butlast w)"
    using mv ne by (metis append_butlast_last_id prefix_prefix,
        metis append_butlast_last_id not_Cons_self2 prefix_order.antisym prefixI same_append_eq append_Nil2)
  let ?f2 = "fs_move w a f"
  have step1: "fs_replace w a f = (Inr (), ?f2)"
    by (rule fs_replace_move) (use dirs a in \<open>simp_all add: fs_isdir_def\<close>)
  have ok2: "dict_ok ?f2" by (rule dict_ok_move [OF mv(1,2) f])
  note get2 = fs_get_move [OF mv(1,2) f]
  have t2: "fs_lookup ?f2 tmp = Some DirE"
    using get2 [of tmp] mv dirs(2) ne by (simp add: fs_lookup_def fs_isdir_def)
  have w2: "fs_lookup ?f2 w = None" using get2 [of w] mv ne by (simp add: fs_lookup_def)
  have p2: "fs_isdir ?f2 (butlast w)" using get2 [of "butlast w"] dirs(3) up by (auto simp: fs_isdir_def fs_lookup_def)
  let ?f3 = "fs_move tmp w ?f2"
  have step2: "fs_replace tmp w ?f2 = (Inr (), ?f3)" by (rule fs_replace_move [OF t2 tmp(1) p2 w2])
  have ok3: "dict_ok ?f3" by (rule dict_ok_move [OF mv(4,3) ok2])
  note get3 = fs_get_move [OF mv(4,3) ok2]
  have a2: "fs_lookup ?f2 a = Some DirE" using get2 [of a] mv dirs(1) ne by (simp add: fs_lookup_def fs_isdir_def)
  let ?undo = "fs_move a w ?f2"
  have bk: "fs_replace a w ?f2 = (Inr (), ?undo)"
    by (rule fs_replace_move [OF a2 apart_sym [OF a(3)] p2 w2])
  have okb: "dict_ok ?undo" by (rule dict_ok_move [OF mv(2,1) ok2])
  note getb = fs_get_move [OF mv(2,1) ok2]
  have rm: "fs_rmtree_ignore a ?f3 = fs_remove a ?f3"
    using get3 [of a] a2 mv ne by (intro fs_rmtree_dir) (simp add: fs_isdir_def fs_lookup_def)
  have got: "dget ?f3 q = (if prefix w q then dget f (tmp @ drop (length w) q) else if prefix tmp q then None
       else dget ?f2 q)" for q
    using get3 [of q] get2 [of "tmp @ drop (length w) q"] apart_below [OF tmp(2), of "tmp @ drop (length w) q"]
      apart_below [OF tmp(1), of "tmp @ drop (length w) q"] by (auto split: if_splits)
  have fine: "dget (fs_remove a ?f3) q = (if prefix w q then dget f (tmp @ drop (length w) q)
         else if prefix a q \<or> prefix tmp q then None else dget f q)" for q
    using got [of q] get2 [of q] apart_below [OF a(3), of q] by (auto simp: fs_simps)
  have undone: "dget ?undo q = (if prefix a q then None else dget f q)" for q
  proof (cases "prefix w q")
    case True
    then obtain x where "q = w @ x" by (auto simp: prefix_def)
    with getb [of q] get2 [of "a @ x"] apart_below [OF a(3), of q] True show ?thesis by simp
  next
    case False
    then show ?thesis using getb [of q] get2 [of q] by simp
  qed
  show ?thesis
    unfolding swap_in_def os_replace_def swapped_get_def swap_answer_def
    using f ok2 dict_ok_remove [OF ok3] okb fine undone get2 by (simp add: step1 step2 bk rm)
qed

end
