(* ===== verification/Checkpoint.thy ===== *)
theory Checkpoint
  imports Orch_Model Snapshot_Store Host_Faults
begin

text \<open>
  \<open>_orchestration/checkpoint.py\<close>: the bridge that copies a worker's working directory into
  the snapshot store and back. The bridge is given the store (a record of methods) and the
  attributes of the sandbox objects it looks at; its own state is the restore log, and what
  it changes is the host's file tree.
\<close>

section \<open>The bridge\<close>

text \<open>
  What the bridge asks of a sandbox: \<open>_host_workdir\<close>, what \<open>getcwd\<close> of its backend answers
  (if it has a backend), and its \<open>snapshot\<close> method.
\<close>

record sandbox_host =
  sbh_host_workdir :: "string option"
  sbh_getcwd :: "string result option"
  sbh_snapshot :: "string \<Rightarrow> host \<Rightarrow> string result \<times> host"

type_synonym restore_log = "(string \<times> string) list"

definition backend_workdir :: "sandbox_host \<Rightarrow> host \<Rightarrow> string option result" where
  "backend_workdir sb h =
     (case sbh_getcwd sb of
        None \<Rightarrow> Inr None
      | Some (Inl e) \<Rightarrow> if e = CancelledError then Inl e else Inr None
      | Some (Inr cwd) \<Rightarrow>
          if cwd \<noteq> [] \<and> fs_isdir (h_fs h) (fs_path cwd) then Inr (Some cwd) else Inr None)"

definition workdir_of :: "sandbox_host \<Rightarrow> host \<Rightarrow> string option result" where
  "workdir_of sb h =
     (case sbh_host_workdir sb of
        Some d \<Rightarrow>
          if d \<noteq> [] \<and> fs_isdir (h_fs h) (fs_path d) then Inr (Some d) else backend_workdir sb h
      | None \<Rightarrow> backend_workdir sb h)"

definition try_backend_snapshot ::
  "sandbox_host \<Rightarrow> string \<Rightarrow> host \<Rightarrow> string option result \<times> host" where
  "try_backend_snapshot sb tag h =
     (case sbh_snapshot sb tag h of
        (Inr p, h1) \<Rightarrow> (Inr (Some p), h1)
      | (Inl e, h1) \<Rightarrow> if e = CancelledError then (Inl e, h1) else (Inr None, h1))"

text \<open>Python's \<open>int\<close> of a float truncates towards zero.\<close>

definition py_int :: "rat \<Rightarrow> int" where
  "py_int r = (if r < 0 then \<lceil>r\<rceil> else \<lfloor>r\<rfloor>)"

definition checkpoint_tag :: "checkpoint_scope \<Rightarrow> time \<Rightarrow> string" where
  "checkpoint_tag scope now = checkpoint_scope_value scope @ ''-'' @ show_int (py_int (now * 1000))"

definition store_tag :: "checkpoint_scope \<Rightarrow> string \<Rightarrow> string" where
  "store_tag effective tag = checkpoint_scope_value effective @ '':'' @ tag"

definition checkpoint ::
  "host snapshot_store \<Rightarrow> (sandbox \<Rightarrow> sandbox_host) \<Rightarrow> actor \<Rightarrow> worker \<Rightarrow> checkpoint_scope \<Rightarrow>
   host \<Rightarrow> string result \<times> host" where
  "checkpoint ss objs a w scope h =
     (case w_sandbox w of
        None \<Rightarrow> (Inl CheckpointError, h)
      | Some sb \<Rightarrow>
          (let tag = checkpoint_tag scope (h_time h) in
           case (if scope = FULL then try_backend_snapshot (objs sb) tag h else (Inr None, h)) of
             (Inl e, h1) \<Rightarrow> (Inl e, h1)
           | (Inr local_dir, h1) \<Rightarrow>
               (let effective = (if scope = FULL \<and> local_dir = None then DATA else scope);
                    source = (case local_dir of
                                Some d \<Rightarrow> if d \<noteq> [] then Inr (Some d) else workdir_of (objs sb) h1
                              | None \<Rightarrow> workdir_of (objs sb) h1)
                in case source of
                  Inl e \<Rightarrow> (Inl e, h1)
                | Inr None \<Rightarrow> (Inl CheckpointError, h1)
                | Inr (Some src) \<Rightarrow>
                    if \<not> fs_isdir (h_fs h1) (fs_path src) then (Inl CheckpointError, h1)
                    else (case ss_put_tree ss (a_actor_id a) (store_tag effective tag) src
                                 (Some (a_template_id a)) h1 of
                      (Inl e, h2) \<Rightarrow> (Inl e, h2)
                    | (Inr meta, h2) \<Rightarrow>
                        (case local_dir of
                           None \<Rightarrow> (Inr (sm_snapshot_ref meta), h2)
                         | Some d \<Rightarrow>
                             (Inr (sm_snapshot_ref meta),
                              h2\<lparr>h_fs := fs_rmtree_ignore (fs_path d) (h_fs h2)\<rparr>))))))"

text \<open>The swap and the restore, given which renames the system refuses, and when it refuses none.\<close>

definition swap_workdir_on :: "faults \<Rightarrow> string \<Rightarrow> string \<Rightarrow> fs \<Rightarrow> unit result \<times> fs" where
  "swap_workdir_on fl workdir tmp_dir f =
     (let aside = fs_path (rstrip_sep workdir @ ''.aside'');
          w = fs_path workdir;
          tmp = fs_path tmp_dir;
          f1 = (if fs_exists f aside then fs_rmtree_ignore aside f else f);
          had = fs_exists f1 w
      in case (if had then os_replace fl w aside f1 else (Inr (), f1)) of
           (Inl e, f2) \<Rightarrow> (Inl e, f2)
         | (Inr _, f2) \<Rightarrow>
             (case os_replace fl tmp w f2 of
                (Inl e, f3) \<Rightarrow>
                  if had then (case os_replace fl aside w f3 of
                      (Inl e', f4) \<Rightarrow> (Inl e', f4)
                    | (Inr _, f4) \<Rightarrow> (Inl e, f4))
                  else (Inl e, f3)
              | (Inr _, f3) \<Rightarrow> (Inr (), if had then fs_rmtree_ignore aside f3 else f3)))"

definition swap_workdir :: "string \<Rightarrow> string \<Rightarrow> fs \<Rightarrow> unit result \<times> fs" where
  "swap_workdir = swap_workdir_on no_faults"

definition restore_prefix :: "actor \<Rightarrow> string" where
  "restore_prefix a = ''ckpt-restore-'' @ a_actor_id a @ ''-''"

definition restore_on ::
  "faults \<Rightarrow> host snapshot_store \<Rightarrow> (sandbox \<Rightarrow> sandbox_host) \<Rightarrow> actor \<Rightarrow> worker \<Rightarrow> string \<Rightarrow>
   restore_log \<Rightarrow> host \<Rightarrow> unit result \<times> restore_log \<times> host" where
  "restore_on fl ss objs a w snapshot_ref lg h =
     (case w_sandbox w of
        None \<Rightarrow> (Inl CheckpointError, lg, h)
      | Some sb \<Rightarrow>
          (case workdir_of (objs sb) h of
             Inl e \<Rightarrow> (Inl e, lg, h)
           | Inr None \<Rightarrow> (Inl CheckpointError, lg, h)
           | Inr (Some workdir) \<Rightarrow>
               (let lg1 = lg @ [(a_actor_id a, snapshot_ref)];
                    parent = path_dirname (rstrip_sep workdir);
                    tmp_parent = (if parent = [] then ''.'' else parent)
                in case mkdtemp (restore_prefix a) tmp_parent h of
                  (Inl e, h1) \<Rightarrow> (Inl e, lg1, h1)
                | (Inr tmp_dir, h1) \<Rightarrow>
                    (let cleanup = (\<lambda>h. h\<lparr>h_fs := fs_rmtree_ignore (fs_path tmp_dir) (h_fs h)\<rparr>) in
                     case ss_restore_tree ss snapshot_ref tmp_dir h1 of
                       (Inl e, h2) \<Rightarrow>
                         (Inl e, lg1, if e = CancelledError then h2 else cleanup h2)
                     | (Inr _, h2) \<Rightarrow>
                         (case swap_workdir_on fl workdir tmp_dir (h_fs h2) of
                            (Inl e, f) \<Rightarrow> (Inl e, lg1, cleanup (h2\<lparr>h_fs := f\<rparr>))
                          | (Inr _, f) \<Rightarrow> (Inr (), lg1, h2\<lparr>h_fs := f\<rparr>))))))"

definition restore ::
  "host snapshot_store \<Rightarrow> (sandbox \<Rightarrow> sandbox_host) \<Rightarrow> actor \<Rightarrow> worker \<Rightarrow> string \<Rightarrow>
   restore_log \<Rightarrow> host \<Rightarrow> unit result \<times> restore_log \<times> host" where
  "restore = restore_on no_faults"

section \<open>The temporary directory\<close>

text \<open>
  \<open>tempfile\<close> draws its random names as eight characters out of letters, digits and the
  underscore.
\<close>

definition tmp_names_ok :: "host \<Rightarrow> bool" where
  "tmp_names_ok h \<longleftrightarrow>
     (\<forall>n. length (h_names h n) = 8 \<and> CHR ''/'' \<notin> set (h_names h n) \<and> CHR ''.'' \<notin> set (h_names h n))"

lemma mkdtemp_try_spec:
  "mkdtemp_try n pre dir h = (r, h') \<Longrightarrow>
   (case r of
      Inl e \<Rightarrow> h_fs h' = h_fs h
    | Inr name \<Rightarrow> (\<exists>k. name = path_join dir (pre @ h_names h k)) \<and>
        \<not> fs_exists (h_fs h) (fs_path name) \<and> fs_isdir (h_fs h) (butlast (fs_path name)) \<and>
        h_fs h' = dput (fs_path name) DirE (h_fs h)) \<and>
   h' = h\<lparr>h_fs := h_fs h', h_nnames := h_nnames h'\<rparr>"
proof (induction n arbitrary: h)
  case (Suc n)
  let ?name = "path_join dir (pre @ h_names h (h_nnames h))"
  show ?case
  proof (cases "fs_exists (h_fs h) (fs_path ?name)")
    case True
    with Suc.prems have "mkdtemp_try n pre dir (h\<lparr>h_nnames := Suc (h_nnames h)\<rparr>) = (r, h')"
      by (simp add: Let_def)
    from Suc.IH [OF this] show ?thesis by (cases r) (cases h', auto)+
  next
    case False
    with Suc.prems show ?thesis by (auto simp: Let_def split: if_splits)
  qed
qed auto

lemma mkdtemp_spec:
  "mkdtemp pre dir h = (r, h') \<Longrightarrow>
   (case r of
      Inl e \<Rightarrow> h_fs h' = h_fs h
    | Inr name \<Rightarrow> (\<exists>k. name = path_join dir (pre @ h_names h k)) \<and>
        \<not> fs_exists (h_fs h) (fs_path name) \<and> fs_isdir (h_fs h) (butlast (fs_path name)) \<and>
        h_fs h' = dput (fs_path name) DirE (h_fs h)) \<and>
   h' = h\<lparr>h_fs := h_fs h', h_nnames := h_nnames h'\<rparr>"
  unfolding mkdtemp_def by (rule mkdtemp_try_spec)

section \<open>Swapping the working directory\<close>

definition aside_of :: "path \<Rightarrow> path" where
  "aside_of w = butlast w @ [last w @ ''.aside'']"

lemma aside_path:
  assumes "w \<noteq> []" and "\<forall>c \<in> set w. comp_ok c"
  shows "fs_path (rstrip_sep (path_str w) @ ''.aside'') = aside_of w"
proof -
  from assms have "last w \<in> set w" by simp
  with assms(2) have l: "last w \<noteq> []" "CHR ''/'' \<notin> set (last w)" unfolding comp_ok_def by blast+
  have "length (last w @ ''.aside'') > 2" by simp
  then have "last w @ ''.aside'' \<noteq> ''.''" "last w @ ''.aside'' \<noteq> ''..''" by auto
  with l have "comp_ok (last w @ ''.aside'')" by (simp add: comp_ok_def)
  then have "\<forall>c \<in> set (aside_of w). comp_ok c"
    using assms by (auto simp: aside_of_def dest: in_set_butlastD)
  then show ?thesis
    by (simp add: rstrip_str [OF assms] path_str_ext [OF assms(1)] aside_of_def [symmetric])
qed

lemma apart_aside: "w \<noteq> [] \<Longrightarrow> apart w (aside_of w)"
  using apart_siblings [of "last w" "last w @ ''.aside''" "butlast w"] by (simp add: aside_of_def)

text \<open>The workdir is there and nothing but a directory has the aside name: the renames decide.\<close>

lemma swap_workdir_in:
  assumes w: "w \<noteq> []" "\<forall>c \<in> set w. comp_ok c" and dir: "fs_isdir f w" and nf: "\<not> fs_isfile f (aside_of w)"
  shows "swap_workdir_on fl (path_str w) tmp_dir f =
    swap_in fl w (aside_of w) (fs_path tmp_dir) (cleared (aside_of w) f)"
proof -
  let ?a = "aside_of w"
  have f1: "(if fs_exists f ?a then fs_rmtree_ignore ?a f else f) = cleared ?a f"
    using nf fs_exists_cases fs_rmtree_dir by (auto simp: cleared_def)
  have "fs_lookup (cleared ?a f) w = Some DirE"
    using cleared_lookup [of ?a w f] apart_aside [OF w(1)] dir by (simp add: apart_def fs_isdir_def)
  then show ?thesis
    unfolding swap_workdir_on_def swap_in_def aside_path [OF w] fs_path_str [OF w(2)] Let_def f1
    by (simp add: fs_exists_def split: prod.split sum.split)
qed

lemma swap_outcome:
  assumes w: "w \<noteq> []" "\<forall>c \<in> set w. comp_ok c" and f: "dict_ok f"
    and dirs: "fs_isdir f w" "fs_isdir f tmp" "fs_isdir f (butlast w)"
    and tmp: "apart tmp w" "apart tmp (aside_of w)"
  shows "\<exists>f'. swap_in fl w (aside_of w) tmp (cleared (aside_of w) f) = (swap_answer fl w (aside_of w) tmp, f') \<and>
    dict_ok f' \<and> (\<forall>q. dget f' q = swapped_get fl w (aside_of w) tmp (cleared (aside_of w) f) q)"
proof -
  let ?a = "aside_of w"
  have wa: "apart w ?a" by (rule apart_aside [OF w(1)])
  have "\<not> prefix ?a (butlast w)"
    using wa by (metis append_butlast_last_id apart_def prefix_prefix prefix_snoc w(1))
  moreover have "\<not> prefix ?a w" "\<not> prefix ?a tmp" using wa tmp(2) by (simp_all add: apart_def)
  ultimately have "fs_isdir (cleared ?a f) w" "fs_isdir (cleared ?a f) tmp" "fs_isdir (cleared ?a f) (butlast w)"
    using dirs by (simp_all add: fs_isdir_def cleared_lookup)
  then show ?thesis
    by (rule swap_in_spec [OF cleared_ok [OF f] _ _ _ _ _ wa tmp])
      (simp_all add: aside_of_def cleared_free)
qed

lemma swap_ok:
  assumes w: "w \<noteq> []" "\<forall>c \<in> set w. comp_ok c" and f: "dict_ok f"
    and dirs: "fs_isdir f w" "fs_isdir f tmp" "fs_isdir f (butlast w)"
    and afile: "\<not> fs_isfile f (aside_of w)"
    and tmp: "tmp = fs_path tmp_dir" "apart tmp w" "apart tmp (aside_of w)"
  shows "\<exists>f'. swap_workdir_on no_faults (path_str w) tmp_dir f = (Inr (), f') \<and> dict_ok f' \<and>
    (\<forall>q. dget f' q =
       (if prefix w q then dget f (tmp @ drop (length w) q)
        else if prefix (aside_of w) q \<or> prefix tmp q then None else dget f q))"
proof -
  from swap_outcome [OF w f dirs tmp(2,3), of no_faults] obtain f' where
    "swap_workdir_on no_faults (path_str w) tmp_dir f = (Inr (), f')" and "dict_ok f'"
    and "\<And>q. dget f' q = swapped_get no_faults w (aside_of w) tmp (cleared (aside_of w) f) q"
    unfolding swap_workdir_in [OF w dirs(1) afile] tmp(1) swap_answer_def by (auto simp: no_faults_def)
  moreover have "\<not> prefix (aside_of w) (tmp @ x)" for x using apart_below [OF tmp(3), of "tmp @ x"] by simp
  ultimately show ?thesis by (auto simp: swapped_get_def no_faults_def cleared_get)
qed

lemma swap_refused:
  assumes w: "w \<noteq> []" "\<forall>c \<in> set w. comp_ok c"
    and dirs: "fs_isdir f w" "fs_isdir f (butlast w)" and afile: "fs_isfile f (aside_of w)"
  shows "swap_workdir_on fl (path_str w) tmp_dir f = (Inl OSError, f)"
proof -
  let ?a = "aside_of w"
  obtain b where b: "fs_lookup f ?a = Some (FileE b)"
    using afile by (auto simp: fs_isfile_def split: option.splits entry.splits)
  have wa: "apart w ?a" by (rule apart_aside [OF w(1)])
  have "fs_rmtree_ignore ?a f = f" using b by (simp add: fs_rmtree_ignore_def fs_rmtree_def)
  moreover have "fs_replace w ?a f = (Inl OSError, f)"
    using b wa dirs by (auto simp: fs_replace_def apart_def fs_isdir_def aside_of_def)
  ultimately show ?thesis
    unfolding swap_workdir_on_def aside_path [OF w] fs_path_str [OF w(2)]
    using dirs b by (simp add: Let_def fs_exists_def fs_isdir_def os_replace_def)
qed

section \<open>Restoring\<close>

text \<open>The situation of a restore: a workdir in a closed tree, apart from the store's directory.\<close>

definition restore_ready :: "path \<Rightarrow> path \<Rightarrow> actor \<Rightarrow> host \<Rightarrow> bool" where
  "restore_ready base p a h \<longleftrightarrow>
     p \<noteq> [] \<and> (\<forall>c \<in> set p. comp_ok c) \<and> fs_ok (h_fs h) \<and> fs_ready base (h_fs h) \<and>
     fs_isdir (h_fs h) p \<and> apart p base \<and> apart (aside_of p) base \<and>
     tmp_names_ok h \<and> CHR ''/'' \<notin> set (a_actor_id a)"

lemma restore_tmp:
  assumes ready: "restore_ready base p a h"
    and mk: "mkdtemp (restore_prefix a) (path_dirname (path_str p)) h = (Inr name, h1)"
  shows "\<exists>c. fs_path name = butlast p @ [c]" and "\<not> fs_exists (h_fs h) (fs_path name)"
    and "apart (fs_path name) p" and "apart (fs_path name) (aside_of p)"
    and "\<not> prefix base (fs_path name)" and "fs_isdir (h_fs h) (butlast p)"
    and "h_fs h1 = dput (fs_path name) DirE (h_fs h)"
    and "h1 = h\<lparr>h_fs := h_fs h1, h_nnames := h_nnames h1\<rparr>"
proof -
  from mkdtemp_spec [OF mk] obtain k
    where name: "name = path_join (path_dirname (path_str p)) (restore_prefix a @ h_names h k)"
      and new: "\<not> fs_exists (h_fs h) (fs_path name)"
      and dir: "fs_isdir (h_fs h) (butlast (fs_path name))"
      and h1: "h_fs h1 = dput (fs_path name) DirE (h_fs h)"
        "h1 = h\<lparr>h_fs := h_fs h1, h_nnames := h_nnames h1\<rparr>" by auto
  let ?c = "restore_prefix a @ h_names h k"
  have p: "p \<noteq> []" "\<forall>c \<in> set p. comp_ok c" using ready by (simp_all add: restore_ready_def)
  have "comp_ok ?c"
    using ready by (simp add: restore_ready_def tmp_names_ok_def comp_ok_def restore_prefix_def)
  from path_sibling(1) [OF p this] name have path: "fs_path name = butlast p @ [?c]" by simp
  then show "\<exists>c. fs_path name = butlast p @ [c]" ..
  show "\<not> fs_exists (h_fs h) (fs_path name)" by (rule new)
  show "fs_isdir (h_fs h) (butlast p)" using dir path by simp
  have "last p \<noteq> ?c"
  proof
    assume "last p = ?c"
    then have "fs_path name = p" using path p(1) by (metis append_butlast_last_id)
    with new ready show False by (simp add: restore_ready_def fs_exists_def fs_isdir_def)
  qed
  then show "apart (fs_path name) p"
    using apart_siblings [of ?c "last p" "butlast p"] path p(1) by simp
  have "last p @ ''.aside'' \<noteq> ?c"
  proof
    assume eq: "last p @ ''.aside'' = ?c"
    have "length (h_names h k) = 8" "CHR ''.'' \<notin> set (h_names h k)"
      using ready by (simp_all add: restore_ready_def tmp_names_ok_def)
    moreover have "h_names h k = drop (length ?c - 8) ?c" using calculation(1) by simp
    moreover have "CHR ''.'' \<in> set (drop (length ?c - 8) ?c)"
      unfolding eq [symmetric] by (simp add: Suc_diff_le)
    ultimately show False by simp
  qed
  then show "apart (fs_path name) (aside_of p)"
    using apart_siblings [of ?c "last p @ ''.aside''" "butlast p"] path by (simp add: aside_of_def)
  have base: "fs_isdir (h_fs h) base" and ap: "\<not> prefix base p"
    using ready by (simp_all add: restore_ready_def fs_ready_def apart_def)
  show "\<not> prefix base (fs_path name)"
  proof
    assume "prefix base (fs_path name)"
    then consider "base = fs_path name" | "prefix base (butlast p)" unfolding path prefix_snoc by blast
    then show False
    proof cases
      case 1
      with base new show False by (simp add: fs_exists_def fs_isdir_def)
    next
      case 2
      with ap p(1) show False by (metis append_butlast_last_id prefix_prefix)
    qed
  qed
  show "h_fs h1 = dput (fs_path name) DirE (h_fs h)"
    and "h1 = h\<lparr>h_fs := h_fs h1, h_nnames := h_nnames h1\<rparr>" by fact+
qed

lemma prefix_butlast_self: "p \<noteq> [] \<Longrightarrow> \<not> prefix p (butlast p)"
  by (metis append_butlast_last_id not_Cons_self2 prefix_order.antisym prefixI same_append_eq append_Nil2)

lemma not_below_sibling: "fs_path name = butlast p @ [c] \<Longrightarrow> \<not> prefix (fs_path name) (butlast p)"
  using prefix_length_le by fastforce

context tree_store
begin

lemma restore_ok:
  assumes ready: "restore_ready base p a h" and saved: "saved h ref t"
    and sb: "w_sandbox w = Some sb" and wd: "workdir_of (objs sb) h = Inr (Some (path_str p))"
    and mk: "mkdtemp (restore_prefix a) (path_dirname (path_str p)) h = (Inr name, h1)"
    and afile: "\<not> fs_isfile (h_fs h) (aside_of p)"
  shows "\<exists>h'. restore ss objs a w ref lg h = (Inr (), lg @ [(a_actor_id a, ref)], h') \<and>
    dict_ok (h_fs h') \<and>
    (\<forall>q. dget (h_fs h') q =
       (if q = p then Some DirE else if prefix p q then t (drop (length p) q)
        else if prefix (aside_of p) q then None else dget (h_fs h) q))"
proof -
  let ?tmp = "fs_path name"
  note T = restore_tmp [OF ready mk]
  from T(1) obtain c where c: "?tmp = butlast p @ [c]" by blast
  have p: "p \<noteq> []" "\<forall>c \<in> set p. comp_ok c" and fsok: "fs_ok (h_fs h)" and pdir: "fs_isdir (h_fs h) p"
    and ab: "apart p base" "apart (aside_of p) base"
    using ready by (simp_all add: restore_ready_def)
  have f: "dict_ok (h_fs h)" using fsok by (simp add: fs_ok_def)
  have tp: "\<not> prefix ?tmp p" "\<not> prefix ?tmp (aside_of p)" "\<not> prefix p ?tmp"
    using T(3,4) by (simp_all add: apart_def)
  have f1: "dict_ok (h_fs h1)" by (simp add: T(7) f)
  have get1: "dget (h_fs h1) q = (if q = ?tmp then Some DirE else dget (h_fs h) q)" for q
    by (simp add: T(7) dict_simps)
  have "saved h1 ref t"
    using saved by (rule saved_keeps) (use T(5) in \<open>auto simp: get1\<close>)
  moreover have "fs_isdir (h_fs h1) ?tmp" by (simp add: fs_isdir_def fs_lookup_def get1)
  ultimately obtain f2 where re: "ss_restore_tree ss ref name h1 = (Inr (), h1\<lparr>h_fs := f2\<rparr>)"
    and f2: "dict_ok f2"
    and get2: "\<And>q. dget f2 q = (case (if strict_prefix ?tmp q then t (drop (length ?tmp) q) else None) of
                               Some e \<Rightarrow> Some e | None \<Rightarrow> dget (h_fs h1) q)"
    using restores [of h1 ref t name] f1 by blast
  have below: "dget (h_fs h) (?tmp @ s) = None" for s
    using fs_missing_below [OF fsok T(2), of s] c by (simp add: fs_lookup_def)
  have in_tmp: "dget f2 (?tmp @ s) = (if s = [] then Some DirE else t s)" for s
    using below [of s] by (auto simp: get2 get1 strict_prefix_def split: option.split)
  have out: "\<not> prefix ?tmp q \<Longrightarrow> dget f2 q = dget (h_fs h) q" for q
    by (auto simp: get2 get1 strict_prefix_def)
  have look: "\<not> prefix ?tmp q \<Longrightarrow> fs_lookup f2 q = fs_lookup (h_fs h) q" for q
    by (simp add: fs_lookup_def out)
  have "fs_isdir f2 p" "\<not> fs_isfile f2 (aside_of p)" "fs_isdir f2 (butlast p)" "fs_isdir f2 ?tmp"
    using look tp pdir afile T(6) not_below_sibling [OF c] in_tmp [of "[]"] c
    by (auto simp: fs_isdir_def fs_isfile_def fs_lookup_def)
  then obtain f3 where sw: "swap_workdir_on no_faults (path_str p) name f2 = (Inr (), f3)" and f3: "dict_ok f3"
    and get3: "\<And>q. dget f3 q =
       (if prefix p q then dget f2 (?tmp @ drop (length p) q)
        else if prefix (aside_of p) q \<or> prefix ?tmp q then None else dget f2 q)"
    using swap_ok [OF p f2 _ _ _ _ refl T(3,4)] by blast
  have run: "restore ss objs a w ref lg h =
      (Inr (), lg @ [(a_actor_id a, ref)], h1\<lparr>h_fs := f3\<rparr>)"
    using sb wd mk re sw path_sibling(2) [OF p, of "''x''"] rstrip_str [OF p]
    by (simp add: restore_def restore_on_def Let_def comp_ok_def)
  have "dget f3 q = (if q = p then Some DirE else if prefix p q then t (drop (length p) q)
        else if prefix (aside_of p) q then None else dget (h_fs h) q)" for q
  proof (cases "prefix p q")
    case True
    then show ?thesis by (auto simp: get3 in_tmp prefix_def)
  next
    case False
    then have "q \<noteq> p" by auto
    show ?thesis
    proof (cases "prefix ?tmp q")
      case True
      then obtain s where "q = ?tmp @ s" by (auto simp: prefix_def)
      with False \<open>q \<noteq> p\<close> below [of s] True show ?thesis by (simp add: get3)
    next
      case False2: False
      with False \<open>q \<noteq> p\<close> show ?thesis by (simp add: get3 out)
    qed
  qed
  with run f3 show ?thesis by (intro exI [of _ "h1\<lparr>h_fs := f3\<rparr>"]) simp
qed

text \<open>
  A restore that fails leaves the file tree as it was, but for an aside directory it removed; when
  the roll-back is refused as well, the old tree is whole under the aside name.
\<close>

lemma restore_failed:
  assumes ready: "restore_ready base p a h"
    and wd: "\<And>sb. w_sandbox w = Some sb \<Longrightarrow> workdir_of (objs sb) h = Inr (Some (path_str p))"
    and run: "restore_on fl ss objs a w ref lg h = (Inl e, lg', h')" and e: "e \<noteq> CancelledError"
  shows "(\<forall>q. dget (h_fs h') q = dget (h_fs h) q \<or> prefix (aside_of p) q \<and> dget (h_fs h') q = None) \<or>
    fl_rename fl (aside_of p) p \<and> (\<forall>x. dget (h_fs h') (aside_of p @ x) = dget (h_fs h) (p @ x))"
proof (cases "w_sandbox w")
  case None
  with run show ?thesis by (simp add: restore_on_def)
next
  case (Some sb)
  have p: "p \<noteq> []" "\<forall>c \<in> set p. comp_ok c" and fsok: "fs_ok (h_fs h)" and pdir: "fs_isdir (h_fs h) p"
    using ready by (simp_all add: restore_ready_def)
  have f: "dict_ok (h_fs h)" using fsok by (simp add: fs_ok_def)
  obtain r1 h1 where mk: "mkdtemp (restore_prefix a) (path_dirname (path_str p)) h = (r1, h1)"
    by (cases "mkdtemp (restore_prefix a) (path_dirname (path_str p)) h")
  note eq = run [unfolded restore_on_def Some wd [OF Some] option.case sum.case Let_def
      rstrip_str [OF p], simplified path_sibling(2) [OF p, of "''x''"] comp_ok_def]
  have par: "path_dirname (path_str p) \<noteq> []"
    using path_sibling(2) [OF p, of "''x''"] by (simp add: comp_ok_def)
  show ?thesis
  proof (cases r1)
    case (Inl e1)
    with mkdtemp_spec [OF mk] have "h_fs h1 = h_fs h" by simp
    moreover have "h' = h1" using eq par mk Inl by simp
    ultimately show ?thesis by simp
  next
    case (Inr name)
    note T = restore_tmp [OF ready mk [unfolded Inr]]
    let ?tmp = "fs_path name"
    from T(1) obtain c where c: "?tmp = butlast p @ [c]" by blast
    have get1: "dget (h_fs h1) q = (if q = ?tmp then Some DirE else dget (h_fs h) q)" for q
      by (simp add: T(7) dict_simps)
    obtain r2 h2 where re: "ss_restore_tree ss ref name h1 = (r2, h2)"
      by (cases "ss_restore_tree ss ref name h1")
    have "dict_ok (h_fs h1)" by (simp add: T(7) f)
    from restore_changes [OF re this] have f2: "dict_ok (h_fs h2)"
      and get2: "\<And>q. \<not> strict_prefix ?tmp q \<Longrightarrow> dget (h_fs h2) q = dget (h_fs h1) q" by auto
    have tmp2: "dget (h_fs h2) ?tmp = Some DirE" using get2 [of ?tmp] get1 by simp
    have rm: "dget (fs_rmtree_ignore ?tmp f) q = (if prefix ?tmp q then None else dget f q)"
      if "dget f ?tmp = Some DirE" for f q
      using that c by (subst fs_rmtree_dir) (simp_all add: fs_isdir_def fs_lookup_def fs_simps)
    have none: "prefix ?tmp q \<Longrightarrow> dget (h_fs h) q = None" for q
      using fs_missing_below [OF fsok T(2)] c by (auto simp: prefix_def fs_lookup_def)
    have out: "\<not> prefix ?tmp q \<Longrightarrow> dget (h_fs h2) q = dget (h_fs h) q" for q
      using get2 [of q] get1 [of q] by (auto simp: strict_prefix_def)
    have undone: "dget (fs_rmtree_ignore ?tmp (h_fs h2)) q = dget (h_fs h) q" for q
      using rm [OF tmp2, of q] none [of q] out [of q] by simp
    show ?thesis
    proof (cases r2)
      case (Inl e2)
      with eq par mk Inr re e undone show ?thesis by auto
    next
      case u: (Inr u)
      have tp: "\<not> prefix ?tmp p" "\<not> prefix ?tmp (aside_of p)" "\<not> prefix p ?tmp" "\<not> prefix (aside_of p) ?tmp"
        using T(3,4) by (simp_all add: apart_def)
      have look: "\<not> prefix ?tmp q \<Longrightarrow> fs_lookup (h_fs h2) q = fs_lookup (h_fs h) q" for q
        using out [of q] by (simp add: fs_lookup_def)
      have d2: "fs_isdir (h_fs h2) p" "fs_isdir (h_fs h2) (butlast p)" "fs_isdir (h_fs h2) ?tmp"
        using look tp pdir T(6) not_below_sibling [OF c] tmp2 c
        by (auto simp: fs_isdir_def fs_lookup_def)
      show ?thesis
      proof (cases "fs_isfile (h_fs h2) (aside_of p)")
        case True
        from swap_refused [OF p d2(1,2) True, of fl name] eq par mk Inr re u undone show ?thesis by auto
      next
        case False
        let ?a = "aside_of p" and ?g = "cleared (aside_of p) (h_fs h2)"
        have pa: "apart p ?a" by (rule apart_aside [OF p(1)])
        from swap_outcome [OF p f2 d2(1,3,2) T(3,4), of fl] obtain f3 where
          sw: "swap_workdir_on fl (path_str p) name (h_fs h2) = (swap_answer fl p ?a ?tmp, f3)"
          and get3: "\<And>q. dget f3 q = swapped_get fl p ?a ?tmp ?g q"
          unfolding swap_workdir_in [OF p d2(1) False] by blast
        from eq par mk Inr re u sw have bad: "fl_rename fl p ?a \<or> fl_rename fl ?tmp p"
          and h': "h_fs h' = fs_rmtree_ignore ?tmp f3" by (auto simp: swap_answer_def split: if_splits)
        have g: "dget ?g q = dget (h_fs h2) q \<or> prefix ?a q \<and> dget ?g q = None" for q by (rule cleared_below)
        have "dget f3 ?tmp = Some DirE"
          using get3 [of ?tmp] bad tp tmp2 by (auto simp: swapped_get_def cleared_get split: if_splits)
        note got = rm [OF this, folded h']
        show ?thesis
        proof (cases "\<not> fl_rename fl p ?a \<and> fl_rename fl ?a p")
          case True
          have "dget (h_fs h') (?a @ x) = dget (h_fs h) (p @ x)" for x
            using got [of "?a @ x"] get3 [of "?a @ x"] True bad
              apart_below [OF apart_sym [OF T(4)], of "?a @ x"] apart_below [OF apart_sym [OF T(3)], of "p @ x"]
              apart_below [OF pa, of "p @ x"] out [of "p @ x"]
            by (simp add: swapped_get_def cleared_get)
          with True show ?thesis by blast
        next
          case False
          have "dget (h_fs h') q = dget (h_fs h) q \<or> prefix ?a q \<and> dget (h_fs h') q = None" for q
            using got [of q] get3 [of q] False bad none [of q] out [of q] g [of q]
            by (auto simp: swapped_get_def split: if_splits)
          then show ?thesis by blast
        qed
      qed
    qed
  qed
qed

end

section \<open>Checkpointing\<close>

text \<open>The bridge reads the live workdir: for data scope, or when the sandbox has no snapshot.\<close>

definition reads_workdir :: "sandbox_host \<Rightarrow> checkpoint_scope \<Rightarrow> host \<Rightarrow> bool" where
  "reads_workdir sb scope h \<longleftrightarrow>
     scope = DATA \<or> sbh_snapshot sb (checkpoint_tag scope (h_time h)) h = (Inl NotImplementedError, h)"

lemma checkpoint_reads_workdir:
  assumes "w_sandbox w = Some sb" and "reads_workdir (objs sb) scope h"
    and "workdir_of (objs sb) h = Inr (Some d)" and "fs_isdir (h_fs h) (fs_path d)"
  shows "checkpoint ss objs a w scope h =
    (case ss_put_tree ss (a_actor_id a) (store_tag DATA (checkpoint_tag scope (h_time h))) d
            (Some (a_template_id a)) h of
       (Inl e, h2) \<Rightarrow> (Inl e, h2)
     | (Inr meta, h2) \<Rightarrow> (Inr (sm_snapshot_ref meta), h2))"
proof (cases scope)
  case FULL
  with assms show ?thesis
    by (simp add: checkpoint_def reads_workdir_def try_backend_snapshot_def Let_def
        split: prod.split sum.split)
next
  case DATA
  with assms show ?thesis by (simp add: checkpoint_def Let_def split: prod.split sum.split)
qed

lemma workdir_of_isdir: "workdir_of sb h = Inr (Some d) \<Longrightarrow> fs_isdir (h_fs h) (fs_path d)"
  by (auto simp: workdir_of_def backend_workdir_def split: option.splits sum.splits if_splits)

context tree_store
begin

lemma checkpoint_changes:
  assumes "names_ok (a_actor_id a) (store_tag DATA (checkpoint_tag scope (h_time h)))"
    and "fs_ready base (h_fs h)" and "w_sandbox w = Some sb" and "reads_workdir (objs sb) scope h"
    and "workdir_of (objs sb) h = Inr (Some d)"
    and "checkpoint ss objs a w scope h = (r, h')"
  shows "fs_ready base (h_fs h') \<and> h' = h\<lparr>h_fs := h_fs h'\<rparr> \<and>
    (\<forall>q. \<not> prefix base q \<longrightarrow> dget (h_fs h') q = dget (h_fs h) q)"
proof -
  let ?tag = "store_tag DATA (checkpoint_tag scope (h_time h))"
  obtain r1 h1 where put: "ss_put_tree ss (a_actor_id a) ?tag d (Some (a_template_id a)) h = (r1, h1)"
    by (cases "ss_put_tree ss (a_actor_id a) ?tag d (Some (a_template_id a)) h")
  note eq = checkpoint_reads_workdir [where objs = objs and sb = sb and ss = ss and a = a,
      OF assms(3-5) workdir_of_isdir [OF assms(5)]]
  have "h' = h1" using assms(6) put eq by (simp split: sum.splits)
  with put_changes [OF assms(1,2) put] show ?thesis by blast
qed

lemma checkpoint_saves:
  assumes "names_ok (a_actor_id a) (store_tag DATA (checkpoint_tag scope (h_time h)))"
    and "fs_ready base (h_fs h)" and "w_sandbox w = Some sb" and "reads_workdir (objs sb) scope h"
    and "workdir_of (objs sb) h = Inr (Some d)" and "apart (fs_path d) base"
    and "checkpoint ss objs a w scope h = (Inr ref, h')"
  shows "saved h' ref (\<lambda>r. if r = [] then None else dget (h_fs h) (fs_path d @ r))"
proof -
  let ?tag = "store_tag DATA (checkpoint_tag scope (h_time h))"
  obtain r1 h1 where put: "ss_put_tree ss (a_actor_id a) ?tag d (Some (a_template_id a)) h = (r1, h1)"
    by (cases "ss_put_tree ss (a_actor_id a) ?tag d (Some (a_template_id a)) h")
  note eq = checkpoint_reads_workdir [where objs = objs and sb = sb and ss = ss and a = a,
      OF assms(3-5) workdir_of_isdir [OF assms(5)]]
  obtain m where "r1 = Inr m" "ref = sm_snapshot_ref m" "h' = h1"
    using assms(7) put eq by (auto split: sum.splits)
  with put_saves [OF assms(1,2,6)] put show ?thesis by simp
qed

text \<open>
  What was checkpointed comes back: after a checkpoint, whatever happened outside the
  store's directory since, a restore into a workdir makes its tree the checkpointed one.
\<close>

lemma checkpoint_restore:
  assumes names: "names_ok (a_actor_id a) (store_tag DATA (checkpoint_tag scope (h_time h)))"
    and cp: "fs_ready base (h_fs h)" "w_sandbox w = Some sb" "reads_workdir (objs sb) scope h"
      "workdir_of (objs sb) h = Inr (Some d)" "apart (fs_path d) base"
      "checkpoint ss objs a w scope h = (Inr ref, h1)"
    and kept: "\<And>q. prefix base q \<Longrightarrow> dget (h_fs h2) q = dget (h_fs h1) q"
    and ready: "restore_ready base p a' h2"
    and sb': "w_sandbox w' = Some sb'" and wd: "workdir_of (objs' sb') h2 = Inr (Some (path_str p))"
    and mk: "mkdtemp (restore_prefix a') (path_dirname (path_str p)) h2 = (Inr name, h3)"
    and afile: "\<not> fs_isfile (h_fs h2) (aside_of p)"
  shows "\<exists>h'. restore ss objs' a' w' ref lg h2 = (Inr (), lg @ [(a_actor_id a', ref)], h') \<and>
    (\<forall>r. tree_at (h_fs h') p r = tree_at (h_fs h) (fs_path d) r)"
proof -
  have p: "p \<noteq> []" using ready by (simp add: restore_ready_def)
  have d: "fs_isdir (h_fs h) (fs_path d)" by (rule workdir_of_isdir [OF cp(4)])
  have saved: "saved h2 ref (\<lambda>r. if r = [] then None else dget (h_fs h) (fs_path d @ r))"
    by (rule saved_keeps [OF checkpoint_saves [where objs = objs and sb = sb, OF names cp]]) (rule kept)
  from restore_ok [where objs = objs' and sb = sb', OF ready saved sb' wd mk afile, of lg] obtain h' where
    run: "restore ss objs' a' w' ref lg h2 = (Inr (), lg @ [(a_actor_id a', ref)], h')"
    and get: "\<And>q. dget (h_fs h') q =
       (if q = p then Some DirE
        else if prefix p q then (if drop (length p) q = [] then None else dget (h_fs h) (fs_path d @ drop (length p) q))
        else if prefix (aside_of p) q then None else dget (h_fs h2) q)" by blast
  have "tree_at (h_fs h') p r = tree_at (h_fs h) (fs_path d) r" for r
    using get [of "p @ r"] p d
    by (cases "r = []") (simp_all add: tree_at_def fs_lookup_def fs_isdir_def)
  with run show ?thesis by blast
qed

end

text \<open>The tags the bridge makes never leave the store's directory.\<close>

lemma checkpoint_tag_no_sep: "CHR ''/'' \<notin> set (store_tag eff (checkpoint_tag scope now))"
  by (cases eff; cases scope)
    (auto simp: store_tag_def checkpoint_tag_def show_int_def show_nat_no_sep)


section \<open>Properties\<close>

text \<open>A sandbox whose working directory is \<open>/ws\<close>, and a local store under \<open>/store\<close>.\<close>

definition demo_local :: local_store where
  "demo_local = \<lparr>ls_base_dir = path_str [''store''], ls_compression = ''gz''\<rparr>"

definition demo_objs :: "sandbox \<Rightarrow> sandbox_host" where
  "demo_objs sb = \<lparr>sbh_host_workdir = Some (path_str [''ws'']), sbh_getcwd = None,
     sbh_snapshot = (\<lambda>t h. (Inl NotImplementedError, h))\<rparr>"

definition demo_ckpt_actor :: actor where
  "demo_ckpt_actor =
     \<lparr>a_actor_id = ''a'', a_namespace = ''ns'', a_template_id = ''t'', a_status = RUNNING, a_version = 1,
      a_worker_assignment = None, a_latest_snapshot_ref = None, a_worker_selector = [],
      a_created_at = 1, a_updated_at = 1\<rparr>"

definition demo_ckpt_worker :: worker where
  "demo_ckpt_worker =
     \<lparr>w_worker_id = ''w-1'', w_state = ACTIVE, w_sandbox_class = VFS, w_version = 3,
      w_assignment = None, w_labels = [], w_node = None, w_sandbox = Some 7\<rparr>"

definition demo_ckpt_fs :: fs where
  "demo_ckpt_fs = [([], DirE), ([''store''], DirE), ([''store'', ''a''], DirE), ([''ws''], DirE), ([''ws'', ''f''], FileE (Raw ''1''))]"

definition demo_ckpt_name :: string where
  "demo_ckpt_name = ''data:data-1000.2.000000.tar.tar.gz''"

definition demo_ckpt_saved :: fs where
  "demo_ckpt_saved = [([], DirE), ([''store''], DirE), ([''store'', ''a''], DirE), ([''ws''], DirE), ([''ws'', ''f''], FileE (Raw ''1'')),
     ([''store'', ''a'', demo_ckpt_name], FileE (Tar ''gz'' [([''f''], FileE (Raw ''1''))]))]"

lemma demo_ckpt_tag: "checkpoint_tag DATA 1 = ''data-1000''"
  by (simp add: checkpoint_tag_def py_int_def show_int_def show_nat.simps digit_char_def)

lemma demo_ckpt_standalone: "standalone_name demo_local ''data:data-1000'' 2 = demo_ckpt_name"
  by (simp add: standalone_name_def demo_time local_suffix_def demo_local_def demo_ckpt_name_def)

lemma demo_checkpoint:
  "\<exists>ref h. checkpoint (local_ops demo_local) demo_objs demo_ckpt_actor demo_ckpt_worker DATA (demo_host demo_ckpt_fs) = (Inr ref, h) \<and>
     h = (demo_host demo_ckpt_fs)\<lparr>h_fs := demo_ckpt_saved\<rparr>"
proof -
  let ?h = "demo_host demo_ckpt_fs"
  have "store_tag DATA ''data-1000'' = ''data:data-1000''" by (simp add: store_tag_def)
  then have name: "standalone_name demo_local (store_tag DATA (checkpoint_tag DATA 1)) 2 = demo_ckpt_name"
    using demo_ckpt_tag demo_ckpt_standalone by simp
  have mk: "fs_makedirs (fs_path (actor_dir_of demo_local ''a'')) demo_ckpt_fs = (Inr (), demo_ckpt_fs)" by code_simp
  have tar: "tar_pack (ls_compression demo_local) (fs_path (path_str [''ws''])) demo_ckpt_fs = Inr (Tar ''gz'' [([''f''], FileE (Raw ''1''))])"
    by code_simp
  have wr: "write_atomic (path_join (actor_dir_of demo_local ''a'') demo_ckpt_name) (Tar ''gz'' [([''f''], FileE (Raw ''1''))]) demo_ckpt_fs
      = (Inr (), demo_ckpt_saved)" by code_simp
  have dir: "fs_isdir demo_ckpt_fs (fs_path (path_str [''ws'']))" by code_simp
  have "workdir_of (demo_objs 7) ?h = Inr (Some (path_str [''ws'']))"
    using dir by (simp add: workdir_of_def demo_objs_def path_str_def demo_host_def)
  then show ?thesis
    using checkpoint_reads_workdir [of demo_ckpt_worker 7 demo_objs DATA ?h "path_str [''ws'']" "local_ops demo_local" demo_ckpt_actor]
      dir mk tar wr
    by (simp add: demo_ckpt_worker_def reads_workdir_def local_ops_def local_put_tree_def Let_def name demo_ckpt_actor_def demo_host_def)
qed

text \<open>
  C5: What was checkpointed comes back: after a checkpoint of a working directory into a local
  store, whatever happened outside the store since, a restore of the reference into a worker's
  working directory makes its tree the one that was checkpointed.
\<close>

theorem checkpoint_restore_roundtrip:
  assumes "local_ok base ls" and "comp_ok (a_actor_id a)" and "fs_ready base (h_fs h)" and "w_sandbox w = Some sb"
    and "reads_workdir (objs sb) scope h" and "workdir_of (objs sb) h = Inr (Some d)" and "apart (fs_path d) base"
    and "checkpoint (local_ops ls) objs a w scope h = (Inr ref, h1)"
    and "\<And>q. prefix base q \<Longrightarrow> dget (h_fs h2) q = dget (h_fs h1) q" and "restore_ready base p a' h2"
    and "w_sandbox w' = Some sb'" and "workdir_of (objs sb') h2 = Inr (Some (path_str p))"
    and "mkdtemp (restore_prefix a') (path_dirname (path_str p)) h2 = (Inr name, h3)"
    and "\<not> fs_isfile (h_fs h2) (aside_of p)"
  shows "\<exists>h'. restore (local_ops ls) objs a' w' ref lg h2 = (Inr (), lg @ [(a_actor_id a', ref)], h') \<and>
    (\<forall>r. tree_at (h_fs h') p r = tree_at (h_fs h) (fs_path d) r)"
proof -
  have "local_ok base ls \<and> local_names_ok (a_actor_id a) (store_tag DATA (checkpoint_tag scope (h_time h)))"
    using assms(1,2) by (simp add: local_names_ok_def checkpoint_tag_no_sep)
  from local.checkpoint_restore [where objs = objs and objs' = objs and sb = sb and sb' = sb', OF this assms(3-14)] show ?thesis .
qed

theorem checkpoint_restore_roundtrip_witness:
  "\<exists>ref h1 h'. checkpoint (local_ops demo_local) demo_objs demo_ckpt_actor demo_ckpt_worker DATA (demo_host demo_ckpt_fs) = (Inr ref, h1) \<and>
     restore (local_ops demo_local) demo_objs demo_ckpt_actor demo_ckpt_worker ref [] h1 = (Inr (), [(''a'', ref)], h') \<and>
     tree_at (h_fs h') [''ws''] [''f''] = Some (FileE (Raw ''1''))"
proof -
  let ?h = "demo_host demo_ckpt_fs"
  let ?h1 = "?h\<lparr>h_fs := demo_ckpt_saved\<rparr>"
  obtain ref where cp: "checkpoint (local_ops demo_local) demo_objs demo_ckpt_actor demo_ckpt_worker DATA ?h = (Inr ref, ?h1)"
    using demo_checkpoint by blast
  have dirs: "fs_isdir demo_ckpt_fs [''ws'']" "fs_isdir demo_ckpt_saved [''ws'']" by code_simp+
  have ls: "local_ok [''store''] demo_local" "comp_ok (a_actor_id demo_ckpt_actor)"
    by (simp_all add: local_ok_def demo_local_def comp_ok_def tar_mode_ok_def demo_ckpt_actor_def)
  have ready: "fs_ready [''store''] (h_fs ?h)" "fs_ready [''store''] (h_fs ?h1)" "fs_ok (h_fs ?h1)"
    by (auto simp: fs_ready_def fs_ok_def dict_ok_def demo_host_def demo_ckpt_fs_def demo_ckpt_saved_def fs_isdir_def
      fs_lookup_def prefix_Cons append_eq_Cons_conv split: if_splits)
  have wd: "workdir_of (demo_objs 7) ?h = Inr (Some (path_str [''ws'']))" "workdir_of (demo_objs 7) ?h1 = Inr (Some (path_str [''ws'']))"
    using dirs by (simp_all add: workdir_of_def demo_objs_def path_str_def demo_host_def fs_path_str [of "[''ws'']", unfolded path_str_def, simplified] comp_ok_def)
  have rr: "restore_ready [''store''] [''ws''] demo_ckpt_actor ?h1"
    using ready dirs by (simp add: restore_ready_def comp_ok_def apart_def aside_of_def tmp_names_ok_def demo_host_def demo_ckpt_actor_def)
  have sb: "w_sandbox demo_ckpt_worker = Some 7" by (simp add: demo_ckpt_worker_def)
  have ap: "apart (fs_path (path_str [''ws''])) [''store'']" by (simp add: comp_ok_def apart_def)
  have rd: "reads_workdir (demo_objs 7) DATA ?h" by (simp add: reads_workdir_def)
  have "(case fst (mkdtemp (restore_prefix demo_ckpt_actor) (path_dirname (path_str [''ws''])) ?h1) of Inl e \<Rightarrow> False | Inr n \<Rightarrow> True)"
    unfolding mkdtemp_def tmp_max_def by (simp add: numeral_eq_Suc) code_simp
  then obtain name h3 where mk: "mkdtemp (restore_prefix demo_ckpt_actor) (path_dirname (path_str [''ws''])) ?h1 = (Inr name, h3)"
    by (cases "mkdtemp (restore_prefix demo_ckpt_actor) (path_dirname (path_str [''ws''])) ?h1") (auto split: sum.splits)
  have nf: "\<not> fs_isfile (h_fs ?h1) (aside_of [''ws''])" by code_simp
  from checkpoint_restore_roundtrip [OF ls ready(1) sb rd wd(1) ap cp refl rr sb wd(2) mk nf, of "[]"] obtain h' where
    re: "restore (local_ops demo_local) demo_objs demo_ckpt_actor demo_ckpt_worker ref [] ?h1 =
       (Inr (), [] @ [(a_actor_id demo_ckpt_actor, ref)], h')"
    and tr: "\<forall>r. tree_at (h_fs h') [''ws''] r = tree_at (h_fs ?h) (fs_path (path_str [''ws''])) r" by blast
  have "tree_at (h_fs ?h) (fs_path (path_str [''ws''])) [''f''] = Some (FileE (Raw ''1''))" by code_simp
  with cp re tr show ?thesis by (simp add: demo_ckpt_actor_def)
qed

text \<open>
  C27: A restore that fails, whichever renames the system refuses on the way, puts the old working
  directory back: every path has its old entry and the temporary directory is gone; only a
  directory left over under the aside name may have been removed. When even the rename back is
  refused, the old tree is whole under the aside name. The failures are \<open>Exception\<close>s: a
  cancellation is not caught by the code and leaves the temporary directory.
\<close>

theorem restore_failure_undone:
  assumes "local_ok base ls" and "restore_ready base p a h"
    and "\<And>sb. w_sandbox w = Some sb \<Longrightarrow> workdir_of (objs sb) h = Inr (Some (path_str p))"
    and "restore_on fl (local_ops ls) objs a w ref lg h = (Inl e, lg', h')" and "e \<noteq> CancelledError"
  shows "(\<forall>q. dget (h_fs h') q = dget (h_fs h) q \<or> prefix (aside_of p) q \<and> dget (h_fs h') q = None) \<or>
    fl_rename fl (aside_of p) p \<and> (\<forall>x. dget (h_fs h') (aside_of p @ x) = dget (h_fs h) (p @ x))"
  by (rule local.restore_failed [OF assms(2-5)])

text \<open>The rename of the restored tree into place is refused, the one back is not.\<close>

definition demo_refused :: faults where
  "demo_refused = \<lparr>fl_rename = (\<lambda>a b. b = [''ws''] \<and> a \<noteq> [''ws.aside'']), fl_copy = (\<lambda>_. None), fl_remove = (\<lambda>_. None)\<rparr>"

theorem restore_failure_undone_witness:
  "\<exists>h'. restore_on demo_refused (local_ops demo_local) demo_objs demo_ckpt_actor demo_ckpt_worker (''/store/a/'' @ demo_ckpt_name) []
      ((demo_host demo_ckpt_fs)\<lparr>h_fs := demo_ckpt_saved\<rparr>) = (Inl OSError, [(''a'', ''/store/a/'' @ demo_ckpt_name)], h') \<and>
     dget (h_fs h') [''ws'', ''f''] = Some (FileE (Raw ''1''))"
proof -
  let ?h1 = "(demo_host demo_ckpt_fs)\<lparr>h_fs := demo_ckpt_saved\<rparr>" and ?ref = "''/store/a/'' @ demo_ckpt_name"
  have fs: "fs_ready [''store''] (h_fs ?h1)" "fs_ok (h_fs ?h1)" "fs_isdir demo_ckpt_saved [''ws'']"
    by (auto simp: fs_ready_def fs_ok_def dict_ok_def demo_host_def demo_ckpt_saved_def fs_isdir_def
      fs_lookup_def prefix_Cons append_eq_Cons_conv split: if_splits)
  have wd: "workdir_of (demo_objs sb) ?h1 = Inr (Some (path_str [''ws'']))" for sb
    using fs(3) by (simp add: workdir_of_def demo_objs_def path_str_def demo_host_def
      fs_path_str [of "[''ws'']", unfolded path_str_def, simplified] comp_ok_def)
  have rr: "restore_ready [''store''] [''ws''] demo_ckpt_actor ?h1"
    using fs by (simp add: restore_ready_def comp_ok_def apart_def aside_of_def tmp_names_ok_def demo_host_def demo_ckpt_actor_def)
  have ls: "local_ok [''store''] demo_local" by (simp add: local_ok_def demo_local_def comp_ok_def tar_mode_ok_def)
  obtain r lg h' where re: "restore_on demo_refused (local_ops demo_local) demo_objs demo_ckpt_actor demo_ckpt_worker ?ref [] ?h1 = (r, lg, h')"
    using prod_cases3 by blast
  let ?mk = "mkdtemp (restore_prefix demo_ckpt_actor) (path_dirname (path_str [''ws''])) ?h1"
  let ?tmp = "''/ckpt-restore-a-abcdefgh''"
  let ?f3 = "demo_ckpt_saved @ [([''ckpt-restore-a-abcdefgh''], DirE)]"
  let ?f4 = "?f3 @ [([''ckpt-restore-a-abcdefgh'', ''f''], FileE (Raw ''1''))]"
  have "fst ?mk = Inr ?tmp \<and> h_fs (snd ?mk) = ?f3"
    unfolding mkdtemp_def tmp_max_def by (simp add: numeral_eq_Suc) code_simp
  then obtain h3 where mk: "?mk = (Inr ?tmp, h3)" and h3: "h_fs h3 = ?f3" by (cases ?mk) auto
  have "fs_read ?f3 (fs_path ?ref) = Some (Tar ''gz'' [([''f''], FileE (Raw ''1''))])" "fs_isdir ?f3 (fs_path ?tmp)"
    "tar_unpack (ls_compression demo_local) (Tar ''gz'' [([''f''], FileE (Raw ''1''))]) (fs_path ?tmp) ?f3 = (Inr (), ?f4)"
    by code_simp+
  then have st: "local_restore_tree demo_local ?ref ?tmp h3 = (Inr (), h3\<lparr>h_fs := ?f4\<rparr>)"
    by (simp add: local_restore_tree_def h3)
  have sw: "fst (swap_workdir_on demo_refused (path_str [''ws'']) ?tmp ?f4) = Inl OSError" by code_simp
  have "path_dirname (path_str [''ws'']) = ''/''" "rstrip_sep (path_str [''ws'']) = path_str [''ws'']" by code_simp+
  with re mk wd st sw have out: "r = Inl OSError" "lg = [(''a'', ?ref)]"
    by (auto simp: restore_on_def demo_ckpt_worker_def Let_def local_ops_def demo_ckpt_actor_def split: prod.splits sum.splits)
  have "(\<forall>q. dget (h_fs h') q = dget (h_fs ?h1) q \<or> prefix (aside_of [''ws'']) q \<and> dget (h_fs h') q = None) \<or>
    fl_rename demo_refused (aside_of [''ws'']) [''ws''] \<and> (\<forall>x. dget (h_fs h') (aside_of [''ws''] @ x) = dget (h_fs ?h1) ([''ws''] @ x))"
    by (rule restore_failure_undone [OF ls rr wd re [unfolded out]]) simp
  then have "dget (h_fs h') [''ws'', ''f''] = dget (h_fs ?h1) [''ws'', ''f'']"
    by (auto simp: demo_refused_def aside_of_def dest: spec [of _ "[''ws'', ''f'']"])
  with re out show ?thesis by (simp add: demo_ckpt_saved_def)
qed

end
