(* ===== verification/Orchestrator.thy ===== *)
theory Orchestrator
  imports Worker_Pool Orch_Router Orch_Lifecycle Checkpoint
begin

text \<open>
  \<open>_orchestration/orchestrator.py\<close>: the actor lifecycle on top of the stores, the worker
  pool, the checkpoint bridge and the router.

  The state \<open>sys\<close> gathers what these components keep. Every \<open>await\<close> of a component's method
  is a point where other tasks may run; what they do there is the parameter \<open>oth\<close>, a function
  of the number of awaits so far, so that \<open>quiet\<close> is the run without interference and a
  concurrent update is a function that applies it. The component's method itself is then
  one step.
\<close>

section \<open>State\<close>

record sys =
  sy_actors :: actor_store
  sy_workers :: worker_pool
  sy_router :: bindings
  sy_templates :: "(string, actor_template) dict"
  sy_golden :: "(string, string) dict"
  sy_store :: "host snapshot_store"
  sy_objs :: "sandbox \<Rightarrow> sandbox_host"
  sy_log :: restore_log
  sy_host :: host
  sy_awaits :: nat

type_synonym others = "nat \<Rightarrow> sys \<Rightarrow> sys"

definition quiet :: others where
  "quiet n s = s"

definition await :: "others \<Rightarrow> sys \<Rightarrow> sys" where
  "await oth s = (oth (sy_awaits s) s)\<lparr>sy_awaits := Suc (sy_awaits s)\<rparr>"

section \<open>Sequencing and exception handlers\<close>

definition andthen :: "'a result \<times> 's \<Rightarrow> ('a \<Rightarrow> 's \<Rightarrow> 'b result \<times> 's) \<Rightarrow> 'b result \<times> 's" where
  "andthen m k = (case m of (Inl e, s) \<Rightarrow> (Inl e, s) | (Inr a, s) \<Rightarrow> k a s)"

definition handling :: "'a result \<times> 's \<Rightarrow> (exn \<Rightarrow> 's \<Rightarrow> 'a result \<times> 's) \<Rightarrow> 'a result \<times> 's" where
  "handling m h = (case m of (Inl e, s) \<Rightarrow> h e s | (Inr a, s) \<Rightarrow> (Inr a, s))"

lemma andthen_simps [simp]: "andthen (Inl e, s) k = (Inl e, s)" "andthen (Inr a, s) k = k a s"
  by (simp_all add: andthen_def)

lemma handling_simps [simp]: "handling (Inl e, s) h = h e s" "handling (Inr a, s) h = (Inr a, s)"
  by (simp_all add: handling_def)

lemma andthen_Inr:
  "andthen m k = (Inr b, s') \<longleftrightarrow> (\<exists>a s. m = (Inr a, s) \<and> k a s = (Inr b, s'))"
  by (cases m; cases "fst m") (auto simp: andthen_def)

fun is_conflict :: "exn \<Rightarrow> bool" where
  "is_conflict (VersionConflict _ _) = True"
| "is_conflict _ = False"

section \<open>Awaited calls\<close>

definition get_actor_rec :: "others \<Rightarrow> string \<Rightarrow> string \<Rightarrow> sys \<Rightarrow> actor result \<times> sys" where
  "get_actor_rec oth ns aid s =
     (let s1 = await oth s in (actor_get ns aid (sy_actors s1), s1))"

definition put_actor :: "others \<Rightarrow> actor \<Rightarrow> int option \<Rightarrow> sys \<Rightarrow> actor result \<times> sys" where
  "put_actor oth a expected s =
     (let s1 = await oth s in
      case actor_put (h_time (sy_host s1)) a expected (sy_actors s1) of
        (r, st) \<Rightarrow> (r, s1\<lparr>sy_actors := st\<rparr>))"

definition unbind_actor :: "others \<Rightarrow> actor_ref \<Rightarrow> sys \<Rightarrow> unit result \<times> sys" where
  "unbind_actor oth r s =
     (let s1 = await oth s in (Inr (), s1\<lparr>sy_router := router_unbind r (sy_router s1)\<rparr>))"

definition bind_actor ::
  "others \<Rightarrow> actor_ref \<Rightarrow> worker_assignment \<Rightarrow> sys \<Rightarrow> unit result \<times> sys" where
  "bind_actor oth r asg s =
     (let s1 = await oth s in (Inr (), s1\<lparr>sy_router := router_bind r asg (sy_router s1)\<rparr>))"

definition on_workers ::
  "others \<Rightarrow> (worker_pool \<Rightarrow> 'a result \<times> worker_pool) \<Rightarrow> sys \<Rightarrow> 'a result \<times> sys" where
  "on_workers oth f s =
     (let s1 = await oth s in case f (sy_workers s1) of (r, wp) \<Rightarrow> (r, s1\<lparr>sy_workers := wp\<rparr>))"

definition get_worker_rec :: "others \<Rightarrow> string \<Rightarrow> sys \<Rightarrow> worker result \<times> sys" where
  "get_worker_rec oth wid =
     on_workers oth (\<lambda>wp. (worker_get wid (wp_store wp), wp))"

definition do_checkpoint ::
  "others \<Rightarrow> actor \<Rightarrow> worker \<Rightarrow> checkpoint_scope \<Rightarrow> sys \<Rightarrow> string result \<times> sys" where
  "do_checkpoint oth a w scope s =
     (let s1 = await oth s in
      case checkpoint (sy_store s1) (sy_objs s1) a w scope (sy_host s1) of
        (r, h) \<Rightarrow> (r, s1\<lparr>sy_host := h\<rparr>))"

definition do_restore :: "others \<Rightarrow> actor \<Rightarrow> worker \<Rightarrow> string \<Rightarrow> sys \<Rightarrow> unit result \<times> sys" where
  "do_restore oth a w ref s =
     (let s1 = await oth s in
      case restore (sy_store s1) (sy_objs s1) a w ref (sy_log s1) (sy_host s1) of
        (r, lg, h) \<Rightarrow> (r, s1\<lparr>sy_log := lg, sy_host := h\<rparr>))"

lemmas call_defs =
  get_actor_rec_def put_actor_def unbind_actor_def bind_actor_def on_workers_def
  get_worker_rec_def do_checkpoint_def do_restore_def

section \<open>Templates and actor records\<close>

definition register_template :: "actor_template \<Rightarrow> sys \<Rightarrow> sys" where
  "register_template t s = s\<lparr>sy_templates := dput (t_template_id t) t (sy_templates s)\<rparr>"

definition get_template :: "string \<Rightarrow> sys \<Rightarrow> actor_template result" where
  "get_template tid s =
     (case dget (sy_templates s) tid of None \<Rightarrow> Inl TemplateNotFound | Some t \<Rightarrow> Inr t)"

definition with_status :: "actor \<Rightarrow> actor_status \<Rightarrow> actor" where
  "with_status a st = a\<lparr>a_status := st\<rparr>"

definition create_actor ::
  "others \<Rightarrow> string \<Rightarrow> string \<Rightarrow> string \<Rightarrow> (string, string) dict \<Rightarrow> sys \<Rightarrow> actor result \<times> sys" where
  "create_actor oth actor_id template_id ns sel s =
     (if dget (sy_templates s) template_id = None then (Inl TemplateNotFound, s)
      else (let now = h_time (sy_host s);
                a = \<lparr>a_actor_id = actor_id, a_namespace = ns, a_template_id = template_id,
                     a_status = SUSPENDED, a_version = 1, a_worker_assignment = None,
                     a_latest_snapshot_ref = None, a_worker_selector = sel,
                     a_created_at = now, a_updated_at = now\<rparr>
            in handling (put_actor oth a None s)
                 (\<lambda>e s1. (Inl (if is_conflict e then ActorStateError else e), s1))))"

definition get_actor :: "others \<Rightarrow> string \<Rightarrow> string \<Rightarrow> sys \<Rightarrow> actor result \<times> sys" where
  "get_actor oth actor_id ns s = get_actor_rec oth ns actor_id s"

definition list_actors :: "others \<Rightarrow> string option \<Rightarrow> sys \<Rightarrow> actor list \<times> sys" where
  "list_actors oth ns s = (let s1 = await oth s in (actor_list ns (sy_actors s1), s1))"

definition delete_actor :: "others \<Rightarrow> string \<Rightarrow> string \<Rightarrow> sys \<Rightarrow> unit result \<times> sys" where
  "delete_actor oth actor_id ns s =
     andthen (get_actor_rec oth ns actor_id s) (\<lambda>actor s1.
     if a_status actor = RUNNING \<or> a_status actor = RESUMING then (Inl ActorStateError, s1)
     else andthen
       (handling
          (andthen (put_actor oth (with_status actor DELETING) (Some (a_version actor)) s1)
             (\<lambda>_ s2. (Inr (), s2)))
          (\<lambda>e s2.
             if e = ActorNotFound then (Inr (), s2)
             else if is_conflict e then
               andthen (get_actor_rec oth ns actor_id s2) (\<lambda>fresh s3.
               if is_active fresh then (Inl ActorStateError, s3) else (Inr (), s3))
             else (Inl e, s2)))
       (\<lambda>_ s3.
          andthen (unbind_actor oth (actor_ref_of actor) s3) (\<lambda>_ s4.
          let s5 = await oth s4 in
          (Inr (), s5\<lparr>sy_actors := actor_delete ns actor_id (sy_actors s5)\<rparr>))))"

section \<open>The resume workflow\<close>

text \<open>The workflow context: the actor's identity and the entries of \<open>data\<close>.\<close>

record wf_ctx =
  cx_actor_id :: string
  cx_namespace :: string
  cx_actor :: "actor option"
  cx_worker :: "worker option"
  cx_restored :: bool
  cx_assignment :: "worker_assignment option"

type_synonym wf_state = "wf_ctx \<times> sys"

definition ctx_init :: "string \<Rightarrow> string \<Rightarrow> wf_ctx" where
  "ctx_init actor_id ns =
     \<lparr>cx_actor_id = actor_id, cx_namespace = ns, cx_actor = None, cx_worker = None,
      cx_restored = False, cx_assignment = None\<rparr>"

text \<open>A call on the system inside a step, the context staying as it is.\<close>

definition lift_sys :: "wf_ctx \<Rightarrow> 'a result \<times> sys \<Rightarrow> 'a result \<times> wf_state" where
  "lift_sys c m = (fst m, c, snd m)"

definition load_actor :: "others \<Rightarrow> wf_state \<Rightarrow> actor result \<times> wf_state" where
  "load_actor oth x =
     (case x of (c, s) \<Rightarrow> lift_sys c (get_actor_rec oth (cx_namespace c) (cx_actor_id c) s))"

definition load_complete :: "others \<Rightarrow> wf_state \<Rightarrow> bool result \<times> wf_state" where
  "load_complete oth x =
     andthen (load_actor oth x) (\<lambda>actor (c, s).
     if a_status actor = RUNNING \<and> a_worker_assignment actor \<noteq> None
     then (Inr True, c\<lparr>cx_assignment := a_worker_assignment actor, cx_actor := Some actor\<rparr>, s)
     else (Inr False, c, s))"

definition load_execute :: "others \<Rightarrow> wf_state \<Rightarrow> unit result \<times> wf_state" where
  "load_execute oth x =
     andthen (load_actor oth x) (\<lambda>actor (c, s).
     if \<not> (a_status actor \<in> {SUSPENDED, PAUSED, CRASHED, RESUMING}) then (Inl ActorStateError, c, s)
     else (Inr (), c\<lparr>cx_actor := Some actor\<rparr>, s))"

definition load_step :: "others \<Rightarrow> wf_state wf_step" where
  "load_step oth =
     \<lparr>step_name = ''load-actor'', step_is_complete = load_complete oth,
      step_pre_check = default_pre_check, step_execute = load_execute oth\<rparr>"

definition pause_node_key :: string where
  "pause_node_key = ''__pause_node__''"

definition constraints_for :: "actor_template \<Rightarrow> actor \<Rightarrow> constraints" where
  "constraints_for t a =
     \<lparr>c_sandbox_class = t_sandbox_class t,
      c_template_selector = filter (\<lambda>(k, v). k \<noteq> pause_node_key) (a_worker_selector a),
      c_actor_selector = [],
      c_required_node = dget (a_worker_selector a) pause_node_key\<rparr>"

definition make_assignment :: "actor \<Rightarrow> worker \<Rightarrow> time \<Rightarrow> worker_assignment" where
  "make_assignment a w now =
     \<lparr>wa_actor_id = a_actor_id a, wa_worker_id = w_worker_id w,
      wa_sandbox_class = w_sandbox_class w, wa_node = w_node w, wa_address = None,
      wa_activated_at = now\<rparr>"

definition max_claim_retries :: nat where
  "max_claim_retries = 5"

fun claim_loop :: "others \<Rightarrow> constraints \<Rightarrow> actor \<Rightarrow> nat \<Rightarrow> sys \<Rightarrow> worker result \<times> sys" where
  "claim_loop oth c a 0 s = (Inl WorkflowError, s)"
| "claim_loop oth c a (Suc n) s =
     andthen (on_workers oth (acquire_worker c) s) (\<lambda>w s1.
     let asg = make_assignment a w (h_time (sy_host s1)) in
     handling (on_workers oth (claim_for_actor w asg) s1)
       (\<lambda>e s2.
          if is_conflict e \<or> e = WorkerBusy then
            andthen (on_workers oth (release_worker w True) s2) (\<lambda>_ s3.
            claim_loop oth c a n (await oth s3))
          else (Inl e, s2)))"

definition flip_resuming :: "others \<Rightarrow> actor \<Rightarrow> wf_state \<Rightarrow> actor result \<times> wf_state" where
  "flip_resuming oth actor x =
     (case x of (c, s) \<Rightarrow>
      handling (lift_sys c (put_actor oth (with_status actor RESUMING) (Some (a_version actor)) s))
        (\<lambda>e (c1, s1).
           if is_conflict e then
             andthen (load_actor oth (c1, s1)) (\<lambda>fresh (c2, s2).
             if a_status fresh \<noteq> RESUMING then (Inl ActorStateError, c2, s2) else (Inr fresh, c2, s2))
           else (Inl e, c1, s1)))"

definition claim_complete :: "wf_state \<Rightarrow> bool result \<times> wf_state" where
  "claim_complete x = (Inr (cx_worker (fst x) \<noteq> None), x)"

definition claim_execute :: "others \<Rightarrow> actor_template \<Rightarrow> wf_state \<Rightarrow> unit result \<times> wf_state" where
  "claim_execute oth t x =
     (case cx_actor (fst x) of
        None \<Rightarrow> (Inl KeyError, x)
      | Some actor0 \<Rightarrow>
          andthen (flip_resuming oth actor0 x) (\<lambda>actor (c, s).
          let c1 = c\<lparr>cx_actor := Some actor\<rparr> in
          andthen (lift_sys c1 (claim_loop oth (constraints_for t actor0) actor max_claim_retries s))
            (\<lambda>w (c2, s2). (Inr (), c2\<lparr>cx_worker := Some w\<rparr>, s2))))"

definition claim_step :: "others \<Rightarrow> actor_template \<Rightarrow> wf_state wf_step" where
  "claim_step oth t =
     \<lparr>step_name = ''claim-worker'', step_is_complete = claim_complete,
      step_pre_check = default_pre_check, step_execute = claim_execute oth t\<rparr>"

definition capture_golden ::
  "others \<Rightarrow> actor_template \<Rightarrow> actor \<Rightarrow> worker \<Rightarrow> sys \<Rightarrow> unit result \<times> sys" where
  "capture_golden oth t a w s =
     (case do_checkpoint oth a w DATA s of
        (Inr ref, s1) \<Rightarrow> (Inr (), s1\<lparr>sy_golden := dput (t_template_id t) ref (sy_golden s1)\<rparr>)
      | (Inl e, s1) \<Rightarrow> (if e = CancelledError then Inl e else Inr (), s1))"

definition cold_boot :: "others \<Rightarrow> actor_template \<Rightarrow> actor \<Rightarrow> worker \<Rightarrow> wf_state \<Rightarrow> unit result \<times> wf_state" where
  "cold_boot oth t a w x =
     (case x of (c, s) \<Rightarrow>
      let c1 = c\<lparr>cx_restored := True\<rparr> in
      if dget (sy_golden s) (t_template_id t) = None
      then lift_sys c1 (capture_golden oth t a w s)
      else (Inr (), c1, s))"

definition truthy :: "string option \<Rightarrow> bool" where
  "truthy x \<longleftrightarrow> (case x of None \<Rightarrow> False | Some r \<Rightarrow> r \<noteq> [])"

definition restore_complete :: "wf_state \<Rightarrow> bool result \<times> wf_state" where
  "restore_complete x = (Inr (cx_restored (fst x)), x)"

definition restore_execute :: "others \<Rightarrow> actor_template \<Rightarrow> wf_state \<Rightarrow> unit result \<times> wf_state" where
  "restore_execute oth t x =
     (case x of (c, s) \<Rightarrow>
      case (cx_actor c, cx_worker c) of
        (Some a, Some w) \<Rightarrow>
          if truthy (a_latest_snapshot_ref a) then
            andthen (lift_sys c (do_restore oth a w (the (a_latest_snapshot_ref a)) s)) (\<lambda>_ (c1, s1).
            (Inr (), c1\<lparr>cx_restored := True\<rparr>, s1))
          else if truthy (dget (sy_golden s) (t_template_id t)) then
            (case do_restore oth a w (the (dget (sy_golden s) (t_template_id t))) s of
               (Inr _, s1) \<Rightarrow> (Inr (), c\<lparr>cx_restored := True\<rparr>, s1)
             | (Inl e, s1) \<Rightarrow>
                 if e = CheckpointError then cold_boot oth t a w (c, s1) else (Inl e, c, s1))
          else cold_boot oth t a w (c, s)
      | _ \<Rightarrow> (Inl KeyError, c, s))"

definition restore_step :: "others \<Rightarrow> actor_template \<Rightarrow> wf_state wf_step" where
  "restore_step oth t =
     \<lparr>step_name = ''restore-or-boot'', step_is_complete = restore_complete,
      step_pre_check = default_pre_check, step_execute = restore_execute oth t\<rparr>"

definition finalize_complete :: "others \<Rightarrow> wf_state \<Rightarrow> bool result \<times> wf_state" where
  "finalize_complete oth x =
     andthen (load_actor oth x) (\<lambda>actor (c, s).
     if a_status actor = RUNNING \<and> a_worker_assignment actor \<noteq> None
     then (Inr True, c\<lparr>cx_assignment := a_worker_assignment actor\<rparr>, s)
     else (Inr False, c, s))"

definition finalize_execute :: "others \<Rightarrow> wf_state \<Rightarrow> unit result \<times> wf_state" where
  "finalize_execute oth x =
     (case x of (c, s) \<Rightarrow>
      case (cx_actor c, cx_worker c) of
        (Some a, Some w) \<Rightarrow>
          let asg = make_assignment a w (h_time (sy_host s));
              running = (with_status a RUNNING)\<lparr>a_worker_assignment := Some asg\<rparr>
          in andthen
               (handling (lift_sys c (put_actor oth running (Some (a_version a)) s))
                  (\<lambda>e (c1, s1).
                     if is_conflict e then
                       andthen (load_actor oth (c1, s1)) (\<lambda>fresh (c2, s2).
                       if a_status fresh \<noteq> RUNNING then (Inl ActorStateError, c2, s2)
                       else (Inr fresh, c2, s2))
                     else (Inl e, c1, s1)))
               (\<lambda>actor (c1, s1).
                  andthen (lift_sys c1 (bind_actor oth (actor_ref_of actor) asg s1)) (\<lambda>_ (c2, s2).
                  (Inr (), c2\<lparr>cx_assignment := Some asg\<rparr>, s2)))
      | _ \<Rightarrow> (Inl KeyError, c, s))"

definition finalize_step :: "others \<Rightarrow> wf_state wf_step" where
  "finalize_step oth =
     \<lparr>step_name = ''finalize-running'', step_is_complete = finalize_complete oth,
      step_pre_check = default_pre_check, step_execute = finalize_execute oth\<rparr>"

definition resume_steps :: "others \<Rightarrow> actor_template \<Rightarrow> wf_state wf_step list" where
  "resume_steps oth t = [load_step oth, claim_step oth t, restore_step oth t, finalize_step oth]"

definition resume_actor_impl ::
  "others \<Rightarrow> string \<Rightarrow> string \<Rightarrow> sys \<Rightarrow> worker_assignment result \<times> sys" where
  "resume_actor_impl oth actor_id ns s =
     andthen (get_actor_rec oth ns actor_id s) (\<lambda>actor s1.
     if a_status actor = RUNNING \<and> a_worker_assignment actor \<noteq> None
     then (Inr (the (a_worker_assignment actor)), s1)
     else case get_template (a_template_id actor) s1 of
       Inl e \<Rightarrow> (Inl e, s1)
     | Inr t \<Rightarrow>
         (case workflow_run (resume_steps oth t) (ctx_init actor_id ns, s1) of
            (Inl e, c, s2) \<Rightarrow> (Inl e, s2)
          | (Inr _, c, s2) \<Rightarrow>
              (case cx_assignment c of
                 None \<Rightarrow> (Inl WorkflowError, s2)
               | Some asg \<Rightarrow> (Inr asg, s2))))"

text \<open>
  \<open>resume_actor\<close> reads the actor for its key and runs the workflow under the singleflight; a
  caller that leads its flight gets what the workflow gives.
\<close>

definition resume_key :: "actor \<Rightarrow> string" where
  "resume_key a = ''resume:'' @ a_namespace a @ '':'' @ a_actor_id a"

text \<open>
  Namespaces without a colon keep the keys of different actors apart; with one, two actors share a
  key, and a caller that joins the flight of the other is given the other's assignment.
\<close>

lemma resume_key_separates:
  assumes "CHR '':'' \<notin> set (a_namespace a)" and "CHR '':'' \<notin> set (a_namespace b)"
    and "resume_key a = resume_key b"
  shows "a_namespace a = a_namespace b \<and> a_actor_id a = a_actor_id b"
proof -
  have cut: "c \<notin> set p \<Longrightarrow> c \<notin> set q \<Longrightarrow> p @ c # r = q @ c # s \<Longrightarrow> p = q \<and> r = s"
    for c :: char and p q r s
    by (induction p arbitrary: q) (auto simp: Cons_eq_append_conv)
  show ?thesis using assms cut [of "CHR '':''" "a_namespace a" "a_namespace b"] by (simp add: resume_key_def)
qed

lemma resume_key_collides:
  assumes "a_namespace a = p @ '':'' @ q" and "a_actor_id a = r"
    and "a_namespace b = p" and "a_actor_id b = q @ '':'' @ r"
  shows "resume_key a = resume_key b"
  using assms by (simp add: resume_key_def)

definition resume_actor ::
  "others \<Rightarrow> string \<Rightarrow> string \<Rightarrow> sys \<Rightarrow> worker_assignment result \<times> sys" where
  "resume_actor oth actor_id ns s =
     andthen (get_actor_rec oth ns actor_id s) (\<lambda>actor s1. resume_actor_impl oth actor_id ns s1)"

section \<open>Suspend, pause, crash\<close>

definition suspend_actor ::
  "others \<Rightarrow> string \<Rightarrow> string \<Rightarrow> checkpoint_scope option \<Rightarrow> sys \<Rightarrow> string result \<times> sys" where
  "suspend_actor oth actor_id ns scope s =
     andthen (get_actor_rec oth ns actor_id s) (\<lambda>actor0 s1.
     if a_status actor0 \<noteq> RUNNING then (Inl ActorStateError, s1)
     else case get_template (a_template_id actor0) s1 of
       Inl e \<Rightarrow> (Inl e, s1)
     | Inr t \<Rightarrow>
       (let eff_scope = (case scope of None \<Rightarrow> t_snapshot_scope_on_suspend t | Some sc \<Rightarrow> sc) in
        case a_worker_assignment actor0 of
          None \<Rightarrow> (Inl ActorStateError, s1)
        | Some asg \<Rightarrow>
            andthen
              (handling (put_actor oth (with_status actor0 SUSPENDING) (Some (a_version actor0)) s1)
                 (\<lambda>e s2. (Inl (if is_conflict e then ActorStateError else e), s2))) (\<lambda>actor s2.
            andthen (get_worker_rec oth (wa_worker_id asg) s2) (\<lambda>w s3.
            andthen (do_checkpoint oth actor w eff_scope s3) (\<lambda>ref s4.
            andthen (unbind_actor oth (actor_ref_of actor) s4) (\<lambda>_ s5.
            andthen (on_workers oth (release_worker w False) s5) (\<lambda>_ s6.
            let suspended = (with_status actor SUSPENDED)
                  \<lparr>a_latest_snapshot_ref := Some ref, a_worker_assignment := None\<rparr>
            in handling
                 (andthen (put_actor oth suspended (Some (a_version actor)) s6) (\<lambda>_ s7. (Inr ref, s7)))
                 (\<lambda>e s7. if is_conflict e then (Inr ref, s7) else (Inl e, s7)))))))))"

definition pause_actor :: "others \<Rightarrow> string \<Rightarrow> string \<Rightarrow> sys \<Rightarrow> string result \<times> sys" where
  "pause_actor oth actor_id ns s =
     andthen (get_actor_rec oth ns actor_id s) (\<lambda>actor0 s1.
     if a_status actor0 \<noteq> RUNNING then (Inl ActorStateError, s1)
     else case a_worker_assignment actor0 of
       None \<Rightarrow> (Inl ActorStateError, s1)
     | Some asg \<Rightarrow>
         andthen (put_actor oth (with_status actor0 PAUSING) (Some (a_version actor0)) s1) (\<lambda>actor s2.
         andthen (get_worker_rec oth (wa_worker_id asg) s2) (\<lambda>w s3.
         andthen (do_checkpoint oth actor w DATA s3) (\<lambda>ref s4.
         andthen (unbind_actor oth (actor_ref_of actor) s4) (\<lambda>_ s5.
         andthen (on_workers oth (release_worker w False) s5) (\<lambda>_ s6.
         let paused = (with_status actor PAUSED)
               \<lparr>a_latest_snapshot_ref := Some ref, a_worker_assignment := None,
                a_worker_selector :=
                  (if truthy (wa_node asg) \<and> dget (a_worker_selector actor) pause_node_key = None
                   then dput pause_node_key (the (wa_node asg)) (a_worker_selector actor)
                   else a_worker_selector actor)\<rparr>
         in andthen (put_actor oth paused (Some (a_version actor)) s6) (\<lambda>_ s7. (Inr ref, s7))))))))"

definition mark_crashed :: "others \<Rightarrow> string \<Rightarrow> string \<Rightarrow> sys \<Rightarrow> unit result \<times> sys" where
  "mark_crashed oth actor_id ns s =
     andthen (get_actor_rec oth ns actor_id s) (\<lambda>actor s1.
     let crashed = (with_status actor CRASHED)\<lparr>a_worker_assignment := None\<rparr> in
     andthen (unbind_actor oth (actor_ref_of actor) s1) (\<lambda>_ s2.
     handling
       (andthen (put_actor oth crashed (Some (a_version actor)) s2) (\<lambda>_ s3. (Inr (), s3)))
       (\<lambda>e s3. if is_conflict e then (Inr (), s3) else (Inl e, s3))))"

section \<open>Metrics\<close>

definition count_by_status :: "actor list \<Rightarrow> (string, int) dict" where
  "count_by_status actors =
     fold (\<lambda>a counts.
             let k = actor_status_value (a_status a)
             in dput k ((case dget counts k of None \<Rightarrow> 0 | Some n \<Rightarrow> n) + 1) counts) actors []"

record orch_metrics =
  om_actors_total :: int
  om_actors_by_status :: "(string, int) dict"
  om_templates_registered :: int
  om_golden_snapshots :: int
  om_singleflight_in_flight :: "string list"
  om_worker_pool :: wp_metrics
  om_router_bindings :: int

definition orchestrator_metrics :: "others \<Rightarrow> string list \<Rightarrow> sys \<Rightarrow> orch_metrics \<times> sys" where
  "orchestrator_metrics oth in_flight s =
     (case list_actors oth None s of (actors, s1) \<Rightarrow>
      let s2 = await oth s1; s3 = await oth s2 in
      (\<lparr>om_actors_total = int (length actors), om_actors_by_status = count_by_status actors,
        om_templates_registered = int (length (sy_templates s1)),
        om_golden_snapshots = int (length (sy_golden s1)),
        om_singleflight_in_flight = in_flight, om_worker_pool = wp_metrics_of (sy_workers s2),
        om_router_bindings = int (length (router_list_bindings (sy_router s3)))\<rparr>, s3))"

section \<open>Runs without interference\<close>

definition tick :: "sys \<Rightarrow> sys" where
  "tick s = s\<lparr>sy_awaits := Suc (sy_awaits s)\<rparr>"

lemma await_quiet [simp]: "await quiet s = tick s"
  by (simp add: await_def quiet_def tick_def)

lemma tick_fields [simp]:
  "sy_actors (tick s) = sy_actors s" "sy_workers (tick s) = sy_workers s"
  "sy_router (tick s) = sy_router s" "sy_templates (tick s) = sy_templates s"
  "sy_golden (tick s) = sy_golden s" "sy_store (tick s) = sy_store s"
  "sy_objs (tick s) = sy_objs s" "sy_log (tick s) = sy_log s" "sy_host (tick s) = sy_host s"
  by (simp_all add: tick_def)

lemma get_quiet:
  "get_actor_rec quiet ns aid s =
     (case dget (sy_actors s) (ns, aid) of None \<Rightarrow> (Inl ActorNotFound, tick s) | Some a \<Rightarrow> (Inr a, tick s))"
  by (simp add: get_actor_rec_def actor_get_def Let_def split: option.split)

text \<open>What a successful write stores.\<close>

definition stamp :: "time \<Rightarrow> int \<Rightarrow> actor \<Rightarrow> actor" where
  "stamp now v a =
     a\<lparr>a_version := v, a_created_at := (if a_created_at a = 0 then now else a_created_at a),
       a_updated_at := now\<rparr>"

lemma stamp_fields [simp]:
  "a_actor_id (stamp now v a) = a_actor_id a" "a_namespace (stamp now v a) = a_namespace a"
  "a_template_id (stamp now v a) = a_template_id a" "a_status (stamp now v a) = a_status a"
  "a_version (stamp now v a) = v" "a_worker_assignment (stamp now v a) = a_worker_assignment a"
  "a_latest_snapshot_ref (stamp now v a) = a_latest_snapshot_ref a"
  "a_worker_selector (stamp now v a) = a_worker_selector a"
  "actor_key_of (stamp now v a) = actor_key_of a" "actor_ref_of (stamp now v a) = actor_ref_of a"
  by (simp_all add: stamp_def actor_key_of_def actor_ref_of_def)

lemma with_status_fields [simp]:
  "a_actor_id (with_status a st) = a_actor_id a" "a_namespace (with_status a st) = a_namespace a"
  "a_template_id (with_status a st) = a_template_id a" "a_status (with_status a st) = st"
  "a_version (with_status a st) = a_version a"
  "a_worker_assignment (with_status a st) = a_worker_assignment a"
  "a_latest_snapshot_ref (with_status a st) = a_latest_snapshot_ref a"
  "a_worker_selector (with_status a st) = a_worker_selector a"
  "actor_key_of (with_status a st) = actor_key_of a" "actor_ref_of (with_status a st) = actor_ref_of a"
  by (simp_all add: with_status_def actor_key_of_def actor_ref_of_def)

lemma key_update [simp]:
  "actor_key_of (a\<lparr>a_worker_assignment := x\<rparr>) = actor_key_of a"
  "actor_key_of (a\<lparr>a_latest_snapshot_ref := y\<rparr>) = actor_key_of a"
  "actor_key_of (a\<lparr>a_worker_selector := z\<rparr>) = actor_key_of a"
  by (simp_all add: actor_key_of_def)

lemma put_quiet:
  "dget (sy_actors s) (actor_key_of a) = Some e \<Longrightarrow> a_version e = v \<Longrightarrow>
   put_actor quiet a (Some v) s =
     (Inr (stamp (h_time (sy_host s)) (v + 1) a),
      (tick s)\<lparr>sy_actors := dput (actor_key_of a) (stamp (h_time (sy_host s)) (v + 1) a) (sy_actors s)\<rparr>)"
  by (simp add: put_actor_def actor_put_def actor_put_version_def Let_def stamp_def)

lemma on_workers_quiet:
  "on_workers quiet f s = (case f (sy_workers s) of (r, wp) \<Rightarrow> (r, (tick s)\<lparr>sy_workers := wp\<rparr>))"
  by (simp add: on_workers_def)

text \<open>In a run without interference the first claim attempt succeeds.\<close>

lemma claim_loop_quiet:
  assumes inv: "wp_inv (sy_workers s)"
  shows "claim_loop quiet c a (Suc n) s =
    (case acquire_worker c (sy_workers s) of
       (Inl e, wp) \<Rightarrow> (Inl e, (tick s)\<lparr>sy_workers := wp\<rparr>)
     | (Inr w, wp) \<Rightarrow>
         (let w' = w\<lparr>w_assignment := Some (make_assignment a w (h_time (sy_host s))),
                     w_version := w_version w + 1\<rparr>
          in (Inr w', (tick (tick s))\<lparr>sy_workers := wp\<lparr>wp_store := dput (w_worker_id w) w' (wp_store wp)\<rparr>\<rparr>)))"
proof (cases "acquire_worker c (sy_workers s)")
  case (Pair r wp)
  show ?thesis
  proof (cases r)
    case (Inl e)
    with Pair show ?thesis by (simp add: on_workers_quiet)
  next
    case (Inr w)
    with acquire_worker_inv(3) [OF inv Pair, of w]
    have "is_idle w" "dget (wp_store wp) (w_worker_id w) = Some w" by auto
    from claim_idle [OF this(2,1)] Pair Inr show ?thesis
      by (simp add: on_workers_quiet Let_def tick_def)
  qed
qed

section \<open>The invariant of the orchestrator\<close>

text \<open>
  An actor that is running or on its way out holds an assignment, to a registered worker
  that is assigned to this actor; every other actor holds none. No two actors hold the same
  worker. Every route is the assignment of an actor that holds it, and a running actor's
  route is its assignment.
\<close>

definition holds_worker :: "actor \<Rightarrow> bool" where
  "holds_worker a \<longleftrightarrow> a_status a \<in> {RUNNING, SUSPENDING, PAUSING}"

definition assigned_to :: "worker \<Rightarrow> string \<Rightarrow> bool" where
  "assigned_to w aid \<longleftrightarrow>
     (case w_assignment w of
        None \<Rightarrow> False
      | Some asg \<Rightarrow> wa_actor_id asg = aid \<and> wa_worker_id asg = w_worker_id w)"

definition actor_hosted :: "worker_store \<Rightarrow> actor \<Rightarrow> bool" where
  "actor_hosted st a \<longleftrightarrow>
     (if holds_worker a then
        (case a_worker_assignment a of
           None \<Rightarrow> False
         | Some asg \<Rightarrow> wa_actor_id asg = a_actor_id a \<and>
             (case dget st (wa_worker_id asg) of
                None \<Rightarrow> False
              | Some w \<Rightarrow> assigned_to w (a_actor_id a)))
      else a_worker_assignment a = None)"

definition held_worker :: "actor_store \<Rightarrow> actor_key \<Rightarrow> string option" where
  "held_worker st k =
     (case dget st k of None \<Rightarrow> None | Some a \<Rightarrow> map_option wa_worker_id (a_worker_assignment a))"

definition routes_ok :: "actor_store \<Rightarrow> bindings \<Rightarrow> bool" where
  "routes_ok st b \<longleftrightarrow>
     (\<forall>key asg. dget b key = Some asg \<longrightarrow>
        (\<exists>k a. dget st k = Some a \<and> actor_ref_str (actor_ref_of a) = key \<and>
               a_worker_assignment a = Some asg)) \<and>
     (\<forall>k a. dget st k = Some a \<longrightarrow> a_status a = RUNNING \<longrightarrow>
        router_resolve (actor_ref_of a) b = a_worker_assignment a)"

definition orch_inv :: "actor_store \<Rightarrow> worker_pool \<Rightarrow> bindings \<Rightarrow> bool" where
  "orch_inv st wp b \<longleftrightarrow>
     actor_store_ok st \<and> wp_inv wp \<and>
     (\<forall>k a. dget st k = Some a \<longrightarrow> actor_hosted (wp_store wp) a \<and> plain_ref (actor_ref_of a)) \<and>
     (\<forall>k k' wid. held_worker st k = Some wid \<longrightarrow> held_worker st k' = Some wid \<longrightarrow> k = k') \<and>
     routes_ok st b"

definition orch_ok :: "sys \<Rightarrow> bool" where
  "orch_ok s \<longleftrightarrow> orch_inv (sy_actors s) (sy_workers s) (sy_router s)"

lemma held_worker_dput:
  "held_worker (dput k a st) k' = (if k' = k then map_option wa_worker_id (a_worker_assignment a) else held_worker st k')"
  by (simp add: held_worker_def dict_simps)

lemma orch_inv_key: "orch_inv st wp b \<Longrightarrow> dget st k = Some a \<Longrightarrow> k = actor_key_of a \<and> 1 \<le> a_version a"
  by (auto simp: orch_inv_def dest: actor_store_ok_get)

lemma orch_inv_actor:
  "orch_inv st wp b \<Longrightarrow> dget st k = Some a \<Longrightarrow> actor_hosted (wp_store wp) a"
  "orch_inv st wp b \<Longrightarrow> dget st k = Some a \<Longrightarrow> plain_ref (actor_ref_of a)"
  unfolding orch_inv_def by blast+

lemma orch_inv_held:
  "orch_inv st wp b \<Longrightarrow> held_worker st k = Some wid \<Longrightarrow> held_worker st k' = Some wid \<Longrightarrow> k = k'"
  unfolding orch_inv_def by blast

lemma orch_inv_route:
  "orch_inv st wp b \<Longrightarrow> dget b str = Some asg \<Longrightarrow>
   \<exists>k a. dget st k = Some a \<and> actor_ref_str (actor_ref_of a) = str \<and> a_worker_assignment a = Some asg"
  "orch_inv st wp b \<Longrightarrow> dget st k = Some a \<Longrightarrow> a_status a = RUNNING \<Longrightarrow>
   router_resolve (actor_ref_of a) b = a_worker_assignment a"
  unfolding orch_inv_def routes_ok_def by blast+

lemma orch_inv_parts: "orch_inv st wp b \<Longrightarrow> actor_store_ok st" "orch_inv st wp b \<Longrightarrow> wp_inv wp"
  unfolding orch_inv_def by blast+

lemma orch_invI:
  "actor_store_ok st \<Longrightarrow> wp_inv wp \<Longrightarrow>
   (\<And>k a. dget st k = Some a \<Longrightarrow> actor_hosted (wp_store wp) a \<and> plain_ref (actor_ref_of a)) \<Longrightarrow>
   (\<And>k k' wid. held_worker st k = Some wid \<Longrightarrow> held_worker st k' = Some wid \<Longrightarrow> k = k') \<Longrightarrow>
   routes_ok st b \<Longrightarrow> orch_inv st wp b"
  unfolding orch_inv_def by blast

lemma ref_key: "actor_ref_of a = actor_ref_of a' \<longleftrightarrow> actor_key_of a = actor_key_of a'"
  by (auto simp: actor_ref_of_def actor_key_of_def)

lemma orch_inv_str:
  assumes "orch_inv st wp b" and "dget st k = Some a" and "dget st k' = Some a'"
    and "actor_ref_str (actor_ref_of a) = actor_ref_str (actor_ref_of a')"
  shows "k = k'"
proof -
  have "plain_ref (actor_ref_of a)" "plain_ref (actor_ref_of a')"
    using orch_inv_actor(2) [OF assms(1)] assms(2,3) by blast+
  with assms(4) have "actor_ref_of a = actor_ref_of a'"
    by (auto simp: plain_ref_def dest: actor_ref_str_inj)
  with orch_inv_key [OF assms(1,2)] orch_inv_key [OF assms(1,3)] show ?thesis by (simp add: ref_key)
qed

text \<open>A write that leaves the actor's hold on its worker as it is.\<close>

lemma orch_inv_put:
  assumes inv: "orch_inv st wp b" and a: "dget st k = Some a"
    and a': "actor_key_of a' = actor_key_of a" "1 \<le> a_version a'"
      "a_worker_assignment a' = a_worker_assignment a" "holds_worker a' = holds_worker a"
      "a_status a' = RUNNING \<Longrightarrow> a_status a = RUNNING"
  shows "orch_inv (dput k a' st) wp b"
proof -
  have ref: "actor_ref_of a' = actor_ref_of a" using a'(1) by (simp add: ref_key)
  have key: "k = actor_key_of a'" using orch_inv_key [OF inv a] a'(1) by simp
  have id': "a_actor_id a' = a_actor_id a" using a'(1) by (simp add: actor_key_of_def)
  have "actor_store_ok (dput k a' st)"
    using inv key a'(2) by (intro actor_store_ok_dput) (auto simp: orch_inv_def)
  moreover have "actor_hosted (wp_store wp) a'" "plain_ref (actor_ref_of a')"
    using orch_inv_actor [OF inv a] unfolding actor_hosted_def a'(3,4) ref id' by simp_all
  moreover have "held_worker (dput k a' st) = held_worker st"
    using a a'(3) by - (rule ext, simp add: held_worker_def dict_simps)
  moreover have "routes_ok (dput k a' st) b"
    unfolding routes_ok_def
  proof (intro conjI allI impI)
    fix key asg assume "dget b key = Some asg"
    then obtain k2 a2 where k2: "dget st k2 = Some a2" "actor_ref_str (actor_ref_of a2) = key"
      "a_worker_assignment a2 = Some asg" using orch_inv_route(1) [OF inv] by blast
    show "\<exists>k2 a2. dget (dput k a' st) k2 = Some a2 \<and> actor_ref_str (actor_ref_of a2) = key \<and>
        a_worker_assignment a2 = Some asg"
    proof (cases "k2 = k")
      case True
      with k2 a a'(3) ref show ?thesis by (intro exI [of _ k] exI [of _ a']) (simp add: dict_simps)
    next
      case False
      with k2 show ?thesis by (intro exI [of _ k2] exI [of _ a2]) (simp add: dict_simps)
    qed
  next
    fix k2 a2 assume "dget (dput k a' st) k2 = Some a2" "a_status a2 = RUNNING"
    then show "router_resolve (actor_ref_of a2) b = a_worker_assignment a2"
      using orch_inv_route(2) [OF inv] a a'(3,5) ref by (auto simp: dict_simps split: if_splits)
  qed
  ultimately show ?thesis
    using orch_inv_parts(2) [OF inv] orch_inv_actor [OF inv] orch_inv_held [OF inv]
    by (intro orch_invI) (auto simp: dict_simps split: if_splits)
qed

text \<open>A change of the worker pool that keeps every held worker's record.\<close>

lemma orch_inv_workers:
  assumes "orch_inv st wp b" and "wp_inv wp'"
    and "\<And>k wid. held_worker st k = Some wid \<Longrightarrow> dget (wp_store wp') wid = dget (wp_store wp) wid"
  shows "orch_inv st wp' b"
proof -
  have "actor_hosted (wp_store wp') a" if "dget st k = Some a" for k a
  proof -
    have "held_worker st k = map_option wa_worker_id (a_worker_assignment a)"
      using that by (simp add: held_worker_def)
    moreover have "actor_hosted (wp_store wp) a" by (rule orch_inv_actor(1) [OF assms(1) that])
    ultimately show ?thesis
      using assms(3) [of k] by (auto simp: actor_hosted_def split: option.splits if_splits)
  qed
  with assms(1,2) show ?thesis unfolding orch_inv_def by blast
qed

text \<open>An actor lets go of its worker, if it has one, and of its route.\<close>

lemma orch_inv_let_go:
  assumes inv: "orch_inv st wp b" and a: "dget st k = Some a"
    and a': "actor_key_of a' = actor_key_of a" "1 \<le> a_version a'"
      "a_worker_assignment a' = None" "\<not> holds_worker a'"
    and wp': "wp_inv wp'"
      "\<And>k2 wid. k2 \<noteq> k \<Longrightarrow> held_worker st k2 = Some wid \<Longrightarrow> dget (wp_store wp') wid = dget (wp_store wp) wid"
  shows "orch_inv (dput k a' st) wp' (router_unbind (actor_ref_of a) b)"
proof -
  let ?st = "dput k a' st"
  have ref: "actor_ref_of a' = actor_ref_of a" using a'(1) by (simp add: ref_key)
  have key: "k = actor_key_of a'" using orch_inv_key [OF inv a] a'(1) by simp
  have "actor_store_ok ?st"
    using inv key a'(2) by (intro actor_store_ok_dput) (auto simp: orch_inv_def)
  moreover have "actor_hosted (wp_store wp') a2 \<and> plain_ref (actor_ref_of a2)" if "dget ?st k2 = Some a2" for k2 a2
  proof (cases "k2 = k")
    case True
    with that a' ref orch_inv_actor(2) [OF inv a] show ?thesis by (simp add: dict_simps actor_hosted_def)
  next
    case False
    with that have a2: "dget st k2 = Some a2" by (simp add: dict_simps)
    then have "held_worker st k2 = map_option wa_worker_id (a_worker_assignment a2)"
      by (simp add: held_worker_def)
    moreover have "actor_hosted (wp_store wp) a2" "plain_ref (actor_ref_of a2)"
      using orch_inv_actor [OF inv a2] by simp_all
    ultimately show ?thesis
      using wp'(2) [OF False] by (auto simp: actor_hosted_def split: option.splits if_splits)
  qed
  moreover have "held_worker ?st k2 = Some wid \<Longrightarrow> held_worker ?st k3 = Some wid \<Longrightarrow> k2 = k3" for k2 k3 wid
    using orch_inv_held [OF inv, of k2 wid k3] a'(3) by (auto simp: held_worker_dput split: if_splits)
  moreover have "routes_ok ?st (router_unbind (actor_ref_of a) b)"
    unfolding routes_ok_def
  proof (intro conjI allI impI)
    fix str asg assume bnd: "dget (router_unbind (actor_ref_of a) b) str = Some asg"
    then have str: "str \<noteq> actor_ref_str (actor_ref_of a)" "dget b str = Some asg"
      by (auto simp: router_defs dict_simps split: if_splits)
    then obtain k2 a2 where k2: "dget st k2 = Some a2" "actor_ref_str (actor_ref_of a2) = str"
      "a_worker_assignment a2 = Some asg" using orch_inv_route(1) [OF inv] by blast
    with str(1) a have "k2 \<noteq> k" by auto
    with k2 show "\<exists>k2 a2. dget ?st k2 = Some a2 \<and> actor_ref_str (actor_ref_of a2) = str \<and>
        a_worker_assignment a2 = Some asg"
      by (intro exI [of _ k2] exI [of _ a2]) (simp add: dict_simps)
  next
    fix k2 a2 assume k2: "dget ?st k2 = Some a2" "a_status a2 = RUNNING"
    then have "k2 \<noteq> k" using a'(4) by (auto simp: dict_simps holds_worker_def split: if_splits)
    with k2 have a2: "dget st k2 = Some a2" by (simp add: dict_simps)
    with \<open>k2 \<noteq> k\<close> have "actor_ref_str (actor_ref_of a2) \<noteq> actor_ref_str (actor_ref_of a)"
      using orch_inv_str [OF inv a2 a] by blast
    then show "router_resolve (actor_ref_of a2) (router_unbind (actor_ref_of a) b) = a_worker_assignment a2"
      using orch_inv_route(2) [OF inv a2 k2(2)] by (simp add: router_defs dict_simps)
  qed
  ultimately show ?thesis using wp'(1) by (intro orch_invI) auto
qed

text \<open>An actor takes a worker nobody holds.\<close>

lemma orch_inv_take:
  assumes inv: "orch_inv st wp b" and a: "dget st k = Some a"
    and a': "actor_key_of a' = actor_key_of a" "1 \<le> a_version a'"
      "a_worker_assignment a' = Some asg" "a_status a' = RUNNING" "wa_actor_id asg = a_actor_id a"
    and w: "dget (wp_store wp) (wa_worker_id asg) = Some w" "assigned_to w (a_actor_id a)"
    and free: "\<And>k2. k2 \<noteq> k \<Longrightarrow> held_worker st k2 \<noteq> Some (wa_worker_id asg)"
  shows "orch_inv (dput k a' st) wp (router_bind (actor_ref_of a') asg b)"
proof -
  let ?st = "dput k a' st"
  have ref: "actor_ref_of a' = actor_ref_of a" using a'(1) by (simp add: ref_key)
  have key: "k = actor_key_of a'" using orch_inv_key [OF inv a] a'(1) by simp
  have id': "a_actor_id a' = a_actor_id a" using a'(1) by (simp add: actor_key_of_def)
  have "actor_store_ok ?st"
    using inv key a'(2) by (intro actor_store_ok_dput) (auto simp: orch_inv_def)
  moreover have "actor_hosted (wp_store wp) a'" "plain_ref (actor_ref_of a')"
    using orch_inv_actor(2) [OF inv a] a' w ref id' by (simp_all add: actor_hosted_def holds_worker_def)
  moreover have "held_worker ?st k2 = Some wid \<Longrightarrow> held_worker ?st k3 = Some wid \<Longrightarrow> k2 = k3" for k2 k3 wid
    using orch_inv_held [OF inv, of k2 wid k3] a'(3) free [of k2] free [of k3]
    by (auto simp: held_worker_dput split: if_splits)
  moreover have "routes_ok ?st (router_bind (actor_ref_of a') asg b)"
    unfolding routes_ok_def
  proof (intro conjI allI impI)
    fix str asg' assume bnd: "dget (router_bind (actor_ref_of a') asg b) str = Some asg'"
    show "\<exists>k2 a2. dget ?st k2 = Some a2 \<and> actor_ref_str (actor_ref_of a2) = str \<and>
        a_worker_assignment a2 = Some asg'"
    proof (cases "str = actor_ref_str (actor_ref_of a')")
      case True
      with bnd a'(3) show ?thesis
        by (intro exI [of _ k] exI [of _ a']) (simp add: router_defs dict_simps)
    next
      case False
      with bnd have "dget b str = Some asg'" by (simp add: router_defs dict_simps)
      then obtain k2 a2 where k2: "dget st k2 = Some a2" "actor_ref_str (actor_ref_of a2) = str"
        "a_worker_assignment a2 = Some asg'" using orch_inv_route(1) [OF inv] by blast
      with False a ref have "k2 \<noteq> k" by auto
      with k2 show ?thesis by (intro exI [of _ k2] exI [of _ a2]) (simp add: dict_simps)
    qed
  next
    fix k2 a2 assume k2: "dget ?st k2 = Some a2" "a_status a2 = RUNNING"
    show "router_resolve (actor_ref_of a2) (router_bind (actor_ref_of a') asg b) = a_worker_assignment a2"
    proof (cases "k2 = k")
      case True
      with k2 a'(3) show ?thesis by (auto simp: dict_simps router_defs)
    next
      case False
      with k2 have a2: "dget st k2 = Some a2" by (simp add: dict_simps)
      with False have "actor_ref_str (actor_ref_of a2) \<noteq> actor_ref_str (actor_ref_of a')"
        using orch_inv_str [OF inv a2 a] ref by auto
      then show ?thesis
        using orch_inv_route(2) [OF inv a2 k2(2)] by (simp add: router_defs dict_simps)
    qed
  qed
  ultimately show ?thesis
    using orch_inv_parts(2) [OF inv] orch_inv_actor [OF inv]
    by (intro orch_invI) (auto simp: dict_simps split: if_splits)
qed

section \<open>Suspending and pausing without interference\<close>

lemma running_worker:
  assumes ok: "orch_ok s" and a: "dget (sy_actors s) k = Some a" and run: "a_status a = RUNNING"
  shows "\<exists>asg w. a_worker_assignment a = Some asg \<and> wa_actor_id asg = a_actor_id a \<and>
    dget (wp_store (sy_workers s)) (wa_worker_id asg) = Some w \<and> w_worker_id w = wa_worker_id asg \<and>
    assigned_to w (a_actor_id a)"
proof -
  have inv: "orch_inv (sy_actors s) (sy_workers s) (sy_router s)" using ok by (simp add: orch_ok_def)
  have "worker_store_ok (wp_store (sy_workers s))"
    using orch_inv_parts(2) [OF inv] by (simp add: wp_inv_def wp_ok_def)
  with orch_inv_actor(1) [OF inv a] run show ?thesis
    by (auto simp: actor_hosted_def holds_worker_def dest: worker_store_ok_get split: option.splits)
qed

text \<open>The record written when the worker is let go.\<close>

definition let_go :: "actor \<Rightarrow> actor_status \<Rightarrow> string \<Rightarrow> (string, string) dict \<Rightarrow> actor" where
  "let_go a st ref sel =
     (with_status a st)\<lparr>a_latest_snapshot_ref := Some ref, a_worker_assignment := None,
                       a_worker_selector := sel\<rparr>"

lemma let_go_fields [simp]:
  "a_actor_id (let_go a st ref sel) = a_actor_id a" "a_namespace (let_go a st ref sel) = a_namespace a"
  "a_template_id (let_go a st ref sel) = a_template_id a" "a_status (let_go a st ref sel) = st"
  "a_version (let_go a st ref sel) = a_version a" "a_worker_assignment (let_go a st ref sel) = None"
  "a_latest_snapshot_ref (let_go a st ref sel) = Some ref" "a_worker_selector (let_go a st ref sel) = sel"
  "actor_key_of (let_go a st ref sel) = actor_key_of a" "actor_ref_of (let_go a st ref sel) = actor_ref_of a"
  by (simp_all add: let_go_def actor_ref_of_def)

definition pause_selector :: "actor \<Rightarrow> worker_assignment \<Rightarrow> (string, string) dict" where
  "pause_selector a asg =
     (if truthy (wa_node asg) \<and> dget (a_worker_selector a) pause_node_key = None
      then dput pause_node_key (the (wa_node asg)) (a_worker_selector a)
      else a_worker_selector a)"

text \<open>What a call may change of the system, the count of awaits apart.\<close>

definition updated :: "sys \<Rightarrow> sys \<Rightarrow> actor_store \<Rightarrow> worker_pool \<Rightarrow> bindings \<Rightarrow> host \<Rightarrow> bool" where
  "updated s s' st wp b h \<longleftrightarrow>
     sy_actors s' = st \<and> sy_workers s' = wp \<and> sy_router s' = b \<and> sy_host s' = h \<and>
     sy_templates s' = sy_templates s \<and> sy_golden s' = sy_golden s \<and> sy_store s' = sy_store s \<and>
     sy_objs s' = sy_objs s \<and> sy_log s' = sy_log s"

lemma suspend_quiet:
  assumes ok: "orch_ok s" and a: "dget (sy_actors s) (ns, aid) = Some a" and run: "a_status a = RUNNING"
    and t: "dget (sy_templates s) (a_template_id a) = Some t"
    and asg: "a_worker_assignment a = Some asg"
    and w: "dget (wp_store (sy_workers s)) (wa_worker_id asg) = Some w"
    and rel: "release_worker w False (sy_workers s) = (Inr (), wp')"
    and a1: "a1 = stamp (h_time (sy_host s)) (a_version a + 1) (with_status a SUSPENDING)"
    and cp: "checkpoint (sy_store s) (sy_objs s) a1 w
      (case sc of None \<Rightarrow> t_snapshot_scope_on_suspend t | Some x \<Rightarrow> x) (sy_host s) = (r, h)"
  shows "\<exists>s'. suspend_actor quiet aid ns sc s = (r, s') \<and>
    (case r of
       Inl e \<Rightarrow> updated s s' (dput (ns, aid) a1 (sy_actors s)) (sy_workers s) (sy_router s) h
     | Inr ref \<Rightarrow> updated s s' (dput (ns, aid)
            (stamp (h_time h) (a_version a + 2) (let_go a1 SUSPENDED ref (a_worker_selector a1)))
            (dput (ns, aid) a1 (sy_actors s)))
          wp' (router_unbind (actor_ref_of a) (sy_router s)) h)"
proof -
  have key: "actor_key_of a = (ns, aid)"
    using orch_inv_key a ok by (simp add: orch_ok_def)
  let ?eff = "case sc of None \<Rightarrow> t_snapshot_scope_on_suspend t | Some x \<Rightarrow> x"
  have k1: "actor_key_of (with_status a SUSPENDING) = (ns, aid)" using key by simp
  note put1 = put_quiet [where a = "with_status a SUSPENDING" and e = a and v = "a_version a", unfolded k1]
  have sel: "(with_status a1 SUSPENDED)\<lparr>a_latest_snapshot_ref := Some ref, a_worker_assignment := None\<rparr> =
      let_go a1 SUSPENDED ref (a_worker_selector a1)" for ref
    by (simp add: let_go_def with_status_def)
  have k2: "actor_key_of (let_go a1 SUSPENDED ref (a_worker_selector a1)) = (ns, aid)" for ref
    using key by (simp add: a1)
  have v1: "a_version a1 = a_version a + 1" by (simp add: a1)
  note put2 = put_quiet [where a = "let_go a1 SUSPENDED ref (a_worker_selector a1)" and e = a1
      and v = "a_version a + 1" for ref, unfolded k2]
  show ?thesis
  proof (cases r)
    case (Inl e)
    with a run t asg w cp show ?thesis
      by (simp add: suspend_actor_def get_quiet get_template_def put1 a1 [symmetric] get_worker_rec_def
          on_workers_quiet worker_get_def do_checkpoint_def Let_def)
        (simp add: updated_def)
  next
    case (Inr ref)
    with a run t asg w cp rel show ?thesis
      by (simp add: suspend_actor_def get_quiet get_template_def put1 a1 [symmetric] get_worker_rec_def
          on_workers_quiet worker_get_def do_checkpoint_def unbind_actor_def Let_def sel v1
          put2 dict_simps)
        (simp add: updated_def a1 add.commute)
  qed
qed

lemma pause_quiet:
  assumes ok: "orch_ok s" and a: "dget (sy_actors s) (ns, aid) = Some a" and run: "a_status a = RUNNING"
    and asg: "a_worker_assignment a = Some asg"
    and w: "dget (wp_store (sy_workers s)) (wa_worker_id asg) = Some w"
    and rel: "release_worker w False (sy_workers s) = (Inr (), wp')"
    and a1: "a1 = stamp (h_time (sy_host s)) (a_version a + 1) (with_status a PAUSING)"
    and cp: "checkpoint (sy_store s) (sy_objs s) a1 w DATA (sy_host s) = (r, h)"
  shows "\<exists>s'. pause_actor quiet aid ns s = (r, s') \<and>
    (case r of
       Inl e \<Rightarrow> updated s s' (dput (ns, aid) a1 (sy_actors s)) (sy_workers s) (sy_router s) h
     | Inr ref \<Rightarrow> updated s s' (dput (ns, aid)
            (stamp (h_time h) (a_version a + 2) (let_go a1 PAUSED ref (pause_selector a1 asg)))
            (dput (ns, aid) a1 (sy_actors s)))
          wp' (router_unbind (actor_ref_of a) (sy_router s)) h)"
proof -
  have key: "actor_key_of a = (ns, aid)"
    using orch_inv_key a ok by (simp add: orch_ok_def)
  have k1: "actor_key_of (with_status a PAUSING) = (ns, aid)" using key by simp
  note put1 = put_quiet [where a = "with_status a PAUSING" and e = a and v = "a_version a", unfolded k1]
  have sel: "(with_status a1 PAUSED)\<lparr>a_latest_snapshot_ref := Some ref, a_worker_assignment := None,
        a_worker_selector :=
          (if truthy (wa_node asg) \<and> dget (a_worker_selector a1) pause_node_key = None
           then dput pause_node_key (the (wa_node asg)) (a_worker_selector a1)
           else a_worker_selector a1)\<rparr> = let_go a1 PAUSED ref (pause_selector a1 asg)" for ref
    by (simp add: let_go_def with_status_def pause_selector_def)
  have k2: "actor_key_of (let_go a1 PAUSED ref (pause_selector a1 asg)) = (ns, aid)" for ref
    using key by (simp add: a1)
  have v1: "a_version a1 = a_version a + 1" by (simp add: a1)
  note put2 = put_quiet [where a = "let_go a1 PAUSED ref (pause_selector a1 asg)" and e = a1
      and v = "a_version a + 1" for ref, unfolded k2]
  show ?thesis
  proof (cases r)
    case (Inl e)
    with a run asg w cp show ?thesis
      by (simp add: pause_actor_def get_quiet put1 a1 [symmetric] get_worker_rec_def
          on_workers_quiet worker_get_def do_checkpoint_def Let_def)
        (simp add: updated_def)
  next
    case (Inr ref)
    with a run asg w cp rel show ?thesis
      by (simp add: pause_actor_def get_quiet put1 a1 [symmetric] get_worker_rec_def
          on_workers_quiet worker_get_def do_checkpoint_def unbind_actor_def Let_def sel v1
          put2 dict_simps)
        (simp add: updated_def a1 add.commute)
  qed
qed

lemma going_ok:
  assumes ok: "orch_ok s" and a: "dget (sy_actors s) k = Some a" and run: "a_status a = RUNNING"
    and st1: "st1 \<in> {SUSPENDING, PAUSING}"
  shows "orch_inv (dput k (stamp now (a_version a + 1) (with_status a st1)) (sy_actors s))
    (sy_workers s) (sy_router s)"
proof -
  have inv: "orch_inv (sy_actors s) (sy_workers s) (sy_router s)" using ok by (simp add: orch_ok_def)
  have ver: "1 \<le> a_version a" using orch_inv_key [OF inv a] by simp
  show ?thesis
    by (rule orch_inv_put [OF inv a]) (use st1 run ver in \<open>auto simp: holds_worker_def\<close>)
qed

lemma let_go_ok:
  assumes ok: "orch_ok s" and a: "dget (sy_actors s) k = Some a" and run: "a_status a = RUNNING"
    and asg: "a_worker_assignment a = Some asg"
    and w: "dget (wp_store (sy_workers s)) (wa_worker_id asg) = Some w"
    and rel: "release_worker w False (sy_workers s) = (Inr (), wp')"
    and a1: "a1 = stamp now (a_version a + 1) (with_status a st1)" "st1 \<in> {SUSPENDING, PAUSING}"
    and a2: "a2 = stamp now2 (a_version a + 2) (let_go a1 st2 ref sel)" "st2 \<in> {SUSPENDED, PAUSED}"
  shows "orch_inv (dput k a2 (dput k a1 (sy_actors s))) wp' (router_unbind (actor_ref_of a) (sy_router s))"
proof -
  have inv: "orch_inv (sy_actors s) (sy_workers s) (sy_router s)" using ok by (simp add: orch_ok_def)
  have ver: "1 \<le> a_version a" using orch_inv_key [OF inv a] by simp
  have 1: "orch_inv (dput k a1 (sy_actors s)) (sy_workers s) (sy_router s)"
    using going_ok [OF ok a run a1(2)] a1(1) by simp
  have wid: "w_worker_id w = wa_worker_id asg"
    using running_worker [OF ok a run] asg w by auto
  then have "dget (wp_store (sy_workers s)) (w_worker_id w) = Some w" using w by simp
  from release_current [OF orch_inv_parts(2) [OF inv] this, of False] rel
  have wp': "wp_inv wp'" "\<And>x. x \<noteq> wa_worker_id asg \<Longrightarrow> dget (wp_store wp') x = dget (wp_store (sy_workers s)) x"
    by (auto simp: wid)
  have hk: "held_worker (dput k a1 (sy_actors s)) k = Some (wa_worker_id asg)"
    using asg a1 by (simp add: held_worker_dput)
  show "orch_inv (dput k a2 (dput k a1 (sy_actors s))) wp' (router_unbind (actor_ref_of a) (sy_router s))"
  proof -
    have a1k: "dget (dput k a1 (sy_actors s)) k = Some a1" by (simp add: dict_simps)
    have ref: "actor_ref_of a1 = actor_ref_of a" by (simp add: a1)
    show ?thesis
      unfolding ref [symmetric]
    proof (rule orch_inv_let_go [OF 1 a1k _ _ _ _ wp'(1)])
      fix k2 wid2 assume "k2 \<noteq> k" "held_worker (dput k a1 (sy_actors s)) k2 = Some wid2"
      then have "wid2 \<noteq> wa_worker_id asg" using orch_inv_held [OF 1 _ hk] by blast
      then show "dget (wp_store wp') wid2 = dget (wp_store (sy_workers s)) wid2" by (rule wp'(2))
    qed (use a1 a2 ver in \<open>auto simp: holds_worker_def\<close>)
  qed
qed

lemma release_held:
  assumes ok: "orch_ok s" and a: "dget (sy_actors s) k = Some a" and run: "a_status a = RUNNING"
  shows "\<exists>asg w wp'. a_worker_assignment a = Some asg \<and> wa_actor_id asg = a_actor_id a \<and>
    dget (wp_store (sy_workers s)) (wa_worker_id asg) = Some w \<and> w_worker_id w = wa_worker_id asg \<and>
    release_worker w False (sy_workers s) = (Inr (), wp') \<and>
    (\<forall>w'. dget (wp_store wp') (wa_worker_id asg) = Some w' \<longrightarrow> w_assignment w' = None)"
proof -
  from running_worker [OF ok a run] obtain asg w where w: "a_worker_assignment a = Some asg"
    "wa_actor_id asg = a_actor_id a"
    "dget (wp_store (sy_workers s)) (wa_worker_id asg) = Some w" "w_worker_id w = wa_worker_id asg"
    by blast
  moreover have "wp_inv (sy_workers s)" using ok by (simp add: orch_ok_def orch_inv_parts)
  ultimately show ?thesis using release_current [of "sy_workers s" w False] by fastforce
qed

lemma suspend_ok:
  assumes ok: "orch_ok s"
  shows "orch_ok (snd (suspend_actor quiet aid ns sc s))"
proof (cases "dget (sy_actors s) (ns, aid)")
  case None
  with ok show ?thesis by (simp add: suspend_actor_def get_quiet orch_ok_def)
next
  case (Some a)
  show ?thesis
  proof (cases "a_status a = RUNNING \<and> dget (sy_templates s) (a_template_id a) \<noteq> None")
    case False
    with Some ok show ?thesis
      by (auto simp: suspend_actor_def get_quiet orch_ok_def get_template_def)
  next
    case True
    then obtain t where run: "a_status a = RUNNING" and t: "dget (sy_templates s) (a_template_id a) = Some t"
      by auto
    from release_held [OF ok Some run] obtain asg w wp' where asg: "a_worker_assignment a = Some asg"
      and w: "dget (wp_store (sy_workers s)) (wa_worker_id asg) = Some w"
      and rel: "release_worker w False (sy_workers s) = (Inr (), wp')" by blast
    let ?a1 = "stamp (h_time (sy_host s)) (a_version a + 1) (with_status a SUSPENDING)"
    let ?eff = "case sc of None \<Rightarrow> t_snapshot_scope_on_suspend t | Some x \<Rightarrow> x"
    obtain r h where cp: "checkpoint (sy_store s) (sy_objs s) ?a1 w ?eff (sy_host s) = (r, h)"
      by (cases "checkpoint (sy_store s) (sy_objs s) ?a1 w ?eff (sy_host s)")
    from suspend_quiet [OF ok Some run t asg w rel refl cp] obtain s'
      where s': "suspend_actor quiet aid ns sc s = (r, s')"
        and upd: "case r of
       Inl e \<Rightarrow> updated s s' (dput (ns, aid) ?a1 (sy_actors s)) (sy_workers s) (sy_router s) h
     | Inr ref \<Rightarrow> updated s s' (dput (ns, aid)
            (stamp (h_time h) (a_version a + 2) (let_go ?a1 SUSPENDED ref (a_worker_selector ?a1)))
            (dput (ns, aid) ?a1 (sy_actors s)))
          wp' (router_unbind (actor_ref_of a) (sy_router s)) h" by blast
    show ?thesis
    proof (cases r)
      case (Inl e)
      with upd going_ok [OF ok Some run, of SUSPENDING] s' show ?thesis
        by (auto simp: updated_def orch_ok_def)
    next
      case (Inr ref)
      have "orch_inv (dput (ns, aid) (stamp (h_time h) (a_version a + 2) (let_go ?a1 SUSPENDED ref (a_worker_selector ?a1)))
            (dput (ns, aid) ?a1 (sy_actors s))) wp' (router_unbind (actor_ref_of a) (sy_router s))"
        by (rule let_go_ok [OF ok Some run asg w rel refl _ refl]) simp_all
      with upd Inr s' show ?thesis by (simp add: updated_def orch_ok_def)
    qed
  qed
qed

lemma pause_ok:
  assumes ok: "orch_ok s"
  shows "orch_ok (snd (pause_actor quiet aid ns s))"
proof (cases "dget (sy_actors s) (ns, aid)")
  case None
  with ok show ?thesis by (simp add: pause_actor_def get_quiet orch_ok_def)
next
  case (Some a)
  show ?thesis
  proof (cases "a_status a = RUNNING")
    case False
    with Some ok show ?thesis by (auto simp: pause_actor_def get_quiet orch_ok_def)
  next
    case run: True
    from release_held [OF ok Some run] obtain asg w wp' where asg: "a_worker_assignment a = Some asg"
      and w: "dget (wp_store (sy_workers s)) (wa_worker_id asg) = Some w"
      and rel: "release_worker w False (sy_workers s) = (Inr (), wp')" by blast
    let ?a1 = "stamp (h_time (sy_host s)) (a_version a + 1) (with_status a PAUSING)"
    obtain r h where cp: "checkpoint (sy_store s) (sy_objs s) ?a1 w DATA (sy_host s) = (r, h)"
      by (cases "checkpoint (sy_store s) (sy_objs s) ?a1 w DATA (sy_host s)")
    from pause_quiet [OF ok Some run asg w rel refl cp] obtain s'
      where s': "pause_actor quiet aid ns s = (r, s')"
        and upd: "case r of
       Inl e \<Rightarrow> updated s s' (dput (ns, aid) ?a1 (sy_actors s)) (sy_workers s) (sy_router s) h
     | Inr ref \<Rightarrow> updated s s' (dput (ns, aid)
            (stamp (h_time h) (a_version a + 2) (let_go ?a1 PAUSED ref (pause_selector ?a1 asg)))
            (dput (ns, aid) ?a1 (sy_actors s)))
          wp' (router_unbind (actor_ref_of a) (sy_router s)) h" by blast
    show ?thesis
    proof (cases r)
      case (Inl e)
      with upd going_ok [OF ok Some run, of PAUSING] s' show ?thesis
        by (auto simp: updated_def orch_ok_def)
    next
      case (Inr ref)
      have "orch_inv (dput (ns, aid) (stamp (h_time h) (a_version a + 2) (let_go ?a1 PAUSED ref (pause_selector ?a1 asg)))
            (dput (ns, aid) ?a1 (sy_actors s))) wp' (router_unbind (actor_ref_of a) (sy_router s))"
        by (rule let_go_ok [OF ok Some run asg w rel refl _ refl]) simp_all
      with upd Inr s' show ?thesis by (simp add: updated_def orch_ok_def)
    qed
  qed
qed

lemma crash_quiet:
  assumes ok: "orch_ok s" and a: "dget (sy_actors s) (ns, aid) = Some a"
  shows "\<exists>s'. mark_crashed quiet aid ns s = (Inr (), s') \<and>
    updated s s' (dput (ns, aid) (stamp (h_time (sy_host s)) (a_version a + 1)
        ((with_status a CRASHED)\<lparr>a_worker_assignment := None\<rparr>)) (sy_actors s))
      (sy_workers s) (router_unbind (actor_ref_of a) (sy_router s)) (sy_host s)"
proof -
  have key: "actor_key_of a = (ns, aid)"
    using orch_inv_key a ok by (simp add: orch_ok_def)
  have k1: "actor_key_of ((with_status a CRASHED)\<lparr>a_worker_assignment := None\<rparr>) = (ns, aid)"
    using key by simp
  note put1 = put_quiet [where a = "(with_status a CRASHED)\<lparr>a_worker_assignment := None\<rparr>"
      and e = a and v = "a_version a", unfolded k1]
  show ?thesis
    using a by (simp add: mark_crashed_def get_quiet unbind_actor_def put1 Let_def) (simp add: updated_def)
qed

lemma mark_crashed_ok:
  assumes ok: "orch_ok s"
  shows "orch_ok (snd (mark_crashed quiet aid ns s))"
proof (cases "dget (sy_actors s) (ns, aid)")
  case None
  with ok show ?thesis by (simp add: mark_crashed_def get_quiet orch_ok_def)
next
  case (Some a)
  have inv: "orch_inv (sy_actors s) (sy_workers s) (sy_router s)" using ok by (simp add: orch_ok_def)
  have ver: "1 \<le> a_version a" using orch_inv_key [OF inv Some] by simp
  let ?a1 = "stamp (h_time (sy_host s)) (a_version a + 1) ((with_status a CRASHED)\<lparr>a_worker_assignment := None\<rparr>)"
  have "orch_inv (dput (ns, aid) ?a1 (sy_actors s)) (sy_workers s) (router_unbind (actor_ref_of a) (sy_router s))"
    by (rule orch_inv_let_go [OF inv Some _ _ _ _ orch_inv_parts(2) [OF inv]])
      (use ver in \<open>auto simp: holds_worker_def with_status_def actor_key_of_def\<close>)
  with crash_quiet [OF ok Some] show ?thesis by (auto simp: updated_def orch_ok_def)
qed

section \<open>Resuming without interference\<close>

definition resumable :: "actor \<Rightarrow> bool" where
  "resumable a \<longleftrightarrow> a_status a \<in> {SUSPENDED, PAUSED, CRASHED, RESUMING}"

text \<open>The restore step works on the host, the restore log and the golden snapshots only.\<close>

definition restore_same :: "sys \<Rightarrow> sys \<Rightarrow> bool" where
  "restore_same s s' \<longleftrightarrow>
     sy_actors s' = sy_actors s \<and> sy_workers s' = sy_workers s \<and> sy_router s' = sy_router s \<and>
     sy_templates s' = sy_templates s \<and> sy_store s' = sy_store s \<and> sy_objs s' = sy_objs s"

lemma restore_same_refl [simp]: "restore_same s s"
  by (simp add: restore_same_def)

lemma restore_same_tick [simp]: "restore_same s (tick s)"
  by (simp add: restore_same_def)

lemma do_restore_same: "do_restore quiet a w ref s = (r, s') \<Longrightarrow> restore_same s s'"
  by (auto simp: do_restore_def Let_def restore_same_def split: prod.splits)

lemma capture_golden_same: "capture_golden quiet t a w s = (r, s') \<Longrightarrow> restore_same s s'"
  by (auto simp: capture_golden_def do_checkpoint_def Let_def restore_same_def
      split: prod.splits sum.splits)

lemma restore_same_trans: "restore_same s s' \<Longrightarrow> restore_same s' s'' \<Longrightarrow> restore_same s s''"
  by (simp add: restore_same_def)

lemma cold_boot_frame:
  "cold_boot quiet t a w (c, s) = (r, c', s') \<Longrightarrow> restore_same s s' \<and> c' = c\<lparr>cx_restored := True\<rparr>"
  by (auto simp: cold_boot_def Let_def lift_sys_def dest: capture_golden_same
      split: if_splits) (metis capture_golden_same prod.collapse)

lemma restore_execute_frame:
  assumes "restore_execute quiet t (c, s) = (r, c', s')"
  shows "restore_same s s' \<and> (c' = c \<or> c' = c\<lparr>cx_restored := True\<rparr>) \<and>
    (r = Inr u \<longrightarrow> c' = c\<lparr>cx_restored := True\<rparr>)"
proof (cases "cx_actor c"; cases "cx_worker c")
  fix a w assume aw: "cx_actor c = Some a" "cx_worker c = Some w"
  show ?thesis
  proof (cases "truthy (a_latest_snapshot_ref a)")
    case True
    obtain r1 s1 where dr: "do_restore quiet a w (the (a_latest_snapshot_ref a)) s = (r1, s1)"
      by (cases "do_restore quiet a w (the (a_latest_snapshot_ref a)) s")
    show ?thesis
      using assms aw True dr do_restore_same [OF dr]
      by (cases r1) (auto simp: restore_execute_def lift_sys_def)
  next
    case own: False
    show ?thesis
    proof (cases "truthy (dget (sy_golden s) (t_template_id t))")
      case True
      let ?g = "the (dget (sy_golden s) (t_template_id t))"
      obtain r1 s1 where dr: "do_restore quiet a w ?g s = (r1, s1)" by (cases "do_restore quiet a w ?g s")
      note same = do_restore_same [OF dr]
      show ?thesis
      proof (cases r1)
        case (Inl e)
        show ?thesis
        proof (cases "e = CheckpointError")
          case True': True
          with assms aw own True dr Inl have "cold_boot quiet t a w (c, s1) = (r, c', s')"
            by (simp add: restore_execute_def)
          from cold_boot_frame [OF this] same show ?thesis by (auto intro: restore_same_trans)
        next
          case False
          with assms aw own True dr Inl same show ?thesis by (auto simp: restore_execute_def)
        qed
      next
        case (Inr u)
        with assms aw own True dr same show ?thesis by (auto simp: restore_execute_def)
      qed
    next
      case False
      with assms aw own have "cold_boot quiet t a w (c, s) = (r, c', s')"
        by (simp add: restore_execute_def)
      from cold_boot_frame [OF this] show ?thesis by simp
    qed
  qed
qed (use assms in \<open>auto simp: restore_execute_def\<close>)

definition running_actor :: "actor \<Rightarrow> worker_assignment \<Rightarrow> actor" where
  "running_actor a asg = (with_status a RUNNING)\<lparr>a_worker_assignment := Some asg\<rparr>"

lemma running_actor_fields [simp]:
  "a_actor_id (running_actor a asg) = a_actor_id a" "a_namespace (running_actor a asg) = a_namespace a"
  "a_template_id (running_actor a asg) = a_template_id a" "a_status (running_actor a asg) = RUNNING"
  "a_version (running_actor a asg) = a_version a" "a_worker_assignment (running_actor a asg) = Some asg"
  "a_latest_snapshot_ref (running_actor a asg) = a_latest_snapshot_ref a"
  "a_worker_selector (running_actor a asg) = a_worker_selector a"
  "actor_key_of (running_actor a asg) = actor_key_of a" "actor_ref_of (running_actor a asg) = actor_ref_of a"
  by (simp_all add: running_actor_def actor_ref_of_def)

text \<open>The last two steps, from a context that has the actor and its claimed worker.\<close>

lemma resume_tail:
  assumes a: "dget (sy_actors s) (ns, aid) = Some a1" and key: "actor_key_of a1 = (ns, aid)"
    and st: "a_status a1 = RESUMING"
    and c: "c = \<lparr>cx_actor_id = aid, cx_namespace = ns, cx_actor = Some a1, cx_worker = Some w,
                 cx_restored = False, cx_assignment = None\<rparr>"
    and re: "restore_execute quiet t (c, s) = (rr, c1, s1)"
    and asg: "asg = make_assignment a1 w (h_time (sy_host s1))"
    and a2: "a2 = stamp (h_time (sy_host s1)) (a_version a1 + 1) (running_actor a1 asg)"
  shows "\<exists>c' s'. workflow_run [restore_step quiet t, finalize_step quiet] (c, s) =
      (case rr of Inl e \<Rightarrow> Inl e | Inr _ \<Rightarrow> Inr (), c', s') \<and>
    (case rr of
       Inl e \<Rightarrow> s' = s1
     | Inr _ \<Rightarrow> cx_assignment c' = Some asg \<and>
         updated s1 s' (dput (ns, aid) a2 (sy_actors s)) (sy_workers s)
           (router_bind (actor_ref_of a1) asg (sy_router s)) (sy_host s1))"
proof (cases rr)
  case (Inl e)
  with re c show ?thesis
    by (simp add: workflow_step_def restore_step_def restore_complete_def default_pre_check_def)
next
  case (Inr u)
  note fr = restore_execute_frame [OF re, of u]
  with Inr have c1: "c1 = c\<lparr>cx_restored := True\<rparr>" and same: "restore_same s s1" by auto
  have s1: "sy_actors s1 = sy_actors s" "sy_workers s1 = sy_workers s" "sy_router s1 = sy_router s"
    using same by (simp_all add: restore_same_def)
  have step: "workflow_step (restore_step quiet t) (c, s) = (Inr (), c1, s1)"
    using re Inr c by (simp add: workflow_step_def restore_step_def restore_complete_def default_pre_check_def)
  have k1: "actor_key_of (running_actor a1 asg) = (ns, aid)" using key by simp
  note put1 = put_quiet [where a = "running_actor a1 asg" and e = a1 and v = "a_version a1", unfolded k1]
  have run: "(with_status a1 RUNNING)\<lparr>a_worker_assignment := Some x\<rparr> = running_actor a1 x" for x
    by (simp add: running_actor_def)
  have "\<exists>c' s'. workflow_step (finalize_step quiet) (c1, s1) = (Inr (), c', s') \<and>
      cx_assignment c' = Some asg \<and>
      updated s1 s' (dput (ns, aid) a2 (sy_actors s)) (sy_workers s)
        (router_bind (actor_ref_of a1) asg (sy_router s)) (sy_host s1)"
    using a st c c1 s1
    by (simp add: workflow_step_def finalize_step_def finalize_complete_def load_actor_def get_quiet
        lift_sys_def default_pre_check_def finalize_execute_def run asg [symmetric] put1
        bind_actor_def Let_def a2 [symmetric])
      (simp add: updated_def a2)
  with step Inr show ?thesis by auto
qed

text \<open>The whole workflow, for an actor that can be resumed.\<close>

lemma resume_quiet:
  assumes ok: "orch_ok s" and a: "dget (sy_actors s) (ns, aid) = Some a" and res: "resumable a"
    and t: "dget (sy_templates s) (a_template_id a) = Some t"
    and a1: "a1 = stamp (h_time (sy_host s)) (a_version a + 1) (with_status a RESUMING)"
    and acq: "acquire_worker (constraints_for t a) (sy_workers s) = (ra, wp)"
    and run: "resume_actor_impl quiet aid ns s = (r, s')"
  shows "case ra of
      Inl e \<Rightarrow> r = Inl e \<and>
        updated s s' (dput (ns, aid) a1 (sy_actors s)) wp (sy_router s) (sy_host s)
    | Inr w \<Rightarrow>
        (\<exists>rr c c1 s0 s1 w' wp1.
          w' = w\<lparr>w_assignment := Some (make_assignment a1 w (h_time (sy_host s))),
                 w_version := w_version w + 1\<rparr> \<and>
          wp1 = wp\<lparr>wp_store := dput (w_worker_id w) w' (wp_store wp)\<rparr> \<and>
          c = \<lparr>cx_actor_id = aid, cx_namespace = ns, cx_actor = Some a1, cx_worker = Some w',
               cx_restored = False, cx_assignment = None\<rparr> \<and>
          updated s s0 (dput (ns, aid) a1 (sy_actors s)) wp1 (sy_router s) (sy_host s) \<and>
          restore_execute quiet t (c, s0) = (rr, c1, s1) \<and>
          (case rr of
             Inl e \<Rightarrow> r = Inl e \<and> s' = s1
           | Inr _ \<Rightarrow> (let asg = make_assignment a1 w' (h_time (sy_host s1)) in
               r = Inr asg \<and>
               updated s1 s' (dput (ns, aid) (stamp (h_time (sy_host s1)) (a_version a + 2) (running_actor a1 asg))
                   (dput (ns, aid) a1 (sy_actors s)))
                 wp1 (router_bind (actor_ref_of a) asg (sy_router s)) (sy_host s1))))"
proof -
  have key: "actor_key_of a = (ns, aid)" using orch_inv_key a ok by (simp add: orch_ok_def)
  have inv: "wp_inv (sy_workers s)" using ok by (simp add: orch_ok_def orch_inv_parts)
  have nr: "a_status a \<noteq> RUNNING" using res by (auto simp: resumable_def)
  let ?c0 = "\<lparr>cx_actor_id = aid, cx_namespace = ns, cx_actor = Some a, cx_worker = None,
              cx_restored = False, cx_assignment = None\<rparr>"
  let ?s3 = "tick (tick (tick s))"
  have load: "workflow_step (load_step quiet) (ctx_init aid ns, tick s) = (Inr (), ?c0, ?s3)"
    using a nr res by (simp add: workflow_step_def load_step_def load_complete_def load_execute_def
        load_actor_def get_quiet lift_sys_def default_pre_check_def ctx_init_def resumable_def)
  have k1: "actor_key_of (with_status a RESUMING) = (ns, aid)" using key by simp
  note put1 = put_quiet [where a = "with_status a RESUMING" and e = a and v = "a_version a", unfolded k1]
  let ?s4 = "(tick ?s3)\<lparr>sy_actors := dput (ns, aid) a1 (sy_actors s)\<rparr>"
  let ?c1 = "?c0\<lparr>cx_actor := Some a1\<rparr>"
  have flip: "flip_resuming quiet a (?c0, ?s3) = (Inr a1, ?c0, ?s4)"
    using a by (simp add: flip_resuming_def put1 lift_sys_def a1)
  have inv4: "wp_inv (sy_workers ?s4)" using inv by simp
  have impl: "resume_actor_impl quiet aid ns s =
      (case workflow_run (resume_steps quiet t) (ctx_init aid ns, tick s) of
            (Inl e, c, s2) \<Rightarrow> (Inl e, s2)
          | (Inr _, c, s2) \<Rightarrow>
              (case cx_assignment c of None \<Rightarrow> (Inl WorkflowError, s2) | Some asg \<Rightarrow> (Inr asg, s2)))"
    using a nr t by (simp add: resume_actor_impl_def get_quiet get_template_def)
  have five: "max_claim_retries = Suc 4" by (simp add: max_claim_retries_def)
  note loop = claim_loop_quiet [OF inv4, of "constraints_for t a" a1 4, folded five]
  show ?thesis
  proof (cases ra)
    case (Inl e)
    have "workflow_step (claim_step quiet t) (?c0, ?s3) = (Inl e, ?c1, (tick ?s4)\<lparr>sy_workers := wp\<rparr>)"
      using acq Inl
      by (simp add: workflow_step_def claim_step_def claim_complete_def default_pre_check_def
          claim_execute_def flip Let_def loop lift_sys_def)
    then have "resume_actor_impl quiet aid ns s = (Inl e, (tick ?s4)\<lparr>sy_workers := wp\<rparr>)"
      unfolding impl resume_steps_def by (simp add: load)
    with run Inl show ?thesis by (auto simp: updated_def)
  next
    case (Inr w)
    let ?w' = "w\<lparr>w_assignment := Some (make_assignment a1 w (h_time (sy_host s))),
                 w_version := w_version w + 1\<rparr>"
    let ?wp1 = "wp\<lparr>wp_store := dput (w_worker_id w) ?w' (wp_store wp)\<rparr>"
    let ?s0 = "(tick (tick ?s4))\<lparr>sy_workers := ?wp1\<rparr>"
    let ?cw = "?c1\<lparr>cx_worker := Some ?w'\<rparr>"
    have claim: "workflow_step (claim_step quiet t) (?c0, ?s3) = (Inr (), ?cw, ?s0)"
      using acq Inr
      by (simp add: workflow_step_def claim_step_def claim_complete_def default_pre_check_def
          claim_execute_def flip Let_def loop lift_sys_def)
    have upd: "updated s ?s0 (dput (ns, aid) a1 (sy_actors s)) ?wp1 (sy_router s) (sy_host s)"
      by (simp add: updated_def)
    obtain rr c1 s1 where re: "restore_execute quiet t (?cw, ?s0) = (rr, c1, s1)"
      by (cases "restore_execute quiet t (?cw, ?s0)") auto
    have impl2: "resume_actor_impl quiet aid ns s =
      (case workflow_run [restore_step quiet t, finalize_step quiet] (?cw, ?s0) of
            (Inl e, c, s2) \<Rightarrow> (Inl e, s2)
          | (Inr _, c, s2) \<Rightarrow>
              (case cx_assignment c of None \<Rightarrow> (Inl WorkflowError, s2) | Some asg \<Rightarrow> (Inr asg, s2)))"
      unfolding impl resume_steps_def by (simp add: load claim)
    have "dget (sy_actors ?s0) (ns, aid) = Some a1" by (simp add: dict_simps)
    moreover have "actor_key_of a1 = (ns, aid)" "a_status a1 = RESUMING" "a_version a1 = a_version a + 1"
      "actor_ref_of a1 = actor_ref_of a" by (simp_all add: a1 key)
    moreover have "?cw = \<lparr>cx_actor_id = aid, cx_namespace = ns, cx_actor = Some a1, cx_worker = Some ?w',
               cx_restored = False, cx_assignment = None\<rparr>" by simp
    ultimately obtain c' s2 where tail:
      "workflow_run [restore_step quiet t, finalize_step quiet] (?cw, ?s0) =
        (case rr of Inl e \<Rightarrow> Inl e | Inr _ \<Rightarrow> Inr (), c', s2)"
      and out: "case rr of
       Inl e \<Rightarrow> s2 = s1
     | Inr _ \<Rightarrow> cx_assignment c' = Some (make_assignment a1 ?w' (h_time (sy_host s1))) \<and>
         updated s1 s2 (dput (ns, aid) (stamp (h_time (sy_host s1)) (a_version a1 + 1)
             (running_actor a1 (make_assignment a1 ?w' (h_time (sy_host s1))))) (sy_actors ?s0)) (sy_workers ?s0)
           (router_bind (actor_ref_of a1) (make_assignment a1 ?w' (h_time (sy_host s1))) (sy_router ?s0)) (sy_host s1)"
      using resume_tail [OF _ _ _ _ re refl refl] by blast
    have res: "case rr of
             Inl e \<Rightarrow> r = Inl e \<and> s' = s1
           | Inr _ \<Rightarrow> (let asg = make_assignment a1 ?w' (h_time (sy_host s1)) in
               r = Inr asg \<and>
               updated s1 s' (dput (ns, aid) (stamp (h_time (sy_host s1)) (a_version a + 2) (running_actor a1 asg))
                   (dput (ns, aid) a1 (sy_actors s)))
                 ?wp1 (router_bind (actor_ref_of a) asg (sy_router s)) (sy_host s1))"
      using run out \<open>a_version a1 = a_version a + 1\<close> \<open>actor_ref_of a1 = actor_ref_of a\<close>
      unfolding impl2 tail by (cases rr) (simp_all add: Let_def add.commute)
    have "?cw = \<lparr>cx_actor_id = aid, cx_namespace = ns, cx_actor = Some a1, cx_worker = Some ?w',
               cx_restored = False, cx_assignment = None\<rparr>" by simp
    with re res upd Inr show ?thesis by auto
  qed
qed

definition same_sys :: "sys \<Rightarrow> sys \<Rightarrow> bool" where
  "same_sys s s' \<longleftrightarrow> updated s s' (sy_actors s) (sy_workers s) (sy_router s) (sy_host s)"

lemma same_sys_tick [simp]: "same_sys s s" "same_sys s (tick s)" "same_sys s (tick (tick s))"
    "same_sys s (tick (tick (tick s)))"
  by (simp_all add: same_sys_def updated_def)

lemma same_sys_ok: "orch_ok s \<Longrightarrow> same_sys s s' \<Longrightarrow> orch_ok s'"
  by (simp add: same_sys_def updated_def orch_ok_def)

lemma resume_refused:
  assumes "\<And>a. dget (sy_actors s) (ns, aid) = Some a \<Longrightarrow> \<not> resumable a \<or>
     dget (sy_templates s) (a_template_id a) = None"
    and ok: "orch_ok s" and run: "resume_actor_impl quiet aid ns s = (r, s')"
  shows "same_sys s s' \<and>
    (case dget (sy_actors s) (ns, aid) of
       None \<Rightarrow> r = Inl ActorNotFound
     | Some a \<Rightarrow>
         if a_status a = RUNNING then (\<exists>asg. a_worker_assignment a = Some asg \<and> r = Inr asg)
         else if dget (sy_templates s) (a_template_id a) = None then r = Inl TemplateNotFound
         else r = Inl ActorStateError)"
proof (cases "dget (sy_actors s) (ns, aid)")
  case None
  with run show ?thesis by (auto simp: resume_actor_impl_def get_quiet)
next
  case (Some a)
  show ?thesis
  proof (cases "a_status a = RUNNING")
    case True
    from running_worker [OF ok Some this] obtain asg where "a_worker_assignment a = Some asg" by blast
    with run Some True show ?thesis by (auto simp: resume_actor_impl_def get_quiet)
  next
    case False
    show ?thesis
    proof (cases "dget (sy_templates s) (a_template_id a)")
      case None
      with run Some False show ?thesis by (auto simp: resume_actor_impl_def get_quiet get_template_def)
    next
      case t: (Some t)
      with assms(1) Some have nr: "\<not> resumable a" by auto
      have "workflow_step (load_step quiet) (ctx_init aid ns, tick s) =
          (Inl ActorStateError, ctx_init aid ns, tick (tick (tick s)))"
        using Some False nr by (simp add: workflow_step_def load_step_def load_complete_def
            load_execute_def load_actor_def get_quiet lift_sys_def default_pre_check_def ctx_init_def
            resumable_def)
      with run Some False t show ?thesis
        by (auto simp: resume_actor_impl_def get_quiet get_template_def resume_steps_def)
    qed
  qed
qed

lemma held_recorded:
  assumes "orch_inv st wp b" and "held_worker st k = Some wid"
  shows "\<exists>w. dget (wp_store wp) wid = Some w \<and> w_assignment w \<noteq> None"
proof -
  from assms(2) obtain a asg where a: "dget st k = Some a" "a_worker_assignment a = Some asg"
    "wa_worker_id asg = wid" by (auto simp: held_worker_def split: option.splits)
  from orch_inv_actor(1) [OF assms(1) a(1)] a(2,3) show ?thesis
    by (auto simp: actor_hosted_def assigned_to_def split: if_splits option.splits)
qed

lemma resume_ok:
  assumes ok: "orch_ok s"
  shows "orch_ok (snd (resume_actor_impl quiet aid ns s))"
proof -
  obtain r s' where run: "resume_actor_impl quiet aid ns s = (r, s')"
    by (cases "resume_actor_impl quiet aid ns s")
  have inv: "orch_inv (sy_actors s) (sy_workers s) (sy_router s)" using ok by (simp add: orch_ok_def)
  show ?thesis
  proof (cases "\<exists>a t. dget (sy_actors s) (ns, aid) = Some a \<and> resumable a \<and>
      dget (sy_templates s) (a_template_id a) = Some t")
    case False
    then have "\<not> resumable a \<or> dget (sy_templates s) (a_template_id a) = None"
      if "dget (sy_actors s) (ns, aid) = Some a" for a using that by blast
    from resume_refused [OF this ok run] run ok show ?thesis by (auto intro: same_sys_ok)
  next
    case True
    then obtain a t where a: "dget (sy_actors s) (ns, aid) = Some a" and res: "resumable a"
      and t: "dget (sy_templates s) (a_template_id a) = Some t" by blast
    let ?k = "(ns, aid)"
    let ?a1 = "stamp (h_time (sy_host s)) (a_version a + 1) (with_status a RESUMING)"
    let ?st1 = "dput ?k ?a1 (sy_actors s)"
    have ver: "1 \<le> a_version a" and key: "?k = actor_key_of a" using orch_inv_key [OF inv a] by auto
    have nh: "\<not> holds_worker a" using res by (auto simp: resumable_def holds_worker_def)
    have none: "a_worker_assignment a = None"
      using orch_inv_actor(1) [OF inv a] nh by (simp add: actor_hosted_def)
    have 1: "orch_inv ?st1 (sy_workers s) (sy_router s)"
      by (rule orch_inv_put [OF inv a]) (use ver nh in \<open>auto simp: holds_worker_def\<close>)
    obtain ra wp where acq: "acquire_worker (constraints_for t a) (sy_workers s) = (ra, wp)"
      by (cases "acquire_worker (constraints_for t a) (sy_workers s)")
    note AW = acquire_worker_inv [OF orch_inv_parts(2) [OF inv] acq]
    have kept: "dget (wp_store wp) wid = dget (wp_store (sy_workers s)) wid"
      if "held_worker ?st1 k = Some wid" for k wid
      using held_recorded [OF 1 that] AW(2) by force
    have 2: "orch_inv ?st1 wp (sy_router s)"
      by (rule orch_inv_workers [OF 1 AW(1) kept])
    note RQ = resume_quiet [OF ok a res t refl acq run]
    show ?thesis
    proof (cases ra)
      case (Inl e)
      with RQ 2 run show ?thesis by (auto simp: updated_def orch_ok_def)
    next
      case (Inr w)
      have w: "is_idle w" "dget (wp_store wp) (w_worker_id w) = Some w"
        "w_worker_id w \<notin> fst ` set (wp_warm_idle_since wp)"
        using AW(3) [of w] Inr by auto
      let ?w' = "w\<lparr>w_assignment := Some (make_assignment ?a1 w (h_time (sy_host s))),
                 w_version := w_version w + 1\<rparr>"
      let ?wp1 = "wp\<lparr>wp_store := dput (w_worker_id w) ?w' (wp_store wp)\<rparr>"
      have claim: "claim_for_actor w (make_assignment ?a1 w (h_time (sy_host s))) wp = (Inr ?w', ?wp1)"
        by (rule claim_idle [OF w(2,1)])
      have "wp_ok ?wp1" using claim_for_actor_ok [OF _ w(3) claim] AW(1) by (simp add: wp_inv_def)
      then have inv1: "wp_inv ?wp1" using AW(1) by (simp add: wp_inv_def)
      have free: "held_worker ?st1 k \<noteq> Some (w_worker_id w)" for k
        using held_recorded [OF 2, of k "w_worker_id w"] w by (auto simp: is_idle_def)
      have 3: "orch_inv ?st1 ?wp1 (sy_router s)"
        by (rule orch_inv_workers [OF 2 inv1]) (use free in \<open>auto simp: dict_simps\<close>)
      from RQ Inr obtain rr c c1 s0 s1 where
        upd: "updated s s0 ?st1 ?wp1 (sy_router s) (sy_host s)"
        and re: "restore_execute quiet t (c, s0) = (rr, c1, s1)"
        and out: "case rr of
             Inl e \<Rightarrow> r = Inl e \<and> s' = s1
           | Inr _ \<Rightarrow> (let asg = make_assignment ?a1 ?w' (h_time (sy_host s1)) in
               r = Inr asg \<and>
               updated s1 s' (dput (ns, aid) (stamp (h_time (sy_host s1)) (a_version a + 2) (running_actor ?a1 asg)) ?st1)
                 ?wp1 (router_bind (actor_ref_of a) asg (sy_router s)) (sy_host s1))" by auto
      have same: "restore_same s0 s1" using restore_execute_frame [OF re] by blast
      show ?thesis
      proof (cases rr)
        case (Inl e)
        with out same upd 3 run show ?thesis
          by (simp add: restore_same_def updated_def orch_ok_def)
      next
        case rr: (Inr u)
        let ?asg = "make_assignment ?a1 ?w' (h_time (sy_host s1))"
        let ?a2 = "stamp (h_time (sy_host s1)) (a_version a + 2) (running_actor ?a1 ?asg)"
        have a1k: "dget ?st1 ?k = Some ?a1" by (simp add: dict_simps)
        have "orch_inv (dput ?k ?a2 ?st1) ?wp1 (router_bind (actor_ref_of ?a2) ?asg (sy_router s))"
          by (rule orch_inv_take [OF 3 a1k, where w = ?w'])
            (use ver free in \<open>auto simp: make_assignment_def dict_simps assigned_to_def\<close>)
        with out rr run show ?thesis by (simp add: Let_def updated_def orch_ok_def)
      qed
    qed
  qed
qed

section \<open>Creating and deleting\<close>

lemma orch_inv_new:
  assumes inv: "orch_inv st wp b" and new: "dget st k = None"
    and a: "k = actor_key_of a" "1 \<le> a_version a" "a_worker_assignment a = None" "\<not> holds_worker a"
      "plain_ref (actor_ref_of a)"
  shows "orch_inv (dput k a st) wp b"
proof (rule orch_invI)
  show "actor_store_ok (dput k a st)"
    using orch_inv_parts(1) [OF inv] a(1,2) by (intro actor_store_ok_dput)
  show "wp_inv wp" by (rule orch_inv_parts(2) [OF inv])
  show "actor_hosted (wp_store wp) a2 \<and> plain_ref (actor_ref_of a2)"
    if "dget (dput k a st) k2 = Some a2" for k2 a2
    using that orch_inv_actor [OF inv, of k2 a2] a by (auto simp: dict_simps actor_hosted_def split: if_splits)
  show "held_worker (dput k a st) k2 = Some wid \<Longrightarrow> held_worker (dput k a st) k3 = Some wid \<Longrightarrow> k2 = k3"
    for k2 k3 wid
    using orch_inv_held [OF inv, of k2 wid k3] a(3) by (auto simp: held_worker_dput split: if_splits)
  show "routes_ok (dput k a st) b"
    unfolding routes_ok_def
  proof (intro conjI allI impI)
    fix str asg assume "dget b str = Some asg"
    from orch_inv_route(1) [OF inv this] obtain k2 a2 where k2: "dget st k2 = Some a2"
      "actor_ref_str (actor_ref_of a2) = str" "a_worker_assignment a2 = Some asg" by blast
    with new have "k2 \<noteq> k" by auto
    with k2 show "\<exists>k2 a2. dget (dput k a st) k2 = Some a2 \<and> actor_ref_str (actor_ref_of a2) = str \<and>
        a_worker_assignment a2 = Some asg"
      by (intro exI [of _ k2] exI [of _ a2]) (simp add: dict_simps)
  next
    fix k2 a2 assume "dget (dput k a st) k2 = Some a2" "a_status a2 = RUNNING"
    then show "router_resolve (actor_ref_of a2) b = a_worker_assignment a2"
      using orch_inv_route(2) [OF inv, of k2 a2] a(4)
      by (auto simp: dict_simps holds_worker_def split: if_splits)
  qed
qed

lemma held_worker_ddel: "held_worker (ddel k st) k' = (if k' = k then None else held_worker st k')"
  by (simp add: held_worker_def dict_simps)

lemma orch_inv_drop:
  assumes inv: "orch_inv st wp b" and a: "dget st k = Some a" and none: "a_worker_assignment a = None"
  shows "orch_inv (ddel k st) wp b"
proof (rule orch_invI)
  show "actor_store_ok (ddel k st)"
    using actor_delete_ok [of st "fst k" "snd k"] orch_inv_parts(1) [OF inv] by (simp add: actor_delete_def)
  show "wp_inv wp" by (rule orch_inv_parts(2) [OF inv])
  show "actor_hosted (wp_store wp) a2 \<and> plain_ref (actor_ref_of a2)" if "dget (ddel k st) k2 = Some a2" for k2 a2
    using that orch_inv_actor [OF inv, of k2 a2] by (auto simp: dict_simps split: if_splits)
  show "held_worker (ddel k st) k2 = Some wid \<Longrightarrow> held_worker (ddel k st) k3 = Some wid \<Longrightarrow> k2 = k3"
    for k2 k3 wid
    using orch_inv_held [OF inv, of k2 wid k3] by (auto simp: held_worker_ddel split: if_splits)
  show "routes_ok (ddel k st) b"
    unfolding routes_ok_def
  proof (intro conjI allI impI)
    fix str asg assume "dget b str = Some asg"
    from orch_inv_route(1) [OF inv this] obtain k2 a2 where k2: "dget st k2 = Some a2"
      "actor_ref_str (actor_ref_of a2) = str" "a_worker_assignment a2 = Some asg" by blast
    with a none have "k2 \<noteq> k" by auto
    with k2 show "\<exists>k2 a2. dget (ddel k st) k2 = Some a2 \<and> actor_ref_str (actor_ref_of a2) = str \<and>
        a_worker_assignment a2 = Some asg"
      by (intro exI [of _ k2] exI [of _ a2]) (simp add: dict_simps)
  next
    fix k2 a2 assume "dget (ddel k st) k2 = Some a2" "a_status a2 = RUNNING"
    then show "router_resolve (actor_ref_of a2) b = a_worker_assignment a2"
      using orch_inv_route(2) [OF inv, of k2 a2] by (auto simp: dict_simps split: if_splits)
  qed
qed

lemma create_quiet:
  "create_actor quiet aid tid ns sel s =
     (if dget (sy_templates s) tid = None then (Inl TemplateNotFound, s)
      else case dget (sy_actors s) (ns, aid) of
        Some e \<Rightarrow> (Inl ActorStateError, tick s)
      | None \<Rightarrow>
          (let a = stamp (h_time (sy_host s)) 1
                \<lparr>a_actor_id = aid, a_namespace = ns, a_template_id = tid, a_status = SUSPENDED,
                 a_version = 1, a_worker_assignment = None, a_latest_snapshot_ref = None,
                 a_worker_selector = sel, a_created_at = h_time (sy_host s),
                 a_updated_at = h_time (sy_host s)\<rparr>
           in (Inr a, (tick s)\<lparr>sy_actors := dput (ns, aid) a (sy_actors s)\<rparr>)))"
  by (simp add: create_actor_def put_actor_def actor_put_def actor_put_version_def actor_key_of_def
      Let_def stamp_def tick_def split: option.split)

lemma create_ok:
  assumes ok: "orch_ok s" and ns: "CHR ''/'' \<notin> set ns"
  shows "orch_ok (snd (create_actor quiet aid tid ns sel s))"
proof -
  have inv: "orch_inv (sy_actors s) (sy_workers s) (sy_router s)" using ok by (simp add: orch_ok_def)
  show ?thesis
  proof (cases "dget (sy_templates s) tid = None \<or> dget (sy_actors s) (ns, aid) \<noteq> None")
    case True
    with ok show ?thesis by (auto simp: create_quiet orch_ok_def split: option.split)
  next
    case False
    then have new: "dget (sy_actors s) (ns, aid) = None" by simp
    have "orch_inv (dput (ns, aid) a (sy_actors s)) (sy_workers s) (sy_router s)"
      if "a_actor_id a = aid" "a_namespace a = ns" "a_status a = SUSPENDED" "a_version a = 1"
        "a_worker_assignment a = None" for a
      by (rule orch_inv_new [OF inv new])
        (use ns that in \<open>simp_all add: actor_key_of_def holds_worker_def plain_ref_def actor_ref_of_def\<close>)
    with False show ?thesis by (auto simp: create_quiet Let_def orch_ok_def)
  qed
qed

lemma delete_quiet:
  assumes a: "dget (sy_actors s) (ns, aid) = Some a" and key: "actor_key_of a = (ns, aid)"
  shows "\<exists>s'. delete_actor quiet aid ns s =
      (if is_active a then Inl ActorStateError else Inr (), s') \<and>
    (if is_active a then same_sys s s'
     else updated s s' (ddel (ns, aid) (sy_actors s)) (sy_workers s)
       (router_unbind (actor_ref_of a) (sy_router s)) (sy_host s))"
proof (cases "is_active a")
  case True
  with a show ?thesis by (auto simp: delete_actor_def get_quiet is_active_def)
next
  case False
  have k1: "actor_key_of (with_status a DELETING) = (ns, aid)" using key by simp
  note put1 = put_quiet [where a = "with_status a DELETING" and e = a and v = "a_version a", unfolded k1]
  from False a show ?thesis
    by (simp add: delete_actor_def get_quiet is_active_def put1 unbind_actor_def Let_def actor_delete_def)
      (simp add: updated_def ddel_dput)
qed

lemma delete_ok:
  assumes ok: "orch_ok s"
  shows "orch_ok (snd (delete_actor quiet aid ns s))"
proof (cases "dget (sy_actors s) (ns, aid)")
  case None
  with ok show ?thesis by (simp add: delete_actor_def get_quiet orch_ok_def)
next
  case (Some a)
  have inv: "orch_inv (sy_actors s) (sy_workers s) (sy_router s)" using ok by (simp add: orch_ok_def)
  have key: "actor_key_of a = (ns, aid)" and ver: "1 \<le> a_version a" using orch_inv_key [OF inv Some] by simp_all
  let ?a1 = "(with_status a DELETING)\<lparr>a_worker_assignment := None\<rparr>"
  have 1: "orch_inv (dput (ns, aid) ?a1 (sy_actors s)) (sy_workers s) (router_unbind (actor_ref_of a) (sy_router s))"
    by (rule orch_inv_let_go [OF inv Some _ _ _ _ orch_inv_parts(2) [OF inv]])
      (use ver in \<open>auto simp: holds_worker_def with_status_def actor_key_of_def\<close>)
  have "orch_inv (ddel (ns, aid) (dput (ns, aid) ?a1 (sy_actors s))) (sy_workers s)
      (router_unbind (actor_ref_of a) (sy_router s))"
    by (rule orch_inv_drop [OF 1, where a = ?a1]) (simp_all add: dict_simps)
  with delete_quiet [OF Some key] ok show ?thesis
    by (auto simp: updated_def orch_ok_def same_sys_def ddel_dput split: if_splits)
qed

section \<open>Reachable states\<close>

text \<open>
  The operations in any order, one after the other, with the clocks, the file system and the
  sandboxes' attributes changing in between, and the worker pool's sweeper running.
\<close>

inductive orch_step :: "sys \<Rightarrow> sys \<Rightarrow> bool" where
  template: "orch_step s (register_template t s)"
| create: "CHR ''/'' \<notin> set ns \<Longrightarrow> orch_step s (snd (create_actor quiet aid tid ns sel s))"
| delete: "orch_step s (snd (delete_actor quiet aid ns s))"
| resume: "orch_step s (snd (resume_actor quiet aid ns s))"
| suspend: "orch_step s (snd (suspend_actor quiet aid ns sc s))"
| pause: "orch_step s (snd (pause_actor quiet aid ns s))"
| crash: "orch_step s (snd (mark_crashed quiet aid ns s))"
| sweep: "orch_step s (s\<lparr>sy_workers := wp_sweep_once (sy_workers s)\<rparr>)"
| world: "orch_step s (s\<lparr>sy_host := h, sy_objs := objs,
            sy_workers := (sy_workers s)\<lparr>wp_now := now, wp_objs := objs'\<rparr>\<rparr>)"

inductive orch_reach :: "sys \<Rightarrow> sys \<Rightarrow> bool" for s0 where
  start: "orch_reach s0 s0"
| step: "orch_reach s0 s \<Longrightarrow> orch_step s s' \<Longrightarrow> orch_reach s0 s'"

lemma resume_actor_ok: "orch_ok s \<Longrightarrow> orch_ok (snd (resume_actor quiet aid ns s))"
proof -
  assume ok: "orch_ok s"
  have "orch_ok (tick s)" using ok by (simp add: orch_ok_def)
  from resume_ok [OF this] ok show ?thesis
    by (cases "dget (sy_actors s) (ns, aid)") (simp_all add: resume_actor_def get_quiet orch_ok_def)
qed

lemma sweep_keeps_held:
  assumes inv: "orch_inv st wp b" and held: "held_worker st k = Some wid"
  shows "dget (wp_store (wp_sweep_once wp)) wid = dget (wp_store wp) wid"
proof -
  from held_recorded [OF inv held] obtain w where w: "dget (wp_store wp) wid = Some w"
    "w_assignment w \<noteq> None" by blast
  have ok: "wp_ok wp" using orch_inv_parts(2) [OF inv] by (simp add: wp_inv_def)
  have "wid \<notin> set (sweep_expired wp)"
  proof
    assume "wid \<in> set (sweep_expired wp)"
    then have "wid \<in> fst ` set (wp_warm_idle_since wp)" by (force simp: sweep_expired_def)
    with ok w show False unfolding wp_ok_def warm_ok_def by fastforce
  qed
  moreover have "map_of (filter (\<lambda>(k, w). k \<notin> A) d) wid = map_of d wid"
    if "wid \<notin> A" for A and d :: worker_store
    using that by (induction d) auto
  ultimately show ?thesis using wp_sweep_spec [OF ok] by simp
qed

lemma world_ok:
  assumes "orch_ok s"
  shows "orch_ok (s\<lparr>sy_host := h, sy_objs := objs,
            sy_workers := (sy_workers s)\<lparr>wp_now := now, wp_objs := objs'\<rparr>\<rparr>)"
proof -
  have inv: "orch_inv (sy_actors s) (sy_workers s) (sy_router s)" using assms by (simp add: orch_ok_def)
  have "wp_inv ((sy_workers s)\<lparr>wp_now := now, wp_objs := objs'\<rparr>)"
    using orch_inv_parts(2) [OF inv] by (simp add: wp_inv_def wp_ok_def warm_ok_def)
  from orch_inv_workers [OF inv this] show ?thesis by (simp add: orch_ok_def)
qed

lemma orch_step_ok: "orch_step s s' \<Longrightarrow> orch_ok s \<Longrightarrow> orch_ok s'"
proof (induction rule: orch_step.induct)
  case (sweep s)
  then have inv: "orch_inv (sy_actors s) (sy_workers s) (sy_router s)" by (simp add: orch_ok_def)
  have "orch_inv (sy_actors s) (wp_sweep_once (sy_workers s)) (sy_router s)"
    using orch_inv_workers [OF inv wp_sweep_once_inv [OF orch_inv_parts(2) [OF inv]]]
      sweep_keeps_held [OF inv] by blast
  then show ?case by (simp add: orch_ok_def)
qed (simp_all add: world_ok create_ok delete_ok resume_actor_ok suspend_ok pause_ok mark_crashed_ok,
  simp add: register_template_def orch_ok_def)

lemma orch_reach_ok: "orch_reach s0 s \<Longrightarrow> orch_ok s0 \<Longrightarrow> orch_ok s"
  by (induction rule: orch_reach.induct) (simp_all add: orch_step_ok)

section \<open>What an operation leaves alone\<close>

text \<open>The operations as data, so that a sequence of them can be run and talked about.\<close>

datatype orch_op =
    Register_template actor_template
  | Create_actor string string string "(string, string) dict"
  | Delete_actor string string
  | Resume_actor string string
  | Suspend_actor string string "checkpoint_scope option"
  | Pause_actor string string
  | Mark_crashed string string
  | Pool_sweep
  | World_change host "sandbox \<Rightarrow> sandbox_host" time "sandbox \<Rightarrow> sandbox_obj"

fun run_op :: "orch_op \<Rightarrow> sys \<Rightarrow> sys" where
  "run_op (Register_template t) s = register_template t s"
| "run_op (Create_actor aid tid ns sel) s = snd (create_actor quiet aid tid ns sel s)"
| "run_op (Delete_actor aid ns) s = snd (delete_actor quiet aid ns s)"
| "run_op (Resume_actor aid ns) s = snd (resume_actor quiet aid ns s)"
| "run_op (Suspend_actor aid ns sc) s = snd (suspend_actor quiet aid ns sc s)"
| "run_op (Pause_actor aid ns) s = snd (pause_actor quiet aid ns s)"
| "run_op (Mark_crashed aid ns) s = snd (mark_crashed quiet aid ns s)"
| "run_op Pool_sweep s = s\<lparr>sy_workers := wp_sweep_once (sy_workers s)\<rparr>"
| "run_op (World_change h objs now objs') s =
     s\<lparr>sy_host := h, sy_objs := objs, sy_workers := (sy_workers s)\<lparr>wp_now := now, wp_objs := objs'\<rparr>\<rparr>"

fun op_plain :: "orch_op \<Rightarrow> bool" where
  "op_plain (Create_actor aid tid ns sel) = (CHR ''/'' \<notin> set ns)"
| "op_plain _ = True"

lemma run_op_ok: "op_plain op \<Longrightarrow> orch_ok s \<Longrightarrow> orch_ok (run_op op s)"
proof -
  assume "op_plain op" and ok: "orch_ok s"
  then have "orch_step s (run_op op s)"
    by (cases op) (simp_all only: run_op.simps op_plain.simps orch_step.create orch_step.intros not_False_eq_True)
  then show ?thesis using ok by (rule orch_step_ok)
qed

text \<open>The record of an actor and the templates stay as they are.\<close>

definition left_alone :: "actor_key \<Rightarrow> sys \<Rightarrow> sys \<Rightarrow> bool" where
  "left_alone k s s' \<longleftrightarrow> dget (sy_actors s') k = dget (sy_actors s) k \<and> sy_templates s' = sy_templates s"

lemma left_alone_same [simp]: "left_alone k s s" "left_alone k s (tick s)" "same_sys s s' \<Longrightarrow> left_alone k s s'"
  by (simp_all add: left_alone_def same_sys_def updated_def)

lemma left_alone_updated:
  "updated s s' st wp b h \<Longrightarrow> dget st k = dget (sy_actors s) k \<Longrightarrow> left_alone k s s'"
  by (simp add: left_alone_def updated_def)

lemma left_alone_create:
  "k \<noteq> (ns, aid) \<or> dget (sy_actors s) k \<noteq> None \<Longrightarrow> left_alone k s (snd (create_actor quiet aid tid ns sel s))"
  by (auto simp: create_quiet left_alone_def Let_def dict_simps split: option.split)

lemma left_alone_delete:
  assumes "orch_ok s" and "k \<noteq> (ns, aid)"
  shows "left_alone k s (snd (delete_actor quiet aid ns s))"
proof (cases "dget (sy_actors s) (ns, aid)")
  case None
  then show ?thesis by (simp add: delete_actor_def get_quiet)
next
  case (Some a)
  have "actor_key_of a = (ns, aid)" using orch_inv_key Some assms(1) by (simp add: orch_ok_def)
  from delete_quiet [OF Some this] assms(2) show ?thesis
    by (auto simp: left_alone_def same_sys_def updated_def dict_simps split: if_splits)
qed

lemma left_alone_crash:
  assumes "orch_ok s" and "k \<noteq> (ns, aid)"
  shows "left_alone k s (snd (mark_crashed quiet aid ns s))"
proof (cases "dget (sy_actors s) (ns, aid)")
  case None
  then show ?thesis by (simp add: mark_crashed_def get_quiet)
next
  case (Some a)
  from crash_quiet [OF assms(1) Some] assms(2) show ?thesis
    by (auto simp: left_alone_def updated_def dict_simps)
qed

lemma left_alone_suspend:
  assumes ok: "orch_ok s" and k: "k \<noteq> (ns, aid) \<or> (\<exists>a. dget (sy_actors s) k = Some a \<and> a_status a \<noteq> RUNNING)"
  shows "left_alone k s (snd (suspend_actor quiet aid ns sc s))"
proof (cases "\<exists>a t. dget (sy_actors s) (ns, aid) = Some a \<and> a_status a = RUNNING \<and>
    dget (sy_templates s) (a_template_id a) = Some t")
  case False
  then show ?thesis by (auto simp: suspend_actor_def get_quiet get_template_def split: option.split sum.split)
next
  case True
  then obtain a t where a: "dget (sy_actors s) (ns, aid) = Some a" "a_status a = RUNNING"
    and t: "dget (sy_templates s) (a_template_id a) = Some t" by blast
  from release_held [OF ok a] obtain asg w wp' where w: "a_worker_assignment a = Some asg"
    "dget (wp_store (sy_workers s)) (wa_worker_id asg) = Some w"
    "release_worker w False (sy_workers s) = (Inr (), wp')" by blast
  let ?a1 = "stamp (h_time (sy_host s)) (a_version a + 1) (with_status a SUSPENDING)"
  let ?eff = "case sc of None \<Rightarrow> t_snapshot_scope_on_suspend t | Some x \<Rightarrow> x"
  obtain r h where cp: "checkpoint (sy_store s) (sy_objs s) ?a1 w ?eff (sy_host s) = (r, h)"
    by (cases "checkpoint (sy_store s) (sy_objs s) ?a1 w ?eff (sy_host s)")
  have "k \<noteq> (ns, aid)" using k a by auto
  with suspend_quiet [OF ok a t w refl cp] show ?thesis
    by (cases r) (auto simp: left_alone_def updated_def dict_simps)
qed

lemma left_alone_pause:
  assumes ok: "orch_ok s" and k: "k \<noteq> (ns, aid) \<or> (\<exists>a. dget (sy_actors s) k = Some a \<and> a_status a \<noteq> RUNNING)"
  shows "left_alone k s (snd (pause_actor quiet aid ns s))"
proof (cases "\<exists>a. dget (sy_actors s) (ns, aid) = Some a \<and> a_status a = RUNNING")
  case False
  then show ?thesis by (cases "dget (sy_actors s) (ns, aid)") (auto simp: pause_actor_def get_quiet)
next
  case True
  then obtain a where a: "dget (sy_actors s) (ns, aid) = Some a" "a_status a = RUNNING" by blast
  from release_held [OF ok a] obtain asg w wp' where w: "a_worker_assignment a = Some asg"
    "dget (wp_store (sy_workers s)) (wa_worker_id asg) = Some w"
    "release_worker w False (sy_workers s) = (Inr (), wp')" by blast
  let ?a1 = "stamp (h_time (sy_host s)) (a_version a + 1) (with_status a PAUSING)"
  obtain r h where cp: "checkpoint (sy_store s) (sy_objs s) ?a1 w DATA (sy_host s) = (r, h)"
    by (cases "checkpoint (sy_store s) (sy_objs s) ?a1 w DATA (sy_host s)")
  have "k \<noteq> (ns, aid)" using k a by auto
  with pause_quiet [OF ok a w refl cp] show ?thesis
    by (cases r) (auto simp: left_alone_def updated_def dict_simps)
qed

lemma left_alone_resume:
  assumes ok: "orch_ok s" and k: "k \<noteq> (ns, aid) \<or> (\<exists>a. dget (sy_actors s) k = Some a \<and> \<not> resumable a)"
  shows "left_alone k s (snd (resume_actor quiet aid ns s))"
proof (cases "dget (sy_actors s) (ns, aid)")
  case None
  then show ?thesis by (simp add: resume_actor_def get_quiet)
next
  case (Some a)
  have ok0: "orch_ok (tick s)" using ok by (simp add: orch_ok_def)
  obtain r s' where impl: "resume_actor_impl quiet aid ns (tick s) = (r, s')"
    by (cases "resume_actor_impl quiet aid ns (tick s)")
  have run: "snd (resume_actor quiet aid ns s) = s'" using impl Some by (simp add: resume_actor_def get_quiet)
  show ?thesis
  proof (cases "resumable a \<and> dget (sy_templates s) (a_template_id a) \<noteq> None")
    case False
    then have "\<not> resumable x \<or> dget (sy_templates (tick s)) (a_template_id x) = None"
      if "dget (sy_actors (tick s)) (ns, aid) = Some x" for x using that Some by auto
    from resume_refused [OF this ok0 impl] have "same_sys s s'" by (simp add: same_sys_def updated_def)
    then show ?thesis using run by simp
  next
    case True
    then obtain t where t: "dget (sy_templates (tick s)) (a_template_id a) = Some t" by auto
    have ne: "k \<noteq> (ns, aid)" using k Some True by auto
    obtain ra wp where acq: "acquire_worker (constraints_for t a) (sy_workers (tick s)) = (ra, wp)"
      by (cases "acquire_worker (constraints_for t a) (sy_workers (tick s))")
    have a0: "dget (sy_actors (tick s)) (ns, aid) = Some a" using Some by simp
    note Q = resume_quiet [OF ok0 a0 conjunct1 [OF True] t refl acq impl]
    show ?thesis
    proof (cases ra)
      case (Inl e)
      with Q ne show ?thesis unfolding run by (auto simp: left_alone_def updated_def dict_simps)
    next
      case (Inr w)
      let ?a1 = "stamp (h_time (sy_host (tick s))) (a_version a + 1) (with_status a RESUMING)"
      from Q [unfolded Inr sum.case] obtain rr :: "unit result" and c c1 s0 s1 w' wp1 where
        s0: "updated (tick s) s0 (dput (ns, aid) ?a1 (sy_actors (tick s))) wp1 (sy_router (tick s)) (sy_host (tick s))"
        and re: "restore_execute quiet t (c, s0) = (rr, c1, s1)"
        and C: "case rr of
             Inl e \<Rightarrow> r = Inl e \<and> s' = s1
           | Inr _ \<Rightarrow> (let asg' = make_assignment ?a1 w' (h_time (sy_host s1)) in
               r = Inr asg' \<and>
               updated s1 s' (dput (ns, aid) (stamp (h_time (sy_host s1)) (a_version a + 2) (running_actor ?a1 asg'))
                   (dput (ns, aid) ?a1 (sy_actors (tick s))))
                 wp1 (router_bind (actor_ref_of a) asg' (sy_router (tick s))) (sy_host s1))"
        by (elim exE conjE) (rule that, assumption+)
      have "restore_same s0 s1" using restore_execute_frame [OF re] by blast
      then show ?thesis using s0 C ne unfolding run
        by (cases rr) (auto simp: left_alone_def restore_same_def updated_def dict_simps Let_def)
    qed
  qed
qed

text \<open>
  A record that is neither running nor resumable is out of the reach of every operation but its
  deletion and \<open>mark_crashed\<close>.
\<close>

lemma stuck_step:
  assumes ok: "orch_ok s" and a: "dget (sy_actors s) k = Some a" "a_status a \<noteq> RUNNING" "\<not> resumable a"
    and op: "op \<noteq> Delete_actor (snd k) (fst k)" "op \<noteq> Mark_crashed (snd k) (fst k)"
  shows "dget (sy_actors (run_op op s)) k = Some a \<and>
    (dget (sy_templates s) tid \<noteq> None \<longrightarrow> dget (sy_templates (run_op op s)) tid \<noteq> None)"
proof -
  have keeps: ?thesis if "left_alone k s (run_op op s)" using that a(1) by (simp add: left_alone_def)
  show ?thesis
  proof (cases op)
    case (Register_template t)
    then show ?thesis using a(1) by (simp add: register_template_def dict_simps)
  next
    case (Create_actor aid tid ns sel)
    then show ?thesis using a(1) left_alone_create [of k ns aid s tid sel] by (intro keeps) simp
  next
    case (Delete_actor aid ns)
    with op(1) have "k \<noteq> (ns, aid)" by auto
    with Delete_actor show ?thesis using left_alone_delete [OF ok] by (intro keeps) simp
  next
    case (Resume_actor aid ns)
    then show ?thesis using a left_alone_resume [OF ok, of k ns aid] by (intro keeps) auto
  next
    case (Suspend_actor aid ns sc)
    then show ?thesis using a left_alone_suspend [OF ok, of k ns aid sc] by (intro keeps) auto
  next
    case (Pause_actor aid ns)
    then show ?thesis using a left_alone_pause [OF ok, of k ns aid] by (intro keeps) auto
  next
    case (Mark_crashed aid ns)
    with op(2) have "k \<noteq> (ns, aid)" by auto
    with Mark_crashed show ?thesis using left_alone_crash [OF ok] by (intro keeps) simp
  qed (use a(1) in simp_all)
qed

lemma stuck_run:
  assumes "orch_ok s" and "dget (sy_actors s) k = Some a" and st: "a_status a \<noteq> RUNNING" "\<not> resumable a"
    and "dget (sy_templates s) tid \<noteq> None"
    and "\<forall>op \<in> set ops. op_plain op \<and> op \<noteq> Delete_actor (snd k) (fst k) \<and> op \<noteq> Mark_crashed (snd k) (fst k)"
  shows "orch_ok (fold run_op ops s) \<and> dget (sy_actors (fold run_op ops s)) k = Some a \<and>
    dget (sy_templates (fold run_op ops s)) tid \<noteq> None"
  using assms(1,2,5,6)
proof (induction ops arbitrary: s)
  case (Cons op ops)
  have "orch_ok (run_op op s)" using run_op_ok Cons.prems by simp
  moreover have "dget (sy_actors (run_op op s)) k = Some a" "dget (sy_templates (run_op op s)) tid \<noteq> None"
    using stuck_step [OF Cons.prems(1,2) st, of op tid] Cons.prems(3,4) by auto
  ultimately show ?case using Cons.IH [of "run_op op s"] Cons.prems(4) by simp
qed simp

section \<open>The steps' contract\<close>

text \<open>
  The two middle steps of the resume workflow keep their completion in the context, and keep
  the contract of \<open>idempotent_steps\<close> whatever other tasks do.
\<close>

lemma flip_resuming_ctx: "flip_resuming oth a (c, s) = (r, c', s') \<Longrightarrow> c' = c"
  by (auto simp: flip_resuming_def handling_def andthen_def lift_sys_def load_actor_def
      split: prod.splits sum.splits if_splits)

lemma claim_execute_ctx:
  assumes "claim_execute oth t (c, s) = (r, c', s')"
  shows "cx_restored c' = cx_restored c" and "r = Inr u \<Longrightarrow> cx_worker c' \<noteq> None"
    and "cx_worker c \<noteq> None \<Longrightarrow> cx_worker c' \<noteq> None"
proof -
  have "cx_restored c' = cx_restored c \<and> (r = Inr u \<longrightarrow> cx_worker c' \<noteq> None) \<and>
    (cx_worker c \<noteq> None \<longrightarrow> cx_worker c' \<noteq> None)"
  proof (cases "cx_actor c")
    case None
    with assms show ?thesis by (auto simp: claim_execute_def)
  next
    case (Some a)
    obtain r1 c1 s1 where fl: "flip_resuming oth a (c, s) = (r1, c1, s1)"
      by (cases "flip_resuming oth a (c, s)") auto
    note c1 = flip_resuming_ctx [OF fl]
    show ?thesis
    proof (cases r1)
      case (Inl e)
      with assms Some fl c1 show ?thesis by (auto simp: claim_execute_def)
    next
      case (Inr a1)
      obtain r2 s2 where cl: "claim_loop oth (constraints_for t a) a1 max_claim_retries s1 = (r2, s2)"
        by (cases "claim_loop oth (constraints_for t a) a1 max_claim_retries s1")
      with assms Some fl c1 Inr show ?thesis
        by (cases r2) (auto simp: claim_execute_def Let_def lift_sys_def)
    qed
  qed
  then show "cx_restored c' = cx_restored c" and "r = Inr u \<Longrightarrow> cx_worker c' \<noteq> None"
    and "cx_worker c \<noteq> None \<Longrightarrow> cx_worker c' \<noteq> None" by auto
qed

lemma cold_boot_ctx: "cold_boot oth t a w (c, s) = (r, c', s') \<Longrightarrow> c' = c\<lparr>cx_restored := True\<rparr>"
  by (auto simp: cold_boot_def Let_def lift_sys_def split: if_splits)

lemma restore_execute_ctx:
  assumes "restore_execute oth t (c, s) = (r, c', s')"
  shows "cx_worker c' = cx_worker c" and "r = Inr u \<Longrightarrow> cx_restored c'"
    and "cx_restored c \<Longrightarrow> cx_restored c'"
proof -
  have "(c' = c \<or> c' = c\<lparr>cx_restored := True\<rparr>) \<and> (r = Inr u \<longrightarrow> c' = c\<lparr>cx_restored := True\<rparr>)"
  proof (cases "cx_actor c"; cases "cx_worker c")
    fix a w assume aw: "cx_actor c = Some a" "cx_worker c = Some w"
    let ?own = "do_restore oth a w (the (a_latest_snapshot_ref a)) s"
    let ?gold = "do_restore oth a w (the (dget (sy_golden s) (t_template_id t))) s"
    consider (own) r1 s1 where "truthy (a_latest_snapshot_ref a)" "?own = (r1, s1)"
      | (gold) r1 s1 where "\<not> truthy (a_latest_snapshot_ref a)"
          "truthy (dget (sy_golden s) (t_template_id t))" "?gold = (r1, s1)"
      | (cold) "\<not> truthy (a_latest_snapshot_ref a)" "\<not> truthy (dget (sy_golden s) (t_template_id t))"
      by (cases ?own; cases ?gold) blast
    then show ?thesis
    proof cases
      case own
      with assms aw show ?thesis by (cases r1) (auto simp: restore_execute_def lift_sys_def)
    next
      case gold
      show ?thesis
      proof (cases "r1 = Inl CheckpointError")
        case True
        with assms aw gold have "cold_boot oth t a w (c, s1) = (r, c', s')"
          by (simp add: restore_execute_def)
        from cold_boot_ctx [OF this] show ?thesis by simp
      next
        case False
        with assms aw gold show ?thesis by (cases r1) (auto simp: restore_execute_def)
      qed
    next
      case cold
      with assms aw have "cold_boot oth t a w (c, s) = (r, c', s')" by (simp add: restore_execute_def)
      from cold_boot_ctx [OF this] show ?thesis by simp
    qed
  qed (use assms in \<open>auto simp: restore_execute_def\<close>)
  then show "cx_worker c' = cx_worker c" and "r = Inr u \<Longrightarrow> cx_restored c'"
    and "cx_restored c \<Longrightarrow> cx_restored c'" by auto
qed

definition step_done :: "wf_state wf_step \<Rightarrow> wf_state \<Rightarrow> bool" where
  "step_done st x \<longleftrightarrow>
     (if step_name st = ''claim-worker'' then cx_worker (fst x) \<noteq> None else cx_restored (fst x))"

lemma workflow_step_claim:
  "workflow_step (claim_step oth t) x = (if cx_worker (fst x) \<noteq> None then (Inr (), x) else claim_execute oth t x)"
  by (simp add: workflow_step_def claim_step_def claim_complete_def default_pre_check_def)

lemma workflow_step_restore:
  "workflow_step (restore_step oth t) x = (if cx_restored (fst x) then (Inr (), x) else restore_execute oth t x)"
  by (simp add: workflow_step_def restore_step_def restore_complete_def default_pre_check_def)

interpretation resume_core: idempotent_steps "[claim_step oth t, restore_step oth t]" step_done
  for oth t
proof (unfold_locales, goal_cases)
  case (1 st x)
  then show ?case
    by (auto simp: step_done_def claim_step_def restore_step_def claim_complete_def restore_complete_def)
next
  case (2 st x u x1 u' x2)
  obtain c1 s1 c2 s2 where x12: "x1 = (c1, s1)" "x2 = (c2, s2)" by (cases x1; cases x2) auto
  from 2(1) consider "st = claim_step oth t" | "st = restore_step oth t" by auto
  then show ?case
  proof cases
    case 1
    with 2(3) x12 have "claim_execute oth t (c1, s1) = (Inr u', c2, s2)" by (simp add: claim_step_def)
    from claim_execute_ctx(2) [OF this refl] 1 x12 show ?thesis
      by (simp add: step_done_def claim_step_def)
  next
    case two: 2
    with 2(3) x12 have "restore_execute oth t (c1, s1) = (Inr u', c2, s2)" by (simp add: restore_step_def)
    from restore_execute_ctx(2) [OF this refl] two x12 show ?thesis
      by (simp add: step_done_def restore_step_def)
  qed
next
  case (3 st st' x)
  obtain c s where x: "x = (c, s)" by (cases x)
  obtain r1 c1 s1 where ce: "claim_execute oth t (c, s) = (r1, c1, s1)"
    by (cases "claim_execute oth t (c, s)") auto
  obtain r2 c2 s2 where re: "restore_execute oth t (c, s) = (r2, c2, s2)"
    by (cases "restore_execute oth t (c, s)") auto
  from 3 x ce re show ?case
    using claim_execute_ctx(1,3) [OF ce] restore_execute_ctx(1,3) [OF re]
    by (auto simp: step_done_def workflow_step_claim workflow_step_restore)
qed


section \<open>Properties\<close>

text \<open>A worker hosting sandbox 7, with actor \<open>a\<close> running on it or suspended.\<close>

definition demo_asg :: worker_assignment where
  "demo_asg = \<lparr>wa_actor_id = ''a'', wa_worker_id = ''w-1'', wa_sandbox_class = VFS, wa_node = None,
     wa_address = None, wa_activated_at = 1\<rparr>"

definition demo_hosted :: "actor_status \<Rightarrow> worker_assignment option \<Rightarrow> string option \<Rightarrow> actor" where
  "demo_hosted st asg ref =
     \<lparr>a_actor_id = ''a'', a_namespace = ''ns'', a_template_id = ''t'', a_status = st, a_version = 1,
      a_worker_assignment = asg, a_latest_snapshot_ref = ref, a_worker_selector = [],
      a_created_at = 1, a_updated_at = 1\<rparr>"

definition demo_host_worker :: "worker_assignment option \<Rightarrow> worker" where
  "demo_host_worker asg =
     \<lparr>w_worker_id = ''w-1'', w_state = ACTIVE, w_sandbox_class = VFS, w_version = 3,
      w_assignment = asg, w_labels = [], w_node = None, w_sandbox = Some 7\<rparr>"

definition demo_wp :: "worker_assignment option \<Rightarrow> worker_pool" where
  "demo_wp asg = worker_pool_init [(''w-1'', demo_host_worker asg)]
     ((projr (pool_init 2 0 60 10 30 False ''fifo'' False 0))\<lparr>p_in_use := {7}\<rparr>) 4 60 10 [] None
     \<lparr>pe_factory = (\<lambda>n. Inr (100 + n)), pe_factory_calls = 0, pe_probe = (\<lambda>n. Inr True), pe_probe_calls = 0\<rparr>
     (\<lambda>sb. \<lparr>sb_kind = Some ''vfs'', sb_is_alive = Some True\<rparr>) (\<lambda>n. n)"

definition demo_template :: actor_template where
  "demo_template = \<lparr>t_template_id = ''t'', t_sandbox_class = VFS, t_backend_kind = ''vfs'', t_provision_config = [],
     t_skill_paths = [], t_default_mcps = [], t_snapshot_scope_on_suspend = DATA, t_snapshot_scope_on_pause = DATA,
     t_version = 1\<rparr>"

definition demo_tree_store :: "host snapshot_store" where
  "demo_tree_store =
     \<lparr>ss_put = (\<lambda>a tag b c tpl ref h. (Inl NotImplementedError, h)), ss_get = (\<lambda>ref h. (Inl KeyError, h)),
      ss_delete = (\<lambda>ref h. (Inl KeyError, h)),
      ss_put_tree = (\<lambda>a tag src tpl h. (Inr \<lparr>sm_snapshot_ref = src @ '':'' @ a, sm_actor_id = a, sm_template_id = tpl,
         sm_tag = tag, sm_size_bytes = 0, sm_created_at = 1, sm_compression = ''none'', sm_checksum = None\<rparr>, h)),
      ss_restore_tree = (\<lambda>ref dir h. (Inl KeyError, h))\<rparr>"

text \<open>\<open>wd\<close> is the sandbox's working directory, \<open>ref\<close> the actor's last snapshot.\<close>

definition demo_sys :: "string option \<Rightarrow> string option \<Rightarrow> actor_status \<Rightarrow> worker_assignment option \<Rightarrow> sys" where
  "demo_sys wd ref st asg =
     \<lparr>sy_actors = [((''ns'', ''a''), demo_hosted st asg ref)], sy_workers = demo_wp asg,
      sy_router = (case asg of None \<Rightarrow> [] | Some x \<Rightarrow> [(''ns/a'', x)]),
      sy_templates = [(''t'', demo_template)], sy_golden = [], sy_store = demo_tree_store,
      sy_objs = (\<lambda>sb. \<lparr>sbh_host_workdir = wd, sbh_getcwd = None, sbh_snapshot = (\<lambda>t h. (Inl NotImplementedError, h))\<rparr>),
      sy_log = [], sy_host = demo_host [([], DirE), ([''ws''], DirE)], sy_awaits = 0\<rparr>"

lemma demo_wp_inv: "wp_inv (demo_wp asg)"
  by (auto simp: wp_inv_def wp_ok_def demo_wp_def worker_pool_init_def worker_store_ok_def dict_ok_def demo_host_worker_def
    pool_ok_def pool_init_def parse_strategy_def count_defs hosts_ok_def hosts_def warm_ok_def factory_ok_def pool_known_def)

lemma demo_sys_ok: "orch_ok (demo_sys wd ref RUNNING (Some demo_asg))" "orch_ok (demo_sys wd ref SUSPENDED None)"
  unfolding orch_ok_def orch_inv_def using demo_wp_inv
  by (auto simp: demo_sys_def actor_store_ok_def dict_ok_def demo_hosted_def actor_key_of_def actor_hosted_def
    holds_worker_def demo_asg_def demo_wp_def worker_pool_init_def demo_host_worker_def assigned_to_def plain_ref_def
    actor_ref_of_def held_worker_def routes_ok_def router_resolve_def actor_ref_str_def split: if_splits)

lemma demo_sys_fields:
  "dget (sy_actors (demo_sys wd ref st asg)) (''ns'', ''a'') = Some (demo_hosted st asg ref)"
  "dget (sy_templates (demo_sys wd ref st asg)) ''t'' = Some demo_template"
  "a_status (demo_hosted st asg ref) = st" "a_template_id (demo_hosted st asg ref) = ''t''"
  "a_worker_assignment (demo_hosted st asg ref) = asg" "sy_workers (demo_sys wd ref st asg) = demo_wp asg"
  "sy_router (demo_sys wd ref RUNNING (Some x)) = [(''ns/a'', x)]"
  by (simp_all add: demo_sys_def demo_hosted_def demo_template_def)

text \<open>
  C3: Whatever operations are run on the orchestrator one after another, actors being created only
  in namespaces without a slash, with the sweeper running and clocks, files and sandboxes changing
  between them: no two actors ever hold the same worker, and a running actor is routed to a
  registered worker that is assigned to it. Other tasks running inside an operation, between its
  awaits, are outside this statement.
\<close>

theorem orchestrator_exclusive:
  assumes "orch_ok s0" and "orch_reach s0 s"
  shows "(\<forall>k k' wid. held_worker (sy_actors s) k \<noteq> Some wid \<or> held_worker (sy_actors s) k' \<noteq> Some wid \<or> k = k') \<and>
    (\<forall>k a. dget (sy_actors s) k \<noteq> Some a \<or> a_status a \<noteq> RUNNING \<or>
       (\<exists>asg w. a_worker_assignment a = Some asg \<and> router_resolve (actor_ref_of a) (sy_router s) = Some asg \<and>
          dget (wp_store (sy_workers s)) (wa_worker_id asg) = Some w \<and> assigned_to w (a_actor_id a)))"
proof -
  have ok: "orch_ok s" by (rule orch_reach_ok [OF assms(2,1)])
  then have inv: "orch_inv (sy_actors s) (sy_workers s) (sy_router s)" by (simp add: orch_ok_def)
  have "\<exists>asg w. a_worker_assignment a = Some asg \<and> router_resolve (actor_ref_of a) (sy_router s) = Some asg \<and>
      dget (wp_store (sy_workers s)) (wa_worker_id asg) = Some w \<and> assigned_to w (a_actor_id a)"
    if "dget (sy_actors s) k = Some a" "a_status a = RUNNING" for k a
    using running_worker [OF ok that] orch_inv_route(2) [OF inv that] by auto
  moreover have "k = k'" if "held_worker (sy_actors s) k = Some wid" "held_worker (sy_actors s) k' = Some wid" for k k' wid
    by (rule orch_inv_held [OF inv that])
  ultimately show ?thesis by blast
qed

theorem orchestrator_exclusive_witness:
  "\<exists>w. dget (wp_store (sy_workers (snd (mark_crashed quiet ''b'' ''ns'' (demo_sys None None RUNNING (Some demo_asg)))))) ''w-1'' = Some w \<and>
     assigned_to w ''a''"
proof -
  let ?start = "demo_sys None None RUNNING (Some demo_asg)"
  let ?s = "snd (mark_crashed quiet ''b'' ''ns'' ?start)"
  have "orch_step ?start ?s" by (rule orch_step.crash)
  then have "orch_reach ?start ?s" by (rule orch_reach.step [OF orch_reach.start])
  from conjunct2 [OF orchestrator_exclusive [OF demo_sys_ok(1) this]]
  have "dget (sy_actors ?s) (''ns'', ''a'') \<noteq> Some (demo_hosted RUNNING (Some demo_asg) None) \<or>
     (\<exists>asg w. Some demo_asg = Some asg \<and> dget (wp_store (sy_workers ?s)) (wa_worker_id asg) = Some w \<and> assigned_to w ''a'')"
    unfolding demo_sys_fields by (fastforce simp: demo_hosted_def)
  moreover have "dget (sy_actors ?start) (''ns'', ''b'') = None" by (simp add: demo_sys_def)
  then have "sy_actors ?s = sy_actors ?start" by (simp add: mark_crashed_def get_quiet)
  ultimately show ?thesis by (simp add: demo_sys_fields demo_asg_def)
qed

text \<open>
  C25: A resume that returns an assignment leaves the actor running on it: its record says so, its
  route leads there, the worker is registered and assigned to it, and no other actor has changed.
\<close>

theorem resume_makes_running:
  assumes ok: "orch_ok s" and run: "resume_actor quiet aid ns s = (Inr asg, s')"
  shows "\<exists>a w. dget (sy_actors s') (ns, aid) = Some a \<and> a_status a = RUNNING \<and> a_worker_assignment a = Some asg \<and>
    router_resolve (actor_ref_of a) (sy_router s') = Some asg \<and>
    dget (wp_store (sy_workers s')) (wa_worker_id asg) = Some w \<and> assigned_to w aid \<and>
    (\<forall>k. k = (ns, aid) \<or> dget (sy_actors s') k = dget (sy_actors s) k)"
proof -
  have ok0: "orch_ok (tick s)" using ok by (simp add: orch_ok_def)
  have ok': "orch_ok s'" using resume_actor_ok [OF ok, of aid ns] run by simp
  have impl: "resume_actor_impl quiet aid ns (tick s) = (Inr asg, s')"
    using run by (auto simp: resume_actor_def get_quiet split: option.splits)
  have "\<exists>a. dget (sy_actors s') (ns, aid) = Some a \<and> a_status a = RUNNING \<and> a_worker_assignment a = Some asg \<and>
    (\<forall>k. k = (ns, aid) \<or> dget (sy_actors s') k = dget (sy_actors s) k)"
  proof (cases "\<exists>a t. dget (sy_actors s) (ns, aid) = Some a \<and> resumable a \<and>
      dget (sy_templates s) (a_template_id a) = Some t")
    case False
    then have "\<not> resumable a \<or> dget (sy_templates (tick s)) (a_template_id a) = None"
      if "dget (sy_actors (tick s)) (ns, aid) = Some a" for a using that by auto
    note R = resume_refused [OF this ok0 impl]
    then have "sy_actors s' = sy_actors s" by (simp add: same_sys_def updated_def)
    with R show ?thesis by (auto split: option.splits if_splits)
  next
    case True
    then obtain a t where a: "dget (sy_actors (tick s)) (ns, aid) = Some a" "resumable a"
      "dget (sy_templates (tick s)) (a_template_id a) = Some t" by auto
    obtain ra wp where acq: "acquire_worker (constraints_for t a) (sy_workers (tick s)) = (ra, wp)"
      by (cases "acquire_worker (constraints_for t a) (sy_workers (tick s))")
    note Q = resume_quiet [OF ok0 a refl acq impl]
    then obtain w where w: "ra = Inr w" by (cases ra) auto
    let ?a1 = "stamp (h_time (sy_host (tick s))) (a_version a + 1) (with_status a RESUMING)"
    from Q [unfolded w sum.case] obtain rr :: "unit result" and s1 w' wp1 where C: "case rr of
             Inl e \<Rightarrow> Inr asg = Inl e \<and> s' = s1
           | Inr _ \<Rightarrow> (let asg' = make_assignment ?a1 w' (h_time (sy_host s1)) in
               Inr asg = (Inr asg' :: worker_assignment result) \<and>
               updated s1 s' (dput (ns, aid) (stamp (h_time (sy_host s1)) (a_version a + 2) (running_actor ?a1 asg'))
                   (dput (ns, aid) ?a1 (sy_actors (tick s))))
                 wp1 (router_bind (actor_ref_of a) asg' (sy_router (tick s))) (sy_host s1))"
      by (elim exE conjE) (rule that, assumption)
    show ?thesis
    proof (cases rr)
      case (Inr u)
      from C [unfolded Inr sum.case Let_def] obtain a2 where
        "sy_actors s' = dput (ns, aid) a2 (dput (ns, aid) ?a1 (sy_actors s))" "a_status a2 = RUNNING"
        "a_worker_assignment a2 = Some asg" by (auto simp: updated_def)
      then show ?thesis by (simp add: dict_simps)
    qed (use C in simp)
  qed
  then obtain a where a: "dget (sy_actors s') (ns, aid) = Some a" "a_status a = RUNNING"
    "a_worker_assignment a = Some asg" "\<forall>k. k = (ns, aid) \<or> dget (sy_actors s') k = dget (sy_actors s) k" by blast
  have inv: "orch_inv (sy_actors s') (sy_workers s') (sy_router s')" using ok' by (simp add: orch_ok_def)
  have "a_actor_id a = aid" using orch_inv_key [OF inv a(1)] by (simp add: actor_key_of_def)
  with running_worker [OF ok' a(1,2)] orch_inv_route(2) [OF inv a(1,2)] a show ?thesis by auto
qed

lemma demo_resume: "\<exists>asg s'. resume_actor quiet ''a'' ''ns'' (demo_sys None None SUSPENDED None) = (Inr asg, s')"
proof -
  have "(case fst (resume_actor quiet ''a'' ''ns'' (demo_sys None None SUSPENDED None)) of Inl e \<Rightarrow> False | Inr asg \<Rightarrow> True)"
    by code_simp
  then show ?thesis by (cases "resume_actor quiet ''a'' ''ns'' (demo_sys None None SUSPENDED None)") (auto split: sum.splits)
qed

theorem resume_makes_running_witness:
  "\<exists>a s'. snd (resume_actor quiet ''a'' ''ns'' (demo_sys None None SUSPENDED None)) = s' \<and>
     dget (sy_actors s') (''ns'', ''a'') = Some a \<and> a_status a = RUNNING"
proof -
  obtain asg s' where run: "resume_actor quiet ''a'' ''ns'' (demo_sys None None SUSPENDED None) = (Inr asg, s')"
    using demo_resume by blast
  from resume_makes_running [OF demo_sys_ok(2) run] run show ?thesis by auto
qed

text \<open>
  A resume that cannot start changes nothing: an unknown actor, a missing template or an actor
  on its way out is refused with the exception for its case, and an actor that runs already is
  answered with the assignment it has.
\<close>

theorem resume_refusals:
  assumes "orch_ok s"
    and "dget (sy_actors s) (ns, aid) = None \<or>
      (\<exists>a. dget (sy_actors s) (ns, aid) = Some a \<and> (\<not> resumable a \<or> dget (sy_templates s) (a_template_id a) = None))"
  shows "same_sys s (snd (resume_actor quiet aid ns s)) \<and>
    (case dget (sy_actors s) (ns, aid) of
       None \<Rightarrow> fst (resume_actor quiet aid ns s) = Inl ActorNotFound
     | Some a \<Rightarrow>
         if a_status a = RUNNING
         then (\<exists>asg. a_worker_assignment a = Some asg \<and> fst (resume_actor quiet aid ns s) = Inr asg)
         else fst (resume_actor quiet aid ns s) =
           Inl (if dget (sy_templates s) (a_template_id a) = None then TemplateNotFound else ActorStateError))"
proof (cases "dget (sy_actors s) (ns, aid)")
  case None
  then show ?thesis by (simp add: resume_actor_def get_quiet)
next
  case (Some a)
  have ok0: "orch_ok (tick s)" using assms(1) by (simp add: orch_ok_def)
  obtain r s' where impl: "resume_actor_impl quiet aid ns (tick s) = (r, s')"
    by (cases "resume_actor_impl quiet aid ns (tick s)")
  have "\<not> resumable a' \<or> dget (sy_templates (tick s)) (a_template_id a') = None"
    if "dget (sy_actors (tick s)) (ns, aid) = Some a'" for a' using that assms(2) by auto
  note R = resume_refused [OF this ok0 impl]
  have "resume_actor quiet aid ns s = (r, s')" using Some impl by (simp add: resume_actor_def get_quiet)
  with R Some show ?thesis by (auto simp: same_sys_def updated_def)
qed

theorem resume_refusals_witness:
  "fst (resume_actor quiet ''b'' ''ns'' (demo_sys None None SUSPENDED None)) = Inl ActorNotFound"
proof -
  have "dget (sy_actors (demo_sys None None SUSPENDED None)) (''ns'', ''b'') = None" by (simp add: demo_sys_def)
  with resume_refusals [OF demo_sys_ok(2), of None None "''ns''" "''b''"] show ?thesis by simp
qed

text \<open>
  C39: A suspend that fails after it has started leaves the actor stuck: its record says
  \<open>SUSPENDING\<close>, it keeps worker and route, and whatever operations follow, in any number and order,
  the record stays exactly that one and resume, suspend and pause all refuse it, until the actor
  is deleted or marked as crashed. The operations run one after another, and creations are in
  namespaces without a slash.
\<close>

theorem suspend_failure_sticks:
  assumes ok: "orch_ok s" and a: "dget (sy_actors s) (ns, aid) = Some a" "a_status a = RUNNING"
    and t: "dget (sy_templates s) (a_template_id a) = Some t"
    and run: "suspend_actor quiet aid ns sc s = (Inl e, s')"
  shows "sy_workers s' = sy_workers s \<and> sy_router s' = sy_router s \<and>
    (\<exists>a'. a_status a' = SUSPENDING \<and> a_worker_assignment a' = a_worker_assignment a \<and>
       (\<forall>ops. (\<forall>op \<in> set ops. op_plain op \<and> op \<noteq> Delete_actor aid ns \<and> op \<noteq> Mark_crashed aid ns) \<longrightarrow>
          dget (sy_actors (fold run_op ops s')) (ns, aid) = Some a' \<and>
          fst (resume_actor quiet aid ns (fold run_op ops s')) = Inl ActorStateError \<and>
          (\<forall>sc'. fst (suspend_actor quiet aid ns sc' (fold run_op ops s')) = Inl ActorStateError) \<and>
          fst (pause_actor quiet aid ns (fold run_op ops s')) = Inl ActorStateError))"
proof -
  from release_held [OF ok a] obtain asg w wp' where asg: "a_worker_assignment a = Some asg"
    and w: "dget (wp_store (sy_workers s)) (wa_worker_id asg) = Some w"
    and rel: "release_worker w False (sy_workers s) = (Inr (), wp')" by blast
  let ?a1 = "stamp (h_time (sy_host s)) (a_version a + 1) (with_status a SUSPENDING)"
  let ?eff = "case sc of None \<Rightarrow> t_snapshot_scope_on_suspend t | Some x \<Rightarrow> x"
  obtain r h where cp: "checkpoint (sy_store s) (sy_objs s) ?a1 w ?eff (sy_host s) = (r, h)"
    by (cases "checkpoint (sy_store s) (sy_objs s) ?a1 w ?eff (sy_host s)")
  note S = suspend_quiet [OF ok a t asg w rel refl cp]
  then have r: "r = Inl e" using run by auto
  have U: "updated s s' (dput (ns, aid) ?a1 (sy_actors s)) (sy_workers s) (sy_router s) h"
    using S run unfolding r by auto
  have a': "dget (sy_actors s') (ns, aid) = Some ?a1" using U by (simp add: updated_def dict_simps)
  have ok': "orch_ok s'" using suspend_ok [OF ok, of aid ns sc] run by simp
  have t': "dget (sy_templates s') (a_template_id a) \<noteq> None" using U t by (simp add: updated_def)
  have st: "a_status ?a1 \<noteq> RUNNING" "\<not> resumable ?a1" by (simp_all add: resumable_def)
  have "dget (sy_actors x) (ns, aid) = Some ?a1 \<and> fst (resume_actor quiet aid ns x) = Inl ActorStateError \<and>
      (\<forall>sc'. fst (suspend_actor quiet aid ns sc' x) = Inl ActorStateError) \<and>
      fst (pause_actor quiet aid ns x) = Inl ActorStateError"
    if "\<forall>op \<in> set ops. op_plain op \<and> op \<noteq> Delete_actor aid ns \<and> op \<noteq> Mark_crashed aid ns"
      and x: "x = fold run_op ops s'" for ops x
  proof -
    have P: "orch_ok x" "dget (sy_actors x) (ns, aid) = Some ?a1" "dget (sy_templates x) (a_template_id a) \<noteq> None"
      using stuck_run [OF ok' a' st t'] that by auto
    with resume_refusals [OF P(1), of ns aid] st have "fst (resume_actor quiet aid ns x) = Inl ActorStateError" by auto
    with P(2) show ?thesis by (simp add: suspend_actor_def pause_actor_def get_quiet)
  qed
  then have "\<forall>ops. (\<forall>op \<in> set ops. op_plain op \<and> op \<noteq> Delete_actor aid ns \<and> op \<noteq> Mark_crashed aid ns) \<longrightarrow>
      dget (sy_actors (fold run_op ops s')) (ns, aid) = Some ?a1 \<and>
      fst (resume_actor quiet aid ns (fold run_op ops s')) = Inl ActorStateError \<and>
      (\<forall>sc'. fst (suspend_actor quiet aid ns sc' (fold run_op ops s')) = Inl ActorStateError) \<and>
      fst (pause_actor quiet aid ns (fold run_op ops s')) = Inl ActorStateError" by blast
  moreover have "a_status ?a1 = SUSPENDING" "a_worker_assignment ?a1 = a_worker_assignment a" by simp_all
  moreover have "sy_workers s' = sy_workers s" "sy_router s' = sy_router s" using U by (simp_all add: updated_def)
  ultimately show ?thesis by (intro conjI exI [of _ ?a1])
qed

theorem suspend_failure_sticks_witness:
  "fst (resume_actor quiet ''a'' ''ns''
     (fold run_op [Resume_actor ''a'' ''ns'', Pool_sweep, Create_actor ''b'' ''t'' ''ns'' []]
       (snd (suspend_actor quiet ''a'' ''ns'' None (demo_sys None None RUNNING (Some demo_asg)))))) = Inl ActorStateError"
proof -
  let ?s = "demo_sys None None RUNNING (Some demo_asg)"
  let ?ops = "[Resume_actor ''a'' ''ns'', Pool_sweep, Create_actor ''b'' ''t'' ''ns'' []]"
  have "(case fst (suspend_actor quiet ''a'' ''ns'' None ?s) of Inl e \<Rightarrow> True | Inr ref \<Rightarrow> False)" by code_simp
  then obtain e s' where run: "suspend_actor quiet ''a'' ''ns'' None ?s = (Inl e, s')"
    by (cases "suspend_actor quiet ''a'' ''ns'' None ?s") (auto split: sum.splits)
  have "dget (sy_templates ?s) (a_template_id (demo_hosted RUNNING (Some demo_asg) None)) = Some demo_template"
    by (simp add: demo_sys_fields)
  from suspend_failure_sticks [OF demo_sys_ok(1) demo_sys_fields(1,3) this run] obtain a' where
    "\<forall>ops. (\<forall>op \<in> set ops. op_plain op \<and> op \<noteq> Delete_actor ''a'' ''ns'' \<and> op \<noteq> Mark_crashed ''a'' ''ns'') \<longrightarrow>
       dget (sy_actors (fold run_op ops s')) (''ns'', ''a'') = Some a' \<and>
       fst (resume_actor quiet ''a'' ''ns'' (fold run_op ops s')) = Inl ActorStateError" by blast
  moreover have "\<forall>op \<in> set ?ops. op_plain op \<and> op \<noteq> Delete_actor ''a'' ''ns'' \<and> op \<noteq> Mark_crashed ''a'' ''ns''" by simp
  ultimately have "fst (resume_actor quiet ''a'' ''ns'' (fold run_op ?ops s')) = Inl ActorStateError" by blast
  with run show ?thesis by simp
qed

text \<open>
  Marking a running actor as crashed leaks its worker: the worker stays registered and
  assigned to the actor, though no actor holds it any more, so it is never idle again and the
  sweeper never retires it.
\<close>

theorem crash_leaks_worker:
  assumes ok: "orch_ok s" and a: "dget (sy_actors s) (ns, aid) = Some a" "a_status a = RUNNING"
    and run: "mark_crashed quiet aid ns s = (r, s')"
  shows "\<exists>asg w. a_worker_assignment a = Some asg \<and> dget (wp_store (sy_workers s')) (wa_worker_id asg) = Some w \<and>
    assigned_to w aid \<and> (\<forall>k. held_worker (sy_actors s') k \<noteq> Some (wa_worker_id asg)) \<and>
    (\<forall>c. w \<notin> set (list_idle c (wp_store (sy_workers s')))) \<and>
    dget (wp_store (wp_sweep_once (sy_workers s'))) (wa_worker_id asg) = Some w"
proof -
  from running_worker [OF ok a] obtain asg w where asg: "a_worker_assignment a = Some asg"
    and w: "dget (wp_store (sy_workers s)) (wa_worker_id asg) = Some w" "assigned_to w (a_actor_id a)" by blast
  have inv: "orch_inv (sy_actors s) (sy_workers s) (sy_router s)" using ok by (simp add: orch_ok_def)
  have aid: "a_actor_id a = aid" using orch_inv_key [OF inv a(1)] by (simp add: actor_key_of_def)
  have held: "held_worker (sy_actors s) (ns, aid) = Some (wa_worker_id asg)" using a asg by (simp add: held_worker_def)
  have U: "sy_actors s' = dput (ns, aid) (stamp (h_time (sy_host s)) (a_version a + 1)
        ((with_status a CRASHED)\<lparr>a_worker_assignment := None\<rparr>)) (sy_actors s)" "sy_workers s' = sy_workers s"
    using crash_quiet [OF ok a(1)] run by (auto simp: updated_def)
  have "held_worker (sy_actors s') k \<noteq> Some (wa_worker_id asg)" for k
    using orch_inv_held [OF inv held, of k] by (auto simp: U held_worker_dput)
  moreover have "w \<notin> set (list_idle c (wp_store (sy_workers s')))" for c
    using w(2) by (auto simp: list_idle_def is_idle_def assigned_to_def split: option.splits)
  moreover have "dget (wp_store (wp_sweep_once (sy_workers s'))) (wa_worker_id asg) = Some w"
    using sweep_keeps_held [OF inv held] w(1) U(2) by simp
  ultimately show ?thesis using asg w aid U(2) by auto
qed

theorem crash_leaks_worker_witness:
  "\<exists>w. dget (wp_store (sy_workers (snd (mark_crashed quiet ''a'' ''ns'' (demo_sys None None RUNNING (Some demo_asg)))))) ''w-1'' = Some w \<and>
     assigned_to w ''a''"
proof -
  let ?s = "demo_sys None None RUNNING (Some demo_asg)"
  obtain r s' where run: "mark_crashed quiet ''a'' ''ns'' ?s = (r, s')" by (cases "mark_crashed quiet ''a'' ''ns'' ?s")
  from crash_leaks_worker [OF demo_sys_ok(1) demo_sys_fields(1,3) run] run show ?thesis
    by (auto simp: demo_sys_fields demo_asg_def)
qed

text \<open>
  A resume that fails after it has claimed a worker leaks it: the actor stays
  \<open>RESUMING\<close> without a worker, while the worker stays registered and assigned to the actor, held by
  nobody; the next resume acquires another one.
\<close>

theorem resume_failure_leaks:
  assumes ok: "orch_ok s" and a: "dget (sy_actors s) (ns, aid) = Some a" "resumable a"
    and t: "dget (sy_templates s) (a_template_id a) = Some t"
    and acq: "acquire_worker (constraints_for t a) (sy_workers s) = (Inr w, wp)"
    and run: "resume_actor quiet aid ns s = (Inl e, s')"
  shows "(\<exists>a'. dget (sy_actors s') (ns, aid) = Some a' \<and> a_status a' = RESUMING \<and> a_worker_assignment a' = None) \<and>
    (\<exists>w'. dget (wp_store (sy_workers s')) (w_worker_id w) = Some w' \<and> assigned_to w' aid) \<and>
    (\<forall>k. held_worker (sy_actors s') k \<noteq> Some (w_worker_id w)) \<and>
    (\<forall>c. w_worker_id w \<notin> w_worker_id ` set (list_idle c (wp_store (sy_workers s'))))"
proof -
  have ok0: "orch_ok (tick s)" using ok by (simp add: orch_ok_def)
  have inv: "orch_inv (sy_actors s) (sy_workers s) (sy_router s)" using ok by (simp add: orch_ok_def)
  have impl: "resume_actor_impl quiet aid ns (tick s) = (Inl e, s')"
    using run a by (simp add: resume_actor_def get_quiet)
  let ?a1 = "stamp (h_time (sy_host s)) (a_version a + 1) (with_status a RESUMING)"
  let ?w' = "w\<lparr>w_assignment := Some (make_assignment ?a1 w (h_time (sy_host s))), w_version := w_version w + 1\<rparr>"
  have t0: "dget (sy_actors (tick s)) (ns, aid) = Some a" "dget (sy_templates (tick s)) (a_template_id a) = Some t"
    "acquire_worker (constraints_for t a) (sy_workers (tick s)) = (Inr w, wp)" using a t acq by simp_all
  note Q = resume_quiet [OF ok0 t0(1) a(2) t0(2) refl t0(3) impl, unfolded sum.case tick_fields]
  then obtain rr :: "unit result" and c c1 s0 s1 w' wp1 where
    "w' = ?w'" "wp1 = wp\<lparr>wp_store := dput (w_worker_id w) w' (wp_store wp)\<rparr>"
    and upd: "updated (tick s) s0 (dput (ns, aid) ?a1 (sy_actors s)) wp1 (sy_router s) (sy_host s)"
    and re: "restore_execute quiet t (c, s0) = (rr, c1, s1)"
    and out: "case rr of Inl e' \<Rightarrow> Inl e = (Inl e' :: worker_assignment result) \<and> s' = s1 | Inr _ \<Rightarrow>
        (let asg = make_assignment ?a1 w' (h_time (sy_host s1)) in
         (Inl e :: worker_assignment result) = Inr asg \<and>
         updated s1 s' (dput (ns, aid) (stamp (h_time (sy_host s1)) (a_version a + 2) (running_actor ?a1 asg))
             (dput (ns, aid) ?a1 (sy_actors s)))
           wp1 (router_bind (actor_ref_of a) asg (sy_router s)) (sy_host s1))"
    by (elim exE conjE) (rule that, assumption+)
  then have w': "w' = ?w'" "wp1 = wp\<lparr>wp_store := dput (w_worker_id w) w' (wp_store wp)\<rparr>" "s' = s1"
    by (auto simp: Let_def split: sum.splits)
  have same: "restore_same s0 s1" using restore_execute_frame [OF re] by blast
  have U: "sy_actors s' = dput (ns, aid) ?a1 (sy_actors s)"
    "wp_store (sy_workers s') = dput (w_worker_id w) ?w' (wp_store wp)"
    using upd same w' by (simp_all add: updated_def restore_same_def)
  note AW = acquire_worker_inv [OF orch_inv_parts(2) [OF inv] acq]
  have idle: "w_assignment w = None" using AW(3) [of w] by (simp add: is_idle_def)
  have free: "held_worker (sy_actors s) k \<noteq> Some (w_worker_id w)" for k
    using held_recorded [OF inv, of k "w_worker_id w"] AW(4) [of w] idle by auto
  have aid: "a_actor_id a = aid" using orch_inv_key [OF inv a(1)] by (simp add: actor_key_of_def)
  have none: "a_worker_assignment a = None"
    using orch_inv_actor(1) [OF inv a(1)] a(2) by (auto simp: actor_hosted_def resumable_def holds_worker_def)
  have "w_worker_id w \<notin> w_worker_id ` set (list_idle c (wp_store (sy_workers s')))" for c
  proof
    assume "w_worker_id w \<in> w_worker_id ` set (list_idle c (wp_store (sy_workers s')))"
    then obtain k x where x: "(k, x) \<in> set (wp_store (sy_workers s'))" "is_idle x" "w_worker_id x = w_worker_id w"
      by (auto simp: list_idle_def)
    have ok': "orch_ok s'" using resume_actor_ok [OF ok, of aid ns] run by simp
    then have "worker_store_ok (wp_store (sy_workers s'))"
      using orch_inv_parts(2) by (auto simp: orch_ok_def wp_inv_def wp_ok_def)
    then have "dget (wp_store (sy_workers s')) (w_worker_id w) = Some x"
      using x unfolding worker_store_ok_def by (fastforce simp: dict_items [symmetric])
    with x(2) show False by (auto simp: U dict_simps is_idle_def)
  qed
  with free none aid U show ?thesis
    by (auto simp: dict_simps held_worker_dput assigned_to_def make_assignment_def)
qed

theorem resume_failure_leaks_witness:
  "\<exists>s'. resume_actor quiet ''a'' ''ns'' (demo_sys None (Some ''r'') SUSPENDED None) = (Inl CheckpointError, s') \<and>
     (\<exists>a. dget (sy_actors s') (''ns'', ''a'') = Some a \<and> a_status a = RESUMING \<and> a_worker_assignment a = None)"
proof -
  let ?s = "demo_sys None (Some ''r'') SUSPENDED None" and ?a = "demo_hosted SUSPENDED None (Some ''r'')"
  have "fst (resume_actor quiet ''a'' ''ns'' ?s) = Inl CheckpointError" by code_simp
  then obtain s' where run: "resume_actor quiet ''a'' ''ns'' ?s = (Inl CheckpointError, s')" by (metis fst_conv surj_pair)
  have "list_idle (constraints_for demo_template ?a) (wp_store (demo_wp None)) \<noteq> []" by code_simp
  from acquire_warm [OF this] obtain w wp where
    acq: "acquire_worker (constraints_for demo_template ?a) (sy_workers ?s) = (Inr w, wp)"
    by (auto simp: demo_sys_fields)
  have "resumable ?a" "dget (sy_templates ?s) (a_template_id ?a) = Some demo_template"
    by (simp_all add: resumable_def demo_sys_fields)
  from resume_failure_leaks [OF demo_sys_ok(2) demo_sys_fields(1) this acq run] run show ?thesis by blast
qed

text \<open>
  A lost race for a worker is not retried: when another task has written the worker's record
  between acquire and claim, giving the worker back fails on the same stale version, and that
  \<open>VersionConflict\<close> ends the whole loop, however many attempts it had left.
\<close>

theorem claim_conflict_escapes:
  assumes acq: "on_workers oth (acquire_worker c) s = (Inr w, s1)"
    and w2: "dget (wp_store (sy_workers (await oth s1))) (w_worker_id w) = Some w2" "w_version w2 \<noteq> w_version w"
    and w3: "dget (wp_store (sy_workers (await oth (await oth s1)))) (w_worker_id w) = Some w3" "w_version w3 \<noteq> w_version w"
  shows "fst (claim_loop oth c a (Suc n) s) = Inl (VersionConflict (w_version w) (w_version w3))"
proof -
  let ?asg = "make_assignment a w (h_time (sy_host s1))"
  have claim: "on_workers oth (claim_for_actor w ?asg) s1 = (Inl (VersionConflict (w_version w) (w_version w2)), await oth s1)"
    using w2 by (simp add: on_workers_def claim_for_actor_def worker_claim_def Let_def)
  have rel: "fst (on_workers oth (release_worker w True) (await oth s1)) = Inl (VersionConflict (w_version w) (w_version w3))"
    using w3 by (simp add: on_workers_def release_worker_def worker_release_def Let_def)
  then obtain s3 where "on_workers oth (release_worker w True) (await oth s1) = (Inl (VersionConflict (w_version w) (w_version w3)), s3)"
    by (metis fst_conv surj_pair)
  with acq claim show ?thesis by (simp add: Let_def)
qed

definition demo_thief :: others where
  "demo_thief n s = (if n = 1 then s\<lparr>sy_workers := (sy_workers s)\<lparr>wp_store :=
     [(''w-1'', (demo_host_worker (Some demo_asg))\<lparr>w_version := 4\<rparr>)]\<rparr>\<rparr> else s)"

theorem claim_conflict_escapes_witness:
  "fst (claim_loop demo_thief (constraints_for demo_template (demo_hosted SUSPENDED None None)) (demo_hosted SUSPENDED None None)
     max_claim_retries (demo_sys None None SUSPENDED None)) = Inl (VersionConflict 3 4)"
proof -
  let ?s = "demo_sys None None SUSPENDED None" and ?a = "demo_hosted SUSPENDED None None"
  let ?c = "constraints_for demo_template ?a"
  have "list_idle ?c (wp_store (demo_wp None)) = [demo_host_worker None]" by code_simp
  with acquire_warm [of ?c "demo_wp None"] obtain wp where acq: "acquire_worker ?c (demo_wp None) = (Inr (demo_host_worker None), wp)"
    by auto
  let ?s1 = "(await demo_thief ?s)\<lparr>sy_workers := wp\<rparr>"
  have "sy_workers (await demo_thief ?s) = demo_wp None" by (simp add: await_def demo_thief_def demo_sys_def)
  then have "on_workers demo_thief (acquire_worker ?c) ?s = (Inr (demo_host_worker None), ?s1)"
    using acq by (simp add: on_workers_def)
  moreover have "wp_store (sy_workers (await demo_thief ?s1)) = [(''w-1'', (demo_host_worker (Some demo_asg))\<lparr>w_version := 4\<rparr>)]"
    "wp_store (sy_workers (await demo_thief (await demo_thief ?s1))) = [(''w-1'', (demo_host_worker (Some demo_asg))\<lparr>w_version := 4\<rparr>)]"
    by (simp_all add: await_def demo_thief_def demo_sys_def)
  ultimately have "fst (claim_loop demo_thief ?c ?a (Suc 4) ?s) = Inl (VersionConflict 3 4)"
    using claim_conflict_escapes [of demo_thief ?c ?s "demo_host_worker None" ?s1
        "(demo_host_worker (Some demo_asg))\<lparr>w_version := 4\<rparr>" "(demo_host_worker (Some demo_asg))\<lparr>w_version := 4\<rparr>" ?a 4]
    by (simp add: demo_host_worker_def)
  then show ?thesis by (simp add: max_claim_retries_def)
qed

end
