(* ===== verification/Singleflight.thy ===== *)
theory Singleflight
  imports Sandbox_Prelude
begin

text \<open>
  \<open>_orchestration/singleflight.py\<close>: concurrent calls with one key share one execution. The
  interleaving is explicit: flights are objects in a heap (a joiner keeps its flight after it
  left the table), each caller has a program counter, and a step is what one task does between
  two suspension points. The lock is never held across an \<open>await\<close>, so its sections are parts of
  steps. \<open>fn\<close> is any awaitable: it may finish with any result or exception at any time.
\<close>

section \<open>State\<close>

datatype 'a task = Created | Running | Done "'a result"

record 'a flight =
  fl_key :: string
  fl_leader :: "'a task"
  fl_started_at :: time
  fl_budget_deadline :: "time option"
  fl_joiner_count :: int
  fl_completed :: bool
  fl_result :: "'a option"
  fl_error :: "exn option"

text \<open>A caller: not yet called, awaiting as leader or as joiner, or returned.\<close>

datatype 'a caller =
    Idle
  | Leading nat
  | Joining nat "time option"
  | Returned "'a result"

record 'a sf =
  sf_default_budget :: "time option"
  sf_flights :: "(string, nat) dict"
  sf_heap :: "'a flight list"
  sf_now :: time
  sf_callers :: "nat \<Rightarrow> 'a caller"
  sf_calls :: "string list"

definition sf_init :: "time option \<Rightarrow> 'a sf" where
  "sf_init default_budget =
     \<lparr>sf_default_budget = default_budget, sf_flights = [], sf_heap = [], sf_now = 0,
      sf_callers = (\<lambda>_. Idle), sf_calls = []\<rparr>"

section \<open>What the methods do between suspension points\<close>

definition set_caller :: "nat \<Rightarrow> 'a caller \<Rightarrow> 'a sf \<Rightarrow> 'a sf" where
  "set_caller c pc s = s\<lparr>sf_callers := (sf_callers s)(c := pc)\<rparr>"

definition set_flight :: "nat \<Rightarrow> ('a flight \<Rightarrow> 'a flight) \<Rightarrow> 'a sf \<Rightarrow> 'a sf" where
  "set_flight i f s = s\<lparr>sf_heap := (sf_heap s)[i := f (sf_heap s ! i)]\<rparr>"

definition add_joiner :: "int \<Rightarrow> 'a flight \<Rightarrow> 'a flight" where
  "add_joiner n fl = fl\<lparr>fl_joiner_count := fl_joiner_count fl + n\<rparr>"

definition effective_budget :: "time option \<Rightarrow> 'a sf \<Rightarrow> time option" where
  "effective_budget budget s = (case budget of None \<Rightarrow> sf_default_budget s | Some b \<Rightarrow> Some b)"

definition new_flight :: "string \<Rightarrow> time \<Rightarrow> time option \<Rightarrow> 'a flight" where
  "new_flight key now deadline =
     \<lparr>fl_key = key, fl_leader = Created, fl_started_at = now, fl_budget_deadline = deadline,
      fl_joiner_count = 0, fl_completed = False, fl_result = None, fl_error = None\<rparr>"

text \<open>The leader branch of \<open>_run\<close>: the task is created and its flight entered into the table.\<close>

definition start_flight :: "nat \<Rightarrow> string \<Rightarrow> time \<Rightarrow> time option \<Rightarrow> 'a sf \<Rightarrow> 'a sf" where
  "start_flight c key now deadline s =
     (let i = length (sf_heap s) in
      set_caller c (Leading i)
        (s\<lparr>sf_heap := sf_heap s @ [new_flight key now deadline], sf_flights := dput key i (sf_flights s)\<rparr>))"

text \<open>
  \<open>run\<close> up to its first suspension: the call joins the flight of its key or starts one. A
  joiner reads the clock a second time (\<open>later\<close>), and if its budget is gone by then it raises
  without waiting.
\<close>

definition sf_run :: "nat \<Rightarrow> string \<Rightarrow> time option \<Rightarrow> time \<Rightarrow> 'a sf \<Rightarrow> 'a sf" where
  "sf_run c key budget later s =
     (let now = sf_now s;
          deadline = map_option (\<lambda>b. now + b) (effective_budget budget s)
      in case dget (sf_flights s) key of
        Some i \<Rightarrow>
          (let s1 = set_flight i (add_joiner 1) s in
           case deadline of
             Some d \<Rightarrow>
               if d - later \<le> 0 then set_caller c (Returned (Inl BudgetExhausted)) (set_flight i (add_joiner (- 1)) s1)
               else set_caller c (Joining i (Some d)) s1
           | None \<Rightarrow> set_caller c (Joining i None) s1)
      | None \<Rightarrow> start_flight c key now deadline s)"

text \<open>\<open>_lead\<close>: the leader's task starts \<open>fn\<close>, and stores its outcome in the flight.\<close>

definition sf_lead :: "nat \<Rightarrow> 'a sf \<Rightarrow> 'a sf" where
  "sf_lead i s =
     (set_flight i (\<lambda>fl. fl\<lparr>fl_leader := Running\<rparr>) s)\<lparr>sf_calls := sf_calls s @ [fl_key (sf_heap s ! i)]\<rparr>"

definition complete_flight :: "'a result \<Rightarrow> 'a flight \<Rightarrow> 'a flight" where
  "complete_flight r fl =
     (case r of
        Inr a \<Rightarrow> fl\<lparr>fl_leader := Done r, fl_completed := True, fl_result := Some a\<rparr>
      | Inl e \<Rightarrow> fl\<lparr>fl_leader := Done r, fl_completed := True, fl_error := Some e\<rparr>)"

text \<open>
  Cancelling the task: before it started, its body never runs; afterwards \<open>fn\<close> raises
  \<open>CancelledError\<close> (if it handles it, that is an ordinary end of \<open>fn\<close>).
\<close>

definition cancel_flight :: "'a flight \<Rightarrow> 'a flight" where
  "cancel_flight fl =
     (case fl_leader fl of
        Created \<Rightarrow> fl\<lparr>fl_leader := Done (Inl CancelledError)\<rparr>
      | Running \<Rightarrow> complete_flight (Inl CancelledError) fl
      | Done _ \<Rightarrow> fl)"

text \<open>\<open>_finalize\<close> and the leader's return.\<close>

definition sf_finalize :: "nat \<Rightarrow> nat \<Rightarrow> 'a result \<Rightarrow> 'a sf \<Rightarrow> 'a sf" where
  "sf_finalize c i r s =
     set_caller c (Returned r) (s\<lparr>sf_flights := ddel (fl_key (sf_heap s ! i)) (sf_flights s)\<rparr>)"

text \<open>
  What a joiner gets from the leader's outcome: under a budget it waits in \<open>wait_for\<close>, and a
  \<open>TimeoutError\<close> from there, the leader's own included, becomes \<open>BudgetExhausted\<close>.
\<close>

definition joined_result :: "time option \<Rightarrow> 'a result \<Rightarrow> 'a result" where
  "joined_result deadline r =
     (if deadline \<noteq> None \<and> (case r of Inl e \<Rightarrow> e = TimeoutError | Inr _ \<Rightarrow> False) then Inl BudgetExhausted else r)"

definition sf_join_return :: "nat \<Rightarrow> nat \<Rightarrow> 'a result \<Rightarrow> 'a sf \<Rightarrow> 'a sf" where
  "sf_join_return c i r s = set_caller c (Returned r) (set_flight i (add_joiner (- 1)) s)"

definition in_flight_keys :: "'a sf \<Rightarrow> string set" where
  "in_flight_keys s = set (map fst (sf_flights s))"

record flight_stats_rec =
  fs_started_at :: time
  fs_budget_deadline :: "time option"
  fs_joiner_count :: int
  fs_completed :: bool
  fs_leader_done :: bool

definition flight_stats :: "string \<Rightarrow> 'a sf \<Rightarrow> flight_stats_rec option" where
  "flight_stats key s =
     (case dget (sf_flights s) key of
        None \<Rightarrow> None
      | Some i \<Rightarrow>
          (let fl = sf_heap s ! i in
           Some \<lparr>fs_started_at = fl_started_at fl, fs_budget_deadline = fl_budget_deadline fl,
                 fs_joiner_count = fl_joiner_count fl, fs_completed = fl_completed fl,
                 fs_leader_done = (case fl_leader fl of Done _ \<Rightarrow> True | _ \<Rightarrow> False)\<rparr>))"

section \<open>Steps\<close>

text \<open>
  Cancelling a caller that awaits the leader's task itself (the leader, or a joiner without a
  budget) cancels the task; a joiner under a budget is shielded. A caller whose awaited task
  is done but that has not resumed yet can still be cancelled or time out.
\<close>

inductive sf_step :: "'a sf \<Rightarrow> 'a sf \<Rightarrow> bool" where
  call: "sf_callers s c = Idle \<Longrightarrow> sf_now s \<le> later \<Longrightarrow> sf_step s (sf_run c key budget later s)"
| lead: "i < length (sf_heap s) \<Longrightarrow> fl_leader (sf_heap s ! i) = Created \<Longrightarrow> sf_step s (sf_lead i s)"
| finish: "i < length (sf_heap s) \<Longrightarrow> fl_leader (sf_heap s ! i) = Running \<Longrightarrow>
    sf_step s (set_flight i (complete_flight r) s)"
| finalize: "sf_callers s c = Leading i \<Longrightarrow> fl_leader (sf_heap s ! i) = Done r \<Longrightarrow>
    r' \<in> {r, Inl CancelledError} \<Longrightarrow> sf_step s (sf_finalize c i r' s)"
| joined: "sf_callers s c = Joining i d \<Longrightarrow> fl_leader (sf_heap s ! i) = Done r \<Longrightarrow>
    r' \<in> {joined_result d r, Inl CancelledError} \<Longrightarrow> sf_step s (sf_join_return c i r' s)"
| timeout: "sf_callers s c = Joining i (Some d) \<Longrightarrow> d \<le> sf_now s \<Longrightarrow>
    sf_step s (sf_join_return c i (Inl BudgetExhausted) s)"
| cancel_task: "sf_callers s c = Leading i \<or> sf_callers s c = Joining i None \<Longrightarrow>
    sf_step s (set_flight i cancel_flight s)"
| cancel_joiner: "sf_callers s c = Joining i (Some d) \<Longrightarrow>
    sf_step s (sf_join_return c i (Inl CancelledError) s)"
| tick: "sf_now s \<le> t \<Longrightarrow> sf_step s (s\<lparr>sf_now := t\<rparr>)"

inductive sf_reach :: "time option \<Rightarrow> 'a sf \<Rightarrow> bool" for b where
  start: "sf_reach b (sf_init b)"
| step: "sf_reach b s \<Longrightarrow> sf_step s s' \<Longrightarrow> sf_reach b s'"

section \<open>The invariant\<close>

text \<open>
  The table and the callers agree: each entry is a flight of its key that exactly one caller
  leads, and a leader's flight is the entry of its key. A flight whose task is not done is
  in the table. The joiner count is the number of callers that wait for the flight, and a
  result a caller got is the outcome of some flight.
\<close>

definition live :: "'a flight \<Rightarrow> bool" where
  "live fl \<longleftrightarrow> (case fl_leader fl of Done _ \<Rightarrow> False | _ \<Rightarrow> True)"

definition joiners :: "nat \<Rightarrow> 'a sf \<Rightarrow> nat set" where
  "joiners i s = {c. \<exists>d. sf_callers s c = Joining i d}"

definition sf_table_ok :: "'a sf \<Rightarrow> bool" where
  "sf_table_ok s \<longleftrightarrow>
     (\<forall>k i. dget (sf_flights s) k = Some i \<longrightarrow>
        i < length (sf_heap s) \<and> fl_key (sf_heap s ! i) = k \<and> (\<exists>!c. sf_callers s c = Leading i)) \<and>
     (\<forall>c i. sf_callers s c = Leading i \<longrightarrow>
        i < length (sf_heap s) \<and> dget (sf_flights s) (fl_key (sf_heap s ! i)) = Some i)"

definition sf_live_ok :: "'a sf \<Rightarrow> bool" where
  "sf_live_ok s \<longleftrightarrow>
     (\<forall>i < length (sf_heap s). live (sf_heap s ! i) \<longrightarrow>
        dget (sf_flights s) (fl_key (sf_heap s ! i)) = Some i)"

definition sf_joiners_ok :: "'a sf \<Rightarrow> bool" where
  "sf_joiners_ok s \<longleftrightarrow>
     (\<forall>c i d. sf_callers s c = Joining i d \<longrightarrow> i < length (sf_heap s)) \<and>
     (\<forall>i < length (sf_heap s). finite (joiners i s) \<and>
        fl_joiner_count (sf_heap s ! i) = int (card (joiners i s)))"

definition sf_results_ok :: "'a sf \<Rightarrow> bool" where
  "sf_results_ok s \<longleftrightarrow>
     (\<forall>c a. sf_callers s c = Returned (Inr a) \<longrightarrow>
        (\<exists>i < length (sf_heap s). fl_leader (sf_heap s ! i) = Done (Inr a)))"

definition sf_ok :: "'a sf \<Rightarrow> bool" where
  "sf_ok s \<longleftrightarrow> sf_table_ok s \<and> sf_live_ok s \<and> sf_joiners_ok s \<and> sf_results_ok s"

lemma sf_ok_init: "sf_ok (sf_init b)"
  by (simp add: sf_ok_def sf_table_ok_def sf_live_ok_def sf_joiners_ok_def sf_results_ok_def sf_init_def joiners_def)

text \<open>A change of one flight that keeps its key, its joiners and a finished task.\<close>

definition flight_mono :: "'a flight \<Rightarrow> 'a flight \<Rightarrow> bool" where
  "flight_mono fl fl' \<longleftrightarrow> fl_key fl' = fl_key fl \<and> fl_joiner_count fl' = fl_joiner_count fl \<and>
     (\<not> live fl \<longrightarrow> fl_leader fl' = fl_leader fl)"

lemma live_Done [simp]: "fl_leader fl = Done r \<Longrightarrow> \<not> live fl"
  by (simp add: live_def)

lemma set_flight_simps [simp]:
  "sf_callers (set_flight i f s) = sf_callers s" "sf_flights (set_flight i f s) = sf_flights s"
  "length (sf_heap (set_flight i f s)) = length (sf_heap s)" "joiners j (set_flight i f s) = joiners j s"
  "sf_now (set_flight i f s) = sf_now s"
  by (simp_all add: set_flight_def joiners_def)

lemma set_flight_nth:
  "j < length (sf_heap s) \<Longrightarrow> sf_heap (set_flight i f s) ! j = (if j = i then f (sf_heap s ! i) else sf_heap s ! j)"
  by (simp add: set_flight_def nth_list_update)

lemma set_flight_ok:
  assumes ok: "sf_ok s" and mono: "flight_mono (sf_heap s ! i) (f (sf_heap s ! i))"
  shows "sf_ok (set_flight i f s)"
proof -
  have key: "fl_key (sf_heap (set_flight i f s) ! j) = fl_key (sf_heap s ! j)"
    and count: "fl_joiner_count (sf_heap (set_flight i f s) ! j) = fl_joiner_count (sf_heap s ! j)"
    and alive: "live (sf_heap (set_flight i f s) ! j) \<Longrightarrow> live (sf_heap s ! j)"
    and fin: "fl_leader (sf_heap s ! j) = Done r \<Longrightarrow> fl_leader (sf_heap (set_flight i f s) ! j) = Done r"
    if "j < length (sf_heap s)" for j r
    using mono that by (auto simp: set_flight_nth flight_mono_def live_def split: if_splits task.splits)
  have "sf_table_ok (set_flight i f s)"
    using ok by (simp add: sf_ok_def sf_table_ok_def key)
  moreover have "sf_live_ok (set_flight i f s)"
    using ok alive by (simp add: sf_ok_def sf_live_ok_def key)
  moreover have "sf_joiners_ok (set_flight i f s)"
    using ok by (simp add: sf_ok_def sf_joiners_ok_def count)
  moreover have "sf_results_ok (set_flight i f s)"
    unfolding sf_results_ok_def set_flight_simps
  proof (intro allI impI)
    fix c a assume "sf_callers s c = Returned (Inr a)"
    then obtain j where "j < length (sf_heap s)" "fl_leader (sf_heap s ! j) = Done (Inr a)"
      using ok by (auto simp: sf_ok_def sf_results_ok_def)
    then show "\<exists>j < length (sf_heap s). fl_leader (sf_heap (set_flight i f s) ! j) = Done (Inr a)"
      using fin by blast
  qed
  ultimately show ?thesis by (simp add: sf_ok_def)
qed

lemma sf_ok_fields:
  "sf_ok (s\<lparr>sf_calls := cs\<rparr>) = sf_ok s" "sf_ok (s\<lparr>sf_now := t\<rparr>) = sf_ok s"
  by (simp_all add: sf_ok_def sf_table_ok_def sf_live_ok_def sf_joiners_ok_def sf_results_ok_def joiners_def)

lemma complete_flight_mono: "fl_leader fl = Running \<Longrightarrow> flight_mono fl (complete_flight r fl)"
  by (simp add: flight_mono_def complete_flight_def live_def split: sum.split)

lemma cancel_flight_mono: "flight_mono fl (cancel_flight fl)"
  by (simp add: flight_mono_def cancel_flight_def complete_flight_def live_def split: task.split)

lemma sf_lead_ok: "sf_ok s \<Longrightarrow> fl_leader (sf_heap s ! i) = Created \<Longrightarrow> sf_ok (sf_lead i s)"
  unfolding sf_lead_def sf_ok_fields
  by (rule set_flight_ok) (simp_all add: flight_mono_def live_def)

lemma joiners_set_caller:
  "joiners j (set_caller c pc s) =
     (case pc of Joining i _ \<Rightarrow> if i = j then insert c (joiners j s) else joiners j s - {c} | _ \<Rightarrow> joiners j s - {c})"
  by (auto simp: joiners_def set_caller_def split: caller.split)

lemma set_caller_simps [simp]:
  "sf_callers (set_caller c pc s) = (sf_callers s)(c := pc)" "sf_flights (set_caller c pc s) = sf_flights s"
  "sf_heap (set_caller c pc s) = sf_heap s" "sf_now (set_caller c pc s) = sf_now s"
  by (simp_all add: set_caller_def)

text \<open>A caller that neither led before nor leads after keeps the table and its flights.\<close>

lemma table_ok_caller:
  assumes "sf_table_ok s" and "\<And>i. sf_callers s c \<noteq> Leading i" and "\<And>i. pc \<noteq> Leading i"
  shows "sf_table_ok (set_caller c pc (set_flight j (add_joiner n) s))"
proof -
  have lead: "((sf_callers s)(c := pc)) c' = Leading i \<longleftrightarrow> sf_callers s c' = Leading i" for c' i
    using assms by auto
  have key: "fl_key (sf_heap (set_flight j (add_joiner n) s) ! i) = fl_key (sf_heap s ! i)" if "i < length (sf_heap s)" for i
    using that by (simp add: set_flight_nth add_joiner_def)
  show ?thesis using assms(1) unfolding sf_table_ok_def set_caller_simps set_flight_simps lead by (simp add: key)
qed

lemma live_ok_caller: "sf_live_ok s \<Longrightarrow> sf_live_ok (set_caller c pc (set_flight j (add_joiner n) s))"
  by (simp add: sf_live_ok_def set_flight_nth add_joiner_def live_def)

lemma leader_add_joiner:
  "i < length (sf_heap s) \<Longrightarrow> fl_leader (sf_heap (set_flight j (add_joiner n) s) ! i) = fl_leader (sf_heap s ! i)"
  by (simp add: set_flight_nth add_joiner_def)

lemma results_ok_caller:
  assumes "sf_results_ok s"
    and "\<And>a. pc = Returned (Inr a) \<Longrightarrow> \<exists>i < length (sf_heap s). fl_leader (sf_heap s ! i) = Done (Inr a)"
  shows "sf_results_ok (set_caller c pc (set_flight j (add_joiner n) s))"
  using assms unfolding sf_results_ok_def by (simp cong: conj_cong add: leader_add_joiner)

lemma join_ok:
  assumes ok: "sf_ok s" and idle: "sf_callers s c = Idle" and i: "i < length (sf_heap s)"
  shows "sf_ok (set_caller c (Joining i d) (set_flight i (add_joiner 1) s))"
proof -
  have new: "c \<notin> joiners j s" for j using idle by (simp add: joiners_def)
  have "sf_joiners_ok (set_caller c (Joining i d) (set_flight i (add_joiner 1) s))"
    using ok i new by (auto simp: sf_ok_def sf_joiners_ok_def joiners_set_caller set_flight_nth add_joiner_def)
  then show ?thesis
    using ok idle by (auto simp: sf_ok_def intro!: table_ok_caller live_ok_caller results_ok_caller)
qed

lemma leave_ok:
  assumes ok: "sf_ok s" and c: "sf_callers s c = Joining i d"
    and r: "\<And>a. r = Inr a \<Longrightarrow> \<exists>i < length (sf_heap s). fl_leader (sf_heap s ! i) = Done (Inr a)"
  shows "sf_ok (sf_join_return c i r s)"
proof -
  have mem: "c \<in> joiners j s \<longleftrightarrow> j = i" for j using c by (auto simp: joiners_def)
  have less: "int (card (joiners i s)) - 1 = int (card (joiners i s) - Suc 0)" if "finite (joiners i s)"
    using that mem [of i] by (cases "card (joiners i s)") auto
  have "sf_joiners_ok (set_caller c (Returned r) (set_flight i (add_joiner (- 1)) s))"
    using ok less mem
    by (auto simp: sf_ok_def sf_joiners_ok_def joiners_set_caller set_flight_nth add_joiner_def)
  then show ?thesis
    unfolding sf_join_return_def using ok c r by (auto simp: sf_ok_def intro!: table_ok_caller live_ok_caller results_ok_caller)
qed

lemma refused_ok:
  assumes ok: "sf_ok s" and c: "sf_callers s c = Idle"
  shows "sf_ok (set_caller c (Returned (Inl e)) (set_flight i (add_joiner (- 1)) (set_flight i (add_joiner 1) s)))"
proof -
  have same: "set_flight i (add_joiner (- 1)) (set_flight i (add_joiner 1) s) = set_flight i (add_joiner 0) s"
    by (cases "i < length (sf_heap s)") (simp_all add: set_flight_def add_joiner_def list_update_beyond)
  have "c \<notin> joiners j s" for j using c by (simp add: joiners_def)
  then have "sf_joiners_ok (set_caller c (Returned (Inl e)) (set_flight i (add_joiner 0) s))"
    using ok by (auto simp: sf_ok_def sf_joiners_ok_def joiners_set_caller set_flight_nth add_joiner_def)
  then show ?thesis
    unfolding same using ok c by (auto simp: sf_ok_def intro!: table_ok_caller live_ok_caller results_ok_caller)
qed

lemma start_ok:
  assumes ok: "sf_ok s" and c: "sf_callers s c = Idle" and free: "dget (sf_flights s) key = None"
  shows "sf_ok (start_flight c key now dl s)" (is "sf_ok ?s'")
proof -
  have fresh: "dget (sf_flights s) k = Some j \<Longrightarrow> j < length (sf_heap s) \<and> k \<noteq> key" for k j
    using ok free by (auto simp: sf_ok_def sf_table_ok_def)
  have led: "sf_callers s c' = Leading j \<Longrightarrow> j < length (sf_heap s)" for c' j
    using ok by (simp add: sf_ok_def sf_table_ok_def)
  have callers: "sf_callers ?s' = (sf_callers s)(c := Leading (length (sf_heap s)))"
    and flights: "sf_flights ?s' = dput key (length (sf_heap s)) (sf_flights s)"
    and heap: "sf_heap ?s' = sf_heap s @ [new_flight key now dl]"
    and js: "joiners j ?s' = joiners j s" for j
    using c by (auto simp: start_flight_def joiners_def Let_def)
  have none: "joiners (length (sf_heap s)) s = {}"
    using ok by (auto simp: joiners_def sf_ok_def sf_joiners_ok_def)
  have old: "dget (sf_flights s) k = Some j \<Longrightarrow> \<exists>!c'. ((sf_callers s)(c := Leading (length (sf_heap s)))) c' = Leading j"
    for k j
  proof -
    assume kj: "dget (sf_flights s) k = Some j"
    then have "\<exists>!c'. sf_callers s c' = Leading j" using ok by (simp add: sf_ok_def sf_table_ok_def)
    moreover have "((sf_callers s)(c := Leading (length (sf_heap s)))) c' = Leading j \<longleftrightarrow> sf_callers s c' = Leading j" for c'
      using fresh [OF kj] c by auto
    ultimately show ?thesis by simp
  qed
  have new: "\<exists>!c'. ((sf_callers s)(c := Leading (length (sf_heap s)))) c' = Leading (length (sf_heap s))"
  proof (rule ex1I [of _ c])
    fix c' assume "((sf_callers s)(c := Leading (length (sf_heap s)))) c' = Leading (length (sf_heap s))"
    then show "c' = c" using led [of c' "length (sf_heap s)"] by (cases "c' = c") simp_all
  qed simp
  have "sf_table_ok ?s'"
    unfolding sf_table_ok_def callers flights heap
  proof (intro conjI allI impI)
    fix k j assume "dget (dput key (length (sf_heap s)) (sf_flights s)) k = Some j"
    then consider "k = key" "j = length (sf_heap s)" | "k \<noteq> key" "dget (sf_flights s) k = Some j"
      by (auto simp: dict_simps split: if_splits)
    then have "j < length (sf_heap s @ [new_flight key now dl]) \<and>
      fl_key ((sf_heap s @ [new_flight key now dl]) ! j) = k \<and>
      (\<exists>!c'. ((sf_callers s)(c := Leading (length (sf_heap s)))) c' = Leading j)"
    proof cases
      case 1 then show ?thesis using new by (simp add: new_flight_def)
    next
      case 2
      then have "j < length (sf_heap s)" "fl_key (sf_heap s ! j) = k" using ok by (simp_all add: sf_ok_def sf_table_ok_def)
      then show ?thesis using old [OF 2(2)] by (simp add: nth_append)
    qed
    then show "j < length (sf_heap s @ [new_flight key now dl])"
      and "fl_key ((sf_heap s @ [new_flight key now dl]) ! j) = k"
      and "\<exists>!c'. ((sf_callers s)(c := Leading (length (sf_heap s)))) c' = Leading j" by blast+
  next
    fix c' j assume l: "((sf_callers s)(c := Leading (length (sf_heap s)))) c' = Leading j"
    from l consider "j = length (sf_heap s)" | "sf_callers s c' = Leading j" by (cases "c' = c") simp_all
    note place = this
    then show "j < length (sf_heap s @ [new_flight key now dl])"
    proof cases
      case 1 then show ?thesis by simp
    next
      case 2 then show ?thesis using led [OF 2] by simp
    qed
    from place show "dget (dput key (length (sf_heap s)) (sf_flights s)) (fl_key ((sf_heap s @ [new_flight key now dl]) ! j)) = Some j"
    proof cases
      case 1 then show ?thesis by (simp add: new_flight_def dict_simps)
    next
      case 2
      then have "dget (sf_flights s) (fl_key (sf_heap s ! j)) = Some j" using ok by (simp add: sf_ok_def sf_table_ok_def)
      with fresh [OF this] show ?thesis by (simp add: nth_append dict_simps)
    qed
  qed
  moreover have "sf_live_ok ?s'"
    using ok fresh unfolding sf_live_ok_def flights heap
    by (auto simp: nth_append less_Suc_eq new_flight_def dict_simps sf_ok_def sf_live_ok_def)
  moreover have "sf_joiners_ok ?s'"
    unfolding sf_joiners_ok_def callers heap js
  proof (intro conjI allI impI)
    fix c' i d assume "((sf_callers s)(c := Leading (length (sf_heap s)))) c' = Joining i d"
    then have "sf_callers s c' = Joining i d" by (cases "c' = c") simp_all
    then have "i < length (sf_heap s)" using ok by (auto simp: sf_ok_def sf_joiners_ok_def)
    then show "i < length (sf_heap s @ [new_flight key now dl])" by simp
  next
    fix i assume "i < length (sf_heap s @ [new_flight key now dl])"
    then consider "i < length (sf_heap s)" | "i = length (sf_heap s)" by fastforce
    note place = this
    then show "finite (joiners i s)" using ok none by cases (auto simp: sf_ok_def sf_joiners_ok_def)
    show "fl_joiner_count ((sf_heap s @ [new_flight key now dl]) ! i) = int (card (joiners i s))"
      using place ok none by cases (auto simp: sf_ok_def sf_joiners_ok_def nth_append new_flight_def)
  qed
  moreover have "sf_results_ok ?s'"
    using ok unfolding sf_results_ok_def callers heap
    by (fastforce simp: nth_append sf_ok_def sf_results_ok_def split: if_splits)
  ultimately show ?thesis by (simp add: sf_ok_def)
qed
lemma sf_run_ok:
  assumes ok: "sf_ok s" and c: "sf_callers s c = Idle"
  shows "sf_ok (sf_run c key budget later s)"
proof (cases "dget (sf_flights s) key")
  case None
  then show ?thesis using start_ok [OF ok c] by (simp add: sf_run_def Let_def)
next
  case (Some i)
  then have "i < length (sf_heap s)" using ok by (simp add: sf_ok_def sf_table_ok_def)
  then show ?thesis
    using Some join_ok [OF ok c] refused_ok [OF ok c]
    by (simp add: sf_run_def Let_def split: option.split)
qed

lemma sf_finalize_ok:
  assumes ok: "sf_ok s" and c: "sf_callers s c = Leading i" and r: "fl_leader (sf_heap s ! i) = Done r"
    and r': "r' \<in> {r, Inl CancelledError}"
  shows "sf_ok (sf_finalize c i r' s)" (is "sf_ok ?s'")
proof -
  let ?k = "fl_key (sf_heap s ! i)"
  have i: "i < length (sf_heap s)" "dget (sf_flights s) ?k = Some i"
    using ok c by (simp_all add: sf_ok_def sf_table_ok_def)
  have only: "\<exists>!c'. sf_callers s c' = Leading i" using ok i(2) by (simp add: sf_ok_def sf_table_ok_def)
  have callers: "sf_callers ?s' = (sf_callers s)(c := Returned r')" and flights: "sf_flights ?s' = ddel ?k (sf_flights s)"
    and heap: "sf_heap ?s' = sf_heap s" and js: "joiners j ?s' = joiners j s" for j
    using c by (auto simp: sf_finalize_def joiners_def)
  have lead: "((sf_callers s)(c := Returned r')) c' = Leading j \<longleftrightarrow> sf_callers s c' = Leading j \<and> j \<noteq> i" for c' j
    using c only by (cases "c' = c") auto
  have entry: "dget (ddel ?k (sf_flights s)) k = Some j \<longleftrightarrow> dget (sf_flights s) k = Some j \<and> j \<noteq> i" for k j
  proof -
    have "dget (sf_flights s) k = Some i \<Longrightarrow> k = ?k" using ok by (simp add: sf_ok_def sf_table_ok_def)
    with i(2) show ?thesis by (cases "k = ?k") (auto simp: dict_simps)
  qed
  have "sf_table_ok ?s'"
    unfolding sf_table_ok_def callers flights heap lead entry
  proof (intro conjI allI impI)
    fix k j assume "dget (sf_flights s) k = Some j \<and> j \<noteq> i"
    moreover from this have "j < length (sf_heap s) \<and> fl_key (sf_heap s ! j) = k \<and> (\<exists>!c'. sf_callers s c' = Leading j)"
      using ok unfolding sf_ok_def sf_table_ok_def by blast
    ultimately show "j < length (sf_heap s)" "fl_key (sf_heap s ! j) = k" "\<exists>!c'. sf_callers s c' = Leading j \<and> j \<noteq> i"
      by blast+
  qed (use ok in \<open>auto simp: sf_ok_def sf_table_ok_def\<close>)
  moreover have "sf_live_ok ?s'"
    using ok r unfolding sf_live_ok_def flights heap entry by (auto simp: sf_ok_def sf_live_ok_def)
  moreover have "sf_joiners_ok ?s'"
    using ok unfolding sf_joiners_ok_def callers heap js by (auto simp: sf_ok_def sf_joiners_ok_def)
  moreover have "sf_results_ok ?s'"
    unfolding sf_results_ok_def callers heap
  proof (intro allI impI)
    fix c' a assume "((sf_callers s)(c := Returned r')) c' = Returned (Inr a)"
    then show "\<exists>j < length (sf_heap s). fl_leader (sf_heap s ! j) = Done (Inr a)"
      using ok r r' i(1) by (cases "c' = c") (auto simp: sf_ok_def sf_results_ok_def)
  qed
  ultimately show ?thesis by (simp add: sf_ok_def)
qed

lemma joined_result_value: "joined_result d r = Inr a \<Longrightarrow> r = Inr a"
  by (auto simp: joined_result_def split: if_splits)

lemma sf_step_ok: "sf_step s s' \<Longrightarrow> sf_ok s \<Longrightarrow> sf_ok s'"
proof (induction rule: sf_step.induct)
  case (joined s c i d r r')
  then have i: "i < length (sf_heap s)" by (auto simp: sf_ok_def sf_joiners_ok_def)
  have "r = Inr a" if "r' = Inr a" for a using joined(3) that joined_result_value [of d r a] by auto
  with joined(2) i have "r' = Inr a \<Longrightarrow> \<exists>i < length (sf_heap s). fl_leader (sf_heap s ! i) = Done (Inr a)" for a
    by blast
  then show ?case by (rule leave_ok [OF joined(4,1)])
qed (auto intro: sf_run_ok sf_lead_ok sf_finalize_ok leave_ok set_flight_ok complete_flight_mono cancel_flight_mono
       simp: sf_ok_fields)

lemma sf_reach_ok: "sf_reach b s \<Longrightarrow> sf_ok s"
  by (induction rule: sf_reach.induct) (auto intro: sf_ok_init sf_step_ok)

text \<open>A flight keeps its key, and a finished flight its outcome, along every step.\<close>

lemma step_keeps_outcome:
  assumes "sf_step s s'" and "i < length (sf_heap s)"
  shows "i < length (sf_heap s') \<and> fl_key (sf_heap s' ! i) = fl_key (sf_heap s ! i) \<and>
    (\<forall>r. fl_leader (sf_heap s ! i) = Done r \<longrightarrow> fl_leader (sf_heap s' ! i) = Done r)"
  using assms
  by (induction rule: sf_step.induct)
     (auto simp: sf_run_def start_flight_def sf_lead_def sf_finalize_def sf_join_return_def set_flight_nth nth_append
        add_joiner_def complete_flight_def cancel_flight_def Let_def split: option.split sum.split task.split)


section \<open>Properties\<close>

text \<open>
  C7: However the callers interleave, time out and are cancelled, at most one flight per key has a
  task that is not done: \<open>fn\<close> never runs twice at once for one key.
\<close>

theorem one_live_flight_per_key:
  assumes "sf_reach budget s"
  shows "card {i. i < length (sf_heap s) \<and> live (sf_heap s ! i) \<and> fl_key (sf_heap s ! i) = key} \<le> 1"
proof -
  have "sf_live_ok s" using sf_reach_ok [OF assms] by (simp add: sf_ok_def)
  then have "{i. i < length (sf_heap s) \<and> live (sf_heap s ! i) \<and> fl_key (sf_heap s ! i) = key} \<subseteq>
      {the (dget (sf_flights s) key)}"
    by (auto simp: sf_live_ok_def)
  from card_mono [OF _ this] show ?thesis by simp
qed

text \<open>Two callers of one key, the second of which joins.\<close>

definition demo_sf :: "nat sf" where
  "demo_sf = sf_run 1 ''k'' None 0 (sf_run 0 ''k'' None 0 (sf_init (Some 30)))"

lemma demo_sf_reach: "sf_reach (Some 30) demo_sf"
proof -
  have 1: "sf_step (sf_init (Some 30)) (sf_run 0 ''k'' None 0 (sf_init (Some 30)))"
    by (rule sf_step.call) (simp_all add: sf_init_def)
  have 2: "sf_step (sf_run 0 ''k'' None 0 (sf_init (Some 30))) demo_sf"
    unfolding demo_sf_def
    by (rule sf_step.call) (simp_all add: sf_init_def sf_run_def start_flight_def Let_def effective_budget_def)
  show ?thesis by (rule sf_reach.step [OF sf_reach.step [OF sf_reach.start 1] 2])
qed

lemma demo_sf_state:
  "sf_heap demo_sf = [add_joiner 1 (new_flight ''k'' 0 (Some 30))]"
  "sf_flights demo_sf = [(''k'', 0)]" "sf_calls demo_sf = []" "sf_now demo_sf = 0"
  "sf_callers demo_sf = (\<lambda>_. Idle)(0 := Leading 0, 1 := Joining 0 (Some 30))"
  by (simp_all add: demo_sf_def sf_init_def sf_run_def start_flight_def Let_def effective_budget_def
      set_caller_def set_flight_def)

theorem one_live_flight_per_key_witness:
  "card {i. i < length (sf_heap demo_sf) \<and> live (sf_heap demo_sf ! i) \<and> fl_key (sf_heap demo_sf ! i) = ''k''} \<le> 1"
  by (rule one_live_flight_per_key [OF demo_sf_reach])

text \<open>
  C16: No flight leaks and none is dropped early: a flight is the table's entry for a key if and only
  if it is a flight of that key and a caller still waits for it as its leader, so the keys in
  flight are exactly those with a waiting leader; no flight has two leaders; and the joiner count
  of every flight ever started is the number of callers that wait for it as joiners.
\<close>

theorem flights_do_not_leak:
  assumes "sf_reach budget s"
  shows "(\<forall>key i. dget (sf_flights s) key = Some i \<longleftrightarrow>
      i < length (sf_heap s) \<and> fl_key (sf_heap s ! i) = key \<and> (\<exists>c. sf_callers s c = Leading i)) \<and>
    (\<forall>key. key \<in> in_flight_keys s \<longleftrightarrow> (\<exists>c i. sf_callers s c = Leading i \<and> fl_key (sf_heap s ! i) = key)) \<and>
    (\<forall>c c' i. sf_callers s c = Leading i \<longrightarrow> sf_callers s c' = Leading i \<longrightarrow> c = c') \<and>
    (\<forall>i < length (sf_heap s). finite {c. \<exists>d. sf_callers s c = Joining i d} \<and>
       fl_joiner_count (sf_heap s ! i) = int (card {c. \<exists>d. sf_callers s c = Joining i d}))"
proof -
  have ok: "sf_table_ok s" "sf_joiners_ok s" using sf_reach_ok [OF assms] by (simp_all add: sf_ok_def)
  have entry: "dget (sf_flights s) key = Some i \<longleftrightarrow>
      i < length (sf_heap s) \<and> fl_key (sf_heap s ! i) = key \<and> (\<exists>c. sf_callers s c = Leading i)" for key i
    using ok(1) unfolding sf_table_ok_def by blast
  have lead: "sf_callers s c = Leading i \<Longrightarrow> i < length (sf_heap s)" for c i
    using ok(1) unfolding sf_table_ok_def by blast
  have "key \<in> in_flight_keys s \<longleftrightarrow> (\<exists>i. dget (sf_flights s) key = Some i)" for key
    by (metis dget_None_key in_flight_keys_def not_None_eq set_map)
  then have "key \<in> in_flight_keys s \<longleftrightarrow> (\<exists>c i. sf_callers s c = Leading i \<and> fl_key (sf_heap s ! i) = key)" for key
    using entry lead by metis
  moreover have "c = c'" if "sf_callers s c = Leading i" "sf_callers s c' = Leading i" for c c' i
  proof -
    have "dget (sf_flights s) (fl_key (sf_heap s ! i)) = Some i" using that(1) lead entry by blast
    then have "\<exists>!c. sf_callers s c = Leading i" using ok(1) unfolding sf_table_ok_def by blast
    with that show ?thesis by blast
  qed
  ultimately show ?thesis using entry ok(2) by (simp add: sf_joiners_ok_def joiners_def)
qed

theorem flights_do_not_leak_witness:
  "(\<forall>key. key \<in> in_flight_keys demo_sf \<longleftrightarrow> (\<exists>c i. sf_callers demo_sf c = Leading i \<and> fl_key (sf_heap demo_sf ! i) = key)) \<and>
   fl_joiner_count (sf_heap demo_sf ! 0) = int (card {c. \<exists>d. sf_callers demo_sf c = Joining 0 d})"
proof -
  have "0 < length (sf_heap demo_sf)" by (simp add: demo_sf_state)
  with flights_do_not_leak [OF demo_sf_reach] show ?thesis by blast
qed

text \<open>
  A joiner under a budget that leaves, by timing out, by being cancelled or with its result,
  changes neither the table nor any flight's task or outcome: the others still get it.
\<close>

theorem joiner_leaves_quietly:
  assumes "sf_step s s'" and "sf_callers s c = Joining i (Some d)" and "sf_callers s' c = Returned r"
  shows "sf_flights s' = sf_flights s \<and> map fl_leader (sf_heap s') = map fl_leader (sf_heap s) \<and>
    (\<forall>c'. c' = c \<or> sf_callers s' c' = sf_callers s c')"
proof -
  have keep: "map fl_leader (sf_heap (set_flight j (add_joiner n) s)) = map fl_leader (sf_heap s)" for j n and s :: "'a sf"
    by (rule nth_equalityI) (simp_all add: set_flight_nth add_joiner_def)
  from assms show ?thesis
  proof (induction rule: sf_step.induct)
    case (call s c' later key budget)
    then show ?case
      by (auto simp: sf_run_def start_flight_def Let_def split: option.splits if_splits)
  qed (auto simp: sf_lead_def sf_finalize_def sf_join_return_def keep split: if_splits)
qed

theorem joiner_leaves_quietly_witness:
  "sf_flights (sf_join_return 1 0 (Inl CancelledError) demo_sf) = sf_flights demo_sf \<and>
   map fl_leader (sf_heap (sf_join_return 1 0 (Inl CancelledError) demo_sf)) = map fl_leader (sf_heap demo_sf) \<and>
   (\<forall>c. c = 1 \<or> sf_callers (sf_join_return 1 0 (Inl CancelledError) demo_sf) c = sf_callers demo_sf c)"
  by (rule joiner_leaves_quietly [OF sf_step.cancel_joiner]) (simp_all add: demo_sf_state sf_join_return_def)

text \<open>
  When \<open>fn\<close> itself raises \<open>TimeoutError\<close>, a joiner under a budget gets \<open>BudgetExhausted\<close> although
  its budget has not run out, while the leader gets the \<open>TimeoutError\<close>.
\<close>

theorem joiner_timeout_misreported:
  "\<exists>s :: nat sf. sf_reach (Some 30) s \<and> sf_now s = 0 \<and> sf_callers s 0 = Returned (Inl TimeoutError) \<and>
     sf_callers s 1 = Returned (Inl BudgetExhausted)"
proof -
  let ?s1 = "sf_lead 0 demo_sf"
  let ?s2 = "set_flight 0 (complete_flight (Inl TimeoutError)) ?s1"
  let ?s3 = "sf_finalize 0 0 (Inl TimeoutError) ?s2"
  let ?s4 = "sf_join_return 1 0 (joined_result (Some 30) (Inl TimeoutError)) ?s3"
  note state = demo_sf_state sf_lead_def set_flight_def sf_finalize_def set_caller_def complete_flight_def
    add_joiner_def new_flight_def sf_join_return_def joined_result_def
  have 1: "sf_step demo_sf ?s1" by (rule sf_step.lead) (simp_all add: state)
  have 2: "sf_step ?s1 ?s2" by (rule sf_step.finish) (simp_all add: state)
  have 3: "sf_step ?s2 ?s3" by (rule sf_step.finalize) (simp_all add: state)
  have 4: "sf_step ?s3 ?s4"
    by (rule sf_step.joined [where d = "Some 30" and r = "Inl TimeoutError"]) (simp_all add: state)
  have "sf_reach (Some 30) ?s4"
    by (rule sf_reach.step [OF sf_reach.step [OF sf_reach.step [OF sf_reach.step [OF demo_sf_reach 1] 2] 3] 4])
  moreover have "sf_now ?s4 = 0 \<and> sf_callers ?s4 0 = Returned (Inl TimeoutError) \<and>
      sf_callers ?s4 1 = Returned (Inl BudgetExhausted)" by (simp add: state)
  ultimately show ?thesis by blast
qed

end
