(* ===== verification/Tiered_Store.thy ===== *)
theory Tiered_Store
  imports Snapshot_Store
begin

text \<open>
  \<open>_runtime/tiered_store.py\<close>: several snapshot stores arranged by priority behind one reference.
  A put goes to every write-through tier under one reference, a get asks the tiers in order and
  promotes what it found into the tiers above, and a sweep evicts from the tiers that have a
  policy.

  The tiers' stores are records of methods over the host they share. Payloads are byte strings.
  The writes of one put run as tasks of a \<open>gather\<close>: all of them run to their end, in the order
  of the tiers, and the first exception is the call's.
\<close>

section \<open>State\<close>

text \<open>A store that can also list, and the configuration of one tier.\<close>

record 'h listing_store = "'h snapshot_store" +
  ss_list :: "string \<Rightarrow> string option \<Rightarrow> 'h \<Rightarrow> snapshot_meta list result \<times> 'h"

record tier =
  tr_name :: string
  tr_store :: "host listing_store"
  tr_priority :: int
  tr_max_size_bytes :: int
  tr_max_objects :: int
  tr_eviction_policy :: eviction_policy
  tr_ttl_seconds :: time
  tr_write_through :: bool

record cached_meta =
  cm_actor_id :: string
  cm_tag :: string
  cm_template_id :: "string option"
  cm_compression :: string

text \<open>\<open>td_order\<close> is the order in which Python iterates over a set of references.\<close>

record tiered =
  td_tiers :: "tier list"
  td_sweep_interval :: time
  td_tier_refs :: "(string, string set) dict"
  td_access_times :: "(string, time) dict"
  td_meta_cache :: "(string, cached_meta) dict"
  td_sweep_task :: bool
  td_closed :: bool
  td_order :: "string set \<Rightarrow> string list"

definition tiered_init :: "tier list \<Rightarrow> time \<Rightarrow> (string set \<Rightarrow> string list) \<Rightarrow> tiered result" where
  "tiered_init tiers sweep_interval order =
     (if tiers = [] then Inl ValueError
      else (let ts = sort_key tr_priority tiers in
        Inr \<lparr>td_tiers = ts, td_sweep_interval = sweep_interval,
             td_tier_refs = fold (\<lambda>t d. dput (tr_name t) {} d) ts [],
             td_access_times = [], td_meta_cache = [], td_sweep_task = False, td_closed = False,
             td_order = order\<rparr>))"

definition tiered_start :: "tiered \<Rightarrow> tiered" where
  "tiered_start td = (if \<not> td_sweep_task td then td\<lparr>td_sweep_task := True\<rparr> else td)"

definition tiered_close :: "tiered \<Rightarrow> tiered" where
  "tiered_close td = (if td_closed td then td else td\<lparr>td_closed := True, td_sweep_task := False\<rparr>)"

section \<open>References\<close>

definition make_ref :: "string \<Rightarrow> string \<Rightarrow> time \<Rightarrow> string" where
  "make_ref actor_id tag ts = ''snap:'' @ actor_id @ '':'' @ tag @ '':'' @ show_fixed6 ts"

definition refs_of :: "tiered \<Rightarrow> string \<Rightarrow> string set" where
  "refs_of td name = (case dget (td_tier_refs td) name of None \<Rightarrow> {} | Some A \<Rightarrow> A)"

definition track :: "string \<Rightarrow> string \<Rightarrow> tiered \<Rightarrow> tiered" where
  "track name ref td = td\<lparr>td_tier_refs := dput name (insert ref (refs_of td name)) (td_tier_refs td)\<rparr>"

definition untrack :: "string \<Rightarrow> string \<Rightarrow> tiered \<Rightarrow> tiered" where
  "untrack name ref td = td\<lparr>td_tier_refs := dput name (refs_of td name - {ref}) (td_tier_refs td)\<rparr>"

section \<open>Operations\<close>

text \<open>One tier's write, and all of them: the results in order, failed or not.\<close>

definition write_to_tier ::
  "string \<Rightarrow> cached_meta \<Rightarrow> blob \<Rightarrow> tier \<Rightarrow> tiered \<times> host \<Rightarrow> snapshot_meta result \<times> tiered \<times> host" where
  "write_to_tier ref cm data t x =
     (case x of (td, h) \<Rightarrow>
      case ss_put (tr_store t) (cm_actor_id cm) (cm_tag cm) (Bytes data) (cm_compression cm)
             (cm_template_id cm) (Some ref) h of
        (Inl e, h1) \<Rightarrow> (Inl e, td, h1)
      | (Inr m, h1) \<Rightarrow> (Inr m, track (tr_name t) ref td, h1))"

fun write_all ::
  "string \<Rightarrow> cached_meta \<Rightarrow> blob \<Rightarrow> tier list \<Rightarrow> tiered \<times> host \<Rightarrow>
   snapshot_meta result list \<times> tiered \<times> host" where
  "write_all ref cm data [] x = ([], x)"
| "write_all ref cm data (t # ts) x =
     (case write_to_tier ref cm data t x of
        (r, x1) \<Rightarrow> (case write_all ref cm data ts x1 of (rs, x2) \<Rightarrow> (r # rs, x2)))"

fun gathered :: "'a result list \<Rightarrow> 'a list result" where
  "gathered [] = Inr []"
| "gathered (Inl e # rs) = Inl e"
| "gathered (Inr a # rs) = (case gathered rs of Inl e \<Rightarrow> Inl e | Inr as \<Rightarrow> Inr (a # as))"

definition tiered_put ::
  "string \<Rightarrow> string \<Rightarrow> blob \<Rightarrow> string \<Rightarrow> string option \<Rightarrow> tiered \<times> host \<Rightarrow>
   snapshot_meta result \<times> tiered \<times> host" where
  "tiered_put actor_id tag data compression template_id x =
     (case x of (td, h) \<Rightarrow>
      let ts = h_mono h;
          ref = make_ref actor_id tag ts;
          cm = \<lparr>cm_actor_id = actor_id, cm_tag = tag, cm_template_id = template_id,
                cm_compression = compression\<rparr>;
          write_tiers = filter tr_write_through (td_tiers td)
      in if write_tiers = [] then (Inl RuntimeError, td, h)
         else (case write_all ref cm data write_tiers (td, h) of
           (rs, td1, h1) \<Rightarrow>
             (case gathered rs of
                Inl e \<Rightarrow> (Inl e, td1, h1)
              | Inr metas \<Rightarrow>
                  (Inr (hd metas),
                   td1\<lparr>td_meta_cache := dput ref cm (td_meta_cache td1),
                       td_access_times := dput ref ts (td_access_times td1)\<rparr>, h1))))"

text \<open>The first tier that has the reference: a \<open>KeyError\<close> is a miss, any other exception ends the search.\<close>

fun find_tier :: "string \<Rightarrow> tier list \<Rightarrow> host \<Rightarrow> (nat \<times> blob) option result \<times> host" where
  "find_tier ref [] h = (Inr None, h)"
| "find_tier ref (t # ts) h =
     (case ss_get (tr_store t) ref h of
        (Inr b, h1) \<Rightarrow> (Inr (Some (0, b)), h1)
      | (Inl e, h1) \<Rightarrow>
          if e = KeyError then
            (case find_tier ref ts h1 of
               (Inr (Some (i, b)), h2) \<Rightarrow> (Inr (Some (Suc i, b)), h2)
             | (r, h2) \<Rightarrow> (r, h2))
          else (Inl e, h1))"

text \<open>Promotion into the tiers above; a tier that refuses is logged and skipped.\<close>

fun promote ::
  "string \<Rightarrow> cached_meta \<Rightarrow> blob \<Rightarrow> tier list \<Rightarrow> tiered \<times> host \<Rightarrow> unit result \<times> tiered \<times> host" where
  "promote ref cm data [] x = (Inr (), x)"
| "promote ref cm data (t # ts) x =
     (if \<not> tr_write_through t then promote ref cm data ts x
      else (case write_to_tier ref cm data t x of
        (Inl e, x1) \<Rightarrow> if e = CancelledError then (Inl e, x1) else promote ref cm data ts x1
      | (Inr _, x1) \<Rightarrow> promote ref cm data ts x1))"

definition tiered_get :: "string \<Rightarrow> tiered \<times> host \<Rightarrow> blob result \<times> tiered \<times> host" where
  "tiered_get ref x =
     (case x of (td, h) \<Rightarrow>
      let td1 = td\<lparr>td_access_times := dput ref (h_mono h) (td_access_times td)\<rparr> in
      case find_tier ref (td_tiers td1) h of
        (Inl e, h1) \<Rightarrow> (Inl e, td1, h1)
      | (Inr None, h1) \<Rightarrow> (Inl KeyError, td1, h1)
      | (Inr (Some (i, data)), h1) \<Rightarrow>
          (case dget (td_meta_cache td1) ref of
             None \<Rightarrow> (Inr data, td1, h1)
           | Some cm \<Rightarrow>
               (case promote ref cm data (take i (td_tiers td1)) (td1, h1) of
                  (Inl e, x2) \<Rightarrow> (Inl e, x2)
                | (Inr _, x2) \<Rightarrow> (Inr data, x2))))"

fun delete_from :: "string \<Rightarrow> tier list \<Rightarrow> tiered \<times> host \<Rightarrow> nat result \<times> tiered \<times> host" where
  "delete_from ref [] x = (Inr 0, x)"
| "delete_from ref (t # ts) (td, h) =
     (case ss_delete (tr_store t) ref h of
        (Inl CancelledError, h1) \<Rightarrow> (Inl CancelledError, td, h1)
      | (r, h1) \<Rightarrow>
          (case delete_from ref ts (untrack (tr_name t) ref td, h1) of
             (Inl e, x2) \<Rightarrow> (Inl e, x2)
           | (Inr n, x2) \<Rightarrow>
               (Inr (case r of Inr _ \<Rightarrow> n | Inl e \<Rightarrow> if e = KeyError then n else Suc n), x2)))"

definition tiered_delete :: "string \<Rightarrow> tiered \<times> host \<Rightarrow> unit result \<times> tiered \<times> host" where
  "tiered_delete ref x =
     (case delete_from ref (td_tiers (fst x)) x of
        (Inl e, x1) \<Rightarrow> (Inl e, x1)
      | (Inr errors, td, h) \<Rightarrow>
          (let td1 = td\<lparr>td_access_times := ddel ref (td_access_times td),
                        td_meta_cache := ddel ref (td_meta_cache td)\<rparr>
           in (if errors \<noteq> 0 \<and> errors = length (td_tiers td) then Inl RuntimeError else Inr (), td1, h)))"

text \<open>Listing keeps the first entry of each reference.\<close>

fun add_unseen :: "snapshot_meta list \<Rightarrow> string set \<times> snapshot_meta list \<Rightarrow> string set \<times> snapshot_meta list" where
  "add_unseen [] acc = acc"
| "add_unseen (m # ms) (seen, results) =
     (if sm_snapshot_ref m \<notin> seen
      then add_unseen ms (insert (sm_snapshot_ref m) seen, results @ [m])
      else add_unseen ms (seen, results))"

fun list_from ::
  "string \<Rightarrow> string option \<Rightarrow> tier list \<Rightarrow> string set \<times> snapshot_meta list \<Rightarrow> host \<Rightarrow>
   snapshot_meta list result \<times> host" where
  "list_from actor_id tag [] acc h = (Inr (snd acc), h)"
| "list_from actor_id tag (t # ts) acc h =
     (case ss_list (tr_store t) actor_id tag h of
        (Inl e, h1) \<Rightarrow> (Inl e, h1)
      | (Inr ms, h1) \<Rightarrow> list_from actor_id tag ts (add_unseen ms acc) h1)"

definition tiered_list ::
  "string \<Rightarrow> string option \<Rightarrow> tiered \<times> host \<Rightarrow> snapshot_meta list result \<times> tiered \<times> host" where
  "tiered_list actor_id tag x =
     (case x of (td, h) \<Rightarrow>
      case list_from actor_id tag (td_tiers td) ({}, []) h of (r, h1) \<Rightarrow> (r, td, h1))"

definition tiered_copy ::
  "string \<Rightarrow> string \<Rightarrow> string \<Rightarrow> tiered \<times> host \<Rightarrow> snapshot_meta result \<times> tiered \<times> host" where
  "tiered_copy ref target_actor target_tag x =
     (case tiered_get ref x of
        (Inl e, x1) \<Rightarrow> (Inl e, x1)
      | (Inr data, x1) \<Rightarrow> tiered_put target_actor target_tag data ''none'' None x1)"

definition tiered_put_tree ::
  "string \<Rightarrow> string \<Rightarrow> string \<Rightarrow> string option \<Rightarrow> tiered \<times> host \<Rightarrow> snapshot_meta result \<times> tiered \<times> host" where
  "tiered_put_tree actor_id tag source_dir template_id x =
     (case x of (td, h) \<Rightarrow>
      case ss_put_tree (tr_store (hd (td_tiers td))) actor_id tag source_dir template_id h of
        (r, h1) \<Rightarrow> (r, td, h1))"

definition tiered_restore_tree :: "string \<Rightarrow> string \<Rightarrow> tiered \<times> host \<Rightarrow> unit result \<times> tiered \<times> host" where
  "tiered_restore_tree ref target_dir x =
     (case tiered_get ref x of
        (Inl e, x1) \<Rightarrow> (Inl e, x1)
      | (Inr data, td, h) \<Rightarrow>
          (case tar_unpack ''gz'' data (fs_path target_dir) (h_fs h) of
             (r, f) \<Rightarrow> (r, td, h\<lparr>h_fs := f\<rparr>)))"

section \<open>Eviction\<close>

definition tier_within_limits :: "tier \<Rightarrow> string set \<Rightarrow> bool" where
  "tier_within_limits t refs \<longleftrightarrow> \<not> (tr_max_objects t > 0 \<and> int (card refs) > tr_max_objects t)"

definition access_time :: "tiered \<Rightarrow> string \<Rightarrow> time" where
  "access_time td ref = (case dget (td_access_times td) ref of None \<Rightarrow> 0 | Some t \<Rightarrow> t)"

definition evict_ref :: "tier \<Rightarrow> string \<Rightarrow> tiered \<times> host \<Rightarrow> unit result \<times> tiered \<times> host" where
  "evict_ref t ref x =
     (case x of (td, h) \<Rightarrow>
      case ss_delete (tr_store t) ref h of
        (Inl e, h1) \<Rightarrow>
          if e = KeyError then (Inr (), untrack (tr_name t) ref td, h1) else (Inl e, td, h1)
      | (Inr _, h1) \<Rightarrow> (Inr (), untrack (tr_name t) ref td, h1))"

fun evict_lru :: "tier \<Rightarrow> string list \<Rightarrow> tiered \<times> host \<Rightarrow> unit result \<times> tiered \<times> host" where
  "evict_lru t [] x = (Inr (), x)"
| "evict_lru t (ref # refs) x =
     (if tier_within_limits t (refs_of (fst x) (tr_name t)) then (Inr (), x)
      else (case evict_ref t ref x of
        (Inl e, x1) \<Rightarrow> (Inl e, x1)
      | (Inr _, x1) \<Rightarrow> evict_lru t refs x1))"

fun evict_ttl :: "tier \<Rightarrow> time \<Rightarrow> string list \<Rightarrow> tiered \<times> host \<Rightarrow> unit result \<times> tiered \<times> host" where
  "evict_ttl t now [] x = (Inr (), x)"
| "evict_ttl t now (ref # refs) x =
     (if now - access_time (fst x) ref > tr_ttl_seconds t then
        (case evict_ref t ref x of
           (Inl e, x1) \<Rightarrow> (Inl e, x1)
         | (Inr _, x1) \<Rightarrow> evict_ttl t now refs x1)
      else evict_ttl t now refs x)"

definition evict_tier :: "tier \<Rightarrow> tiered \<times> host \<Rightarrow> unit result \<times> tiered \<times> host" where
  "evict_tier t x =
     (case x of (td, h) \<Rightarrow>
      let refs = td_order td (refs_of td (tr_name t)) in
      if refs = [] then (Inr (), x)
      else (case tr_eviction_policy t of
          LRU \<Rightarrow> evict_lru t (sort_key (access_time td) refs) x
        | TTL \<Rightarrow> if tr_ttl_seconds t \<le> 0 then (Inr (), x) else evict_ttl t (h_mono h) refs x
        | _ \<Rightarrow> (Inr (), x)))"

fun tiered_sweep_from :: "tier list \<Rightarrow> tiered \<times> host \<Rightarrow> unit result \<times> tiered \<times> host" where
  "tiered_sweep_from [] x = (Inr (), x)"
| "tiered_sweep_from (t # ts) x =
     (if tr_eviction_policy t = NONE then tiered_sweep_from ts x
      else (case evict_tier t x of
        (Inl e, x1) \<Rightarrow> (Inl e, x1)
      | (Inr _, x1) \<Rightarrow> tiered_sweep_from ts x1))"

definition tiered_sweep_once :: "tiered \<times> host \<Rightarrow> unit result \<times> tiered \<times> host" where
  "tiered_sweep_once x = tiered_sweep_from (td_tiers (fst x)) x"

section \<open>The contract of the tiers\<close>

text \<open>
  \<open>view i h k\<close> is what tier \<open>i\<close> holds under the storage key \<open>k\<close>; the tiers share the host but
  not their storage. A read changes nothing; a write or a delete touches its own slot only, and
  when it fails the slot is as it was or as the call meant it to be.
\<close>

fun first_some :: "('a \<Rightarrow> 'b option) \<Rightarrow> 'a list \<Rightarrow> 'b option" where
  "first_some f [] = None"
| "first_some f (x # xs) = (case f x of None \<Rightarrow> first_some f xs | Some b \<Rightarrow> Some b)"

lemma first_some_None: "first_some f xs = None \<longleftrightarrow> (\<forall>x \<in> set xs. f x = None)"
  by (induction xs) (auto split: option.split)

lemma first_some_cong: "(\<And>x. x \<in> set xs \<Longrightarrow> f x = g x) \<Longrightarrow> first_some f xs = first_some g xs"
  by (induction xs) (auto split: option.split)

lemma first_some_append: "first_some f (xs @ ys) = (case first_some f xs of None \<Rightarrow> first_some f ys | Some b \<Rightarrow> Some b)"
  by (induction xs) (auto split: option.split)

lemma first_some_split:
  "first_some f xs = Some b \<Longrightarrow> \<exists>ys x zs. xs = ys @ x # zs \<and> (\<forall>y \<in> set ys. f y = None) \<and> f x = Some b"
proof (induction xs)
  case (Cons x xs)
  show ?case
  proof (cases "f x")
    case None
    with Cons obtain ys y zs where "xs = ys @ y # zs" "\<forall>y \<in> set ys. f y = None" "f y = Some b" by auto
    with None show ?thesis by (intro exI [of _ "x # ys"]) auto
  next
    case (Some c)
    with Cons.prems show ?thesis by (intro exI [of _ "[]"]) auto
  qed
qed simp

lemma first_some_only:
  "(\<And>x. x \<in> set xs \<Longrightarrow> f x \<in> {None, Some b}) \<Longrightarrow> x \<in> set xs \<Longrightarrow> f x = Some b \<Longrightarrow> first_some f xs = Some b"
proof (induction xs)
  case (Cons a xs)
  from Cons.prems(1) [of a] consider "f a = None" | "f a = Some b" by auto
  then show ?case using Cons by cases auto
qed simp

locale tier_backends =
  fixes tiers :: "tier list"
    and good :: "string \<Rightarrow> bool"
    and key :: "string \<Rightarrow> string"
    and ok :: "host \<Rightarrow> bool"
    and view :: "nat \<Rightarrow> host \<Rightarrow> string \<Rightarrow> blob option"
  assumes get: "i < length tiers \<Longrightarrow> ok h \<Longrightarrow> good ref \<Longrightarrow>
          ss_get (tr_store (tiers ! i)) ref h =
            (case view i h (key ref) of None \<Rightarrow> Inl KeyError | Some b \<Rightarrow> Inr b, h)"
    and put: "i < length tiers \<Longrightarrow> ok h \<Longrightarrow> good ref \<Longrightarrow>
          ss_put (tr_store (tiers ! i)) a tag (Bytes b) c tpl (Some ref) h = (r, h') \<Longrightarrow>
          ok h' \<and>
          (\<forall>j ref'. j < length tiers \<longrightarrow> good ref' \<longrightarrow> (j, key ref') \<noteq> (i, key ref) \<longrightarrow>
             view j h' (key ref') = view j h (key ref')) \<and>
          view i h' (key ref) \<in> {view i h (key ref), Some b} \<and>
          (\<forall>m. r = Inr m \<longrightarrow> view i h' (key ref) = Some b \<and> sm_snapshot_ref m = ref) \<and>
          r \<noteq> Inl CancelledError"
    and delete: "i < length tiers \<Longrightarrow> ok h \<Longrightarrow> good ref \<Longrightarrow>
          ss_delete (tr_store (tiers ! i)) ref h = (rd, h') \<Longrightarrow>
          ok h' \<and>
          (\<forall>j ref'. j < length tiers \<longrightarrow> good ref' \<longrightarrow> (j, key ref') \<noteq> (i, key ref) \<longrightarrow>
             view j h' (key ref') = view j h (key ref')) \<and>
          view i h' (key ref) \<in> {view i h (key ref), None} \<and>
          (rd \<in> {Inr (), Inl KeyError} \<longrightarrow> view i h' (key ref) = None)"
begin

text \<open>What the tiers together hold: the abstract store is a map from keys to contents.\<close>

definition tier_view :: "host \<Rightarrow> string \<Rightarrow> blob option" where
  "tier_view h ref = first_some (\<lambda>i. view i h (key ref)) [0..<length tiers]"

lemma find_tier_spec:
  assumes "ok h" and "good ref" and "set is \<subseteq> {..<length tiers}"
  shows "case find_tier ref (map ((!) tiers) is) h of (r, h') \<Rightarrow> h' = h \<and>
    (case first_some (\<lambda>i. view i h (key ref)) is of
       None \<Rightarrow> r = Inr None
     | Some b \<Rightarrow> \<exists>n < length is. r = Inr (Some (n, b)) \<and> view (is ! n) h (key ref) = Some b \<and>
         (\<forall>m < n. view (is ! m) h (key ref) = None))"
  using assms(3)
proof (induction "is")
  case (Cons i "is")
  then have i: "i < length tiers" by simp
  note g = get [OF i assms(1,2)]
  obtain r h' where rec: "find_tier ref (map ((!) tiers) is) h = (r, h')"
    by (cases "find_tier ref (map ((!) tiers) is) h")
  show ?case
  proof (cases "view i h (key ref)")
    case (Some b)
    with g show ?thesis by (auto intro!: exI [of _ "0::nat"])
  next
    case None
    note IH = Cons.IH
    show ?thesis
    proof (cases "first_some (\<lambda>i. view i h (key ref)) is")
      case n2: None
      with None g IH Cons.prems rec show ?thesis by simp
    next
      case (Some b)
      with IH Cons.prems rec obtain n where n: "n < length is" "r = Inr (Some (n, b))" "h' = h"
        "view (is ! n) h (key ref) = Some b" "\<forall>m < n. view (is ! m) h (key ref) = None" by auto
      have "\<forall>m < Suc n. view ((i # is) ! m) h (key ref) = None"
        using n(5) None by (auto simp: less_Suc_eq_0_disj)
      with n None g rec Some show ?thesis by (auto intro!: exI [of _ "Suc n"])
    qed
  qed
qed simp

text \<open>What a series of writes of one content under one reference does to the views.\<close>

definition written :: "nat set \<Rightarrow> string \<Rightarrow> blob \<Rightarrow> host \<Rightarrow> host \<Rightarrow> bool" where
  "written A ref b h h' \<longleftrightarrow> ok h' \<and>
     (\<forall>j ref'. j < length tiers \<longrightarrow> good ref' \<longrightarrow>
        view j h' (key ref') = view j h (key ref') \<or>
        j \<in> A \<and> key ref' = key ref \<and> view j h' (key ref') = Some b)"

lemma written_at:
  "written A ref b h h' \<Longrightarrow> j < length tiers \<Longrightarrow> good ref' \<Longrightarrow>
   view j h' (key ref') = view j h (key ref') \<or> j \<in> A \<and> key ref' = key ref \<and> view j h' (key ref') = Some b"
  unfolding written_def by blast

lemma written_refl: "ok h \<Longrightarrow> written A ref b h h"
  by (simp add: written_def)

lemma written_trans: "written A ref b h h' \<Longrightarrow> written B ref b h' h'' \<Longrightarrow> written (A \<union> B) ref b h h''"
  unfolding written_def by (metis UnCI)

lemma write_written:
  assumes "i < length tiers" and "ok h" and "good ref"
    and run: "write_to_tier ref cm b (tiers ! i) (td, h) = (r, td', h')"
  shows "written {i} ref b h h'" and "r = Inr m \<Longrightarrow> view i h' (key ref) = Some b \<and> sm_snapshot_ref m = ref"
    and "td_tiers td' = td_tiers td \<and> td_access_times td' = td_access_times td \<and> td_meta_cache td' = td_meta_cache td"
    and "r \<noteq> Inl CancelledError"
proof -
  obtain r1 h1 where p: "ss_put (tr_store (tiers ! i)) (cm_actor_id cm) (cm_tag cm) (Bytes b) (cm_compression cm)
      (cm_template_id cm) (Some ref) h = (r1, h1)"
    by (cases "ss_put (tr_store (tiers ! i)) (cm_actor_id cm) (cm_tag cm) (Bytes b) (cm_compression cm)
      (cm_template_id cm) (Some ref) h")
  with run have eq: "r = r1" "h' = h1" and td: "td' = td \<or> td' = track (tr_name (tiers ! i)) ref td"
    by (auto simp: write_to_tier_def split: sum.splits)
  note P = put [OF assms(1-3) p]
  show "written {i} ref b h h'" using P eq unfolding written_def by (metis insertE insertI1 prod.inject singletonI empty_iff)
  show "r = Inr m \<Longrightarrow> view i h' (key ref) = Some b \<and> sm_snapshot_ref m = ref" using P eq by simp
  show "td_tiers td' = td_tiers td \<and> td_access_times td' = td_access_times td \<and> td_meta_cache td' = td_meta_cache td"
    using td by (auto simp: track_def)
  show "r \<noteq> Inl CancelledError" using P eq by simp
qed

lemma write_all_written:
  "set is \<subseteq> {..<length tiers} \<Longrightarrow> ok h \<Longrightarrow> good ref \<Longrightarrow>
   write_all ref cm b (map ((!) tiers) is) (td, h) = (rs, td', h') \<Longrightarrow>
   written (set is) ref b h h' \<and> length rs = length is \<and>
   td_tiers td' = td_tiers td \<and> td_access_times td' = td_access_times td \<and> td_meta_cache td' = td_meta_cache td \<and>
   (\<forall>n < length is. \<forall>m. rs ! n = Inr m \<longrightarrow> view (is ! n) h' (key ref) = Some b \<and> sm_snapshot_ref m = ref)"
proof (induction "is" arbitrary: td h rs)
  case (Cons i "is")
  obtain r1 td1 h1 where w: "write_to_tier ref cm b (tiers ! i) (td, h) = (r1, td1, h1)"
    by (metis prod_cases3)
  obtain rs1 where rest: "write_all ref cm b (map ((!) tiers) is) (td1, h1) = (rs1, td', h')" and rs: "rs = r1 # rs1"
    using Cons.prems(4) w by (auto split: prod.splits)
  have i: "i < length tiers" using Cons.prems(1) by simp
  note W = write_written [OF i Cons.prems(2,3) w]
  have ok1: "ok h1" using W(1) by (simp add: written_def)
  have sub: "set is \<subseteq> {..<length tiers}" using Cons.prems(1) by simp
  note IH = Cons.IH [OF sub ok1 Cons.prems(3) rest]
  have kept: "view i h' (key ref) = Some b" if "view i h1 (key ref) = Some b"
    using IH i Cons.prems(3) that unfolding written_def by metis
  have "view ((i # is) ! n) h' (key ref) = Some b \<and> sm_snapshot_ref m = ref"
    if "n < length (i # is)" "rs ! n = Inr m" for n m
    using that IH W(2) kept rs by (cases n) auto
  moreover have "written (set (i # is)) ref b h h'"
    using written_trans [OF W(1), of "set is"] IH by simp
  ultimately show ?case using IH W(3) rs by auto
qed (auto simp: written_refl)

lemma promote_written:
  "set is \<subseteq> {..<length tiers} \<Longrightarrow> ok h \<Longrightarrow> good ref \<Longrightarrow>
   promote ref cm b (map ((!) tiers) is) (td, h) = (r, td', h') \<Longrightarrow>
   written (set is) ref b h h' \<and> td_tiers td' = td_tiers td \<and> r = Inr ()"
proof (induction "is" arbitrary: td h)
  case (Cons i "is")
  have i: "i < length tiers" and sub: "set is \<subseteq> {..<length tiers}" using Cons.prems(1) by simp_all
  show ?case
  proof (cases "tr_write_through (tiers ! i)")
    case False
    then have "promote ref cm b (map ((!) tiers) is) (td, h) = (r, td', h')" using Cons.prems(4) by simp
    from Cons.IH [OF sub Cons.prems(2,3) this] show ?thesis unfolding written_def by auto
  next
    case True
    obtain r1 td1 h1 where w: "write_to_tier ref cm b (tiers ! i) (td, h) = (r1, td1, h1)"
      by (metis prod_cases3)
    note W = write_written [OF i Cons.prems(2,3) w]
    have ok1: "ok h1" using W(1) by (simp add: written_def)
    from Cons.prems(4) w True W(4) have rest: "promote ref cm b (map ((!) tiers) is) (td1, h1) = (r, td', h')"
      by (auto split: sum.splits)
    note IH = Cons.IH [OF sub ok1 Cons.prems(3) rest]
    from written_trans [OF W(1), of "set is"] IH W(3) show ?thesis by simp
  qed
qed (auto simp: written_refl)

text \<open>
  Reading gives what the tiers together hold, and leaves that, for every reference, as it was:
  promotion copies the content only into slots above the one it was found in.
\<close>

lemma tier_view_written:
  assumes w: "written A ref b h h'" and b: "tier_view h ref = Some b" and good: "good ref" "good ref'"
    and above: "\<forall>j \<in> A. \<forall>i < length tiers. view i h (key ref) \<noteq> None \<longrightarrow> j < i \<or> view j h (key ref) = Some b"
  shows "tier_view h' ref' = tier_view h ref'"
proof (cases "key ref' = key ref")
  case False
  with w good show ?thesis
    unfolding tier_view_def written_def by (intro first_some_cong) auto
next
  case True
  from first_some_split [OF b [unfolded tier_view_def]] obtain ys i zs
    where split: "[0..<length tiers] = ys @ i # zs" and none: "\<forall>y \<in> set ys. view y h (key ref) = None"
      and at: "view i h (key ref) = Some b" by blast
  have i: "i < length tiers" and ys: "set ys \<subseteq> {..<length tiers}"
    using split by (metis atLeastLessThan_iff in_set_conv_decomp set_upt, metis atLeastLessThan_iff lessThan_iff set_upt subsetI in_set_conv_decomp append_Cons append_assoc split_list)
  have upd: "view j h' (key ref) = view j h (key ref) \<or> view j h' (key ref) = Some b" if "j < length tiers" for j
    using w good(1) that unfolding written_def by metis
  have "first_some (\<lambda>j. view j h' (key ref)) (ys @ [i]) = Some b"
  proof (rule first_some_only [where x = i])
    show "view i h' (key ref) = Some b" using upd [OF i] at by auto
    show "view x h' (key ref) \<in> {None, Some b}" if "x \<in> set (ys @ [i])" for x
      using upd [of x] that none at ys i by auto
  qed simp
  then have "first_some (\<lambda>j. view j h' (key ref)) ((ys @ [i]) @ zs) = Some b"
    by (simp only: first_some_append option.case)
  with split b True show ?thesis by (simp add: tier_view_def)
qed

lemma tiered_get_spec:
  assumes td: "td_tiers td = tiers" and ok: "ok h" and good: "good ref"
    and run: "tiered_get ref (td, h) = (r, td', h')"
  shows "ok h' \<and> td_tiers td' = tiers \<and>
    r = (case tier_view h ref of None \<Rightarrow> Inl KeyError | Some b \<Rightarrow> Inr b) \<and>
    (\<forall>ref'. good ref' \<longrightarrow> tier_view h' ref' = tier_view h ref')"
proof -
  let ?td1 = "td\<lparr>td_access_times := dput ref (h_mono h) (td_access_times td)\<rparr>"
  have all: "map ((!) tiers) [0..<length tiers] = tiers" by (rule map_nth)
  obtain f h1 where find: "find_tier ref tiers h = (f, h1)" by (cases "find_tier ref tiers h")
  have "set [0..<length tiers] \<subseteq> {..<length tiers}" by auto
  from find_tier_spec [OF ok good this] have F: "h1 = h"
    "case tier_view h ref of None \<Rightarrow> f = Inr None
     | Some b \<Rightarrow> \<exists>n < length tiers. f = Inr (Some (n, b)) \<and> view n h (key ref) = Some b \<and>
         (\<forall>m < n. view m h (key ref) = None)"
    unfolding all find tier_view_def by (auto split: option.splits)
  show ?thesis
  proof (cases "tier_view h ref")
    case None
    with run F find td ok show ?thesis by (auto simp: tiered_get_def)
  next
    case (Some b)
    with F obtain n where n: "n < length tiers" "f = Inr (Some (n, b))" "view n h (key ref) = Some b"
      "\<forall>m < n. view m h (key ref) = None" by auto
    show ?thesis
    proof (cases "dget (td_meta_cache td) ref")
      case none: None
      with run F(1) find td ok n Some show ?thesis by (auto simp: tiered_get_def)
    next
      case cm: (Some cm)
      have take: "take n tiers = map ((!) tiers) [0..<n]"
        using n(1) by (intro nth_equalityI) simp_all
      obtain r2 td2 h2 where pr: "promote ref cm b (map ((!) tiers) [0..<n]) (?td1, h) = (r2, td2, h2)"
        by (metis prod_cases3)
      have sub: "set [0..<n] \<subseteq> {..<length tiers}" using n(1) by auto
      note P = promote_written [OF sub ok good pr]
      have view: "tier_view h2 ref' = tier_view h ref'" if "good ref'" for ref'
      proof (rule tier_view_written [OF _ Some good that])
        show "written (set [0..<n]) ref b h h2" using P by blast
        show "\<forall>j \<in> set [0..<n]. \<forall>i < length tiers. view i h (key ref) \<noteq> None \<longrightarrow>
            j < i \<or> view j h (key ref) = Some b"
          using n(4) by (auto simp: not_less) (metis le_less_trans not_le option.distinct(1))
      qed
      from run F(1) find td n cm take pr have "td' = td2" "h' = h2"
        "r = Inr b"
        using P by (auto simp: tiered_get_def split: sum.splits)
      with P view Some td show ?thesis by (auto simp: written_def split: sum.splits)
    qed
  qed
qed

text \<open>A put that succeeds is a write to every write-through tier.\<close>

lemma gathered_Inr: "gathered rs = Inr ms \<Longrightarrow> length ms = length rs \<and> (\<forall>n < length rs. rs ! n = Inr (ms ! n))"
proof (induction rs arbitrary: ms rule: gathered.induct)
  case (3 a rs)
  then obtain as where "gathered rs = Inr as" "ms = a # as" by (auto split: sum.splits)
  with 3 show ?case by (auto simp: less_Suc_eq_0_disj)
qed simp_all

lemma tiered_put_spec:
  assumes td: "td_tiers td = tiers" and ok: "ok h" and good: "good (make_ref a tag (h_mono h))"
    and new: "\<forall>t i. i < length tiers \<longrightarrow> \<not> tr_write_through (tiers ! i) \<longrightarrow> view i h (key (make_ref a tag (h_mono h))) = None"
    and run: "tiered_put a tag b c tpl (td, h) = (Inr m, td', h')"
  shows "sm_snapshot_ref m = make_ref a tag (h_mono h) \<and> ok h' \<and> td_tiers td' = tiers \<and>
    tier_view h' (make_ref a tag (h_mono h)) = Some b \<and>
    (\<forall>i < length tiers. \<not> tr_write_through (tiers ! i) \<or> view i h' (key (make_ref a tag (h_mono h))) = Some b) \<and>
    (\<forall>ref'. good ref' \<longrightarrow> key ref' \<noteq> key (make_ref a tag (h_mono h)) \<longrightarrow> tier_view h' ref' = tier_view h ref') \<and>
    dget (td_meta_cache td') (make_ref a tag (h_mono h)) \<noteq> None"
proof -
  let ?ref = "make_ref a tag (h_mono h)"
  let ?cm = "\<lparr>cm_actor_id = a, cm_tag = tag, cm_template_id = tpl, cm_compression = c\<rparr>"
  let ?is = "filter (\<lambda>i. tr_write_through (tiers ! i)) [0..<length tiers]"
  have ts: "filter tr_write_through tiers = map ((!) tiers) ?is"
    using filter_map [of tr_write_through "(!) tiers" "[0..<length tiers]"] by (simp add: map_nth comp_def)
  obtain rs td1 where w: "write_all ?ref ?cm b (map ((!) tiers) ?is) (td, h) = (rs, td1, h')"
    and ne: "?is \<noteq> []" and ga: "\<exists>ms. gathered rs = Inr ms \<and> m = hd ms"
    and td': "td' = td1\<lparr>td_meta_cache := dput ?ref ?cm (td_meta_cache td1),
                       td_access_times := dput ?ref (h_mono h) (td_access_times td1)\<rparr>"
    using run td ts by (auto simp: tiered_put_def Let_def split: if_splits prod.splits sum.splits)
  have sub: "set ?is \<subseteq> {..<length tiers}" by auto
  note W = write_all_written [OF sub ok good w]
  from ga obtain ms where ms: "gathered rs = Inr ms" "m = hd ms" by blast
  note G = gathered_Inr [OF ms(1)]
  have every: "view (?is ! n) h' (key ?ref) = Some b \<and> sm_snapshot_ref (ms ! n) = ?ref" if "n < length ?is" for n
    using W G that by simp
  have wt: "view i h' (key ?ref) = Some b" if i: "i \<in> set ?is" for i
  proof -
    obtain n where "n < length ?is" "?is ! n = i" using i unfolding in_set_conv_nth by blast
    with every show ?thesis by metis
  qed
  have upd: "view i h' (key ?ref) \<in> {None, Some b}" if "i < length tiers" for i
  proof (cases "i \<in> set ?is")
    case False
    with that have "\<not> tr_write_through (tiers ! i)" by simp
    with new that have "view i h (key ?ref) = None" by blast
    moreover have "view i h' (key ?ref) = view i h (key ?ref) \<or> view i h' (key ?ref) = Some b"
      using written_at [OF conjunct1 [OF W] that good] by blast
    ultimately show ?thesis by auto
  qed (use wt in simp)
  from ne obtain i0 where i0: "i0 \<in> set ?is" by (cases ?is) auto
  have "tier_view h' ?ref = Some b"
    unfolding tier_view_def
    by (rule first_some_only [where x = i0]) (use upd wt [OF i0] i0 in auto)
  moreover have "tier_view h' ref' = tier_view h ref'" if "good ref'" "key ref' \<noteq> key ?ref" for ref'
    unfolding tier_view_def using W that unfolding written_def by (intro first_some_cong) auto
  moreover have "sm_snapshot_ref m = ?ref"
  proof -
    have "0 < length ?is" using ne by simp
    with every [of 0] G W ms(2) show ?thesis by (cases ms) auto
  qed
  moreover have "ok h'" using W unfolding written_def by blast
  moreover have "td_tiers td' = tiers" "dget (td_meta_cache td') ?ref \<noteq> None"
    using W td by (simp_all add: td' dict_simps)
  moreover have "\<not> tr_write_through (tiers ! i) \<or> view i h' (key ?ref) = Some b" if "i < length tiers" for i
    using wt [of i] that by auto
  ultimately show ?thesis by blast
qed

lemma delete_from_spec:
  "set is \<subseteq> {..<length tiers} \<Longrightarrow> ok h \<Longrightarrow> good ref \<Longrightarrow>
   delete_from ref (map ((!) tiers) is) (td, h) = (r, td', h') \<Longrightarrow>
   ok h' \<and> td_tiers td' = td_tiers td \<and>
   (\<forall>j ref'. j < length tiers \<longrightarrow> good ref' \<longrightarrow>
      view j h' (key ref') = view j h (key ref') \<or> key ref' = key ref \<and> view j h' (key ref') = None) \<and>
   (r = Inr 0 \<longrightarrow> (\<forall>j \<in> set is. view j h' (key ref) = None))"
proof (induction "is" arbitrary: td h r)
  case (Cons i "is")
  obtain r1 h1 where d: "ss_delete (tr_store (tiers ! i)) ref h = (r1, h1)"
    by (cases "ss_delete (tr_store (tiers ! i)) ref h")
  have i: "i < length tiers" and sub: "set is \<subseteq> {..<length tiers}" using Cons.prems(1) by simp_all
  note D = delete [OF i Cons.prems(2,3) d]
  have one: "view j h1 (key ref') = view j h (key ref') \<or> key ref' = key ref \<and> view j h1 (key ref') = None"
    if "j < length tiers" "good ref'" for j ref'
    using D that by (cases "(j, key ref') = (i, key ref)") auto
  show ?case
  proof (cases "r1 = Inl CancelledError")
    case True
    with Cons.prems(4) d D one show ?thesis by auto
  next
    case False
    obtain r2 where rest: "delete_from ref (map ((!) tiers) is) (untrack (tr_name (tiers ! i)) ref td, h1) = (r2, td', h')"
      and r: "r = (case r2 of Inl e \<Rightarrow> Inl e | Inr n \<Rightarrow>
        Inr (case r1 of Inr _ \<Rightarrow> n | Inl e \<Rightarrow> if e = KeyError then n else Suc n))"
      using Cons.prems(4) d False by (auto split: sum.splits exn.splits prod.splits)
    note IH = Cons.IH [OF sub conjunct1 [OF D] Cons.prems(3) rest]
    have both: "view j h' (key ref') = view j h (key ref') \<or> key ref' = key ref \<and> view j h' (key ref') = None"
      if "j < length tiers" "good ref'" for j ref'
      using one [OF that] IH that by metis
    have "view j h' (key ref) = None" if "r = Inr 0" "j \<in> set (i # is)" for j
    proof -
      from that(1) r have r2: "r2 = Inr 0" and r1: "r1 \<in> {Inr (), Inl KeyError}"
        by (auto split: sum.splits if_splits)
      show ?thesis
      proof (cases "j \<in> set is")
        case True
        with IH r2 show ?thesis by blast
      next
        case False
        with that(2) D r1 have "j = i" "view i h1 (key ref) = None" by auto
        with IH i Cons.prems(3) show ?thesis by metis
      qed
    qed
    with IH both show ?thesis by (auto simp: untrack_def)
  qed
qed auto

lemma tiered_delete_spec:
  assumes td: "td_tiers td = tiers" and ok: "ok h" and good: "good ref"
    and run: "delete_from ref tiers (td, h) = (Inr 0, td1, h1)"
  shows "\<exists>td'. tiered_delete ref (td, h) = (Inr (), td', h1) \<and> td_tiers td' = tiers \<and> ok h1 \<and>
    tier_view h1 ref = None \<and>
    (\<forall>ref'. good ref' \<longrightarrow> key ref' \<noteq> key ref \<longrightarrow> tier_view h1 ref' = tier_view h ref')"
proof -
  have all: "map ((!) tiers) [0..<length tiers] = tiers" by (rule map_nth)
  have sub: "set [0..<length tiers] \<subseteq> {..<length tiers}" by auto
  note D = delete_from_spec [OF sub ok good, unfolded all, OF run]
  have "tier_view h1 ref = None" unfolding tier_view_def first_some_None using D by blast
  moreover have "tier_view h1 ref' = tier_view h ref'" if "good ref'" "key ref' \<noteq> key ref" for ref'
    unfolding tier_view_def using D that by (intro first_some_cong) auto
  ultimately show ?thesis using D td run by (auto simp: tiered_delete_def)
qed

end

section \<open>Eviction\<close>

lemma refs_of_untrack [simp]: "refs_of (untrack name ref td) name' = refs_of td name' - (if name' = name then {ref} else {})"
  by (auto simp: refs_of_def untrack_def dict_simps)

lemma untrack_fields [simp]:
  "td_access_times (untrack name ref td) = td_access_times td" "td_tiers (untrack name ref td) = td_tiers td"
  by (simp_all add: untrack_def)

lemma evict_ref_refs:
  "evict_ref t ref (td, h) = (r, td', h') \<Longrightarrow>
   (r = Inr () \<longrightarrow> td' = untrack (tr_name t) ref td) \<and> (r \<noteq> Inr () \<longrightarrow> td' = td)"
  by (auto simp: evict_ref_def split: prod.splits sum.splits if_splits)

text \<open>
  Eviction by least recent use drops a prefix of the references in the order of their last
  access: the shortest one that brings the tier within its limit.
\<close>

lemma evict_lru_prefix:
  "evict_lru t refs (td, h) = (Inr (), td', h') \<Longrightarrow> refs_of td (tr_name t) = set refs \<Longrightarrow> distinct refs \<Longrightarrow>
   \<exists>n \<le> length refs. refs_of td' (tr_name t) = set (drop n refs) \<and>
     (tier_within_limits t (set (drop n refs)) \<or> n = length refs) \<and>
     (\<forall>m < n. \<not> tier_within_limits t (set (drop m refs)))"
proof (induction refs arbitrary: td h)
  case Nil
  then show ?case by simp
next
  case (Cons ref refs)
  note now = Cons.prems(2)
  show ?case
  proof (cases "tier_within_limits t (refs_of td (tr_name t))")
    case True
    with Cons.prems(1) now show ?thesis by (intro exI [of _ 0]) simp
  next
    case False
    obtain r td1 h1 where e: "evict_ref t ref (td, h) = (r, td1, h1)" by (metis prod_cases3)
    with Cons.prems(1) False have r: "r = Inr ()" and rest: "evict_lru t refs (td1, h1) = (Inr (), td', h')"
      by (auto split: sum.splits)
    have td1: "td1 = untrack (tr_name t) ref td" using evict_ref_refs [OF e] r by simp
    have "refs_of td1 (tr_name t) = set refs"
      using now td1 Cons.prems(3) by auto
    from Cons.IH [OF rest this] Cons.prems(3) obtain n where n: "n \<le> length refs"
      "refs_of td' (tr_name t) = set (drop n refs)" "tier_within_limits t (set (drop n refs)) \<or> n = length refs"
      "\<forall>m < n. \<not> tier_within_limits t (set (drop m refs))" by auto
    have "\<forall>m < Suc n. \<not> tier_within_limits t (set (drop m (ref # refs)))"
      using n(4) False now by (auto simp: less_Suc_eq_0_disj)
    with n show ?thesis by (intro exI [of _ "Suc n"]) auto
  qed
qed

lemma evict_ttl_refs:
  "evict_ttl t now refs (td, h) = (Inr (), td', h') \<Longrightarrow>
   refs_of td' (tr_name t) = refs_of td (tr_name t) -
     {ref \<in> set refs. now - access_time td ref > tr_ttl_seconds t}"
proof (induction refs arbitrary: td h)
  case (Cons ref refs)
  have same: "access_time (untrack name r td) = access_time td" for name r
    by (rule ext) (simp add: access_time_def)
  show ?case
  proof (cases "now - access_time td ref > tr_ttl_seconds t")
    case True
    obtain r td1 h1 where e: "evict_ref t ref (td, h) = (r, td1, h1)" by (metis prod_cases3)
    with Cons.prems True have r: "r = Inr ()" and rest: "evict_ttl t now refs (td1, h1) = (Inr (), td', h')"
      by (auto split: sum.splits)
    have td1: "td1 = untrack (tr_name t) ref td" using evict_ref_refs [OF e] r by simp
    from Cons.IH [OF rest] td1 same True show ?thesis by auto
  next
    case False
    with Cons show ?thesis by auto
  qed
qed simp

end
