(* ===== verification/Local_List.thy ===== *)
theory Local_List
  imports Tiered_Store "HOL-Library.List_Lexorder" "HOL-Library.Char_ord"
begin

text \<open>
  \<open>LocalSnapshotStore.list\<close>: the sidecar files of tiered mode, then the archives of standalone
  mode, newest first. Directories are scanned in the order of the tree's entries. Sidecars are
  objects whose fields have the types \<open>put\<close> gives them; \<open>float\<close> is Python's decimal grammar
  without infinities and \<open>nan\<close>, which no clock reading is.
\<close>

section \<open>Reading numbers\<close>

definition is_digit :: "char \<Rightarrow> bool" where
  "is_digit c \<longleftrightarrow> c \<in> set ''0123456789''"

definition digit_value :: "char \<Rightarrow> nat" where
  "digit_value c = length (takeWhile (\<lambda>d. d \<noteq> c) ''0123456789'')"

definition read_nat :: "string \<Rightarrow> nat" where
  "read_nat s = foldl (\<lambda>n c. 10 * n + digit_value c) 0 s"

text \<open>Digits with single underscores between them; the value, or \<open>None\<close>.\<close>

fun digit_part :: "string \<Rightarrow> string option" where
  "digit_part [] = None"
| "digit_part [c] = (if is_digit c then Some [c] else None)"
| "digit_part (c # d # s) =
     (if \<not> is_digit c then None
      else map_option (\<lambda>t. c # t) (digit_part (if d = CHR ''_'' then s else d # s)))"

definition split_first :: "char \<Rightarrow> string \<Rightarrow> string \<times> string option" where
  "split_first c s =
     (case dropWhile (\<lambda>x. x \<noteq> c) s of [] \<Rightarrow> (s, None) | _ # t \<Rightarrow> (takeWhile (\<lambda>x. x \<noteq> c) s, Some t))"

definition read_signed :: "(string \<Rightarrow> rat option) \<Rightarrow> string \<Rightarrow> rat option" where
  "read_signed f s =
     (case s of [] \<Rightarrow> None
      | c # t \<Rightarrow> if c = CHR ''-'' then map_option uminus (f t) else if c = CHR ''+'' then f t else f s)"

definition read_point :: "string \<Rightarrow> rat option" where
  "read_point s =
     (case split_first CHR ''.'' s of
        (a, None) \<Rightarrow> map_option (\<lambda>d. of_nat (read_nat d)) (digit_part a)
      | (a, Some b) \<Rightarrow>
          if a = [] \<and> b = [] then None
          else (case (if a = [] then Some [] else digit_part a, if b = [] then Some [] else digit_part b) of
            (Some x, Some y) \<Rightarrow> Some (of_nat (read_nat x) + of_nat (read_nat y) / 10 ^ length y)
          | _ \<Rightarrow> None))"

definition power_of_ten :: "rat \<Rightarrow> rat" where
  "power_of_ten e = (if e < 0 then 1 / 10 ^ nat \<lfloor>- e\<rfloor> else 10 ^ nat \<lfloor>e\<rfloor>)"

definition read_unsigned :: "string \<Rightarrow> rat option" where
  "read_unsigned s =
     (case split_first CHR ''e'' (map (\<lambda>c. if c = CHR ''E'' then CHR ''e'' else c) s) of
        (m, None) \<Rightarrow> read_point m
      | (m, Some e) \<Rightarrow>
          (case (read_point m, read_signed (\<lambda>t. map_option (\<lambda>d. of_nat (read_nat d)) (digit_part t)) e) of
             (Some x, Some y) \<Rightarrow> Some (x * power_of_ten y)
           | _ \<Rightarrow> None))"

definition is_space :: "char \<Rightarrow> bool" where
  "is_space c \<longleftrightarrow> c \<in> set [CHR '' '', CHR 0x09, CHR 0x0A, CHR 0x0B, CHR 0x0C, CHR 0x0D]"

definition strip_space :: "string \<Rightarrow> string" where
  "strip_space s = rev (dropWhile is_space (rev (dropWhile is_space s)))"

definition py_float :: "string \<Rightarrow> rat option" where
  "py_float s = read_signed read_unsigned (strip_space s)"

section \<open>Listing\<close>

text \<open>The files in a directory: their names and contents.\<close>

definition fs_files :: "path \<Rightarrow> fs \<Rightarrow> (string \<times> blob) list" where
  "fs_files d f =
     List.map_filter (\<lambda>(p, e). case e of DirE \<Rightarrow> None
        | FileE b \<Rightarrow> if p \<noteq> [] \<and> butlast p = d then Some (last p, b) else None) f"

definition ends_with :: "string \<Rightarrow> string \<Rightarrow> bool" where
  "ends_with suf s \<longleftrightarrow> drop (length s - length suf) s = suf"

fun json_string :: "json \<Rightarrow> string option" where
  "json_string (JStr s) = Some s"
| "json_string _ = None"

fun json_num :: "json \<Rightarrow> rat" where
  "json_num (JNum r) = r"
| "json_num _ = 0"

definition json_get :: "(string \<times> json) list \<Rightarrow> string \<Rightarrow> string option" where
  "json_get m k = (case dget m k of None \<Rightarrow> None | Some j \<Rightarrow> json_string j)"

text \<open>One sidecar: skipped, an exception, or an entry.\<close>

definition sidecar_entry :: "string \<Rightarrow> string option \<Rightarrow> blob \<Rightarrow> snapshot_meta option result" where
  "sidecar_entry actor_id tag b =
     (case b of
        Json (JObj m) \<Rightarrow>
          if json_get m ''actor_id'' \<noteq> Some actor_id then Inr None
          else if tag \<noteq> None \<and> json_get m ''tag'' \<noteq> tag then Inr None
          else (case (json_get m ''snapshot_ref'', json_get m ''tag'', dget m ''size_bytes'', dget m ''created_at'') of
            (Some ref, Some t, Some bytes, Some created) \<Rightarrow>
              Inr (Some \<lparr>sm_snapshot_ref = ref, sm_actor_id = actor_id,
                         sm_template_id = json_get m ''template_id'', sm_tag = t,
                         sm_size_bytes = \<lfloor>json_num bytes\<rfloor>, sm_created_at = json_num created,
                         sm_compression = (case json_get m ''compression'' of None \<Rightarrow> ''none'' | Some c \<Rightarrow> c),
                         sm_checksum = json_get m ''checksum''\<rparr>)
          | _ \<Rightarrow> Inl KeyError)
      | Json _ \<Rightarrow> Inl (OtherError ''AttributeError'')
      | _ \<Rightarrow> Inr None)"

fun sidecar_entries :: "string \<Rightarrow> string option \<Rightarrow> (string \<times> blob) list \<Rightarrow> snapshot_meta list result" where
  "sidecar_entries actor_id tag [] = Inr []"
| "sidecar_entries actor_id tag ((name, b) # fs) =
     (if \<not> ends_with ''.meta.json'' name then sidecar_entries actor_id tag fs
      else (case sidecar_entry actor_id tag b of
        Inl e \<Rightarrow> Inl e
      | Inr None \<Rightarrow> sidecar_entries actor_id tag fs
      | Inr (Some m) \<Rightarrow>
          (case sidecar_entries actor_id tag fs of Inl e \<Rightarrow> Inl e | Inr ms \<Rightarrow> Inr (m # ms))))"

definition archive_entry ::
  "local_store \<Rightarrow> string \<Rightarrow> string option \<Rightarrow> host \<Rightarrow> string \<times> blob \<Rightarrow> snapshot_meta option" where
  "archive_entry ls actor_id tag h nb =
     (case nb of (name, b) \<Rightarrow>
      if \<not> ends_with (local_suffix ls) name then None
      else (case split_first CHR ''.'' (take (length name - length (local_suffix ls)) name) of
        (entry_tag, rest) \<Rightarrow>
          if tag \<noteq> None \<and> tag \<noteq> Some entry_tag then None
          else Some \<lparr>sm_snapshot_ref = path_join (actor_dir_of ls actor_id) name, sm_actor_id = actor_id,
                     sm_template_id = None, sm_tag = entry_tag, sm_size_bytes = int (h_size h b),
                     sm_created_at = (case rest of None \<Rightarrow> 0
                        | Some s \<Rightarrow> (case py_float s of None \<Rightarrow> 0 | Some r \<Rightarrow> r)),
                     sm_compression = ''none'', sm_checksum = None\<rparr>))"

definition newest_first :: "snapshot_meta list \<Rightarrow> snapshot_meta list" where
  "newest_first ms = sort_key (\<lambda>m. - sm_created_at m) ms"

definition local_list ::
  "local_store \<Rightarrow> string \<Rightarrow> string option \<Rightarrow> host \<Rightarrow> snapshot_meta list result \<times> host" where
  "local_list ls actor_id tag h =
     (case sidecar_entries actor_id tag
             (if fs_isdir (h_fs h) (fs_path (ls_base_dir ls)) then fs_files (fs_path (ls_base_dir ls)) (h_fs h) else []) of
        Inl e \<Rightarrow> (Inl e, h)
      | Inr metas \<Rightarrow>
          (let actor_dir = fs_path (actor_dir_of ls actor_id);
               archives = (if fs_isdir (h_fs h) actor_dir
                 then rev (sort_key fst (fs_files actor_dir (h_fs h))) else [])
           in (Inr (newest_first (metas @ List.map_filter (archive_entry ls actor_id tag h) archives)), h)))"

definition listing_ops :: "local_store \<Rightarrow> host listing_store" where
  "listing_ops ls =
     \<lparr>ss_put = local_put ls, ss_get = local_get ls, ss_delete = local_delete ls,
      ss_put_tree = local_put_tree ls, ss_restore_tree = local_restore_tree ls, ss_list = local_list ls\<rparr>"

end
