(* ===== verification/Local_Tiers.thy ===== *)
theory Local_Tiers
  imports Local_List
begin

text \<open>
  Local stores as tiers: in tiered mode \<open>LocalSnapshotStore\<close> keeps a snapshot in one flat file
  whose name is the reference with slashes and colons replaced by underscores, beside a sidecar.
  Any number of local stores in directories apart from each other keep the contract
  \<open>tier_backends\<close>; the storage key is that file name, so two references that differ only in
  those characters share a slot.
\<close>

section \<open>Where a tiered snapshot lives\<close>

definition archive_name :: "local_store \<Rightarrow> string \<Rightarrow> string" where
  "archive_name ls k = k @ local_suffix ls"

definition ref_good :: "string \<Rightarrow> bool" where
  "ref_good ref \<longleftrightarrow> fs_path ref \<noteq> [] \<and> prefix ''snap:'' (hd (fs_path ref))"

lemma safe_ref_no_sep: "CHR ''/'' \<notin> set (safe_ref ref)"
  by (auto simp: safe_ref_def)

lemma archive_name_ok:
  assumes "tar_mode_ok (ls_compression ls)"
  shows "comp_ok (archive_name ls (safe_ref ref))" and "comp_ok (archive_name ls (safe_ref ref) @ ''.meta.json'')"
proof -
  let ?n = "archive_name ls (safe_ref ref)"
  have "CHR ''/'' \<notin> set ?n"
    using assms safe_ref_no_sep [of ref] by (auto simp: archive_name_def local_suffix_def tar_mode_ok_def)
  moreover have "length ?n > 3" by (simp add: archive_name_def local_suffix_def)
  then have "?n \<noteq> []" "?n \<noteq> ''.''" "?n \<noteq> ''..''" "?n @ ''.meta.json'' \<noteq> ''.''" "?n @ ''.meta.json'' \<noteq> ''..''"
    by auto
  ultimately show "comp_ok ?n" "comp_ok (?n @ ''.meta.json'')" by (auto simp: comp_ok_def)
qed

lemma tiered_paths:
  assumes "local_ok base ls"
  shows "fs_path (tiered_path ls ref) = base @ [archive_name ls (safe_ref ref)]"
    and "fs_path (tiered_path ls ref @ ''.meta.json'') = base @ [archive_name ls (safe_ref ref) @ ''.meta.json'']"
    and "fs_path (ls_base_dir ls) = base"
proof -
  let ?n = "archive_name ls (safe_ref ref)"
  have ok: "base \<noteq> []" "\<forall>c \<in> set base. comp_ok c" "tar_mode_ok (ls_compression ls)" "ls_base_dir ls = path_str base"
    using assms by (simp_all add: local_ok_def)
  have p: "tiered_path ls ref = path_str (base @ [?n])"
    using path_join_str [OF ok(1,2) archive_name_ok(1) [OF ok(3)]] ok(4)
    by (simp add: tiered_path_def archive_name_def)
  then show "fs_path (tiered_path ls ref) = base @ [?n]"
    using ok(2) archive_name_ok(1) [OF ok(3), of ref] by (simp add: fs_path_str)
  have "tiered_path ls ref @ ''.meta.json'' = path_str (base @ [?n @ ''.meta.json''])"
    unfolding p by (simp add: path_str_snoc)
  then show "fs_path (tiered_path ls ref @ ''.meta.json'') = base @ [?n @ ''.meta.json'']"
    using ok(2) archive_name_ok(2) [OF ok(3), of ref] by (simp add: fs_path_str)
  show "fs_path (ls_base_dir ls) = base" using ok(2,4) by simp
qed

lemma makedirs_ready_same: "fs_ready base f \<Longrightarrow> fs_makedirs base f = (Inr (), f)"
  unfolding fs_makedirs_def by (rule makedirs_there) (simp add: fs_ready_def)

lemma suffix_not_meta:
  assumes "tar_mode_ok (ls_compression ls)"
  shows "archive_name ls k' \<noteq> archive_name ls k @ ''.meta.json''"
proof
  assume "archive_name ls k' = archive_name ls k @ ''.meta.json''"
  then have "last (archive_name ls k') = CHR ''n''" by simp
  with assms show False by (auto simp: archive_name_def local_suffix_def tar_mode_ok_def)
qed

lemma fs_isfile_read: "fs_isfile f p \<longleftrightarrow> fs_read f p \<noteq> None"
  by (auto simp: fs_isfile_def fs_read_def split: option.splits entry.splits)

section \<open>A family of local tiers\<close>

definition local_tiers :: "(path \<times> local_store) list \<Rightarrow> tier list \<Rightarrow> bool" where
  "local_tiers bs tiers \<longleftrightarrow>
     length tiers = length bs \<and>
     (\<forall>i < length bs. tr_store (tiers ! i) = listing_ops (snd (bs ! i)) \<and> local_ok (fst (bs ! i)) (snd (bs ! i))) \<and>
     (\<forall>i < length bs. \<forall>j < length bs. i = j \<or> apart (fst (bs ! i)) (fst (bs ! j)))"

definition local_host_ok :: "(path \<times> local_store) list \<Rightarrow> host \<Rightarrow> bool" where
  "local_host_ok bs h \<longleftrightarrow>
     dict_ok (h_fs h) \<and> (\<forall>b \<in> set bs. fs_ready (fst b) (h_fs h)) \<and>
     (\<forall>p e. dget (h_fs h) p = Some e \<longrightarrow> p = [] \<or> \<not> prefix ''snap:'' (hd p))"

definition local_view :: "(path \<times> local_store) list \<Rightarrow> nat \<Rightarrow> host \<Rightarrow> string \<Rightarrow> blob option" where
  "local_view bs i h k = fs_read (h_fs h) (fst (bs ! i) @ [archive_name (snd (bs ! i)) k])"

lemma no_direct_file: "local_host_ok bs h \<Longrightarrow> ref_good ref \<Longrightarrow> fs_read (h_fs h) (fs_path ref) = None"
  by (auto simp: local_host_ok_def ref_good_def fs_read_def fs_lookup_def split: option.splits)

text \<open>Changing the two files of one slot keeps the situation and every other slot.\<close>

lemma slot_change:
  assumes lt: "local_tiers bs tiers" and ok: "local_host_ok bs h" and i: "i < length bs"
    and f: "dict_ok f" "\<And>q. q \<noteq> fst (bs ! i) @ [archive_name (snd (bs ! i)) k] \<Longrightarrow>
        q \<noteq> fst (bs ! i) @ [archive_name (snd (bs ! i)) k @ ''.meta.json''] \<Longrightarrow> dget f q = dget (h_fs h) q"
  shows "local_host_ok bs (h\<lparr>h_fs := f\<rparr>)"
    and "j < length bs \<Longrightarrow> (j, k') \<noteq> (i, k) \<Longrightarrow> local_view bs j (h\<lparr>h_fs := f\<rparr>) k' = local_view bs j h k'"
proof -
  let ?b = "fst (bs ! i)" and ?n = "archive_name (snd (bs ! i)) k"
  have apart: "j < length bs \<Longrightarrow> j = i \<or> apart (fst (bs ! j)) ?b" for j
    using lt i unfolding local_tiers_def by blast
  have lok: "local_ok ?b (snd (bs ! i))" using lt i by (simp add: local_tiers_def)
  have bdir: "?b \<noteq> []" "fs_isdir (h_fs h) ?b"
    using lok ok i by (auto simp: local_ok_def local_host_ok_def fs_ready_def)
  then have hd: "\<not> prefix ''snap:'' (hd ?b)"
    using ok by (auto simp: local_host_ok_def fs_isdir_def fs_lookup_def)
  have out: "q \<noteq> ?b @ [x]" if "j < length bs" "prefix q (fst (bs ! j))" for q j x
  proof
    assume q: "q = ?b @ [x]"
    with that have pre: "prefix ?b (fst (bs ! j))" by (metis append_prefixD)
    show False
    proof (cases "j = i")
      case True
      with that q show False by (simp add: prefix_def)
    next
      case False
      with apart [OF that(1)] pre show False by (auto simp: apart_def)
    qed
  qed
  have ready: "fs_ready (fst (bs ! j)) f" if j: "j < length bs" for j
  proof (rule fs_ready_cong)
    show "fs_ready (fst (bs ! j)) (h_fs h)" using ok j by (simp add: local_host_ok_def)
    show "dget f q = dget (h_fs h) q" if "prefix q (fst (bs ! j))" for q
      using f(2) [of q] out [OF j that] by blast
  qed (rule f(1))
  have names: "p = [] \<or> \<not> prefix ''snap:'' (hd p)" if "dget f p = Some e" for p e
  proof (cases "p = ?b @ [?n] \<or> p = ?b @ [?n @ ''.meta.json'']")
    case True
    with bdir hd show ?thesis by (auto simp: hd_append)
  next
    case False
    with f(2) [of p] that have "dget (h_fs h) p = Some e" by simp
    with ok show ?thesis unfolding local_host_ok_def by blast
  qed
  have "\<forall>b \<in> set bs. fs_ready (fst b) f" using ready by (metis in_set_conv_nth)
  with f(1) names show "local_host_ok bs (h\<lparr>h_fs := f\<rparr>)" by (simp add: local_host_ok_def)
  assume j: "j < length bs" and ne: "(j, k') \<noteq> (i, k)"
  let ?q = "fst (bs ! j) @ [archive_name (snd (bs ! j)) k']"
  have "?q \<noteq> ?b @ [?n] \<and> ?q \<noteq> ?b @ [?n @ ''.meta.json'']"
  proof (cases "j = i")
    case True
    have "tar_mode_ok (ls_compression (snd (bs ! i)))" using lok by (simp add: local_ok_def)
    from suffix_not_meta [OF this] True ne show ?thesis by (auto simp: archive_name_def)
  next
    case False
    with apart [OF j] show ?thesis by (auto simp: apart_def)
  qed
  with f(2) [of ?q] show "local_view bs j (h\<lparr>h_fs := f\<rparr>) k' = local_view bs j h k'"
    by (simp add: local_view_def fs_read_def fs_lookup_def)
qed

lemma local_put_slot:
  assumes lt: "local_tiers bs tiers" and ok: "local_host_ok bs h" and i: "i < length bs"
    and run: "local_put (snd (bs ! i)) a tag (Bytes b) c tpl (Some ref) h = (r, h')"
  shows "local_host_ok bs h' \<and>
    (\<forall>j k. j < length bs \<longrightarrow> (j, k) \<noteq> (i, safe_ref ref) \<longrightarrow> local_view bs j h' k = local_view bs j h k) \<and>
    local_view bs i h' (safe_ref ref) \<in> {local_view bs i h (safe_ref ref), Some b} \<and>
    (\<forall>m. r = Inr m \<longrightarrow> local_view bs i h' (safe_ref ref) = Some b \<and> sm_snapshot_ref m = ref) \<and>
    r \<noteq> Inl CancelledError"
proof -
  let ?ls = "snd (bs ! i)" and ?base = "fst (bs ! i)"
  let ?n = "archive_name ?ls (safe_ref ref)"
  have lok: "local_ok ?base ?ls" using lt i by (simp add: local_tiers_def)
  note paths = tiered_paths [OF lok]
  have ready: "fs_ready ?base (h_fs h)" and dok: "dict_ok (h_fs h)" using ok i by (simp_all add: local_host_ok_def)
  obtain r1 f1 where w1: "fs_write (?base @ [?n]) b (h_fs h) = (r1, f1)"
    by (cases "fs_write (?base @ [?n]) b (h_fs h)")
  note c1 = fs_write_changes [OF w1 dok]
  have fail: "fs_write p x f = (Inl e, f') \<Longrightarrow> f' = f \<and> e \<noteq> CancelledError" for p x f e f'
    by (auto simp: fs_write_def fs_missing_def split: if_splits)
  note change = slot_change [OF lt ok i, of _ "safe_ref ref"]
  let ?meta = "\<lparr>sm_snapshot_ref = ref, sm_actor_id = a, sm_template_id = tpl, sm_tag = tag,
      sm_size_bytes = int (h_size h b), sm_created_at = h_mono h, sm_compression = c,
      sm_checksum = Some (h_digest h b)\<rparr>"
  show ?thesis
  proof (cases r1)
    case (Inl e)
    with w1 fail have f1: "f1 = h_fs h" "e \<noteq> CancelledError" by blast+
    have "r = Inl e" "h' = h\<lparr>h_fs := h_fs h\<rparr>"
      using run Inl w1 f1 by (simp_all add: local_put_def paths makedirs_ready_same [OF ready])
    with ok f1(2) show ?thesis by simp
  next
    case (Inr u)
    obtain r2 f2 where w2: "fs_write (?base @ [?n @ ''.meta.json'']) (Json (meta_json ?meta)) f1 = (r2, f2)"
      by (cases "fs_write (?base @ [?n @ ''.meta.json'']) (Json (meta_json ?meta)) f1")
    note c2 = fs_write_changes [OF w2 c1(1)]
    have res: "h' = h\<lparr>h_fs := f2\<rparr>" "r = (case r2 of Inl e \<Rightarrow> Inl e | Inr _ \<Rightarrow> Inr ?meta)"
      using run Inr w1 w2 by (auto simp: local_put_def paths makedirs_ready_same [OF ready] split: sum.splits)
    have f2: "dget f2 q = dget (h_fs h) q" if "q \<noteq> ?base @ [?n]" "q \<noteq> ?base @ [?n @ ''.meta.json'']" for q
      using c2(2) [OF that(2)] c1(2) [OF that(1)] by simp
    have "dget f2 (?base @ [?n]) = Some (FileE b)"
      using c2(2) [of "?base @ [?n]"] c1(3) [OF Inr] by simp
    then have "local_view bs i h' (safe_ref ref) = Some b"
      by (simp add: res local_view_def fs_read_def fs_lookup_def)
    moreover have "r2 \<noteq> Inl CancelledError" using w2 fail by blast
    ultimately show ?thesis using change [OF c2(1) f2] res by (auto split: sum.splits)
  qed
qed

lemma local_delete_slot:
  assumes lt: "local_tiers bs tiers" and ok: "local_host_ok bs h" and i: "i < length bs" and good: "ref_good ref"
    and run: "local_delete (snd (bs ! i)) ref h = (r, h')"
  shows "local_host_ok bs h' \<and>
    (\<forall>j k. j < length bs \<longrightarrow> (j, k) \<noteq> (i, safe_ref ref) \<longrightarrow> local_view bs j h' k = local_view bs j h k) \<and>
    local_view bs i h' (safe_ref ref) = None"
proof -
  let ?ls = "snd (bs ! i)" and ?base = "fst (bs ! i)"
  let ?n = "archive_name ?ls (safe_ref ref)"
  have lok: "local_ok ?base ?ls" using lt i by (simp add: local_tiers_def)
  note paths = tiered_paths [OF lok]
  have dok: "dict_ok (h_fs h)" using ok by (simp add: local_host_ok_def)
  have direct: "\<not> fs_isfile (h_fs h) (fs_path ref)"
    using no_direct_file [OF ok good] by (simp add: fs_isfile_read)
  show ?thesis
  proof (cases "fs_isfile (h_fs h) (?base @ [?n])")
    case False
    with run direct paths have "h' = h" by (auto simp: local_delete_def Let_def)
    with ok False show ?thesis by (simp add: local_view_def fs_isfile_read)
  next
    case True
    let ?f1 = "fs_unlink (?base @ [?n]) (h_fs h)"
    define f2 where "f2 = (if fs_isfile ?f1 (?base @ [?n @ ''.meta.json'']) then fs_unlink (?base @ [?n @ ''.meta.json'']) ?f1 else ?f1)"
    have h': "h' = h\<lparr>h_fs := f2\<rparr>" using run True direct paths by (auto simp: local_delete_def Let_def f2_def)
    have f2: "dict_ok f2" "dget f2 (?base @ [?n]) = None"
      "q \<noteq> ?base @ [?n] \<Longrightarrow> q \<noteq> ?base @ [?n @ ''.meta.json''] \<Longrightarrow> dget f2 q = dget (h_fs h) q" for q
      using dok by (auto simp: f2_def fs_unlink_def dict_simps)
    from slot_change [OF lt ok i f2(1) f2(3), of "safe_ref ref"] f2(2) h'
    show ?thesis by (simp add: local_view_def fs_read_def fs_lookup_def)
  qed
qed

interpretation local_family: tier_backends "if local_tiers bs tiers then tiers else []" ref_good safe_ref
  "local_host_ok bs" "local_view bs"
  for bs tiers
proof (unfold_locales, goal_cases)
  case (1 i h ref)
  then have lt: "local_tiers bs tiers" and i: "i < length bs" by (auto simp: local_tiers_def split: if_splits)
  have "local_ok (fst (bs ! i)) (snd (bs ! i))" and st: "tr_store (tiers ! i) = listing_ops (snd (bs ! i))"
    using lt i by (simp_all add: local_tiers_def)
  note paths = tiered_paths [OF this(1)]
  show ?case
    using 1(2,3) lt no_direct_file [of bs h ref]
    by (simp add: st listing_ops_def local_get_def paths local_view_def split: option.split)
next
  case (2 i h ref a tag b c tpl r h')
  then have lt: "local_tiers bs tiers" and i: "i < length bs" by (auto simp: local_tiers_def split: if_splits)
  then have st: "tr_store (tiers ! i) = listing_ops (snd (bs ! i))" and len: "length tiers = length bs"
    by (simp_all add: local_tiers_def)
  have "local_put (snd (bs ! i)) a tag (Bytes b) c tpl (Some ref) h = (r, h')"
    using 2(4) lt by (simp add: st listing_ops_def)
  from local_put_slot [OF lt 2(2) i this] lt len show ?case by auto
next
  case (3 i h ref rd h')
  then have lt: "local_tiers bs tiers" and i: "i < length bs" by (auto simp: local_tiers_def split: if_splits)
  then have st: "tr_store (tiers ! i) = listing_ops (snd (bs ! i))" and len: "length tiers = length bs"
    by (simp_all add: local_tiers_def)
  have "local_delete (snd (bs ! i)) ref h = (rd, h')" using 3(4) lt by (simp add: st listing_ops_def)
  from local_delete_slot [OF lt 3(2) i 3(3) this] lt len show ?case by auto
qed


section \<open>Properties\<close>

text \<open>What the tiers together hold under a reference: the content in the first tier that has one.\<close>

definition tiered_map :: "(path \<times> local_store) list \<Rightarrow> host \<Rightarrow> string \<Rightarrow> blob option" where
  "tiered_map bs h ref = first_some (\<lambda>i. local_view bs i h (safe_ref ref)) [0..<length bs]"

lemma tiered_map_view:
  "local_tiers bs tiers \<Longrightarrow> tier_backends.tier_view tiers safe_ref (local_view bs) h ref = tiered_map bs h ref"
  using local_family.tier_view_def [of bs tiers h ref] by (simp add: tiered_map_def local_tiers_def)

lemma local_get_spec:
  assumes "local_tiers bs (td_tiers td)" and "local_host_ok bs h" and "ref_good ref"
    and "tiered_get ref (td, h) = (r, td', h')"
  shows "local_host_ok bs h' \<and> td_tiers td' = td_tiers td \<and>
    r = (case tiered_map bs h ref of None \<Rightarrow> Inl KeyError | Some b \<Rightarrow> Inr b) \<and>
    (\<forall>ref'. ref_good ref' \<longrightarrow> tiered_map bs h' ref' = tiered_map bs h ref')"
  using local_family.tiered_get_spec [where bs = bs and tiers = "td_tiers td", of td h ref r td' h'] assms
  by (simp add: tiered_map_view)

lemma local_tiered_put_spec:
  assumes "local_tiers bs (td_tiers td)" and "local_host_ok bs h" and "ref_good (make_ref a tag (h_mono h))"
    and "\<forall>i < length bs. tr_write_through (td_tiers td ! i) \<or> local_view bs i h (safe_ref (make_ref a tag (h_mono h))) = None"
    and "tiered_put a tag b c tpl (td, h) = (Inr m, td', h')"
  shows "sm_snapshot_ref m = make_ref a tag (h_mono h) \<and> local_host_ok bs h' \<and> td_tiers td' = td_tiers td \<and>
    tiered_map bs h' (make_ref a tag (h_mono h)) = Some b \<and>
    (\<forall>i < length bs. \<not> tr_write_through (td_tiers td ! i) \<or>
       local_view bs i h' (safe_ref (make_ref a tag (h_mono h))) = Some b) \<and>
    (\<forall>ref'. ref_good ref' \<longrightarrow> safe_ref ref' \<noteq> safe_ref (make_ref a tag (h_mono h)) \<longrightarrow>
       tiered_map bs h' ref' = tiered_map bs h ref')"
proof -
  have len: "length (td_tiers td) = length bs" using assms(1) by (simp add: local_tiers_def)
  note spec = local_family.tiered_put_spec [where bs = bs and tiers = "td_tiers td", of td h a tag b c tpl m td' h']
  from spec assms len show ?thesis by (simp add: tiered_map_view) blast
qed

text \<open>Two local tiers, one evicting by use and one by age, on an empty disk.\<close>

definition demo_ls :: "string \<Rightarrow> local_store" where
  "demo_ls d = \<lparr>ls_base_dir = path_str [d], ls_compression = ''gz''\<rparr>"

definition demo_bs :: "(path \<times> local_store) list" where
  "demo_bs = [([''fast''], demo_ls ''fast''), ([''slow''], demo_ls ''slow'')]"

definition demo_tier :: "string \<Rightarrow> eviction_policy \<Rightarrow> tier" where
  "demo_tier d pol = \<lparr>tr_name = d, tr_store = listing_ops (demo_ls d), tr_priority = 0, tr_max_size_bytes = 0,
     tr_max_objects = 1, tr_eviction_policy = pol, tr_ttl_seconds = 1, tr_write_through = True\<rparr>"

definition demo_td :: tiered where
  "demo_td = \<lparr>td_tiers = [demo_tier ''fast'' LRU, demo_tier ''slow'' TTL], td_sweep_interval = 60,
     td_tier_refs = map (\<lambda>n. (n, set [''snap:a:t:0'', ''snap:a:t:1''])) [''fast'', ''slow''],
     td_access_times = [(''snap:a:t:0'', 1/2), (''snap:a:t:1'', 3/2)], td_meta_cache = [],
     td_sweep_task = False, td_closed = False, td_order = (\<lambda>A. [''snap:a:t:0'', ''snap:a:t:1''])\<rparr>"

definition demo_disk :: host where
  "demo_disk = demo_host [([], DirE), ([''fast''], DirE), ([''slow''], DirE)]"

lemma demo_family: "local_tiers demo_bs (td_tiers demo_td)"
  unfolding local_tiers_def by (simp add: demo_bs_def demo_td_def demo_tier_def demo_ls_def local_ok_def
    comp_ok_def tar_mode_ok_def apart_def less_Suc_eq_0_disj nth_Cons' split: if_splits)

lemma demo_disk_ok: "local_host_ok demo_bs demo_disk"
  unfolding local_host_ok_def
  by (auto simp: demo_bs_def demo_disk_def demo_host_def dict_ok_def fs_ready_def fs_isdir_def fs_lookup_def
    prefix_Cons split: if_splits)

lemma demo_ref: "make_ref ''a'' ''t'' (h_mono demo_disk) = ''snap:a:t:2.000000''"
  by (simp add: make_ref_def demo_disk_def demo_host_def demo_time)

lemma demo_ref_good: "ref_good ''snap:a:t:2.000000''" "ref_good ''snap:a:t:0''"
  by code_simp+

lemma demo_fields:
  "td_order demo_td A = [''snap:a:t:0'', ''snap:a:t:1'']"
  "td_access_times demo_td = [(''snap:a:t:0'', 1/2), (''snap:a:t:1'', 3/2)]"
  "refs_of demo_td ''fast'' = {''snap:a:t:0'', ''snap:a:t:1''}" "refs_of demo_td ''slow'' = {''snap:a:t:0'', ''snap:a:t:1''}"
  "h_mono demo_disk = 2" "td_tiers demo_td = [demo_tier ''fast'' LRU, demo_tier ''slow'' TTL]"
  by (simp_all add: demo_td_def refs_of_def demo_disk_def demo_host_def)

lemma demo_put: "\<exists>m x. tiered_put ''a'' ''t'' (Raw ''x'') ''gz'' None (demo_td, demo_disk) = (Inr m, x)"
proof -
  let ?cm = "\<lparr>cm_actor_id = ''a'', cm_tag = ''t'', cm_template_id = None, cm_compression = ''gz''\<rparr>"
  have "(case gathered (fst (write_all ''snap:a:t:2.000000'' ?cm (Raw ''x'') (td_tiers demo_td) (demo_td, demo_disk)))
         of Inl e \<Rightarrow> False | Inr ms \<Rightarrow> True)"
    by code_simp
  moreover have "filter tr_write_through (td_tiers demo_td) = td_tiers demo_td" "td_tiers demo_td \<noteq> []"
    by (simp_all add: demo_fields demo_tier_def)
  ultimately show ?thesis
    by (auto simp: tiered_put_def Let_def demo_ref split: prod.splits sum.splits)
qed

text \<open>
  C12: What a put stored under a reference comes back: the reference it returns is the unified one,
  every write-through tier holds the content, and a get of it returns exactly those bytes.
\<close>

theorem tiered_put_get:
  assumes "local_tiers bs (td_tiers td)" and "local_host_ok bs h" and "ref_good (make_ref a tag (h_mono h))"
    and "\<forall>i < length bs. tr_write_through (td_tiers td ! i) \<or> local_view bs i h (safe_ref (make_ref a tag (h_mono h))) = None"
    and "tiered_put a tag b c tpl (td, h) = (Inr m, td', h')"
  shows "sm_snapshot_ref m = make_ref a tag (h_mono h) \<and>
    fst (tiered_get (sm_snapshot_ref m) (td', h')) = Inr b \<and>
    (\<forall>i < length bs. \<not> tr_write_through (td_tiers td ! i) \<or>
       local_view bs i h' (safe_ref (sm_snapshot_ref m)) = Some b)"
proof -
  note put = local_tiered_put_spec [OF assms]
  obtain r td2 h2 where g: "tiered_get (make_ref a tag (h_mono h)) (td', h') = (r, td2, h2)" by (metis prod_cases3)
  from put assms(1) have "local_tiers bs (td_tiers td')" by simp
  from local_get_spec [OF this _ assms(3) g] put g show ?thesis by simp
qed

theorem tiered_put_get_witness:
  "\<exists>m td' h'. tiered_put ''a'' ''t'' (Raw ''x'') ''gz'' None (demo_td, demo_disk) = (Inr m, td', h') \<and>
     fst (tiered_get (sm_snapshot_ref m) (td', h')) = Inr (Raw ''x'')"
proof -
  obtain m td' h' where p: "tiered_put ''a'' ''t'' (Raw ''x'') ''gz'' None (demo_td, demo_disk) = (Inr m, td', h')"
    using demo_put by (metis prod.exhaust)
  have "\<forall>i < length demo_bs. tr_write_through (td_tiers demo_td ! i)"
    by (simp add: demo_bs_def demo_fields demo_tier_def less_Suc_eq_0_disj nth_Cons')
  with tiered_put_get [OF demo_family demo_disk_ok _ _ p] demo_ref_good
  have "fst (tiered_get (sm_snapshot_ref m) (td', h')) = Inr (Raw ''x'')" unfolding demo_ref by blast
  with p show ?thesis by blast
qed

text \<open>
  C19: The tiered store refines one map from references to contents: a get answers from the map,
  a \<open>KeyError\<close> exactly for a reference it does not hold, and whatever it promotes on the way
  leaves the map, for every reference, as it was.
\<close>

theorem tiered_get_refines_map:
  assumes "local_tiers bs (td_tiers td)" and "local_host_ok bs h" and "ref_good ref" and "ref_good ref'"
  shows "fst (tiered_get ref (td, h)) = (case tiered_map bs h ref of None \<Rightarrow> Inl KeyError | Some b \<Rightarrow> Inr b) \<and>
    tiered_map bs (snd (snd (tiered_get ref (td, h)))) ref' = tiered_map bs h ref'"
proof -
  obtain r td2 h2 where g: "tiered_get ref (td, h) = (r, td2, h2)" by (metis prod_cases3)
  from local_get_spec [OF assms(1-3) g] g assms(4) show ?thesis by simp
qed

theorem tiered_get_refines_map_witness:
  "fst (tiered_get ''snap:a:t:0'' (demo_td, demo_disk)) = Inl KeyError"
proof -
  have "tiered_map demo_bs demo_disk ''snap:a:t:0'' = None" by code_simp
  with tiered_get_refines_map [OF demo_family demo_disk_ok demo_ref_good(2) demo_ref_good(2)] show ?thesis by simp
qed

text \<open>
  A delete that no tier refuses returns, empties the reference's slot in every tier, and
  leaves every reference with another slot as it was.
\<close>

theorem tiered_delete_erases:
  assumes "local_tiers bs (td_tiers td)" and "local_host_ok bs h" and "ref_good ref"
    and "delete_from ref (td_tiers td) (td, h) = (Inr 0, td1, h1)"
  shows "fst (tiered_delete ref (td, h)) = Inr () \<and> tiered_map bs h1 ref = None \<and>
    (\<forall>ref'. \<not> ref_good ref' \<or> safe_ref ref' = safe_ref ref \<or> tiered_map bs h1 ref' = tiered_map bs h ref')"
proof -
  note spec = local_family.tiered_delete_spec [where bs = bs and tiers = "td_tiers td", of td h ref td1 h1]
  from spec assms show ?thesis by (auto simp: tiered_map_view)
qed

theorem tiered_delete_erases_witness:
  "fst (tiered_delete ''snap:a:t:0'' (demo_td, demo_disk)) = Inr ()"
proof -
  have "fst (delete_from ''snap:a:t:0'' (td_tiers demo_td) (demo_td, demo_disk)) = Inr 0" by code_simp
  then obtain td1 h1 where "delete_from ''snap:a:t:0'' (td_tiers demo_td) (demo_td, demo_disk) = (Inr 0, td1, h1)"
    by (metis fst_conv prod_cases3)
  from tiered_delete_erases [OF demo_family demo_disk_ok demo_ref_good(2) this] show ?thesis by simp
qed

text \<open>
  C20: Eviction by least recent use ends within the tier's object limit, drops no reference that was
  accessed later than one it keeps, and stops as soon as the limit is met.
\<close>

theorem lru_eviction:
  assumes "tr_eviction_policy t = LRU" and "td_order td (refs_of td (tr_name t)) = refs"
    and "set refs = refs_of td (tr_name t)" and "distinct refs"
    and "evict_tier t (td, h) = (Inr (), td', h')"
  shows "int (card (refs_of td' (tr_name t))) =
      (if tier_within_limits t (refs_of td (tr_name t)) then int (card (refs_of td (tr_name t))) else tr_max_objects t) \<and>
    refs_of td' (tr_name t) \<subseteq> refs_of td (tr_name t) \<and>
    (\<forall>kept \<in> refs_of td' (tr_name t). \<forall>gone \<in> refs_of td (tr_name t) - refs_of td' (tr_name t).
       access_time td gone \<le> access_time td kept)"
proof (cases "refs = []")
  case True
  with assms show ?thesis by (auto simp: evict_tier_def tier_within_limits_def)
next
  case False
  let ?s = "sort_key (access_time td) refs"
  from assms False have run: "evict_lru t ?s (td, h) = (Inr (), td', h')" by (simp add: evict_tier_def)
  have refs: "refs_of td (tr_name t) = set ?s" "distinct ?s" using assms(3,4) by simp_all
  from evict_lru_prefix [OF run refs] obtain n where n: "n \<le> length ?s"
    "refs_of td' (tr_name t) = set (drop n ?s)" "tier_within_limits t (set (drop n ?s)) \<or> n = length ?s"
    "\<forall>m < n. \<not> tier_within_limits t (set (drop m ?s))" by blast
  have within: "tier_within_limits t (set (drop n ?s))" using n(3)
  proof
    assume "n = length ?s"
    then have "drop n ?s = []" by (rule drop_all [OF eq_imp_le, OF sym])
    then show ?thesis by (simp only: list.set) (simp add: tier_within_limits_def)
  qed
  have "int (card (set (drop n ?s))) =
      (if tier_within_limits t (set ?s) then int (card (set ?s)) else tr_max_objects t)"
  proof (cases n)
    case 0
    with within show ?thesis by simp
  next
    case (Suc m)
    have card: "card (set (drop k ?s)) = length ?s - k" for k
      using refs(2) by (metis distinct_card distinct_drop length_drop)
    have "\<not> tier_within_limits t (set (drop m ?s))" "\<not> tier_within_limits t (set ?s)"
      using n(4) Suc by (force, metis drop0 zero_less_Suc)
    with within Suc n(1) show ?thesis by (auto simp: tier_within_limits_def card simp del: set_sort)
  qed
  moreover have "access_time td gone \<le> access_time td kept"
    if "kept \<in> set (drop n ?s)" "gone \<in> set ?s - set (drop n ?s)" for kept gone
  proof -
    have "sorted (map (access_time td) (take n ?s @ drop n ?s))" by simp
    moreover have "gone \<in> set (take n ?s)" using that(2) by (metis DiffE Un_iff append_take_drop_id set_append)
    ultimately show ?thesis using that(1) unfolding map_append sorted_append by auto
  qed
  ultimately show ?thesis unfolding n(2) refs(1) using set_drop_subset [of n ?s] by blast
qed

theorem lru_eviction_witness:
  "\<exists>td' h'. evict_tier (demo_tier ''fast'' LRU) (demo_td, demo_disk) = (Inr (), td', h') \<and>
     card (refs_of td' ''fast'') = 1"
proof -
  have "fst (evict_lru (demo_tier ''fast'' LRU) [''snap:a:t:0'', ''snap:a:t:1''] (demo_td, demo_disk)) = Inr ()"
    by code_simp
  then have "fst (evict_tier (demo_tier ''fast'' LRU) (demo_td, demo_disk)) = Inr ()"
    by (simp add: evict_tier_def demo_fields access_time_def demo_tier_def)
  then obtain td' h' where e: "evict_tier (demo_tier ''fast'' LRU) (demo_td, demo_disk) = (Inr (), td', h')"
    by (metis fst_conv prod_cases3)
  have "tr_eviction_policy (demo_tier ''fast'' LRU) = LRU" "tr_name (demo_tier ''fast'' LRU) = ''fast''"
    by (simp_all add: demo_tier_def)
  with lru_eviction [OF _ _ _ _ e] have "int (card (refs_of td' ''fast'')) = 1"
    by (simp add: demo_fields tier_within_limits_def demo_tier_def)
  with e show ?thesis by auto
qed

text \<open>
  Eviction by age drops exactly the references whose last access is further back than the
  tier's time to live; a tier without one drops none.
\<close>

theorem ttl_eviction:
  assumes "tr_eviction_policy t = TTL" and "set (td_order td (refs_of td (tr_name t))) = refs_of td (tr_name t)"
    and "evict_tier t (td, h) = (Inr (), td', h')"
  shows "refs_of td' (tr_name t) =
    {ref \<in> refs_of td (tr_name t). tr_ttl_seconds t \<le> 0 \<or> h_mono h - access_time td ref \<le> tr_ttl_seconds t}"
proof (cases "td_order td (refs_of td (tr_name t)) = [] \<or> tr_ttl_seconds t \<le> 0")
  case True
  then show ?thesis
  proof
    assume empty: "td_order td (refs_of td (tr_name t)) = []"
    with assms(2) have "refs_of td (tr_name t) = {}" by (simp only: list.set)
    moreover from empty assms(3) have "td' = td" by (simp add: evict_tier_def)
    ultimately show ?thesis by simp
  next
    assume "tr_ttl_seconds t \<le> 0"
    with assms(1,3) have "td' = td" by (simp add: evict_tier_def Let_def split: if_splits)
    with \<open>tr_ttl_seconds t \<le> 0\<close> show ?thesis by simp
  qed
next
  case False
  with assms(1,3) have run: "evict_ttl t (h_mono h) (td_order td (refs_of td (tr_name t))) (td, h) = (Inr (), td', h')"
    by (simp add: evict_tier_def Let_def)
  have pos: "\<not> tr_ttl_seconds t \<le> 0" using False by blast
  show ?thesis
    unfolding evict_ttl_refs [OF run, unfolded assms(2)] not_less [symmetric] using pos [unfolded not_less [symmetric]]
    by blast
qed

theorem ttl_eviction_witness:
  "\<exists>td' h'. evict_tier (demo_tier ''slow'' TTL) (demo_td, demo_disk) = (Inr (), td', h') \<and>
     refs_of td' ''slow'' = {''snap:a:t:1''}"
proof -
  have "fst (evict_ref (demo_tier ''slow'' TTL) ''snap:a:t:0'' (demo_td, demo_disk)) = Inr ()" by code_simp
  then obtain td' h' where r: "evict_ref (demo_tier ''slow'' TTL) ''snap:a:t:0'' (demo_td, demo_disk) = (Inr (), td', h')"
    by (metis fst_conv prod_cases3)
  have t: "tr_eviction_policy (demo_tier ''slow'' TTL) = TTL" "tr_name (demo_tier ''slow'' TTL) = ''slow''"
    "tr_ttl_seconds (demo_tier ''slow'' TTL) = 1" by (simp_all add: demo_tier_def)
  have "td_access_times td' = td_access_times demo_td" using evict_ref_refs [OF r] by simp
  with r t have e: "evict_tier (demo_tier ''slow'' TTL) (demo_td, demo_disk) = (Inr (), td', h')"
    by (simp add: evict_tier_def demo_fields access_time_def)
  have times: "access_time demo_td ''snap:a:t:0'' = 1/2" "access_time demo_td ''snap:a:t:1'' = 3/2"
    by (simp_all add: access_time_def demo_fields)
  have "refs_of td' ''slow'' = {ref \<in> {''snap:a:t:0'', ''snap:a:t:1''}. \<not> 2 - access_time demo_td ref > 1}"
    using ttl_eviction [OF t(1) _ e] unfolding t demo_fields by (simp add: not_less)
  also have "\<dots> = {''snap:a:t:1''}" using times by auto
  finally show ?thesis using e by blast
qed

text \<open>
  The file name of a tiered snapshot does not tell every two references apart: two actors
  whose names differ in where an underscore and the separator fall share one file.
\<close>

theorem tiered_name_collision:
  "safe_ref (make_ref (x @ ''_'' @ y) z ts) = safe_ref (make_ref x (y @ ''_'' @ z) ts) \<and>
   tiered_path ls (make_ref (x @ ''_'' @ y) z ts) = tiered_path ls (make_ref x (y @ ''_'' @ z) ts) \<and>
   make_ref (x @ ''_'' @ y) z ts \<noteq> make_ref x (y @ ''_'' @ z) ts"
  by (simp add: safe_ref_def tiered_path_def make_ref_def)

end
