(* ===== verification/VFS_Workspace.thy ===== *)
theory VFS_Workspace
  imports Checkpoint
begin

text \<open>
  \<open>_vfs/_base.py\<close> and \<open>_vfs/_agentfs.py\<close>: a workspace whose files live in a directory of the
  host. The backend translates the primitives \<open>exec_shell\<close>, \<open>read_file\<close> and \<open>write_file\<close> into
  operations on that directory and refuses paths outside it; the workspace takes snapshots of
  the directory and rolls it back to them.

  Subprocesses are a parameter: what running a command with a working directory and a timeout
  does to the host. The messages of failed commands are kept as data instead of formatted text.
\<close>

section \<open>The backend\<close>

record agentfs =
  af_workdir :: string
  af_exec_timeout :: time

definition agentfs_init :: "string \<Rightarrow> time \<Rightarrow> host \<Rightarrow> agentfs result \<times> host" where
  "agentfs_init workdir exec_timeout h =
     (case fs_makedirs (fs_path workdir) (h_fs h) of
        (Inl e, f) \<Rightarrow> (Inl e, h\<lparr>h_fs := f\<rparr>)
      | (Inr _, f) \<Rightarrow> (Inr \<lparr>af_workdir = workdir, af_exec_timeout = exec_timeout\<rparr>, h\<lparr>h_fs := f\<rparr>))"

definition is_abs :: "string \<Rightarrow> bool" where
  "is_abs s \<longleftrightarrow> s \<noteq> [] \<and> hd s = CHR ''/''"

definition realpath :: "string \<Rightarrow> string" where
  "realpath s = (let p = fs_path s in if p = [] then ''/'' else path_str p)"

definition inside :: "string \<Rightarrow> string \<Rightarrow> bool" where
  "inside full base \<longleftrightarrow> full = base \<or> prefix (base @ ''/'') full"

definition af_resolve :: "agentfs \<Rightarrow> string \<Rightarrow> string result" where
  "af_resolve af path =
     (let rel = (if is_abs path then dropWhile (\<lambda>c. c = CHR ''/'') path else path);
          full = realpath (path_join (af_workdir af) rel);
          workdir_real = realpath (af_workdir af)
      in if inside full workdir_real then Inr full else Inl PermissionError)"

definition fs_open_read :: "fs \<Rightarrow> string \<Rightarrow> blob result" where
  "fs_open_read f s =
     (case fs_lookup f (fs_path s) of
        None \<Rightarrow> Inl (fs_missing f (fs_path s))
      | Some DirE \<Rightarrow> Inl (OtherError ''IsADirectoryError'')
      | Some (FileE b) \<Rightarrow> Inr b)"

definition af_read :: "agentfs \<Rightarrow> string \<Rightarrow> host \<Rightarrow> blob result \<times> host" where
  "af_read af path h =
     (case af_resolve af path of
        Inl e \<Rightarrow> (Inl e, h)
      | Inr full \<Rightarrow> (fs_open_read (h_fs h) full, h))"

definition af_write :: "agentfs \<Rightarrow> string \<Rightarrow> blob \<Rightarrow> host \<Rightarrow> unit result \<times> host" where
  "af_write af path data h =
     (case af_resolve af path of
        Inl e \<Rightarrow> (Inl e, h)
      | Inr full \<Rightarrow>
          (let dir = path_dirname full;
               tmp = fs_path (full @ ''.agentfs.tmp'')
           in case fs_makedirs (fs_path (if dir = [] then ''.'' else dir)) (h_fs h) of
             (Inl e, f) \<Rightarrow> (Inl e, h\<lparr>h_fs := f\<rparr>)
           | (Inr _, f) \<Rightarrow>
               (case fs_write tmp data f of
                  (Inl e, f1) \<Rightarrow> (Inl e, h\<lparr>h_fs := f1\<rparr>)
                | (Inr _, f1) \<Rightarrow>
                    (case fs_replace tmp (fs_path full) f1 of
                       (r, f2) \<Rightarrow> (r, h\<lparr>h_fs := f2\<rparr>)))))"

datatype exec_output =
    Output blob
  | Empty_command
  | Cwd_escapes string string
  | Command_not_found string
  | Timed_out_after time

record exec_result =
  er_exit_code :: int
  er_stdout :: exec_output
  er_stderr :: exec_output

text \<open>What a spawned command does: it is not there, it ends, or it is killed at the timeout.\<close>

datatype spawned = Spawn_missing | Spawn_failed exn | Ended "int option" blob blob | Overdue

type_synonym runner = "string list \<Rightarrow> string \<Rightarrow> time \<Rightarrow> host \<Rightarrow> spawned \<times> host"

definition exec_failed :: "int \<Rightarrow> exec_output \<Rightarrow> exec_result" where
  "exec_failed code msg = \<lparr>er_exit_code = code, er_stdout = Output (Raw ''''), er_stderr = msg\<rparr>"

definition af_exec ::
  "runner \<Rightarrow> agentfs \<Rightarrow> string list \<Rightarrow> string \<Rightarrow> time option \<Rightarrow> host \<Rightarrow> exec_result result \<times> host" where
  "af_exec run af command cwd timeout h =
     (if command = [] then (Inr (exec_failed 2 Empty_command), h)
      else
        (let effective_timeout = (case timeout of Some t \<Rightarrow> t | None \<Rightarrow> af_exec_timeout af);
             dir = realpath (if is_abs cwd then cwd else path_join (af_workdir af) cwd);
             workdir_real = realpath (af_workdir af)
         in if \<not> inside dir workdir_real then (Inr (exec_failed 126 (Cwd_escapes dir workdir_real)), h)
            else (case fs_makedirs (fs_path dir) (h_fs h) of
              (Inl e, f) \<Rightarrow> (Inl e, h\<lparr>h_fs := f\<rparr>)
            | (Inr _, f) \<Rightarrow>
                (case run command dir effective_timeout (h\<lparr>h_fs := f\<rparr>) of
                   (Spawn_missing, h1) \<Rightarrow> (Inr (exec_failed 127 (Command_not_found (hd command))), h1)
                 | (Spawn_failed e, h1) \<Rightarrow> (Inl e, h1)
                 | (Overdue, h1) \<Rightarrow> (Inr (exec_failed (- 1) (Timed_out_after effective_timeout)), h1)
                 | (Ended code out err, h1) \<Rightarrow>
                     (Inr \<lparr>er_exit_code = (case code of Some c \<Rightarrow> c | None \<Rightarrow> - 1),
                           er_stdout = Output out, er_stderr = Output err\<rparr>, h1)))))"

text \<open>The primitives of \<open>VFSBackendBase\<close>, dispatched to the translation.\<close>

definition exec_shell ::
  "runner \<Rightarrow> agentfs \<Rightarrow> string list \<Rightarrow> string option \<Rightarrow> time option \<Rightarrow> host \<Rightarrow> exec_result result \<times> host" where
  "exec_shell run af command cwd timeout h =
     af_exec run af command
       (case cwd of Some d \<Rightarrow> if d \<noteq> [] then d else af_workdir af | None \<Rightarrow> af_workdir af) timeout h"

section \<open>The workspace\<close>

text \<open>\<open>vw_backend\<close> is the attribute of the inherited base class, \<open>vw_vfs_backend\<close> the workspace's own.\<close>

record vfs_workspace =
  vw_workspace_id :: string
  vw_host_workdir :: string
  vw_snapshots_root :: string
  vw_vfs_backend :: "agentfs option"
  vw_backend :: "agentfs option"
  vw_is_alive :: bool

text \<open>\<open>tmp_root\<close> is the directory for temporary files, \<open>workspace_id\<close> the id the base class settled on.\<close>

definition vfs_init ::
  "string \<Rightarrow> string \<Rightarrow> string option \<Rightarrow> string option \<Rightarrow> host \<Rightarrow> vfs_workspace result \<times> host" where
  "vfs_init tmp_root workspace_id host_workdir snapshots_root h =
     (case (case host_workdir of
              Some d \<Rightarrow> if d \<noteq> [] then (Inr d, h) else mkdtemp (''as_vfs_'' @ workspace_id @ ''_'') tmp_root h
            | None \<Rightarrow> mkdtemp (''as_vfs_'' @ workspace_id @ ''_'') tmp_root h) of
        (Inl e, h1) \<Rightarrow> (Inl e, h1)
      | (Inr d, h1) \<Rightarrow>
          (Inr \<lparr>vw_workspace_id = workspace_id, vw_host_workdir = d,
                vw_snapshots_root =
                  (case snapshots_root of
                     Some s \<Rightarrow> if s \<noteq> [] then s else rstrip_sep d @ ''.snapshots''
                   | None \<Rightarrow> rstrip_sep d @ ''.snapshots''),
                vw_vfs_backend = None, vw_backend = None, vw_is_alive = False\<rparr>, h1))"

definition vfs_get_backend :: "vfs_workspace \<Rightarrow> agentfs result" where
  "vfs_get_backend vw = (case vw_vfs_backend vw of None \<Rightarrow> Inl RuntimeError | Some b \<Rightarrow> Inr b)"

definition make_backend :: "string \<Rightarrow> host \<Rightarrow> agentfs result \<times> host" where
  "make_backend workdir h = agentfs_init workdir 60 h"

definition provision_backend :: "vfs_workspace \<Rightarrow> host \<Rightarrow> unit result \<times> vfs_workspace \<times> host" where
  "provision_backend vw h =
     (case vw_vfs_backend vw of
        Some b \<Rightarrow> (Inr (), vw\<lparr>vw_backend := Some b\<rparr>, h)
      | None \<Rightarrow>
          (case make_backend (vw_host_workdir vw) h of
             (Inl e, h1) \<Rightarrow> (Inl e, vw, h1)
           | (Inr b, h1) \<Rightarrow> (Inr (), vw\<lparr>vw_vfs_backend := Some b, vw_backend := Some b\<rparr>, h1)))"

definition teardown_backend :: "vfs_workspace \<Rightarrow> vfs_workspace" where
  "teardown_backend vw = (case vw_vfs_backend vw of None \<Rightarrow> vw | Some _ \<Rightarrow> vw\<lparr>vw_vfs_backend := None\<rparr>)"

text \<open>\<open>layout\<close> and \<open>skills\<close> are the inherited set-up hooks, which work through the backend.\<close>

definition vfs_initialize ::
  "(agentfs \<Rightarrow> host \<Rightarrow> unit result \<times> host) \<Rightarrow> (agentfs \<Rightarrow> host \<Rightarrow> unit result \<times> host) \<Rightarrow>
   vfs_workspace \<Rightarrow> host \<Rightarrow> unit result \<times> vfs_workspace \<times> host" where
  "vfs_initialize layout skills vw h =
     (if vw_is_alive vw then (Inr (), vw, h)
      else (case provision_backend vw h of
        (Inl e, vw1, h1) \<Rightarrow> (Inl e, vw1, h1)
      | (Inr _, vw1, h1) \<Rightarrow>
          (case layout (the (vw_backend vw1)) h1 of
             (Inl e, h2) \<Rightarrow> (Inl e, vw1, h2)
           | (Inr _, h2) \<Rightarrow>
               (case skills (the (vw_backend vw1)) h2 of
                  (Inl e, h3) \<Rightarrow> (Inl e, vw1, h3)
                | (Inr _, h3) \<Rightarrow> (Inr (), vw1\<lparr>vw_is_alive := True\<rparr>, h3)))))"

section \<open>Snapshots\<close>

definition fs_dirs :: "path \<Rightarrow> fs \<Rightarrow> string list" where
  "fs_dirs d f =
     List.map_filter (\<lambda>(p, e). if e = DirE \<and> p \<noteq> [] \<and> butlast p = d then Some (last p) else None) f"

definition stale_name :: "string \<Rightarrow> string \<Rightarrow> bool" where
  "stale_name tag name \<longleftrightarrow> prefix (tag @ ''.tmp.'') name \<or> prefix (tag @ ''.obsolete.'') name"

definition cleanup_stale :: "string \<Rightarrow> string \<Rightarrow> fs \<Rightarrow> fs" where
  "cleanup_stale base tag f =
     (if \<not> fs_isdir f (fs_path base) then f
      else fold (\<lambda>name. fs_rmtree_ignore (fs_path base @ [name])) (filter (stale_name tag) (fs_dirs (fs_path base) f)) f)"

definition remove_if_there :: "faults \<Rightarrow> path \<Rightarrow> fs \<Rightarrow> unit result \<times> fs" where
  "remove_if_there fl p f = (if fs_exists f p then rmtree_on fl p f else (Inr (), f))"

definition discard_if_there :: "path \<Rightarrow> fs \<Rightarrow> fs" where
  "discard_if_there p f = (if fs_exists f p then fs_rmtree_ignore p f else f)"

text \<open>The body of the \<open>try\<close>: copy, remove the old snapshot, move the new one into place.\<close>

definition publish_snapshot_on :: "faults \<Rightarrow> path \<Rightarrow> path \<Rightarrow> path \<Rightarrow> fs \<Rightarrow> unit result \<times> fs" where
  "publish_snapshot_on fl workdir tmp_dest dest f =
     (case copytree_on fl workdir tmp_dest f of
        (Inl e, f1) \<Rightarrow> (Inl e, f1)
      | (Inr _, f1) \<Rightarrow>
          (case remove_if_there fl dest f1 of
             (Inl e, f2) \<Rightarrow> (Inl e, f2)
           | (Inr _, f2) \<Rightarrow> os_replace fl tmp_dest dest f2))"

definition tmp_stamp :: "host \<Rightarrow> string" where
  "tmp_stamp h = show_nat (h_pid h) @ ''.'' @ show_fixed6 (h_mono h)"

definition vfs_snapshot_on :: "faults \<Rightarrow> vfs_workspace \<Rightarrow> string \<Rightarrow> host \<Rightarrow> string result \<times> host" where
  "vfs_snapshot_on fl vw tag h =
     (if vw_vfs_backend vw = None then (Inl RuntimeError, h)
      else if tag = [] \<or> CHR ''/'' \<in> set tag \<or> tag = ''.'' \<or> tag = ''..'' then (Inl ValueError, h)
      else (case fs_makedirs (fs_path (vw_snapshots_root vw)) (h_fs h) of
        (Inl e, f) \<Rightarrow> (Inl e, h\<lparr>h_fs := f\<rparr>)
      | (Inr _, f) \<Rightarrow>
          (let f1 = cleanup_stale (vw_snapshots_root vw) tag f;
               dest = path_join (vw_snapshots_root vw) tag;
               tmp_dest = fs_path (dest @ ''.tmp.'' @ tmp_stamp h)
           in case remove_if_there fl tmp_dest f1 of
                (Inl e, f2) \<Rightarrow> (Inl e, h\<lparr>h_fs := f2\<rparr>)
              | (Inr _, f2) \<Rightarrow>
                  (case publish_snapshot_on fl (fs_path (vw_host_workdir vw)) tmp_dest (fs_path dest) f2 of
                     (Inl e, f3) \<Rightarrow> (Inl e, h\<lparr>h_fs := discard_if_there tmp_dest f3\<rparr>)
                   | (Inr _, f3) \<Rightarrow> (Inr dest, h\<lparr>h_fs := f3\<rparr>)))))"

text \<open>The swap of \<open>restore\<close>, with its own roll-back.\<close>

definition vfs_swap_on :: "faults \<Rightarrow> string \<Rightarrow> path \<Rightarrow> fs \<Rightarrow> unit result \<times> fs" where
  "vfs_swap_on fl workdir tmp f =
     (let aside = fs_path (rstrip_sep workdir @ ''.aside''); w = fs_path workdir
      in case remove_if_there fl aside f of
           (Inl e, f1) \<Rightarrow> (Inl e, f1)
         | (Inr _, f1) \<Rightarrow>
             (case os_replace fl w aside f1 of
                (Inl e, f2) \<Rightarrow> (Inl e, f2)
              | (Inr _, f2) \<Rightarrow>
                  (case os_replace fl tmp w f2 of
                     (Inl e, f3) \<Rightarrow>
                       (case os_replace fl aside w f3 of
                          (Inl e', f4) \<Rightarrow> (Inl e', f4)
                        | (Inr _, f4) \<Rightarrow> (Inl e, f4))
                   | (Inr _, f3) \<Rightarrow> (Inr (), fs_rmtree_ignore aside f3))))"

definition vfs_restore_on :: "faults \<Rightarrow> vfs_workspace \<Rightarrow> string \<Rightarrow> host \<Rightarrow> unit result \<times> host" where
  "vfs_restore_on fl vw tag h =
     (if vw_vfs_backend vw = None then (Inl RuntimeError, h)
      else
        (let src = fs_path (path_join (vw_snapshots_root vw) tag) in
         if \<not> fs_isdir (h_fs h) src then (Inl KeyError, h)
         else
           (let tmp = fs_path (rstrip_sep (vw_host_workdir vw) @ ''.restore.'' @ tmp_stamp h) in
            case remove_if_there fl tmp (h_fs h) of
              (Inl e, f1) \<Rightarrow> (Inl e, h\<lparr>h_fs := f1\<rparr>)
            | (Inr _, f1) \<Rightarrow>
                (case (case copytree_on fl src tmp f1 of
                         (Inl e, f2) \<Rightarrow> (Inl e, f2)
                       | (Inr _, f2) \<Rightarrow> vfs_swap_on fl (vw_host_workdir vw) tmp f2) of
                   (Inl e, f3) \<Rightarrow> (Inl e, h\<lparr>h_fs := discard_if_there tmp f3\<rparr>)
                 | (Inr _, f3) \<Rightarrow> (Inr (), h\<lparr>h_fs := f3\<rparr>)))))"

text \<open>The two when the system refuses nothing.\<close>

definition publish_snapshot :: "path \<Rightarrow> path \<Rightarrow> path \<Rightarrow> fs \<Rightarrow> unit result \<times> fs" where
  "publish_snapshot = publish_snapshot_on no_faults"

definition vfs_snapshot :: "vfs_workspace \<Rightarrow> string \<Rightarrow> host \<Rightarrow> string result \<times> host" where
  "vfs_snapshot = vfs_snapshot_on no_faults"

definition vfs_swap :: "string \<Rightarrow> path \<Rightarrow> fs \<Rightarrow> unit result \<times> fs" where
  "vfs_swap = vfs_swap_on no_faults"

definition vfs_restore :: "vfs_workspace \<Rightarrow> string \<Rightarrow> host \<Rightarrow> unit result \<times> host" where
  "vfs_restore = vfs_restore_on no_faults"

section \<open>Metrics\<close>

record vfs_metrics =
  vm_sandbox_kind :: string
  vm_is_alive :: bool
  vm_workspace_id :: string
  vm_vfs_backend_type :: "string option"
  vm_host_workdir :: string
  vm_snapshots_root :: string
  vm_snapshot_count :: nat

definition vfs_metrics_of :: "vfs_workspace \<Rightarrow> host \<Rightarrow> vfs_metrics" where
  "vfs_metrics_of vw h =
     (let base = fs_path (vw_snapshots_root vw) in
      \<lparr>vm_sandbox_kind = ''agentfs'', vm_is_alive = vw_is_alive vw, vm_workspace_id = vw_workspace_id vw,
       vm_vfs_backend_type = map_option (\<lambda>_. ''AgentFSBackend'') (vw_vfs_backend vw),
       vm_host_workdir = vw_host_workdir vw, vm_snapshots_root = vw_snapshots_root vw,
       vm_snapshot_count =
         (if fs_isdir (h_fs h) base
          then length (filter (\<lambda>name. \<not> prefix ''.'' name) (fs_dirs base (h_fs h))) else 0)\<rparr>)"

end
