(* ===== verification/VFS_Facts.thy ===== *)
theory VFS_Facts
  imports VFS_Workspace
begin

text \<open>
  Facts about the virtual file system workspace: which paths \<open>_resolve\<close> lets through, what the
  tree operations of \<open>snapshot\<close> and \<open>restore\<close> do in a closed tree, and the exact outcome of both.
\<close>

section \<open>Paths\<close>

lemma split_on_no_sep: "x \<in> set (split_on c s) \<Longrightarrow> c \<notin> set x"
proof (induction s arbitrary: x)
  case (Cons a s)
  obtain y ys where y: "split_on c s = y # ys" by (meson neq_Nil_conv split_on_ne)
  with Cons.IH have "c \<notin> set y" "\<forall>z \<in> set ys. c \<notin> set z" by simp_all
  with Cons.prems y show ?case by (auto split: if_splits)
qed simp

lemma path_steps_comp:
  "\<forall>x \<in> set xs. CHR ''/'' \<notin> set x \<Longrightarrow> \<forall>x \<in> set acc. comp_ok x \<Longrightarrow> \<forall>x \<in> set (foldl path_step acc xs). comp_ok x"
proof (induction xs arbitrary: acc)
  case (Cons a xs)
  have "\<forall>x \<in> set (path_step acc a). comp_ok x"
    using Cons.prems in_set_butlastD [of _ acc] by (auto simp: path_step_def comp_ok_def)
  with Cons show ?case by simp
qed simp

lemma fs_path_comps: "\<forall>c \<in> set (fs_path s). comp_ok c"
  unfolding fs_path_def by (rule path_steps_comp) (auto dest: split_on_no_sep)

lemma path_str_append: "path_str (p @ q) = path_str p @ path_str q"
  by (simp add: path_str_def)

lemma path_str_prefix:
  assumes "\<forall>c \<in> set p. comp_ok c" and "\<forall>c \<in> set q. comp_ok c"
  shows "prefix (path_str p @ ''/'') (path_str q) \<longleftrightarrow> strict_prefix p q"
proof
  assume "prefix (path_str p @ ''/'') (path_str q)"
  then obtain s where s: "path_str q = path_str p @ CHR ''/'' # s" by (auto simp: prefix_def)
  have "split_on CHR ''/'' (path_str q) = [] # q" "split_on CHR ''/'' (path_str p) = [] # p"
    using split_path_str assms by (auto simp: comp_ok_def)
  then have "q = p @ split_on CHR ''/'' s" using s split_on_append [of "CHR ''/''" "path_str p" s] by simp
  then show "strict_prefix p q" by (simp add: strict_prefix_def)
next
  assume "strict_prefix p q"
  then obtain r where "q = p @ r" "r \<noteq> []" by (auto simp: strict_prefix_def prefix_def)
  then show "prefix (path_str p @ ''/'') (path_str q)" by (cases r) (simp_all add: path_str_append path_str_def)
qed

lemma path_str_inj:
  "\<forall>c \<in> set p. comp_ok c \<Longrightarrow> \<forall>c \<in> set q. comp_ok c \<Longrightarrow> path_str p = path_str q \<longleftrightarrow> p = q"
  by (metis fs_path_str)

lemma path_str_root: "fs_path ''/'' = []"
  by (simp add: fs_path_def path_step_def)

lemma fs_path_realpath [simp]: "fs_path (realpath s) = fs_path s"
  using fs_path_comps [of s] by (simp add: realpath_def Let_def path_str_root)

text \<open>A path is let through when its components extend the root's; below \<open>/\<close> only \<open>/\<close> itself is.\<close>

lemma inside_realpath:
  "inside (realpath a) (realpath b) \<longleftrightarrow> prefix (fs_path b) (fs_path a) \<and> (fs_path b \<noteq> [] \<or> fs_path a = [])"
proof -
  let ?a = "fs_path a" and ?b = "fs_path b"
  have ok: "\<forall>c \<in> set ?a. comp_ok c" "\<forall>c \<in> set ?b. comp_ok c" by (rule fs_path_comps)+
  have ne: "path_str ?a \<noteq> ''/''" if "?a \<noteq> []"
    using that ok(1) by (cases ?a) (auto simp: path_str_def comp_ok_def)
  have two: "\<not> prefix ''//'' (path_str ?a)"
  proof (cases ?a)
    case (Cons c cs)
    with ok(1) show ?thesis by (cases c) (simp_all add: path_str_def comp_ok_def)
  qed (simp add: path_str_def)
  show ?thesis
  proof (cases "?b = []")
    case True
    then show ?thesis using two ne by (auto simp: inside_def realpath_def Let_def prefix_def)
  next
    case b: False
    show ?thesis
    proof (cases "?a = []")
      case True
      then show ?thesis using b ok(2)
        by (cases ?b) (auto simp: inside_def realpath_def Let_def path_str_def comp_ok_def)
    next
      case False
      then have "inside (realpath a) (realpath b) \<longleftrightarrow> ?a = ?b \<or> strict_prefix ?b ?a"
        unfolding inside_def realpath_def Let_def using b path_str_prefix [OF ok(2,1)] path_str_inj [OF ok] by simp
      then show ?thesis using b by (auto simp: strict_prefix_def)
    qed
  qed
qed

definition relative_to :: "agentfs \<Rightarrow> string \<Rightarrow> path" where
  "relative_to af path =
     fs_path (path_join (af_workdir af) (if is_abs path then dropWhile (\<lambda>c. c = CHR ''/'') path else path))"

lemma realpath_idem [simp]: "realpath (realpath s) = realpath s"
  by (simp only: realpath_def [of "realpath s"] fs_path_realpath) (simp add: realpath_def)

lemma af_resolve_eq:
  "af_resolve af path =
     (if prefix (fs_path (af_workdir af)) (relative_to af path) \<and> (fs_path (af_workdir af) \<noteq> [] \<or> relative_to af path = [])
      then Inr (realpath (path_join (af_workdir af) (if is_abs path then dropWhile (\<lambda>c. c = CHR ''/'') path else path)))
      else Inl PermissionError)"
  unfolding af_resolve_def Let_def inside_realpath relative_to_def ..

lemma resolved:
  assumes "af_resolve af path = Inr full"
  shows "fs_path full = relative_to af path" and "full = realpath full"
    and "prefix (fs_path (af_workdir af)) (fs_path full)"
proof -
  from assms have full: "full = realpath (path_join (af_workdir af)
      (if is_abs path then dropWhile (\<lambda>c. c = CHR ''/'') path else path))"
    and pre: "prefix (fs_path (af_workdir af)) (relative_to af path)"
    unfolding af_resolve_eq by (simp_all only: split: if_splits) blast+
  show 1: "fs_path full = relative_to af path" by (simp only: full relative_to_def fs_path_realpath)
  show "full = realpath full" by (simp only: full realpath_idem)
  show "prefix (fs_path (af_workdir af)) (fs_path full)" using pre 1 by simp
qed


section \<open>Trees that stay closed\<close>

lemma fs_lookup_remove: "p \<noteq> [] \<Longrightarrow> fs_lookup (fs_remove p f) q = (if prefix p q then None else fs_lookup f q)"
  by (auto simp: fs_lookup_def fs_simps)

lemma fs_ok_remove: "fs_ok f \<Longrightarrow> p \<noteq> [] \<Longrightarrow> fs_ok (fs_remove p f)"
  by (auto simp: fs_ok_def fs_isdir_def fs_lookup_remove dict_ok_remove split: if_splits)

lemma fs_ok_mkdir:
  assumes "fs_ok f" and "fs_isdir f p" and "fs_lookup f (p @ [c]) = None"
  shows "fs_ok (dput (p @ [c]) DirE f)"
proof -
  have look: "fs_lookup (dput (p @ [c]) DirE f) q = (if q = p @ [c] then Some DirE else fs_lookup f q)" for q
    by (rule fs_lookup_dput) simp
  have "fs_isdir (dput (p @ [c]) DirE f) q" if "fs_lookup (dput (p @ [c]) DirE f) (q @ [d]) \<noteq> None" for q d
    using that assms unfolding fs_ok_def fs_isdir_def look by (auto split: if_splits)
  with assms(1) show ?thesis unfolding fs_ok_def by simp
qed

lemma fs_ok_makedirs_from:
  "fs_makedirs_from b cs f = (r, f') \<Longrightarrow> fs_ok f \<Longrightarrow> fs_isdir f b \<Longrightarrow> fs_ok f'"
proof (induction cs arbitrary: b f)
  case (Cons c cs)
  show ?case
  proof (cases "fs_lookup f (b @ [c])")
    case None
    let ?f = "dput (b @ [c]) DirE f"
    have "fs_makedirs_from (b @ [c]) cs ?f = (r, f')" using Cons.prems(1) None by (simp add: Let_def)
    moreover have "fs_isdir ?f (b @ [c])" by (simp add: fs_isdir_def fs_lookup_dput)
    ultimately show ?thesis using Cons.IH fs_ok_mkdir [OF Cons.prems(2,3) None] by blast
  next
    case (Some e)
    with Cons show ?thesis by (cases e) (auto simp: Let_def fs_isdir_def)
  qed
qed simp

lemma fs_ok_makedirs: "fs_makedirs p f = (r, f') \<Longrightarrow> fs_ok f \<Longrightarrow> fs_ok f'"
  using fs_ok_makedirs_from [of "[]" p f r f'] by (simp add: fs_makedirs_def fs_isdir_def fs_lookup_def)

lemma fs_makedirs_from_append:
  "fs_makedirs_from b cs f = (Inr u, f1) \<Longrightarrow> fs_makedirs_from b (cs @ ds) f = fs_makedirs_from (b @ cs) ds f1"
proof (induction cs arbitrary: b f)
  case (Cons c cs)
  then show ?case using Cons.IH [of "b @ [c]"] by (auto simp: Let_def split: option.splits entry.splits)
qed simp

lemma fs_dirs_above: "fs_ok f \<Longrightarrow> fs_isdir f p \<Longrightarrow> prefix q p \<Longrightarrow> fs_isdir f q"
  using fs_closed_above [of f q] by (auto simp: prefix_def fs_isdir_def) (metis append_Nil2 option.distinct(1))

lemma makedirs_leaf:
  assumes "fs_ok f" and "fs_isdir f p" and "fs_lookup f (p @ [c]) = None"
  shows "fs_makedirs (p @ [c]) f = (Inr (), dput (p @ [c]) DirE f)"
proof -
  have "fs_makedirs_from [] p f = (Inr (), f)"
    by (rule makedirs_there) (use fs_dirs_above [OF assms(1,2)] in simp)
  from fs_makedirs_from_append [OF this, of "[c]"] assms(3) show ?thesis by (simp add: fs_makedirs_def Let_def)
qed

text \<open>A copy into a directory that is there.\<close>

lemma copytree_exact:
  assumes ok: "fs_ok f" and dir: "fs_isdir f p" and new: "fs_lookup f (p @ [c]) = None" and src: "fs_isdir f src"
  shows "\<exists>f'. fs_copytree src (p @ [c]) f = (Inr (), f') \<and> dict_ok f' \<and>
    (\<forall>q. dget f' q = (if q = p @ [c] then Some DirE
       else if strict_prefix (p @ [c]) q then dget f (src @ drop (Suc (length p)) q) else dget f q))"
proof -
  let ?d = "p @ [c]"
  let ?f = "fs_graft ?d (fs_subtree src f) (dput ?d DirE f)"
  have "fs_copytree src ?d f = (Inr (), ?f)"
    using src makedirs_leaf [OF ok dir new] new by (simp add: fs_copytree_def fs_exists_def)
  moreover have "dict_ok f" using ok by (simp add: fs_ok_def)
  then have "dict_ok ?f" by (simp add: dict_ok_graft)
  moreover have "dget ?f q = (if q = ?d then Some DirE
       else if strict_prefix ?d q then dget f (src @ drop (Suc (length p)) q) else dget f q)" for q
  proof -
    have below: "dget f (?d @ s) = None" if "s \<noteq> []" for s
      using fs_missing_below [OF ok, of ?d s] new by (simp add: fs_exists_def fs_lookup_def)
    have "dict_ok (fs_subtree src f)" using \<open>dict_ok f\<close> by (rule dict_ok_subtree)
    note get = fs_get_graft [OF this, of ?d "dput ?d DirE f" q]
    show ?thesis
    proof (cases "strict_prefix ?d q")
      case True
      then obtain s where s: "q = ?d @ s" "s \<noteq> []" by (auto simp: strict_prefix_def prefix_def)
      have "dget ?f q = (case dget f (src @ s) of Some e \<Rightarrow> Some e | None \<Rightarrow> dget (dput ?d DirE f) q)"
        unfolding get using True s by (simp add: fs_simps)
      also have "dget (dput ?d DirE f) q = None" using s below [OF s(2)] by (simp add: dict_simps)
      finally show ?thesis using s True by (simp split: option.split)
    qed (use get in \<open>simp add: dict_simps\<close>)
  qed
  ultimately show ?thesis by blast
qed

section \<open>The snapshot directory\<close>

lemma fold_rmtree:
  assumes "dict_ok f"
  shows "let f' = fold (\<lambda>name. fs_rmtree_ignore (b @ [name])) names f in
    dict_ok f' \<and> (fs_ok f \<longrightarrow> fs_ok f') \<and>
    (\<forall>q. dget f' q = dget f q \<or> (\<exists>name \<in> set names. prefix (b @ [name]) q))"
  using assms
proof (induction names arbitrary: f)
  case (Cons n names)
  let ?f = "fs_rmtree_ignore (b @ [n]) f"
  have f: "?f = f \<or> ?f = fs_remove (b @ [n]) f"
    by (auto simp: fs_rmtree_ignore_def fs_rmtree_def split: option.split entry.split)
  then have "dict_ok ?f" "fs_ok f \<longrightarrow> fs_ok ?f" using Cons.prems dict_ok_remove fs_ok_remove by (metis, metis snoc_eq_iff_butlast)
  moreover have "dget ?f q = dget f q \<or> prefix (b @ [n]) q" for q using f by (auto simp: fs_simps)
  ultimately show ?case using Cons.IH [of ?f] unfolding Let_def by (simp only: fold_simps list.set) (metis insertI1 insertI2)
qed simp

lemma cleanup_changes:
  assumes "dict_ok f"
  shows "dict_ok (cleanup_stale s tag f)" and "fs_ok f \<Longrightarrow> fs_ok (cleanup_stale s tag f)"
    and "dget (cleanup_stale s tag f) q = dget f q \<or> (\<exists>name. stale_name tag name \<and> prefix (fs_path s @ [name]) q)"
  using fold_rmtree [OF assms, of "fs_path s" "filter (stale_name tag) (fs_dirs (fs_path s) f)"]
  unfolding cleanup_stale_def Let_def using assms by (auto split: if_splits)

text \<open>
  What is there to remove is a directory the system lets go, or the removal raises and has at
  most removed a part of it.
\<close>

definition removal_refused :: "faults \<Rightarrow> path \<Rightarrow> fs \<Rightarrow> bool" where
  "removal_refused fl p f \<longleftrightarrow> fs_isfile f p \<or> fs_isdir f p \<and> fl_remove fl p \<noteq> None"

lemma remove_refused:
  assumes "removal_refused fl p f"
  shows "\<exists>f'. remove_if_there fl p f = (Inl OSError, f') \<and>
    (\<forall>q. dget f' q = dget f q \<or> prefix p q \<and> dget f' q = None)"
  using assms
  by (auto simp: removal_refused_def remove_if_there_def rmtree_on_def fs_rmtree_def fs_exists_def fs_isfile_def
      fs_isdir_def dget_filter split: option.splits entry.splits)

lemma remove_fine: "p \<noteq> [] \<Longrightarrow> \<not> removal_refused fl p f \<Longrightarrow> remove_if_there fl p f = (Inr (), cleared p f)"
  by (auto simp: removal_refused_def remove_if_there_def rmtree_on_def fs_rmtree_def fs_exists_def fs_isfile_def
      fs_isdir_def cleared_def split: option.splits entry.splits)

lemma remove_if_there_cases:
  assumes "remove_if_there fl p f = (r, f')" and "p \<noteq> []"
  obtains "removal_refused fl p f" "r = Inl OSError" "\<And>q. dget f' q = dget f q \<or> prefix p q \<and> dget f' q = None"
  | "\<not> removal_refused fl p f" "r = Inr ()" "f' = cleared p f"
  using remove_refused [of fl p f] remove_fine [OF assms(2), of fl f] assms(1) by (cases "removal_refused fl p f") auto

lemma cleared_exact:
  assumes "fs_ok f" and "p \<noteq> []"
  shows "fs_ok (cleared p f)" and "dget (cleared p f) q = (if prefix p q then None else dget f q)"
    and "fs_lookup (cleared p f) q = (if prefix p q then None else fs_lookup f q)"
proof -
  show "fs_ok (cleared p f)" using fs_ok_remove assms by (simp add: cleared_def)
  have "fs_lookup f q = None" if "\<not> fs_exists f p" "prefix p q"
    using fs_missing_below [OF assms(1) that(1)] that(2) by (auto simp: prefix_def)
  then show "fs_lookup (cleared p f) q = (if prefix p q then None else fs_lookup f q)"
    by (auto simp: cleared_def fs_lookup_remove [OF assms(2)])
  then show "dget (cleared p f) q = (if prefix p q then None else dget f q)"
    using assms(2) by (cases "q = []") (auto simp: fs_lookup_def cleared_def fs_simps)
qed

lemma discarded:
  assumes "fs_isdir f p \<or> \<not> fs_exists f p"
  shows "dget (discard_if_there p f) q = (if fs_exists f p \<and> prefix p q then None else dget f q)"
  using assms fs_rmtree_dir [of f p] by (auto simp: discard_if_there_def fs_simps)

text \<open>A copy that fails has touched nothing but its destination, which is then removed.\<close>

lemma copytree_refused:
  assumes ok: "fs_ok f" and dir: "fs_isdir f p" and new: "fs_lookup f (p @ [c]) = None" and src: "fs_isdir f src"
    and keep: "fl_copy fl (p @ [c]) = Some keep"
  shows "\<exists>f'. copytree_on fl src (p @ [c]) f = (Inl OSError, f') \<and>
    (\<forall>q. dget (discard_if_there (p @ [c]) f') q = dget f q)"
proof -
  let ?d = "p @ [c]"
  let ?t = "filter (\<lambda>(q, e). keep q) (fs_subtree src f)"
  let ?f = "fs_graft ?d ?t (dput ?d DirE f)"
  have none: "prefix ?d q \<Longrightarrow> dget f q = None" for q
    using fs_missing_below [OF ok, of ?d] new by (auto simp: prefix_def fs_exists_def fs_lookup_def)
  have f: "dict_ok f" using ok by (simp add: fs_ok_def)
  have "dict_ok ?t" using f by (intro dict_ok_filter dict_ok_subtree)
  note get = fs_get_graft [OF this, of ?d "dput ?d DirE f"]
  obtain f' where c: "fs_copytree src ?d f = (Inr (), f')" using copytree_exact [OF ok dir new src] by blast
  have "fs_lookup ?f ?d = Some DirE" using get [of ?d] by (simp add: fs_lookup_def dict_simps)
  then have "fs_isdir ?f ?d" "fs_exists ?f ?d" by (simp_all add: fs_isdir_def fs_exists_def)
  then have "dget (discard_if_there ?d ?f) q = dget f q" for q
    using discarded [of ?f ?d q] get [of q] none [of q] by (auto simp: strict_prefix_def dict_simps)
  moreover have "dget (discard_if_there ?d f) q = dget f q" for q
    using new by (simp add: discard_if_there_def fs_exists_def)
  ultimately show ?thesis
    using makedirs_leaf [OF ok dir new] by (auto simp: copytree_on_def keep c)
qed

lemma publish_spec:
  assumes ok: "fs_ok f" and s: "fs_isdir f s" and w: "fs_isdir f w" and ws: "apart w s" and cd: "c \<noteq> d"
    and new: "fs_lookup f (s @ [c]) = None" and run: "publish_snapshot_on fl w (s @ [c]) (s @ [d]) f = (r, f')"
  shows "case r of
      Inr _ \<Rightarrow> \<forall>q. dget f' q = (if q = s @ [d] then Some DirE
        else if strict_prefix (s @ [d]) q then dget f (w @ drop (Suc (length s)) q) else dget f q)
    | Inl _ \<Rightarrow> \<forall>q. dget (discard_if_there (s @ [c]) f') q = dget f q \<or>
        (fl_remove fl (s @ [d]) \<noteq> None \<or> fl_rename fl (s @ [c]) (s @ [d])) \<and>
        prefix (s @ [d]) q \<and> dget (discard_if_there (s @ [c]) f') q = None"
proof (cases "fl_copy fl (s @ [c])")
  case (Some keep)
  from copytree_refused [OF ok s new w Some] run show ?thesis by (auto simp: publish_snapshot_on_def)
next
  case nofault: None
  let ?t = "s @ [c]" and ?d = "s @ [d]"
  obtain f3 where "fs_copytree w ?t f = (Inr (), f3)" and ok3: "dict_ok f3"
    and get3: "\<And>q. dget f3 q = (if q = ?t then Some DirE
       else if strict_prefix ?t q then dget f (w @ drop (Suc (length s)) q) else dget f q)"
    using copytree_exact [OF ok s new w] by blast
  then have copy: "copytree_on fl w ?t f = (Inr (), f3)" by (simp add: copytree_on_def nofault)
  have td: "apart ?t ?d" using cd by (rule apart_siblings)
  then have ntd: "\<not> prefix ?t ?d" "\<not> prefix ?d ?t" by (simp_all add: apart_def)
  have out: "dget f3 q = dget f q" if "\<not> prefix ?t q" for q using that get3 [of q] by (auto simp: strict_prefix_def)
  have none: "dget f q = None" if "prefix ?t q" for q
    using that fs_missing_below [OF ok, of ?t] new by (auto simp: prefix_def fs_exists_def fs_lookup_def)
  have t3: "fs_lookup f3 ?t = Some DirE" by (simp add: fs_lookup_def get3)
  have undone: "dget (discard_if_there ?t g) q = (if prefix ?t q then None else dget g q)"
    if "dget g ?t = Some DirE" for g q
    using that discarded [of g ?t q] by (simp add: fs_isdir_def fs_exists_def fs_lookup_def)
  have d3: "fs_lookup f3 ?d = fs_lookup f ?d" using out [of ?d] td by (simp add: fs_lookup_def apart_def)
  obtain r4 f4 where rm: "remove_if_there fl ?d f3 = (r4, f4)" by (cases "remove_if_there fl ?d f3")
  have "?d \<noteq> []" by simp
  from remove_if_there_cases [OF rm this] show ?thesis
  proof cases
    case 1
    then have r: "r = Inl OSError" "f' = f4" using run by (simp_all add: publish_snapshot_on_def copy rm)
    have "dget f4 ?t = Some DirE" using 1(3) [of ?t] ntd t3 by (simp add: fs_lookup_def)
    note g = undone [OF this]
    have "fl_remove fl ?d \<noteq> None \<or> f4 = f3"
      using 1(1) rm by (auto simp: removal_refused_def remove_if_there_def rmtree_on_def fs_rmtree_def fs_exists_def
          fs_isfile_def split: option.splits entry.splits)
    then have "dget (discard_if_there ?t f4) q = dget f q \<or>
        fl_remove fl ?d \<noteq> None \<and> prefix ?d q \<and> dget (discard_if_there ?t f4) q = None" for q
      using g [of q] 1(3) [of q] none [of q] out [of q] by auto
    with r show ?thesis by auto
  next
    case 2
    have ok4: "dict_ok f4" using ok3 2 by (simp add: cleared_ok)
    have d4: "dget f4 q = (if prefix ?d q then None else dget f3 q)" for q
    proof (cases "fs_exists f3 ?d")
      case gone: False
      then have "\<not> fs_exists f ?d" using d3 by (simp add: fs_exists_def)
      then have "dget f q = None" if "prefix ?d q"
        using that fs_missing_below [OF ok, of ?d] by (auto simp: prefix_def fs_lookup_def)
      then show ?thesis using gone 2 out [of q] apart_below [OF apart_sym [OF td], of q] by (auto simp: cleared_def)
    qed (use 2 in \<open>simp add: cleared_def fs_simps\<close>)
    have t4: "fs_lookup f4 ?t = Some DirE" using d4 [of ?t] t3 td by (simp add: fs_lookup_def apart_def)
    have "fs_isdir f4 s" using d4 [of s] out [of s] s by (auto simp: fs_isdir_def fs_lookup_def dest: prefix_length_le)
    moreover have "fs_lookup f4 ?d = None" using d4 [of ?d] by (simp add: fs_lookup_def)
    ultimately have mv: "fs_replace ?t ?d f4 = (Inr (), fs_move ?t ?d f4)"
      using fs_replace_move [OF t4 td] by simp
    show ?thesis
    proof (cases "fl_rename fl ?t ?d")
      case True
      then have r: "r = Inl OSError" "f' = f4"
        using run copy rm mv 2 by (simp_all add: publish_snapshot_on_def os_replace_def)
      have "dget f4 ?t = Some DirE" using t4 by (simp add: fs_lookup_def)
      from undone [OF this] d4 none out True r show ?thesis by auto
    next
      case False
      then have r: "r = Inr ()" "f' = fs_move ?t ?d f4"
        using run copy rm mv 2 by (simp_all add: publish_snapshot_on_def os_replace_def)
      have "dget f' q = (if q = ?d then Some DirE
          else if strict_prefix ?d q then dget f (w @ drop (Suc (length s)) q) else dget f q)" for q
      proof -
        note get = fs_get_move [of ?t ?d f4 q, OF _ _ ok4, folded r(2)]
        show ?thesis
        proof (cases "prefix ?d q")
          case True
          then obtain x where q: "q = ?d @ x" by (auto simp: prefix_def)
          have "dget f' q = dget f4 (?t @ x)" using get td True q by (simp add: apart_def)
          also have "\<dots> = dget f3 (?t @ x)" using d4 apart_below [OF td, of "?t @ x"] by simp
          finally show ?thesis using q by (cases x) (simp_all add: get3 strict_prefix_def)
        next
          case False
          then show ?thesis using get td d4 [of q] out [of q] none [of q] by (auto simp: apart_def strict_prefix_def)
        qed
      qed
      with r show ?thesis by simp
    qed
  qed
qed

section \<open>The situation of a workspace\<close>

definition restore_dir :: "path \<Rightarrow> host \<Rightarrow> path" where
  "restore_dir w h = butlast w @ [last w @ ''.restore.'' @ tmp_stamp h]"

definition vfs_ready :: "vfs_workspace \<Rightarrow> path \<Rightarrow> path \<Rightarrow> host \<Rightarrow> bool" where
  "vfs_ready vw w s h \<longleftrightarrow>
     vw_vfs_backend vw \<noteq> None \<and> vw_host_workdir vw = path_str w \<and> vw_snapshots_root vw = path_str s \<and>
     w \<noteq> [] \<and> s \<noteq> [] \<and> (\<forall>c \<in> set w. comp_ok c) \<and> (\<forall>c \<in> set s. comp_ok c) \<and>
     apart w s \<and> apart (aside_of w) s \<and> apart (restore_dir w h) s \<and>
     fs_ok (h_fs h) \<and> fs_isdir (h_fs h) w"

lemma tmp_stamp_no_sep: "CHR ''/'' \<notin> set (tmp_stamp h)"
  by (simp add: tmp_stamp_def show_nat_no_sep show_fixed6_no_sep)

lemma comp_ok_extended: "comp_ok c \<Longrightarrow> CHR ''/'' \<notin> set x \<Longrightarrow> length x > 1 \<Longrightarrow> comp_ok (c @ x)"
  by (auto simp: comp_ok_def append_eq_Cons_conv)

lemma sibling_path:
  assumes "p \<noteq> []" and "\<forall>c \<in> set p. comp_ok c" and "CHR ''/'' \<notin> set x" and "length x > 1"
  shows "fs_path (path_str p @ x) = butlast p @ [last p @ x]"
proof -
  have "comp_ok (last p @ x)" using assms by (intro comp_ok_extended) simp_all
  with assms have "\<forall>c \<in> set (butlast p @ [last p @ x]). comp_ok c" by (auto dest: in_set_butlastD)
  then show ?thesis using path_str_ext [OF assms(1)] by simp
qed

lemma snapshot_paths:
  assumes "s \<noteq> []" and "\<forall>c \<in> set s. comp_ok c" and "comp_ok tag"
  shows "path_join (path_str s) tag = path_str (s @ [tag])" and "fs_path (path_str (s @ [tag])) = s @ [tag]"
    and "fs_path (path_str (s @ [tag]) @ ''.tmp.'' @ tmp_stamp h) = s @ [tag @ ''.tmp.'' @ tmp_stamp h]"
proof -
  show "path_join (path_str s) tag = path_str (s @ [tag])" by (rule path_join_str) (use assms in simp_all)
  show "fs_path (path_str (s @ [tag])) = s @ [tag]" by (rule fs_path_str) (use assms in simp)
  show "fs_path (path_str (s @ [tag]) @ ''.tmp.'' @ tmp_stamp h) = s @ [tag @ ''.tmp.'' @ tmp_stamp h]"
    using sibling_path [of "s @ [tag]" "''.tmp.'' @ tmp_stamp h"] assms tmp_stamp_no_sep [of h] by simp
qed

lemma restore_path:
  assumes "w \<noteq> []" and "\<forall>c \<in> set w. comp_ok c"
  shows "fs_path (rstrip_sep (path_str w) @ ''.restore.'' @ tmp_stamp h) = restore_dir w h"
  using sibling_path [OF assms, of "''.restore.'' @ tmp_stamp h"] tmp_stamp_no_sep [of h]
  by (simp add: rstrip_str [OF assms] restore_dir_def)

section \<open>Snapshots\<close>

text \<open>
  A snapshot, taken or failed: the tag's directory is a copy of the workdir or what it was, and
  nothing changes but the tag's directory, leftovers of its own temporary directories, and
  missing directories above the snapshots. The old snapshot is lost, as a whole or in part, only
  when its removal or the rename of the new one into place is refused.
\<close>

definition publish_refused :: "faults \<Rightarrow> path \<Rightarrow> string \<Rightarrow> host \<Rightarrow> bool" where
  "publish_refused fl s tag h \<longleftrightarrow>
     fl_remove fl (s @ [tag]) \<noteq> None \<or> fl_rename fl (s @ [tag @ ''.tmp.'' @ tmp_stamp h]) (s @ [tag])"

lemma vfs_snapshot_spec:
  assumes ready: "vfs_ready vw w s h" and tag: "comp_ok tag" and run: "vfs_snapshot_on fl vw tag h = (r, h')"
  shows "h' = h\<lparr>h_fs := h_fs h'\<rparr> \<and>
    (case r of
       Inr p \<Rightarrow> p = path_str (s @ [tag]) \<and> dget (h_fs h') (s @ [tag]) = Some DirE \<and>
         (\<forall>x. x = [] \<or> dget (h_fs h') (s @ [tag] @ x) = dget (h_fs h) (w @ x))
     | Inl _ \<Rightarrow> \<forall>x. dget (h_fs h') (s @ [tag] @ x) = dget (h_fs h) (s @ [tag] @ x) \<or>
         publish_refused fl s tag h \<and> dget (h_fs h') (s @ [tag] @ x) = None) \<and>
    (\<forall>q. dget (h_fs h') q = dget (h_fs h) q \<or> prefix (s @ [tag]) q \<or>
       dget (h_fs h) q = None \<and> dget (h_fs h') q = Some DirE \<and> prefix q s \<or>
       (\<exists>name. stale_name tag name \<and> prefix (s @ [name]) q))"
proof -
  have w: "w \<noteq> []" "\<forall>c \<in> set w. comp_ok c" and s: "s \<noteq> []" "\<forall>c \<in> set s. comp_ok c"
    and ok: "fs_ok (h_fs h)" "dict_ok (h_fs h)" and wd: "fs_isdir (h_fs h) w" and ws: "apart w s"
    and vw: "vw_vfs_backend vw \<noteq> None" "vw_host_workdir vw = path_str w" "vw_snapshots_root vw = path_str s"
    using ready by (simp_all add: vfs_ready_def fs_ok_def)
  let ?c = "tag @ ''.tmp.'' @ tmp_stamp h" and ?dest = "s @ [tag]"
  let ?t = "s @ [?c]"
  note paths = snapshot_paths [OF s tag] fs_path_str [OF s(2)] fs_path_str [OF w(2)]
  have "\<not> (tag = [] \<or> CHR ''/'' \<in> set tag \<or> tag = ''.'' \<or> tag = ''..'')" using tag by (auto simp: comp_ok_def)
  note run' = run [unfolded vfs_snapshot_on_def vw paths Let_def if_not_P [OF this] if_not_P [OF vw(1)]]
  have st: "stale_name tag ?c" "\<not> stale_name tag tag" "?c \<noteq> tag" by (auto simp: stale_name_def dest: prefix_length_le)
  obtain r0 f0 where mk: "fs_makedirs s (h_fs h) = (r0, f0)" by (cases "fs_makedirs s (h_fs h)")
  note M = makedirs_changes [OF mk ok(2)]
  have M0: "dget f0 q = dget (h_fs h) q \<or> dget (h_fs h) q = None \<and> dget f0 q = Some DirE \<and> prefix q s" for q
    using M(2) [of q] by blast
  have below0: "dget f0 q = dget (h_fs h) q" if "\<not> prefix q s" for q using M0 [of q] that by blast
  have not_up: "\<not> prefix (s @ [n] @ x) s" for n x by (auto dest: prefix_length_le)
  show ?thesis
  proof (cases r0)
    case (Inl e)
    then have "r = Inl e" "h' = h\<lparr>h_fs := f0\<rparr>" using run' mk vw(1) by auto
    then show ?thesis using M0 below0 [OF not_up] by auto
  next
    case (Inr u)
    let ?f1 = "cleanup_stale (path_str s) tag f0"
    have ok0: "fs_ok f0" by (rule fs_ok_makedirs [OF mk ok(1)])
    have s0: "fs_isdir f0 s" using M(3) Inr by simp
    note C = cleanup_changes [OF M(1), of "path_str s" tag, unfolded paths(4)]
    have ok1: "fs_ok ?f1" by (rule C(2) [OF ok0])
    have stale_other: "\<not> prefix (s @ [n]) (s @ m # x)" if "stale_name tag n" "\<not> stale_name tag m" for n m x
      using that by auto
    have near: "dget ?f1 q = dget f0 q" if "\<forall>n. \<not> (stale_name tag n \<and> prefix (s @ [n]) q)" for q
      using C(3) [of q] that by blast
    obtain r2 f2 where rm: "remove_if_there fl ?t ?f1 = (r2, f2)" by (cases "remove_if_there fl ?t ?f1")
    have all: "dget f q = dget (h_fs h) q \<or> prefix ?dest q \<or>
       dget (h_fs h) q = None \<and> dget f q = Some DirE \<and> prefix q s \<or>
       (\<exists>name. stale_name tag name \<and> prefix (s @ [name]) q)"
      if "\<And>q. \<forall>n. \<not> (stale_name tag n \<and> prefix (s @ [n]) q) \<Longrightarrow> \<not> prefix ?dest q \<Longrightarrow> dget f q = dget f0 q" for f q
      using that [of q] M0 [of q] by metis
    have "?t \<noteq> []" by simp
    from remove_if_there_cases [OF rm this] show ?thesis
    proof cases
      case 1
      then have "r = Inl OSError" "h' = h\<lparr>h_fs := f2\<rparr>" using run' mk Inr rm vw(1) by auto
      moreover have same: "dget f2 q = dget f0 q" if "\<forall>n. \<not> (stale_name tag n \<and> prefix (s @ [n]) q)" for q
        using near [OF that] 1(3) [of q] st(1) that by auto
      moreover have "dget f2 (s @ tag # x) = dget (h_fs h) (s @ tag # x)" for x
        using same [of "s @ tag # x"] below0 [of "s @ tag # x"] not_up [of tag x] stale_other [OF _ st(2)] by auto
      ultimately show ?thesis using all [of f2] by simp
    next
      case 2
      have R: "fs_ok f2" "dget f2 q = (if prefix ?t q then None else dget ?f1 q)"
        "fs_lookup f2 q = (if prefix ?t q then None else fs_lookup ?f1 q)" for q
        using cleared_exact [OF ok1, of ?t] 2 by auto
      have near2: "dget f2 q = dget f0 q" if "\<forall>n. \<not> (stale_name tag n \<and> prefix (s @ [n]) q)" for q
        using near [OF that] R(2) [of q] that st(1) by auto
      have above: "\<forall>n. \<not> (stale_name tag n \<and> prefix (s @ [n]) s)" by (auto dest: prefix_length_le)
      have s2: "fs_isdir f2 s" using near2 [OF above] s0 s(1) by (simp add: fs_isdir_def fs_lookup_def)
      have apartw: "\<forall>n. \<not> (stale_name tag n \<and> prefix (s @ [n]) (w @ x))" for x
        using apart_below [OF ws, of "w @ x"] by (auto dest: append_prefixD)
      have wx: "dget f2 (w @ x) = dget (h_fs h) (w @ x)" for x
        using near2 [OF apartw] below0 [of "w @ x"] ws by (auto simp: apart_def dest: append_prefixD)
      have w2: "fs_isdir f2 w" using wx [of "[]"] wd w(1) by (simp add: fs_isdir_def fs_lookup_def)
      obtain r3 f3 where pub: "publish_snapshot_on fl w ?t ?dest f2 = (r3, f3)" by (cases "publish_snapshot_on fl w ?t ?dest f2")
      have "fs_lookup f2 ?t = None" using R(3) [of ?t] by simp
      note P = publish_spec [OF R(1) s2 w2 ws st(3) this pub]
      have tagx: "dget f2 (s @ tag # x) = dget (h_fs h) (s @ tag # x)" for x
        using near2 [of "s @ tag # x"] below0 [of "s @ tag # x"] not_up [of tag x] stale_other [OF _ st(2)] by auto
      show ?thesis
      proof (cases r3)
        case e: (Inl e)
        then have "r = Inl e" "h' = h\<lparr>h_fs := discard_if_there ?t f3\<rparr>" using run' mk Inr rm 2 pub vw(1) by auto
        moreover have D: "dget (discard_if_there ?t f3) q = dget f2 q \<or>
            publish_refused fl s tag h \<and> prefix ?dest q \<and> dget (discard_if_there ?t f3) q = None" for q
          using P e unfolding publish_refused_def by simp
        moreover have "dget (discard_if_there ?t f3) q = dget f0 q"
          if "\<forall>n. \<not> (stale_name tag n \<and> prefix (s @ [n]) q)" "\<not> prefix ?dest q" for q
          using D [of q] near2 [OF that(1)] that(2) by auto
        moreover have "dget (discard_if_there ?t f3) (s @ tag # x) = dget (h_fs h) (s @ tag # x) \<or>
            publish_refused fl s tag h \<and> dget (discard_if_there ?t f3) (s @ tag # x) = None" for x
          using D [of "s @ tag # x"] tagx [of x] by auto
        ultimately show ?thesis using all [of "discard_if_there ?t f3"] by simp
      next
        case v: (Inr v)
        then have r: "r = Inr (path_str (s @ [tag]))" "h' = h\<lparr>h_fs := f3\<rparr>" using run' mk Inr rm 2 pub vw(1) by auto
        have G: "dget f3 q = (if q = ?dest then Some DirE
          else if strict_prefix ?dest q then dget f2 (w @ drop (Suc (length s)) q) else dget f2 q)" for q
          using P v by simp
        have "dget f3 (s @ tag # x) = dget (h_fs h) (w @ x)" if "x \<noteq> []" for x
          using G [of "s @ tag # x"] that wx [of x] by (simp add: strict_prefix_def)
        moreover have "dget f3 q = dget f0 q" if "\<forall>n. \<not> (stale_name tag n \<and> prefix (s @ [n]) q)" "\<not> prefix ?dest q" for q
          using G [of q] near2 [OF that(1)] that(2) by (auto simp: strict_prefix_def)
        ultimately show ?thesis using r all [of f3] G [of ?dest] by auto
      qed
    qed
  qed
qed


section \<open>Restoring\<close>

lemma vfs_swap_in:
  assumes w: "w \<noteq> []" "\<forall>c \<in> set w. comp_ok c" and "\<not> removal_refused fl (aside_of w) f"
  shows "vfs_swap_on fl (path_str w) tmp f = swap_in fl w (aside_of w) tmp (cleared (aside_of w) f)"
proof -
  have "aside_of w \<noteq> []" by (simp add: aside_of_def)
  from remove_fine [OF this assms(3)] show ?thesis
    unfolding vfs_swap_on_def swap_in_def aside_path [OF w] fs_path_str [OF w(2)] Let_def by simp
qed

text \<open>
  The situation of a restore, whatever the tag is: the workdir is a directory or is gone, its
  parent is there, and the directory the tag names is not around the temporary one.
\<close>

definition restore_src :: "vfs_workspace \<Rightarrow> string \<Rightarrow> path" where
  "restore_src vw tag = fs_path (path_join (vw_snapshots_root vw) tag)"

definition restorable :: "vfs_workspace \<Rightarrow> string \<Rightarrow> path \<Rightarrow> host \<Rightarrow> bool" where
  "restorable vw tag w h \<longleftrightarrow>
     vw_host_workdir vw = path_str w \<and> w \<noteq> [] \<and> (\<forall>c \<in> set w. comp_ok c) \<and> fs_ok (h_fs h) \<and>
     fs_isdir (h_fs h) (butlast w) \<and> \<not> fs_isfile (h_fs h) w \<and> apart (restore_dir w h) (restore_src vw tag)"

text \<open>What a restore answers: the first thing that goes wrong, in the order of the code.\<close>

definition restore_answer :: "faults \<Rightarrow> vfs_workspace \<Rightarrow> string \<Rightarrow> path \<Rightarrow> host \<Rightarrow> unit result" where
  "restore_answer fl vw tag w h =
     (let tmp = restore_dir w h; aside = aside_of w; f = h_fs h in
      if vw_vfs_backend vw = None then Inl RuntimeError
      else if \<not> fs_isdir f (restore_src vw tag) then Inl KeyError
      else if removal_refused fl tmp f \<or> fl_copy fl tmp \<noteq> None \<or> removal_refused fl aside f then Inl OSError
      else if \<not> fs_exists f w then Inl FileNotFoundError
      else if fl_rename fl w aside \<or> fl_rename fl tmp w then Inl OSError
      else Inr ())"

lemma restore_dir_apart: "w \<noteq> [] \<Longrightarrow> apart (restore_dir w h) w" "w \<noteq> [] \<Longrightarrow> apart (restore_dir w h) (aside_of w)"
  using apart_siblings [of "last w @ ''.restore.'' @ tmp_stamp h" "last w" "butlast w"]
    apart_siblings [of "last w @ ''.restore.'' @ tmp_stamp h" "last w @ ''.aside''" "butlast w"]
  by (simp_all add: restore_dir_def aside_of_def)

lemma missing_leaf: "fs_ok f \<Longrightarrow> w \<noteq> [] \<Longrightarrow> fs_isdir f (butlast w) \<Longrightarrow> \<not> fs_exists f w \<Longrightarrow> fs_missing f w = FileNotFoundError"
proof -
  assume f: "fs_ok f" "w \<noteq> []" "fs_isdir f (butlast w)" "\<not> fs_exists f w"
  have "\<not> fs_isfile f q" if "q \<in> set (prefixes w)" for q
  proof (cases "q = w")
    case False
    then have "prefix q (butlast w)" using that f(2) by (metis append_butlast_last_id in_set_prefixes prefix_snoc)
    from fs_dirs_above [OF f(1,3) this] show ?thesis by (simp add: fs_isfile_def fs_isdir_def)
  qed (use f(4) fs_exists_cases in auto)
  then show ?thesis by (auto simp: fs_missing_def list_ex_iff)
qed

text \<open>
  A restore puts the tag's tree in the place of the workdir and changes nothing else, or fails
  and changes nothing but the temporary names; only when the swap and its roll-back are both
  refused is the workdir lost, and then it is whole under the aside name.
\<close>

lemma vfs_restore_spec:
  assumes ready: "restorable vw tag w h" and run: "vfs_restore_on fl vw tag h = (r, h')"
  shows "h' = h\<lparr>h_fs := h_fs h'\<rparr> \<and> r = restore_answer fl vw tag w h \<and>
    (case r of
       Inr _ \<Rightarrow> \<forall>q. dget (h_fs h') q =
         (if q = w then Some DirE
          else if strict_prefix w q then dget (h_fs h) (restore_src vw tag @ drop (length w) q)
          else if prefix (aside_of w) q \<or> prefix (restore_dir w h) q then None else dget (h_fs h) q)
     | Inl _ \<Rightarrow>
         (\<forall>q. dget (h_fs h') q = dget (h_fs h) q \<or>
            (prefix (aside_of w) q \<or> prefix (restore_dir w h) q) \<and> dget (h_fs h') q = None) \<or>
         fl_rename fl (restore_dir w h) w \<and> fl_rename fl (aside_of w) w \<and>
         (\<forall>x. dget (h_fs h') (aside_of w @ x) = dget (h_fs h) (w @ x)))"
proof -
  let ?f = "h_fs h" and ?src = "restore_src vw tag" and ?t = "restore_dir w h" and ?a = "aside_of w"
  have vw: "vw_host_workdir vw = path_str w"
    and w: "w \<noteq> []" "\<forall>c \<in> set w. comp_ok c" and ok: "fs_ok ?f" "dict_ok ?f" and pd: "fs_isdir ?f (butlast w)"
    and nf: "\<not> fs_isfile ?f w" and ap: "apart ?t ?src"
    using ready by (simp_all add: restorable_def fs_ok_def)
  define nb where "nb \<longleftrightarrow> vw_vfs_backend vw = None"
  note run' = run [unfolded vfs_restore_on_def vw restore_path [OF w] restore_src_def [symmetric] Let_def, folded nb_def]
  note answer = restore_answer_def [of fl vw tag w h, unfolded Let_def, folded nb_def]
  have t: "?t \<noteq> []" "?t = butlast w @ [last w @ ''.restore.'' @ tmp_stamp h]" by (simp_all add: restore_dir_def)
  have ane: "?a \<noteq> []" by (simp add: aside_of_def)
  note ta = restore_dir_apart [OF w(1), of h]
  have na: "\<not> prefix ?t ?a" "\<not> prefix ?t w" "\<not> prefix ?a ?t" "\<not> prefix w ?t" using ta by (simp_all add: apart_def)
  consider "nb" | "\<not> nb" "\<not> fs_isdir ?f ?src"
    | "\<not> nb" "fs_isdir ?f ?src" "removal_refused fl ?t ?f"
    | "\<not> nb" "fs_isdir ?f ?src" "\<not> removal_refused fl ?t ?f" by blast
  then show ?thesis
  proof cases
    case 1
    then have "r = Inl RuntimeError" "h' = h" using run' by simp_all
    then show ?thesis using 1 answer by simp
  next
    case 2
    then have "r = Inl KeyError" "h' = h" using run' by simp_all
    then show ?thesis using 2 answer by simp
  next
    case 3
    from remove_refused [OF this(3)] obtain f1 where rm: "remove_if_there fl ?t ?f = (Inl OSError, f1)"
      and f1: "\<And>q. dget f1 q = dget ?f q \<or> prefix ?t q \<and> dget f1 q = None" by blast
    then have r: "r = Inl OSError" "h' = h\<lparr>h_fs := f1\<rparr>" using run' 3 by simp_all
    have "\<forall>q. dget f1 q = dget ?f q \<or> (prefix ?a q \<or> prefix ?t q) \<and> dget f1 q = None" using f1 by blast
    then show ?thesis using 3 answer r by simp
  next
    case 4
    let ?f1 = "cleared ?t ?f"
    have rm: "remove_if_there fl ?t ?f = (Inr (), ?f1)" by (rule remove_fine [OF t(1) 4(3)])
    note R = cleared_exact [OF ok(1) t(1)]
    have pd1: "fs_isdir ?f1 (butlast w)"
    proof -
      have "\<not> prefix ?t (butlast w)" by (auto simp: restore_dir_def dest: prefix_length_le)
      then show ?thesis using R(3) [of "butlast w"] pd by (simp add: fs_isdir_def)
    qed
    have src1: "fs_isdir ?f1 ?src" using 4(2) R(3) [of ?src] ap by (simp add: fs_isdir_def apart_def)
    let ?c = "last w @ ''.restore.'' @ tmp_stamp h"
    have new: "fs_lookup ?f1 (butlast w @ [?c]) = None"
      using R(3) [of ?t] unfolding t(2) [symmetric] by simp
    show ?thesis
    proof (cases "fl_copy fl ?t")
      case (Some keep)
      from Some have "fl_copy fl (butlast w @ [?c]) = Some keep" unfolding t(2) [symmetric] .
      from copytree_refused [OF R(1) pd1 new src1 this, folded t(2)]
      obtain f2 where "copytree_on fl ?src ?t ?f1 = (Inl OSError, f2)"
        and f2: "\<And>q. dget (discard_if_there ?t f2) q = dget ?f1 q" by blast
      then have r: "r = Inl OSError" "h' = h\<lparr>h_fs := discard_if_there ?t f2\<rparr>" using run' 4 rm by simp_all
      have "\<forall>q. dget (discard_if_there ?t f2) q = dget ?f q \<or>
          (prefix ?a q \<or> prefix ?t q) \<and> dget (discard_if_there ?t f2) q = None"
        using f2 R(2) by simp
      then show ?thesis using 4 answer r Some by simp
    next
      case None
      from copytree_exact [OF R(1) pd1 new src1] obtain f2 where
        "fs_copytree ?src ?t ?f1 = (Inr (), f2)" and ok2: "dict_ok f2"
        and get2: "\<And>q. dget f2 q = (if q = ?t then Some DirE
           else if strict_prefix ?t q then dget ?f1 (?src @ drop (Suc (length (butlast w))) q) else dget ?f1 q)"
        unfolding t(2) [symmetric] by blast
      then have copy: "copytree_on fl ?src ?t ?f1 = (Inr (), f2)" by (simp add: copytree_on_def None)
      have out2: "dget f2 q = dget ?f q" if "\<not> prefix ?t q" for q
        using that get2 [of q] R(2) [of q] by (auto simp: strict_prefix_def)
      have look2: "fs_lookup f2 q = fs_lookup ?f q" if "\<not> prefix ?t q" for q
        using out2 [OF that] by (simp add: fs_lookup_def)
      have len: "Suc (length (butlast w)) = length ?t" by (simp add: restore_dir_def)
      have in2: "dget f2 (?t @ x) = (if x = [] then Some DirE else dget ?f (?src @ x))" for x
      proof -
        have "\<not> prefix ?t (?src @ x)" using apart_below [OF apart_sym [OF ap], of "?src @ x"] by simp
        then show ?thesis using get2 [of "?t @ x"] R(2) [of "?src @ x"]
          unfolding len by (simp add: strict_prefix_def)
      qed
      have td2: "fs_isdir f2 ?t" "dget f2 ?t = Some DirE" using in2 [of "[]"] t(1) by (simp_all add: fs_isdir_def fs_lookup_def)
      have none: "dget ?f q = None \<or> prefix ?t q" "\<not> prefix ?t q \<Longrightarrow> dget f2 q = dget ?f q" if "dget f2 q = None" for q
        using that out2 [of q] by auto
      have undone: "dget (discard_if_there ?t g) q = (if prefix ?t q then None else dget g q)"
        if "dget g ?t = Some DirE" for g q
        using that t(1) discarded [of g ?t q] by (simp add: fs_isdir_def fs_exists_def fs_lookup_def)
      have fail: ?thesis
        if r: "r = Inl e" "h' = h\<lparr>h_fs := discard_if_there ?t g\<rparr>" "restore_answer fl vw tag w h = Inl e"
          and g: "dget g ?t = Some DirE" "\<And>q. dget g q = dget f2 q \<or> prefix ?a q \<and> dget g q = None" for e g
      proof -
        have "dget (h_fs h') q = dget ?f q \<or> (prefix ?a q \<or> prefix ?t q) \<and> dget (h_fs h') q = None" for q
          using r(2) undone [OF g(1), of q] g(2) [of q] out2 [of q] by auto
        then show ?thesis using r by simp
      qed
      have bd2: "fs_isdir f2 (butlast w)"
      proof -
        have "\<not> prefix ?t (butlast w)" by (auto simp: restore_dir_def dest: prefix_length_le)
        then show ?thesis using look2 pd by (simp add: fs_isdir_def)
      qed
      have same: "removal_refused fl ?a f2 = removal_refused fl ?a ?f" "fs_exists f2 w = fs_exists ?f w"
        using look2 [OF na(1)] look2 [OF na(2)] by (simp_all add: removal_refused_def fs_isfile_def fs_isdir_def fs_exists_def)
      show ?thesis
      proof (cases "removal_refused fl ?a ?f")
        case True
        with same remove_refused [of fl ?a f2] obtain g where "remove_if_there fl ?a f2 = (Inl OSError, g)"
          and g: "\<And>q. dget g q = dget f2 q \<or> prefix ?a q \<and> dget g q = None" by auto
        then have "vfs_swap_on fl (path_str w) ?t f2 = (Inl OSError, g)"
          unfolding vfs_swap_on_def aside_path [OF w] Let_def by simp
        then have "r = Inl OSError" "h' = h\<lparr>h_fs := discard_if_there ?t g\<rparr>" using run' 4 rm copy by simp_all
        moreover have "dget g ?t = Some DirE" using g [of ?t] td2 na by simp
        ultimately show ?thesis using 4 None True g answer by (intro fail) simp_all
      next
        case fine: False
        let ?g = "cleared ?a f2"
        have sw: "vfs_swap_on fl (path_str w) ?t f2 = swap_in fl w ?a ?t ?g"
          using vfs_swap_in [OF w, of fl f2 ?t] same fine by simp
        have gt: "dget ?g ?t = Some DirE" using td2 na by (simp add: cleared_get)
        have wa: "apart w ?a" by (rule apart_aside [OF w(1)])
        then have aw: "\<not> prefix ?a w" by (simp add: apart_def)
        show ?thesis
        proof (cases "fs_exists ?f w")
          case False
          have lw: "fs_lookup ?g w = None"
            using False same(2) aw by (simp add: cleared_lookup fs_exists_def)
          have "fs_missing ?g w = FileNotFoundError"
          proof -
            have "fs_isfile ?g q = fs_isfile ?f q" if "q \<in> set (prefixes w)" for q
            proof -
              have "prefix q w" using that by simp
              then have "\<not> prefix ?a q" "\<not> prefix ?t q"
                using aw na(2) prefix_order.trans by blast+
              then show ?thesis using look2 [of q] by (simp add: fs_isfile_def cleared_lookup)
            qed
            then have "list_ex (fs_isfile ?g) (prefixes w) = list_ex (fs_isfile ?f) (prefixes w)"
              by (auto simp: list_ex_iff)
            with missing_leaf [OF ok(1) w(1) pd False] show ?thesis by (simp add: fs_missing_def)
          qed
          then have "swap_in fl w ?a ?t ?g = (Inl FileNotFoundError, ?g)"
            using lw by (simp add: swap_in_def os_replace_def fs_replace_def)
          then have "r = Inl FileNotFoundError" "h' = h\<lparr>h_fs := discard_if_there ?t ?g\<rparr>" using run' 4 rm copy sw by simp_all
          then show ?thesis using 4 None fine False answer by (intro fail [OF _ _ _ gt cleared_below]) simp_all
        next
          case True
          then have wd2: "fs_isdir f2 w" using nf look2 [OF na(2)] fs_exists_cases by (simp add: fs_isdir_def)
          from swap_outcome [OF w ok2 wd2 td2(1) bd2 ta, of fl] obtain f3 where
            si: "swap_in fl w ?a ?t ?g = (swap_answer fl w ?a ?t, f3)"
            and get3: "\<And>q. dget f3 q = swapped_get fl w ?a ?t ?g q" by blast
          have ans: "restore_answer fl vw tag w h = swap_answer fl w ?a ?t"
            using 4 None fine True unfolding answer swap_answer_def by simp
          have inw: "prefix w q \<Longrightarrow> \<not> prefix ?a q" "prefix ?t q \<Longrightarrow> \<not> prefix ?a q" for q
            using apart_below [OF wa, of q] apart_below [OF ta(2), of q] by auto
          show ?thesis
          proof (cases "swap_answer fl w ?a ?t")
            case v: (Inr v)
            then have no: "\<not> fl_rename fl w ?a" "\<not> fl_rename fl ?t w" by (auto simp: swap_answer_def split: if_splits)
            have r: "r = Inr ()" "h' = h\<lparr>h_fs := f3\<rparr>" using run' 4 rm copy sw si v by simp_all
            have "dget f3 q = (if q = w then Some DirE else if strict_prefix w q then dget ?f (?src @ drop (length w) q)
               else if prefix ?a q \<or> prefix ?t q then None else dget ?f q)" for q
            proof (cases "prefix w q")
              case True
              then obtain x where "q = w @ x" by (auto simp: prefix_def)
              then show ?thesis using get3 [of q] in2 [of x] no inw(2) [of "?t @ x"]
                by (auto simp: swapped_get_def cleared_get strict_prefix_def)
            next
              case False
              then show ?thesis using get3 [of q] out2 [of q] no
                by (auto simp: swapped_get_def cleared_get strict_prefix_def)
            qed
            with r ans v show ?thesis by simp
          next
            case (Inl e)
            then have e: "e = OSError" and bad: "fl_rename fl w ?a \<or> fl_rename fl ?t w"
              by (auto simp: swap_answer_def split: if_splits)
            have r: "r = Inl OSError" "h' = h\<lparr>h_fs := discard_if_there ?t f3\<rparr>" using run' 4 rm copy sw si Inl e by simp_all
            have f3t: "dget f3 ?t = Some DirE"
              using get3 [of ?t] bad na gt by (auto simp: swapped_get_def split: if_splits)
            show ?thesis
            proof (cases "\<not> fl_rename fl w ?a \<and> fl_rename fl ?a w")
              case True
              have "dget (h_fs h') (?a @ x) = dget ?f (w @ x)" for x
                using r(2) undone [OF f3t, of "?a @ x"] get3 [of "?a @ x"] True bad inw(1) [of "w @ x"]
                  apart_below [OF apart_sym [OF ta(2)], of "?a @ x"] apart_below [OF apart_sym [OF ta(1)], of "w @ x"]
                  out2 [of "w @ x"]
                by (simp add: swapped_get_def cleared_get)
              then show ?thesis using r ans Inl e True bad by simp
            next
              case False
              have "dget f3 q = dget f2 q \<or> prefix ?a q \<and> dget f3 q = None" for q
                using get3 [of q] False bad cleared_below [of ?a f2 q] by (auto simp: swapped_get_def cleared_get split: if_splits)
              then show ?thesis using r ans Inl e f3t by (intro fail) simp_all
            qed
          qed
        qed
      qed
    qed
  qed
qed


lemma vfs_ready_restorable:
  assumes "vfs_ready vw w s h" and "comp_ok tag"
  shows "restorable vw tag w h" and "restore_src vw tag = s @ [tag]" and "fs_isdir (h_fs h) w" and "vw_vfs_backend vw \<noteq> None"
proof -
  have ok: "fs_ok (h_fs h)" and wd: "fs_isdir (h_fs h) w" and s: "s \<noteq> []" "\<forall>c \<in> set s. comp_ok c"
    using assms(1) by (simp_all add: vfs_ready_def)
  have "fs_isdir (h_fs h) (butlast w)" by (rule fs_dirs_above [OF ok wd]) (rule prefixeq_butlast)
  moreover have "\<not> fs_isfile (h_fs h) w" using wd by (simp add: fs_isdir_def fs_isfile_def)
  moreover show src: "restore_src vw tag = s @ [tag]"
    using assms(1) snapshot_paths(1,2) [OF s assms(2)] by (simp add: restore_src_def vfs_ready_def)
  moreover have "apart (restore_dir w h) (s @ [tag])"
  proof -
    have ap: "apart (restore_dir w h) s" using assms(1) by (simp add: vfs_ready_def)
    then have "\<not> prefix (s @ [tag]) (restore_dir w h)" by (auto simp: apart_def dest: append_prefixD)
    moreover have "\<not> prefix (restore_dir w h) (s @ [tag])"
      by (rule apart_below [OF apart_sym [OF ap]]) simp
    ultimately show ?thesis by (simp add: apart_def)
  qed
  ultimately show "restorable vw tag w h" using assms(1) by (simp add: restorable_def vfs_ready_def)
  show "fs_isdir (h_fs h) w" by (rule wd)
  show "vw_vfs_backend vw \<noteq> None" using assms(1) by (simp add: vfs_ready_def)
qed

section \<open>Writing\<close>

definition write_tmp :: "path \<Rightarrow> path" where
  "write_tmp p = butlast p @ [last p @ ''.agentfs.tmp'']"

lemma write_paths:
  assumes "full = realpath full" and "fs_path full \<noteq> []"
  shows "fs_path (full @ ''.agentfs.tmp'') = write_tmp (fs_path full)" and "path_dirname full \<noteq> []"
    and "fs_path (path_dirname full) = butlast (fs_path full)"
proof -
  let ?p = "fs_path full"
  have full: "full = path_str ?p" using assms by (simp add: realpath_def Let_def)
  have ok: "\<forall>c \<in> set ?p. comp_ok c" by (rule fs_path_comps)
  show "fs_path (full @ ''.agentfs.tmp'') = write_tmp ?p"
    using sibling_path [OF assms(2) ok, of "''.agentfs.tmp''"] full by (simp add: write_tmp_def)
  have dir: "path_dirname full = (if butlast ?p = [] then ''/'' else path_str (butlast ?p))"
    using path_dirname_str [OF assms(2) ok] full by simp
  show "path_dirname full \<noteq> []" unfolding dir by (cases "butlast ?p") (simp_all add: path_str_def)
  have "\<forall>c \<in> set (butlast ?p). comp_ok c" using ok by (auto dest: in_set_butlastD)
  then show "fs_path (path_dirname full) = butlast ?p" unfolding dir by (simp add: path_str_root)
qed

lemma write_tmp_apart: "p \<noteq> [] \<Longrightarrow> apart (write_tmp p) p"
  using apart_siblings [of "last p @ ''.agentfs.tmp''" "last p" "butlast p"] by (simp add: write_tmp_def)

lemma af_write_spec:
  assumes full: "af_resolve af path = Inr full" and ne: "fs_path full \<noteq> []" and ok: "dict_ok (h_fs h)"
    and run: "af_write af path data h = (r, h')"
  shows "(\<forall>q. dget (h_fs h') q = dget (h_fs h) q \<or> prefix (fs_path full) q \<or> prefix (write_tmp (fs_path full)) q \<or>
      dget (h_fs h) q = None \<and> dget (h_fs h') q = Some DirE \<and> q \<noteq> [] \<and> prefix q (butlast (fs_path full))) \<and>
    (r = Inr () \<longrightarrow> dget (h_fs h') (fs_path full) = Some (FileE data))"
proof -
  let ?p = "fs_path full"
  let ?t = "write_tmp ?p"
  note paths = write_paths [OF resolved(2) [OF full] ne]
  note run' = run [unfolded af_write_def full sum.case Let_def paths(1) if_not_P [OF paths(2)] paths(3)]
  obtain r0 f0 where mk: "fs_makedirs (butlast ?p) (h_fs h) = (r0, f0)" by (cases "fs_makedirs (butlast ?p) (h_fs h)")
  note M = makedirs_changes [OF mk ok]
  have t: "?t \<noteq> []" "butlast ?t = butlast ?p" by (simp_all add: write_tmp_def)
  have up: "dget f0 q = dget (h_fs h) q \<or> prefix ?p q \<or> prefix ?t q \<or>
      dget (h_fs h) q = None \<and> dget f0 q = Some DirE \<and> q \<noteq> [] \<and> prefix q (butlast ?p)" for q
    using M(2) [of q] by blast
  show ?thesis
  proof (cases r0)
    case (Inl e)
    then have "r = Inl e" "h_fs h' = f0" using run' mk by auto
    then show ?thesis using up by simp
  next
    case (Inr u)
    obtain r1 f1 where wr: "fs_write ?t data f0 = (r1, f1)" by (cases "fs_write ?t data f0")
    show ?thesis
    proof (cases r1)
      case e: (Inl e)
      then have "f1 = f0" using wr by (auto simp: fs_write_def split: if_splits)
      then have "r = Inl e" "h_fs h' = f0" using run' mk Inr wr e by auto
      then show ?thesis using up by simp
    next
      case v: (Inr v)
      then have f1: "f1 = dput ?t (FileE data) f0" using wr by (auto simp: fs_write_def split: if_splits)
      have ok1: "dict_ok f1" using M(1) f1 by simp
      obtain r2 f2 where re: "fs_replace ?t ?p f1 = (r2, f2)" by (cases "fs_replace ?t ?p f1")
      have out: "r = r2" "h_fs h' = f2" using run' mk Inr wr v re by auto
      have get1: "dget f1 q = (if q = ?t then Some (FileE data) else dget f0 q)" for q by (simp add: f1 dict_simps)
      note ch = fs_replace_changes [OF re ok1]
      have "dget f2 ?p = Some (FileE data)" if "r2 = Inr ()"
      proof -
        have "f2 = fs_move ?t ?p f1" using re that write_tmp_apart [OF ne]
          by (auto simp: fs_replace_def apart_def split: option.splits if_splits entry.splits)
        then show ?thesis using fs_get_move [OF _ _ ok1, of ?t ?p ?p] write_tmp_apart [OF ne] get1 [of ?t]
          by (simp add: apart_def)
      qed
      moreover have "dget f2 q = dget (h_fs h) q \<or> prefix ?p q \<or> prefix ?t q \<or>
        dget (h_fs h) q = None \<and> dget f2 q = Some DirE \<and> q \<noteq> [] \<and> prefix q (butlast ?p)" for q
      proof (cases "prefix ?p q \<or> prefix ?t q")
        case False
        then have "dget f2 q = dget f0 q" using ch(2) [of q] get1 [of q] by auto
        then show ?thesis using up [of q] by simp
      qed blast
      ultimately show ?thesis using out by simp
    qed
  qed
qed


section \<open>Properties\<close>

text \<open>A workspace with one file, and the same after a snapshot and the loss of the file.\<close>

definition demo_agentfs :: agentfs where
  "demo_agentfs = \<lparr>af_workdir = path_str [''ws''], af_exec_timeout = 60\<rparr>"

definition demo_vw :: vfs_workspace where
  "demo_vw = \<lparr>vw_workspace_id = ''v'', vw_host_workdir = path_str [''ws''], vw_snapshots_root = path_str [''ws.snapshots''],
     vw_vfs_backend = Some demo_agentfs, vw_backend = Some demo_agentfs, vw_is_alive = True\<rparr>"

definition demo_before :: host where
  "demo_before = demo_host [([], DirE), ([''ws''], DirE), ([''ws'', ''a''], FileE (Raw ''1''))]"

definition demo_after :: host where
  "demo_after = demo_host [([], DirE), ([''ws''], DirE), ([''ws.snapshots''], DirE),
     ([''ws.snapshots'', ''t''], DirE), ([''ws.snapshots'', ''t'', ''a''], FileE (Raw ''1''))]"

lemma demo_fs_ok: "fs_ok (h_fs demo_before)" "fs_ok (h_fs demo_after)"
  by (auto simp: demo_before_def demo_after_def demo_host_def fs_ok_def dict_ok_def fs_isdir_def fs_lookup_def
    append_eq_Cons_conv split: if_splits)

lemma demo_stamp: "tmp_stamp demo_before = ''7.2.000000''" "tmp_stamp demo_after = ''7.2.000000''"
  by (simp_all add: tmp_stamp_def demo_before_def demo_after_def demo_host_def demo_time show_nat.simps digit_char_def)

lemma demo_vfs_ready:
  "vfs_ready demo_vw [''ws''] [''ws.snapshots''] demo_before" "vfs_ready demo_vw [''ws''] [''ws.snapshots''] demo_after"
  using demo_fs_ok unfolding vfs_ready_def restore_dir_def demo_stamp aside_of_def
  by (simp_all add: demo_vw_def comp_ok_def apart_def fs_isdir_def fs_lookup_def demo_before_def demo_after_def demo_host_def)

lemma demo_snapshot:
  "fst (vfs_snapshot demo_vw ''t'' demo_before) = Inr ''/ws.snapshots/t''"
  "h_fs (snd (vfs_snapshot demo_vw ''t'' demo_before)) =
     [([], DirE), ([''ws''], DirE), ([''ws'', ''a''], FileE (Raw ''1'')), ([''ws.snapshots''], DirE),
      ([''ws.snapshots'', ''t''], DirE), ([''ws.snapshots'', ''t'', ''a''], FileE (Raw ''1''))]"
  unfolding vfs_snapshot_def vfs_snapshot_on_def Let_def demo_stamp by code_simp+

text \<open>
  C6: Rolling back: after a snapshot, whatever then happens to the workspace as long as the
  snapshot's directory is left alone, a restore of the tag succeeds unless a file has taken one
  of its temporary names, gives the workdir exactly the tree it had at the snapshot, and keeps
  the snapshot for the next restore.
\<close>

theorem vfs_rollback:
  assumes "vfs_ready vw w s h" and "comp_ok tag" and "vfs_snapshot vw tag h = (Inr p, h1)"
    and "vfs_ready vw w s h2" and "\<forall>x. dget (h_fs h2) (s @ [tag] @ x) = dget (h_fs h1) (s @ [tag] @ x)"
    and "\<not> fs_isfile (h_fs h2) (restore_dir w h2)" and "\<not> fs_isfile (h_fs h2) (aside_of w)"
  shows "fst (vfs_restore vw tag h2) = Inr () \<and>
    (\<forall>x. dget (h_fs (snd (vfs_restore vw tag h2))) (w @ x) = dget (h_fs h) (w @ x)) \<and>
    (\<forall>x. dget (h_fs (snd (vfs_restore vw tag h2))) (s @ [tag] @ x) = dget (h_fs h1) (s @ [tag] @ x))"
proof -
  obtain r h3 where run: "vfs_restore vw tag h2 = (r, h3)" by (cases "vfs_restore vw tag h2")
  note S = vfs_snapshot_spec [OF assms(1,2) assms(3) [unfolded vfs_snapshot_def], simplified]
  have w: "w \<noteq> []" "dget (h_fs h) w = Some DirE"
    using assms(1) by (auto simp: vfs_ready_def fs_isdir_def fs_lookup_def)
  have ap: "apart w s" "apart (aside_of w) s" "apart (restore_dir w h2) s" using assms(4) by (simp_all add: vfs_ready_def)
  note ready = vfs_ready_restorable [OF assms(4,2)]
  note R = vfs_restore_spec [OF ready(1) run [unfolded vfs_restore_def], unfolded ready(2)]
  have "fs_isdir (h_fs h2) (s @ [tag])"
    using assms(5) [rule_format, of "[]"] S by (simp add: fs_isdir_def fs_lookup_def)
  then have r: "r = Inr ()" using R assms(6,7) ready(3,4)
    by (simp add: restore_answer_def ready(2) removal_refused_def no_faults_def Let_def fs_exists_cases)
  have get: "dget (h_fs h3) q = (if q = w then Some DirE
      else if strict_prefix w q then dget (h_fs h2) (s @ [tag] @ drop (length w) q)
      else if prefix (aside_of w) q \<or> prefix (restore_dir w h2) q then None else dget (h_fs h2) q)" for q
    using R unfolding r by simp
  have "dget (h_fs h3) (w @ x) = dget (h_fs h) (w @ x)" for x
  proof (cases x)
    case (Cons c cs)
    then have "dget (h_fs h3) (w @ x) = dget (h_fs h1) (s @ [tag] @ x)"
      using get [of "w @ x"] assms(5) by (simp add: strict_prefix_def)
    moreover have "dget (h_fs h1) (s @ tag # x) = dget (h_fs h) (w @ x)" using S Cons by blast
    ultimately show ?thesis by simp
  qed (use get [of w] w in simp)
  moreover have "dget (h_fs h3) (s @ [tag] @ x) = dget (h_fs h1) (s @ [tag] @ x)" for x
    using get [of "s @ [tag] @ x"] assms(5) apart_below [OF apart_sym [OF ap(1)], of "s @ [tag] @ x"]
      apart_below [OF apart_sym [OF ap(2)], of "s @ [tag] @ x"] apart_below [OF apart_sym [OF ap(3)], of "s @ [tag] @ x"]
    by (auto simp: strict_prefix_def)
  ultimately show ?thesis using run r by simp
qed

theorem vfs_rollback_witness:
  "fst (vfs_restore demo_vw ''t'' demo_after) = Inr () \<and>
   dget (h_fs (snd (vfs_restore demo_vw ''t'' demo_after))) [''ws'', ''a''] = Some (FileE (Raw ''1''))"
proof -
  obtain p h1 where run: "vfs_snapshot demo_vw ''t'' demo_before = (Inr p, h1)"
    using demo_snapshot(1) by (metis fst_conv surj_pair)
  have "\<forall>x. dget (h_fs demo_after) ([''ws.snapshots''] @ [''t''] @ x) = dget (h_fs h1) ([''ws.snapshots''] @ [''t''] @ x)"
    using demo_snapshot(2) run by (simp add: demo_after_def demo_host_def)
  moreover have "comp_ok ''t''" "\<not> fs_isfile (h_fs demo_after) (restore_dir [''ws''] demo_after)"
    "\<not> fs_isfile (h_fs demo_after) (aside_of [''ws''])"
    unfolding restore_dir_def demo_stamp aside_of_def
    by (simp_all add: comp_ok_def fs_isfile_def fs_lookup_def demo_after_def demo_host_def)
  ultimately have R: "fst (vfs_restore demo_vw ''t'' demo_after) = Inr ()"
    "\<forall>x. dget (h_fs (snd (vfs_restore demo_vw ''t'' demo_after))) ([''ws''] @ x) = dget (h_fs demo_before) ([''ws''] @ x)"
    using vfs_rollback [OF demo_vfs_ready(1) _ run demo_vfs_ready(2)] by blast+
  with R(2) [rule_format, of "[''a'']"] show ?thesis by (simp add: demo_before_def demo_host_def)
qed

text \<open>
  C21: A snapshot, successful or not, whichever copies, removals and renames the system refuses on
  the way, leaves the workdir as it is and every other snapshot too, unless its name starts with
  \<open>tag.tmp.\<close> or \<open>tag.obsolete.\<close>: those are taken for this tag's leftovers and removed. When it
  succeeds the tag holds exactly the workdir's tree. When it fails the tag's previous snapshot is
  as it was, except when the failure is the removal of that snapshot or the rename of the finished
  copy into its place: then what was there may be gone, but nothing new is ever left under the
  tag by a snapshot that failed.
\<close>

theorem vfs_snapshot_isolated:
  assumes "vfs_ready vw w s h" and "comp_ok tag" and "vfs_snapshot_on fl vw tag h = (r, h')"
  shows "(\<forall>x. dget (h_fs h') (w @ x) = dget (h_fs h) (w @ x)) \<and>
    (\<forall>other x. \<not> stale_name tag other \<longrightarrow> other \<noteq> tag \<longrightarrow>
       dget (h_fs h') (s @ [other] @ x) = dget (h_fs h) (s @ [other] @ x)) \<and>
    (case r of
       Inr p \<Rightarrow> p = path_str (s @ [tag]) \<and> (\<forall>x. dget (h_fs h') (s @ [tag] @ x) = dget (h_fs h) (w @ x))
     | Inl _ \<Rightarrow> \<forall>x. dget (h_fs h') (s @ [tag] @ x) = dget (h_fs h) (s @ [tag] @ x) \<or>
         publish_refused fl s tag h \<and> dget (h_fs h') (s @ [tag] @ x) = None)"
proof -
  note S = vfs_snapshot_spec [OF assms]
  have same: "dget (h_fs h') q = dget (h_fs h) q"
    if "\<not> prefix (s @ [tag]) q" "\<not> prefix q s" "\<forall>n. \<not> (stale_name tag n \<and> prefix (s @ [n]) q)" for q
    using S that by blast
  have ws: "apart w s" and w: "w \<noteq> []" "dget (h_fs h) w = Some DirE"
    using assms(1) by (auto simp: vfs_ready_def fs_isdir_def fs_lookup_def)
  have "dget (h_fs h') (w @ x) = dget (h_fs h) (w @ x)" for x
    using apart_below [OF ws, of "w @ x"] ws by (intro same) (auto simp: apart_def dest: append_prefixD)
  moreover have "dget (h_fs h') (s @ [other] @ x) = dget (h_fs h) (s @ [other] @ x)"
    if "\<not> stale_name tag other" "other \<noteq> tag" for other x
    using that by (intro same) (auto dest: prefix_length_le)
  moreover have "dget (h_fs h') (s @ [tag] @ x) = dget (h_fs h) (w @ x)" if "r = Inr p" for x p
    using S that w by (cases x) auto
  ultimately show ?thesis using S by (cases r) simp_all
qed

text \<open>The copy fails after the first directory; the restored tree cannot be renamed into place.\<close>

definition demo_copy_fails :: faults where
  "demo_copy_fails = \<lparr>fl_rename = (\<lambda>_ _. False), fl_copy = (\<lambda>_. Some (\<lambda>q. q = [])), fl_remove = (\<lambda>_. None)\<rparr>"

definition demo_swap_fails :: faults where
  "demo_swap_fails = \<lparr>fl_rename = (\<lambda>a b. b = [''ws''] \<and> a \<noteq> [''ws.aside'']), fl_copy = (\<lambda>_. None), fl_remove = (\<lambda>_. None)\<rparr>"

theorem vfs_snapshot_isolated_witness:
  "\<exists>h'. vfs_snapshot_on demo_copy_fails demo_vw ''t'' demo_after = (Inl OSError, h') \<and>
     dget (h_fs h') [''ws.snapshots'', ''t'', ''a''] = Some (FileE (Raw ''1''))"
proof -
  have "fst (vfs_snapshot_on demo_copy_fails demo_vw ''t'' demo_after) = Inl OSError"
    unfolding vfs_snapshot_on_def Let_def demo_stamp by code_simp
  then obtain h' where run: "vfs_snapshot_on demo_copy_fails demo_vw ''t'' demo_after = (Inl OSError, h')"
    by (metis fst_conv surj_pair)
  have "comp_ok ''t''" by (simp add: comp_ok_def)
  from vfs_snapshot_isolated [OF demo_vfs_ready(2) this run] have
    "dget (h_fs h') [''ws.snapshots'', ''t'', ''a''] = dget (h_fs demo_after) [''ws.snapshots'', ''t'', ''a'']"
    by (auto simp: publish_refused_def demo_copy_fails_def dest: spec [of _ "[''a'']"])
  with run show ?thesis by (simp add: demo_after_def demo_host_def)
qed

text \<open>
  C22: What a restore answers and does, for any tag, valid or not, and whatever the system refuses:
  \<open>RuntimeError\<close> without a backend; \<open>KeyError\<close> when the tag names no directory; \<open>OSError\<close> when a
  temporary name cannot be freed, the copy fails or a rename is refused; \<open>FileNotFoundError\<close> when
  the workdir is gone; success otherwise. After a success the workdir's tree is exactly the one
  the tag names. After a failure the whole tree is as it was, leftovers under the two temporary
  names apart; only when both the rename into place and the one back are refused is the workdir
  away, and then it is whole under the aside name. The scope is \<open>restorable\<close>: a workdir that is a
  directory or missing, with its parent there, and a source that is not around the temporary copy.
\<close>

theorem vfs_restore_outcome:
  assumes "restorable vw tag w h" and "vfs_restore_on fl vw tag h = (r, h')"
  shows "r = restore_answer fl vw tag w h \<and>
    (case r of
       Inr _ \<Rightarrow> \<forall>q. dget (h_fs h') q =
         (if q = w then Some DirE
          else if strict_prefix w q then dget (h_fs h) (restore_src vw tag @ drop (length w) q)
          else if prefix (aside_of w) q \<or> prefix (restore_dir w h) q then None else dget (h_fs h) q)
     | Inl _ \<Rightarrow>
         (\<forall>q. dget (h_fs h') q = dget (h_fs h) q \<or>
            (prefix (aside_of w) q \<or> prefix (restore_dir w h) q) \<and> dget (h_fs h') q = None) \<or>
         fl_rename fl (restore_dir w h) w \<and> fl_rename fl (aside_of w) w \<and>
         (\<forall>x. dget (h_fs h') (aside_of w @ x) = dget (h_fs h) (w @ x)))"
  using vfs_restore_spec [OF assms] by blast

theorem vfs_restore_outcome_witness:
  "(\<exists>h'. vfs_restore_on demo_swap_fails demo_vw ''t'' demo_after = (Inl OSError, h') \<and> dget (h_fs h') [''ws''] = Some DirE) \<and>
   (\<exists>h'. vfs_restore_on no_faults demo_vw [] demo_after = (Inr (), h') \<and>
      dget (h_fs h') [''ws'', ''t'', ''a''] = Some (FileE (Raw ''1'')))"
proof -
  have src: "restore_src demo_vw ''t'' = [''ws.snapshots'', ''t'']" "restore_src demo_vw [] = [''ws.snapshots'']"
    by code_simp+
  have ready: "restorable demo_vw ''t'' [''ws''] demo_after" "restorable demo_vw [] [''ws''] demo_after"
    using demo_fs_ok unfolding restorable_def src restore_dir_def demo_stamp
    by (simp_all add: demo_vw_def comp_ok_def apart_def fs_isdir_def fs_isfile_def fs_lookup_def demo_after_def demo_host_def)
  have ans: "restore_answer demo_swap_fails demo_vw ''t'' [''ws''] demo_after = Inl OSError"
    "restore_answer no_faults demo_vw [] [''ws''] demo_after = Inr ()"
    unfolding restore_answer_def restore_dir_def demo_stamp aside_of_def by code_simp+
  obtain r h' where run: "vfs_restore_on demo_swap_fails demo_vw ''t'' demo_after = (r, h')" by fastforce
  note O = vfs_restore_outcome [OF ready(1) run, unfolded ans]
  have "\<forall>q. dget (h_fs h') q = dget (h_fs demo_after) q \<or>
      (prefix (aside_of [''ws'']) q \<or> prefix (restore_dir [''ws''] demo_after) q) \<and> dget (h_fs h') q = None"
    using O by (auto simp: demo_swap_fails_def aside_of_def)
  from this [rule_format, of "[''ws'']"] have "dget (h_fs h') [''ws''] = Some DirE"
    by (simp add: aside_of_def restore_dir_def demo_after_def demo_host_def)
  moreover have "r = Inl OSError" using O by simp
  moreover obtain r2 h2 where run2: "vfs_restore_on no_faults demo_vw [] demo_after = (r2, h2)" by fastforce
  note O2 = vfs_restore_outcome [OF ready(2) run2, unfolded ans src]
  have "dget (h_fs h2) [''ws'', ''t'', ''a''] = Some (FileE (Raw ''1''))"
    using O2 by (auto simp: strict_prefix_def demo_after_def demo_host_def)
  ultimately show ?thesis using run run2 O2 by simp
qed

text \<open>
  C23: Path confinement: a path the backend resolves lies at or below the workdir after
  normalisation, dots and absolute paths included; every other one is a \<open>PermissionError\<close>.
\<close>

theorem agentfs_confinement:
  "case af_resolve af path of
     Inl e \<Rightarrow> e = PermissionError
   | Inr full \<Rightarrow> prefix (fs_path (af_workdir af)) (fs_path full)"
proof (cases "af_resolve af path")
  case (Inl e)
  then show ?thesis unfolding af_resolve_eq by (auto split: if_splits)
qed (use resolved(3) in simp)

text \<open>
  C24: Writes stay in the workspace: with the workdir in place, a write to anything but the workdir
  itself changes no path outside the workdir, whether it succeeds or not.
\<close>

theorem agentfs_write_confined:
  assumes "fs_ready (fs_path (af_workdir af)) (h_fs h)" and "fs_path (af_workdir af) \<noteq> []"
    and "relative_to af path \<noteq> fs_path (af_workdir af)"
  shows "prefix (fs_path (af_workdir af)) q \<or> dget (h_fs (snd (af_write af path data h))) q = dget (h_fs h) q"
proof (cases "af_resolve af path")
  case (Inl e)
  then show ?thesis by (simp add: af_write_def)
next
  case (Inr full)
  obtain r h' where run: "af_write af path data h = (r, h')" by (cases "af_write af path data h")
  let ?w = "fs_path (af_workdir af)" and ?p = "fs_path full"
  note res = resolved [OF Inr]
  have sub: "strict_prefix ?w ?p" using res assms(3) by (simp add: strict_prefix_def)
  then obtain x where x: "?p = ?w @ x" "x \<noteq> []" by (auto simp: strict_prefix_def prefix_def)
  have below: "prefix ?w (butlast ?p)" "prefix ?w (write_tmp ?p)" using x by (simp_all add: butlast_append write_tmp_def)
  have there: "dget (h_fs h) q \<noteq> None" if "prefix q ?w" "q \<noteq> []" for q
    using assms(1) that by (auto simp: fs_ready_def fs_isdir_def fs_lookup_def)
  have "dict_ok (h_fs h)" "?p \<noteq> []" using assms(1) x by (simp_all add: fs_ready_def)
  note W = af_write_spec [OF Inr this(2,1) run]
  consider "dget (h_fs h') q = dget (h_fs h) q" | "prefix ?p q" | "prefix (write_tmp ?p) q"
    | "dget (h_fs h) q = None" "prefix q (butlast ?p)" "q \<noteq> []" "dget (h_fs h') q = Some DirE" using conjunct1 [OF W, rule_format, of q] by metis
  then show ?thesis
  proof cases
    case 4
    have "prefix ?w q \<or> prefix q ?w" by (rule prefix_same_cases [OF below(1) 4(2)])
    with there [OF _ 4(3)] 4(1) show ?thesis by blast
  next
    case 1
    then show ?thesis using run by simp
  qed (use res(3) below(2) prefix_order.trans in blast)+
qed

theorem agentfs_write_confined_witness:
  "dget (h_fs (snd (af_write demo_agentfs ''../ws/b'' (Raw ''2'') demo_before))) [''ws.snapshots''] = None"
proof -
  have "fs_ready (fs_path (af_workdir demo_agentfs)) (h_fs demo_before)"
    by (auto simp: demo_agentfs_def comp_ok_def fs_ready_def dict_ok_def fs_isdir_def fs_lookup_def demo_before_def
      demo_host_def prefix_Cons)
  moreover have "fs_path (af_workdir demo_agentfs) = [''ws'']" "relative_to demo_agentfs ''../ws/b'' = [''ws'', ''b'']"
    by code_simp+
  ultimately show ?thesis
    using agentfs_write_confined [of demo_agentfs demo_before "''../ws/b''" "[''ws.snapshots'']" "Raw ''2''"]
    by (simp add: demo_before_def demo_host_def)
qed

text \<open>
  What a write stored is read back: after a successful write the backend reads exactly the data
  under the path, and no other file has changed but the write's own temporary name.
\<close>

theorem agentfs_write_read:
  assumes "fs_ok (h_fs h)" and "fs_path (af_workdir af) \<noteq> []" and "af_write af path data h = (Inr (), h')"
  shows "fst (af_read af path h') = Inr data \<and>
    (\<forall>q. dget (h_fs h') q = dget (h_fs h) q \<or> prefix (relative_to af path) q \<or>
       prefix (write_tmp (relative_to af path)) q \<or> dget (h_fs h) q = None \<and> dget (h_fs h') q = Some DirE)"
proof (cases "af_resolve af path")
  case (Inl e)
  with assms(3) show ?thesis by (simp add: af_write_def)
next
  case (Inr full)
  note res = resolved [OF Inr]
  have ne: "fs_path full \<noteq> []" using res(3) assms(2) by auto
  have "dict_ok (h_fs h)" using assms(1) by (simp add: fs_ok_def)
  note W = af_write_spec [OF Inr ne this assms(3)]
  have "fst (af_read af path h') = Inr data"
    using W ne by (simp add: af_read_def Inr fs_open_read_def fs_lookup_def)
  then show ?thesis using W res(1) by auto
qed

theorem agentfs_write_read_witness:
  "\<exists>h. af_write demo_agentfs ''/d/b'' (Raw ''2'') demo_before = (Inr (), h) \<and> fst (af_read demo_agentfs ''/d/b'' h) = Inr (Raw ''2'')"
proof -
  have "fst (af_write demo_agentfs ''/d/b'' (Raw ''2'') demo_before) = Inr ()" by code_simp
  then obtain h where w: "af_write demo_agentfs ''/d/b'' (Raw ''2'') demo_before = (Inr (), h)"
    by (metis fst_conv surj_pair)
  have "fs_path (af_workdir demo_agentfs) \<noteq> []" by code_simp
  from agentfs_write_read [OF demo_fs_ok(1) this w] w show ?thesis by blast
qed

text \<open>
  A write to the workdir itself escapes it: the temporary sibling is made beside the workdir,
  the rename onto the directory fails, and the file stays behind outside the workspace.
\<close>

theorem agentfs_write_root_leaks:
  assumes "w \<noteq> []" and "\<forall>c \<in> set w. comp_ok c" and "af_workdir af = path_str w" and "fs_ok (h_fs h)"
    and "fs_isdir (h_fs h) w" and "\<not> fs_isdir (h_fs h) (write_tmp w)"
  shows "fst (af_write af ''/'' data h) = Inl OSError \<and>
    dget (h_fs (snd (af_write af ''/'' data h))) (write_tmp w) = Some (FileE data) \<and>
    \<not> prefix w (write_tmp w)"
proof -
  have "path_join (path_str w) '''' = path_str w @ ''/'' \<or> path_join (path_str w) '''' = path_str w"
    by (simp add: path_join_def)
  moreover have "fs_path (path_str w @ ''/'') = w"
    using split_on_append [of "CHR ''/''" "path_str w" "''''"] split_path_str [of w] assms(2)
    by (simp add: fs_path_def comp_ok_def path_step_def) (simp add: path_steps_ok comp_ok_def)
  ultimately have rel: "relative_to af ''/'' = w" using assms(2,3) by (auto simp: relative_to_def is_abs_def)
  then obtain full where full: "af_resolve af ''/'' = Inr full" using assms(2,3) by (simp add: af_resolve_eq split: if_splits)
  note res = resolved [OF full, unfolded rel]
  have ne: "fs_path full \<noteq> []" using res(1) assms(1) by simp
  note paths = write_paths [OF res(2) ne, unfolded res(1)]
  let ?t = "write_tmp w"
  have bd: "fs_isdir (h_fs h) (butlast w)" by (rule fs_dirs_above [OF assms(4,5)]) (rule prefixeq_butlast)
  have mk: "fs_makedirs (butlast w) (h_fs h) = (Inr (), h_fs h)"
    unfolding fs_makedirs_def by (rule makedirs_there) (use fs_dirs_above [OF assms(4) bd] in simp)
  let ?f = "dput ?t (FileE data) (h_fs h)"
  have t: "?t \<noteq> []" "butlast ?t = butlast w" by (simp_all add: write_tmp_def)
  have wr: "fs_write ?t data (h_fs h) = (Inr (), ?f)" using assms(6) t bd by (simp add: fs_write_def)
  have tw: "apart ?t w" by (rule write_tmp_apart [OF assms(1)])
  have "butlast w \<noteq> ?t" using tw prefixeq_butlast [of w] by (auto simp: apart_def)
  then have "fs_lookup ?f w = Some DirE" "fs_lookup ?f ?t = Some (FileE data)" "fs_isdir ?f (butlast w)"
    using assms(5) bd tw t by (auto simp: fs_lookup_dput fs_isdir_def apart_def)
  then have "fs_replace ?t w ?f = (Inl OSError, ?f)"
    using tw by (auto simp: fs_replace_def apart_def)
  then have "af_write af ''/'' data h = (Inl OSError, h\<lparr>h_fs := ?f\<rparr>)"
    using mk wr paths res(1) by (simp add: af_write_def full Let_def)
  then show ?thesis using tw by (simp add: dict_simps apart_def)
qed

theorem agentfs_write_root_leaks_witness:
  "fst (af_write demo_agentfs ''/'' (Raw ''2'') demo_before) = Inl OSError \<and>
   dget (h_fs (snd (af_write demo_agentfs ''/'' (Raw ''2'') demo_before))) [''ws.agentfs.tmp''] = Some (FileE (Raw ''2''))"
  using agentfs_write_root_leaks [of "[''ws'']" demo_agentfs demo_before "Raw ''2''"] demo_fs_ok(1)
  by (simp add: comp_ok_def demo_agentfs_def write_tmp_def fs_isdir_def fs_lookup_def demo_before_def demo_host_def)

text \<open>
  Commands run inside the workspace only: what \<open>exec_shell\<close> does depends on nothing a command
  would do in a directory outside the workdir, since none is ever started there.
\<close>

theorem agentfs_exec_inside:
  assumes "\<And>c d t h. prefix (fs_path (af_workdir af)) (fs_path d) \<Longrightarrow> run c d t h = run' c d t h"
  shows "exec_shell run af command cwd timeout h = exec_shell run' af command cwd timeout h"
proof -
  have "af_exec run af command d timeout h = af_exec run' af command d timeout h" for d
  proof -
    let ?d = "realpath (if is_abs d then d else path_join (af_workdir af) d)"
    show ?thesis
    proof (cases "inside ?d (realpath (af_workdir af))")
      case True
      then have "run command ?d t h' = run' command ?d t h'" for t h'
        using assms inside_realpath by simp
      then show ?thesis unfolding af_exec_def Let_def by (simp only:)
    qed (simp add: af_exec_def Let_def)
  qed
  then show ?thesis by (simp add: exec_shell_def)
qed

definition demo_runner :: runner where
  "demo_runner c d t h = (if prefix [''ws''] (fs_path d) then (Spawn_missing, h) else (Spawn_failed OSError, h))"

theorem agentfs_exec_inside_witness:
  "exec_shell (\<lambda>c d t h. (Spawn_missing, h)) demo_agentfs [''ls''] (Some ''/etc'') None demo_before =
   exec_shell demo_runner demo_agentfs [''ls''] (Some ''/etc'') None demo_before"
proof (rule agentfs_exec_inside)
  fix c :: "string list" and d t and h :: host
  assume "prefix (fs_path (af_workdir demo_agentfs)) (fs_path d)"
  then show "(Spawn_missing, h) = demo_runner c d t h"
    by (simp add: demo_agentfs_def demo_runner_def comp_ok_def)
qed

end
