(* ===== verification/Container_Manager.thy ===== *)
theory Container_Manager
  imports Sandbox_Pool Host_FS
begin

text \<open>
  \<open>_docker_runtime/_base_manager.py\<close>: the manager of the container backends (gVisor, Kata,
  Sysbox), a cache of live workspaces by workspace id with a time-to-live sweeper and, if it is
  enabled, a pool of pre-warmed sandboxes (\<open>Sandbox_Pool\<close>) in front of it.

  The first part holds the operations as they run when no other task interferes. The workspace
  class and the workspace ids are the third-party package's: what the \<open>n\<close>-th construction
  followed by \<open>initialize()\<close> returns or raises, and which id is assigned, are the environment
  \<open>mgr_env\<close>; \<open>is_alive\<close> is a parameter. The second part interleaves the critical sections of
  any number of tasks between \<open>__aenter__\<close> and \<open>__aexit__\<close>.
\<close>

section \<open>State\<close>

record ws_config =
  wc_workspace_id :: string
  wc_base_image :: string
  wc_host_workdir :: string
  wc_node_version :: "string option"
  wc_extra_pip :: "string list"
  wc_gateway_port :: int
  wc_env :: "(string, string) dict"
  wc_default_mcps :: "string list"
  wc_skill_paths :: "string list"
  wc_runtime :: string

text \<open>
  \<open>m_runtime\<close> is the Docker runtime of the concrete manager; the base class, whose
  \<open>_make_workspace\<close> is to be overridden, has none. \<open>m_closed_log\<close> lists the workspaces
  \<open>_safe_close\<close> was called on, those of a pool that was shut down included.
\<close>

record manager =
  m_backend_kind :: string
  m_runtime :: "string option"
  m_isolation :: string
  m_basedir :: string
  m_base_image :: string
  m_node_version :: "string option"
  m_extra_pip :: "string list"
  m_gateway_port :: int
  m_env :: "(string, string) dict"
  m_default_mcps :: "string list"
  m_skill_paths :: "string list"
  m_ttl :: time
  m_sweep_interval :: time
  m_cache :: "(string, sandbox \<times> time) dict"
  m_sweep_task :: bool
  m_enable_pool :: bool
  m_pool :: "pool option"
  m_pool_max_size :: int
  m_pool_min_warm :: int
  m_pool_idle_ttl :: time
  m_closed_log :: "sandbox list"

text \<open>
  \<open>os.path.abspath\<close> with the root as working directory; a path that begins with exactly two
  slashes keeps both.
\<close>

definition abs_path :: "string \<Rightarrow> string" where
  "abs_path s =
     (let two = (take 2 s = ''//'' \<and> take 3 s \<noteq> ''///'')
      in (if two then ''/'' else []) @ (if fs_path s = [] then ''/'' else path_str (fs_path s)))"

definition manager_init ::
  "string \<Rightarrow> string option \<Rightarrow> string \<Rightarrow> string \<Rightarrow> string \<Rightarrow> string option \<Rightarrow> string list option \<Rightarrow> int \<Rightarrow>
   (string, string) dict option \<Rightarrow> string list option \<Rightarrow> string list option \<Rightarrow> time \<Rightarrow> time \<Rightarrow>
   bool \<Rightarrow> int \<Rightarrow> int \<Rightarrow> time \<Rightarrow> manager" where
  "manager_init kind runtime basedir isolation base_image node_version extra_pip gateway_port env
     default_mcps skill_paths ttl sweep_interval enable_pool pool_max_size pool_min_warm pool_idle_ttl =
     \<lparr>m_backend_kind = kind, m_runtime = runtime, m_isolation = isolation,
      m_basedir = abs_path basedir, m_base_image = base_image, m_node_version = node_version,
      m_extra_pip = (case extra_pip of None \<Rightarrow> [] | Some xs \<Rightarrow> xs), m_gateway_port = gateway_port,
      m_env = (case env of None \<Rightarrow> [] | Some d \<Rightarrow> d),
      m_default_mcps = (case default_mcps of None \<Rightarrow> [] | Some xs \<Rightarrow> xs),
      m_skill_paths = (case skill_paths of None \<Rightarrow> [] | Some xs \<Rightarrow> xs),
      m_ttl = ttl, m_sweep_interval = sweep_interval, m_cache = [], m_sweep_task = False,
      m_enable_pool = enable_pool, m_pool = None, m_pool_max_size = pool_max_size,
      m_pool_min_warm = pool_min_warm, m_pool_idle_ttl = pool_idle_ttl, m_closed_log = []\<rparr>"

text \<open>The concrete managers: the backend's name and its Docker runtime.\<close>

definition gvisor_runtime_name :: string where
  "gvisor_runtime_name = ''runsc''"

definition kata_default_runtime_name :: string where
  "kata_default_runtime_name = ''kata-fc''"

definition sysbox_default_runtime_name :: string where
  "sysbox_default_runtime_name = ''sysbox-runc''"

definition gvisor_manager_init where
  "gvisor_manager_init runtime =
     manager_init ''gvisor'' (Some (case runtime of None \<Rightarrow> gvisor_runtime_name | Some r \<Rightarrow> r))"

definition kata_manager_init where
  "kata_manager_init runtime =
     manager_init ''kata'' (Some (case runtime of None \<Rightarrow> kata_default_runtime_name | Some r \<Rightarrow> r))"

definition sysbox_manager_init where
  "sysbox_manager_init runtime =
     manager_init ''sysbox'' (Some (case runtime of None \<Rightarrow> sysbox_default_runtime_name | Some r \<Rightarrow> r))"

section \<open>Constructing workspaces\<close>

definition workdir_for :: "manager \<Rightarrow> string \<Rightarrow> string \<Rightarrow> string" where
  "workdir_for m user_id agent_id = path_join (path_join (m_basedir m) user_id) agent_id"

definition make_workspace :: "manager \<Rightarrow> string \<Rightarrow> string \<Rightarrow> string \<Rightarrow> ws_config result" where
  "make_workspace m workspace_id user_id agent_id =
     (case m_runtime m of
        None \<Rightarrow> Inl NotImplementedError
      | Some runtime \<Rightarrow> Inr
          \<lparr>wc_workspace_id = workspace_id, wc_base_image = m_base_image m,
           wc_host_workdir = workdir_for m user_id agent_id, wc_node_version = m_node_version m,
           wc_extra_pip = m_extra_pip m, wc_gateway_port = m_gateway_port m, wc_env = m_env m,
           wc_default_mcps = m_default_mcps m, wc_skill_paths = m_skill_paths m,
           wc_runtime = runtime\<rparr>)"

record mgr_env =
  me_assign :: "nat \<Rightarrow> string \<Rightarrow> string \<Rightarrow> string \<Rightarrow> string"
  me_assigns :: nat
  me_build :: "nat \<Rightarrow> ws_config \<Rightarrow> sandbox result"
  me_builds :: nat

definition build_and_start ::
  "manager \<Rightarrow> (ws_config \<Rightarrow> sandbox result) \<Rightarrow> string \<Rightarrow> string \<Rightarrow> string \<Rightarrow> sandbox result" where
  "build_and_start m build workspace_id user_id agent_id =
     (case make_workspace m workspace_id user_id agent_id of Inl e \<Rightarrow> Inl e | Inr cfg \<Rightarrow> build cfg)"

text \<open>The \<open>n\<close>-th boot, if the pool's factory makes it.\<close>

definition mgr_factory :: "manager \<Rightarrow> mgr_env \<Rightarrow> nat \<Rightarrow> sandbox result" where
  "mgr_factory m env n =
     build_and_start m (me_build env n) (me_assign env n ''pool'' ''prewarm'' []) ''pool'' ''prewarm''"

definition mgr_pool_env :: "manager \<Rightarrow> mgr_env \<Rightarrow> pool_env" where
  "mgr_pool_env m env =
     \<lparr>pe_factory = mgr_factory m env, pe_factory_calls = me_builds env,
      pe_probe = (\<lambda>n. Inr True), pe_probe_calls = 0\<rparr>"

section \<open>The operations without interference\<close>

definition mgr_store :: "string \<Rightarrow> sandbox \<Rightarrow> time \<Rightarrow> manager \<Rightarrow> manager" where
  "mgr_store wid ws now m = m\<lparr>m_cache := dput wid (ws, now) (m_cache m)\<rparr>"

definition mgr_hit :: "string \<Rightarrow> time \<Rightarrow> manager \<Rightarrow> (sandbox \<times> manager) option" where
  "mgr_hit wid now m =
     (case dget (m_cache m) wid of
        None \<Rightarrow> None
      | Some (ws, _) \<Rightarrow> Some (ws, mgr_store wid ws now m))"

definition get_locked ::
  "string \<Rightarrow> string \<Rightarrow> string \<Rightarrow> time \<Rightarrow> manager \<Rightarrow> mgr_env \<Rightarrow> sandbox result \<times> manager \<times> mgr_env" where
  "get_locked user_id agent_id wid now m env =
     (case mgr_hit wid now m of
        Some (ws, m1) \<Rightarrow> (Inr ws, m1, env)
      | None \<Rightarrow>
          (case build_and_start m (me_build env (me_builds env)) wid user_id agent_id of
             Inl e \<Rightarrow> (Inl e, m, env\<lparr>me_builds := Suc (me_builds env)\<rparr>)
           | Inr ws \<Rightarrow> (Inr ws, mgr_store wid ws now m, env\<lparr>me_builds := Suc (me_builds env)\<rparr>)))"

definition get_workspace_id ::
  "string \<Rightarrow> string \<Rightarrow> string option \<Rightarrow> mgr_env \<Rightarrow> string \<times> mgr_env" where
  "get_workspace_id user_id agent_id workspace_id env =
     (case workspace_id of
        Some wid \<Rightarrow> (wid, env)
      | None \<Rightarrow> (me_assign env (me_assigns env) user_id agent_id [],
                 env\<lparr>me_assigns := Suc (me_assigns env)\<rparr>))"

definition get_workspace ::
  "string \<Rightarrow> string \<Rightarrow> string option \<Rightarrow> time \<Rightarrow> manager \<Rightarrow> mgr_env \<Rightarrow>
   sandbox result \<times> manager \<times> mgr_env" where
  "get_workspace user_id agent_id workspace_id now m env0 =
     (case get_workspace_id user_id agent_id workspace_id env0 of (wid, env) \<Rightarrow>
      case mgr_hit wid now m of
        Some (ws, m1) \<Rightarrow> (Inr ws, m1, env)
      | None \<Rightarrow>
          (case m_pool m of
             None \<Rightarrow> get_locked user_id agent_id wid now m env
           | Some p \<Rightarrow>
               (case pool_acquire p (mgr_pool_env m env) of (r, p1, penv) \<Rightarrow>
                let m1 = m\<lparr>m_pool := Some p1\<rparr>; env1 = env\<lparr>me_builds := pe_factory_calls penv\<rparr> in
                case r of
                  Inr ws \<Rightarrow> (Inr ws, mgr_store wid ws now m1, env1)
                | Inl e \<Rightarrow>
                    if e = TimeoutError then get_locked user_id agent_id wid now m1 env1
                    else (Inl e, m1, env1))))"

definition mgr_safe_close :: "sandbox \<Rightarrow> manager \<Rightarrow> manager" where
  "mgr_safe_close ws m = m\<lparr>m_closed_log := m_closed_log m @ [ws]\<rparr>"

definition mgr_take :: "string \<Rightarrow> manager \<Rightarrow> sandbox option \<times> manager" where
  "mgr_take wid m =
     (map_option fst (dget (m_cache m) wid), m\<lparr>m_cache := ddel wid (m_cache m)\<rparr>)"

definition mgr_give_back :: "sandbox \<Rightarrow> bool \<Rightarrow> time \<Rightarrow> manager \<Rightarrow> manager" where
  "mgr_give_back ws alive now m =
     (case m_pool m of
        None \<Rightarrow> mgr_safe_close ws m
      | Some p \<Rightarrow>
          if alive then m\<lparr>m_pool := Some (pool_release ws False now p)\<rparr>
          else mgr_safe_close ws m)"

definition mgr_close :: "(sandbox \<Rightarrow> bool) \<Rightarrow> string \<Rightarrow> time \<Rightarrow> manager \<Rightarrow> manager" where
  "mgr_close is_alive wid now m =
     (case mgr_take wid m of
        (None, m1) \<Rightarrow> m1
      | (Some ws, m1) \<Rightarrow> mgr_give_back ws (is_alive ws) now m1)"

definition mgr_clear :: "manager \<Rightarrow> sandbox list \<times> manager" where
  "mgr_clear m = (map (\<lambda>(wid, (ws, ts)). ws) (m_cache m), m\<lparr>m_cache := []\<rparr>)"

definition mgr_close_all :: "manager \<Rightarrow> manager" where
  "mgr_close_all m = (case mgr_clear m of (entries, m1) \<Rightarrow> fold mgr_safe_close entries m1)"

text \<open>The sweeper: the expired ids are collected first, then popped one by one.\<close>

definition mgr_expired :: "time \<Rightarrow> manager \<Rightarrow> string list" where
  "mgr_expired now m = map fst (filter (\<lambda>(wid, (ws, ts)). now - ts > m_ttl m) (m_cache m))"

fun pop_ids :: "string list \<Rightarrow> manager \<Rightarrow> sandbox list \<times> manager" where
  "pop_ids [] m = ([], m)"
| "pop_ids (wid # wids) m =
     (case mgr_take wid m of (ws, m1) \<Rightarrow>
      case pop_ids wids m1 of (rest, m2) \<Rightarrow>
        ((case ws of None \<Rightarrow> rest | Some w \<Rightarrow> w # rest), m2))"

definition mgr_evict :: "time \<Rightarrow> manager \<Rightarrow> sandbox list \<times> manager" where
  "mgr_evict now m = pop_ids (mgr_expired now m) m"

definition mgr_sweep_once :: "time \<Rightarrow> manager \<Rightarrow> manager" where
  "mgr_sweep_once now m = (case mgr_evict now m of (evicted, m1) \<Rightarrow> fold mgr_safe_close evicted m1)"

text \<open>\<open>SandboxPool\<close> is constructed with its defaults for everything the manager does not set.\<close>

definition mgr_aenter :: "manager \<Rightarrow> unit result \<times> manager" where
  "mgr_aenter m =
     (case (if m_enable_pool m \<and> m_pool m = None
            then (case pool_init (m_pool_max_size m) (m_pool_min_warm m) (m_pool_idle_ttl m) 60 60
                    True ''fifo'' False 0 of
                    Inl e \<Rightarrow> Inl e
                  | Inr p \<Rightarrow> Inr (m\<lparr>m_pool := Some (pool_start p)\<rparr>))
            else Inr m) of
        Inl e \<Rightarrow> (Inl e, m)
      | Inr m1 \<Rightarrow> (Inr (), m1\<lparr>m_sweep_task := True\<rparr>))"

definition mgr_aexit :: "manager \<Rightarrow> manager" where
  "mgr_aexit m =
     (let m1 = m\<lparr>m_sweep_task := False\<rparr>;
          m2 = (case m_pool m1 of
                  None \<Rightarrow> m1
                | Some p \<Rightarrow> m1\<lparr>m_pool := None,
                    m_closed_log := m_closed_log m1 @ p_closed_log (pool_aclose p)\<rparr>)
      in mgr_close_all m2)"

record mgr_metrics =
  mm_backend_kind :: string
  mm_cache_size :: int
  mm_pool :: "pool_metrics option"

definition base_metrics :: "manager \<Rightarrow> string \<times> int" where
  "base_metrics m = (m_backend_kind m, int (length (m_cache m)))"

definition manager_metrics :: "manager \<Rightarrow> mgr_metrics" where
  "manager_metrics m =
     \<lparr>mm_backend_kind = fst (base_metrics m), mm_cache_size = snd (base_metrics m),
      mm_pool = map_option pool_metrics_of (m_pool m)\<rparr>"

section \<open>Interleaved tasks\<close>

text \<open>
  The critical sections of the tasks of one manager with a pool, while its context is open. A task
  between two sections is where it left a trace:

  \<^item> \<open>ms_booting\<close>: the ids of the tasks inside the pool's factory; \<open>ms_prewarm\<close>: how many boots
    the pre-warmer has reserved;
  \<^item> \<open>ms_hands\<close>: a sandbox leased from the pool for an id, not yet in the cache;
  \<^item> \<open>ms_lock\<close>: the id that is being built directly, with the manager's lock held;
  \<^item> \<open>ms_closing\<close>: popped by \<open>close\<close>; \<open>ms_doomed\<close>: popped by the sweeper or by \<open>close_all\<close>.

  A sandbox a construction returns is a new object: it is not among \<open>ms_born\<close>.
\<close>

record mgr_sys =
  ms_mgr :: manager
  ms_now :: time
  ms_booting :: "string list"
  ms_prewarm :: nat
  ms_hands :: "(string \<times> sandbox) list"
  ms_lock :: "string option"
  ms_closing :: "sandbox list"
  ms_doomed :: "sandbox list"
  ms_born :: "sandbox set"

definition mgr_sys_init :: "manager \<Rightarrow> mgr_sys" where
  "mgr_sys_init m =
     \<lparr>ms_mgr = m, ms_now = 0, ms_booting = [], ms_prewarm = 0, ms_hands = [],
      ms_lock = None, ms_closing = [], ms_doomed = [], ms_born = {}\<rparr>"

definition set_pool :: "pool \<Rightarrow> mgr_sys \<Rightarrow> mgr_sys" where
  "set_pool p s = s\<lparr>ms_mgr := (ms_mgr s)\<lparr>m_pool := Some p\<rparr>\<rparr>"

definition upd_mgr :: "manager \<Rightarrow> mgr_sys \<Rightarrow> mgr_sys" where
  "upd_mgr m s = s\<lparr>ms_mgr := m\<rparr>"

abbreviation pool_of :: "mgr_sys \<Rightarrow> pool" where
  "pool_of s \<equiv> the (m_pool (ms_mgr s))"

inductive mgr_step :: "mgr_sys \<Rightarrow> mgr_sys \<Rightarrow> bool" where
  hit: "ms_lock s = None \<Longrightarrow> mgr_hit wid (ms_now s) (ms_mgr s) = Some (ws, m') \<Longrightarrow>
    mgr_step s (upd_mgr m' s)"
| lease: "acquire_locked (pool_of s) = (Candidate c, p') \<Longrightarrow>
    mgr_step s ((set_pool p' s)\<lparr>ms_hands := (wid, c) # ms_hands s\<rparr>)"
| grow: "acquire_locked (pool_of s) = (Grow, p') \<Longrightarrow>
    mgr_step s ((set_pool p' s)\<lparr>ms_booting := wid # ms_booting s\<rparr>)"
| booted: "wid \<in> set (ms_booting s) \<Longrightarrow> ws \<notin> ms_born s \<Longrightarrow>
    provision_done (Inr ws) (pool_of s) = (Inr ws, p') \<Longrightarrow>
    mgr_step s ((set_pool p' s)\<lparr>ms_booting := remove1 wid (ms_booting s),
      ms_hands := (wid, ws) # ms_hands s, ms_born := insert ws (ms_born s)\<rparr>)"
| boot_failed: "wid \<in> set (ms_booting s) \<Longrightarrow>
    provision_done (Inl e) (pool_of s) = (Inl e, p') \<Longrightarrow>
    mgr_step s ((set_pool p' s)\<lparr>ms_booting := remove1 wid (ms_booting s)\<rparr>)"
| store: "ms_lock s = None \<Longrightarrow> (wid, ws) \<in> set (ms_hands s) \<Longrightarrow>
    mgr_step s ((upd_mgr (mgr_store wid ws (ms_now s) (ms_mgr s)) s)
      \<lparr>ms_hands := remove1 (wid, ws) (ms_hands s)\<rparr>)"
| build: "ms_lock s = None \<Longrightarrow> mgr_hit wid (ms_now s) (ms_mgr s) = None \<Longrightarrow>
    mgr_step s (s\<lparr>ms_lock := Some wid\<rparr>)"
| built: "ms_lock s = Some wid \<Longrightarrow> ws \<notin> ms_born s \<Longrightarrow>
    mgr_step s ((upd_mgr (mgr_store wid ws (ms_now s) (ms_mgr s)) s)
      \<lparr>ms_lock := None, ms_born := insert ws (ms_born s)\<rparr>)"
| build_failed: "ms_lock s = Some wid \<Longrightarrow> mgr_step s (s\<lparr>ms_lock := None\<rparr>)"
| close: "ms_lock s = None \<Longrightarrow> mgr_take wid (ms_mgr s) = (Some ws, m') \<Longrightarrow>
    mgr_step s ((upd_mgr m' s)\<lparr>ms_closing := ws # ms_closing s\<rparr>)"
| give_back: "ws \<in> set (ms_closing s) \<Longrightarrow>
    mgr_step s ((upd_mgr (mgr_give_back ws alive (ms_now s) (ms_mgr s)) s)
      \<lparr>ms_closing := remove1 ws (ms_closing s)\<rparr>)"
| sweep: "ms_lock s = None \<Longrightarrow> mgr_evict (ms_now s) (ms_mgr s) = (evicted, m') \<Longrightarrow>
    mgr_step s ((upd_mgr m' s)\<lparr>ms_doomed := evicted @ ms_doomed s\<rparr>)"
| close_all: "ms_lock s = None \<Longrightarrow> mgr_clear (ms_mgr s) = (entries, m') \<Longrightarrow>
    mgr_step s ((upd_mgr m' s)\<lparr>ms_doomed := entries @ ms_doomed s\<rparr>)"
| tear_down: "ws \<in> set (ms_doomed s) \<Longrightarrow>
    mgr_step s ((upd_mgr (mgr_safe_close ws (ms_mgr s)) s)
      \<lparr>ms_doomed := remove1 ws (ms_doomed s)\<rparr>)"
| pool_sweep: "mgr_step s (set_pool (pool_sweep_once (ms_now s) (pool_of s)) s)"
| prewarm: "prewarm_reserve (pool_of s) = (True, p') \<Longrightarrow>
    mgr_step s ((set_pool p' s)\<lparr>ms_prewarm := Suc (ms_prewarm s)\<rparr>)"
| prewarmed: "ms_prewarm s = Suc n \<Longrightarrow> ws \<notin> ms_born s \<Longrightarrow>
    mgr_step s ((set_pool (prewarm_booted ws (ms_now s) (pool_of s)) s)
      \<lparr>ms_prewarm := n, ms_born := insert ws (ms_born s)\<rparr>)"
| prewarm_failed: "ms_prewarm s = Suc n \<Longrightarrow>
    mgr_step s ((set_pool (prewarm_boot_failed (pool_of s)) s)\<lparr>ms_prewarm := n\<rparr>)"
| tick: "0 \<le> dt \<Longrightarrow> mgr_step s (s\<lparr>ms_now := ms_now s + dt\<rparr>)"

inductive mgr_reach :: "manager \<Rightarrow> mgr_sys \<Rightarrow> bool" for m0 where
  start: "mgr_reach m0 (mgr_sys_init m0)"
| step: "mgr_reach m0 s \<Longrightarrow> mgr_step s t \<Longrightarrow> mgr_reach m0 t"

end
