(* ===== verification/Manager_Facts.thy ===== *)
theory Manager_Facts
  imports Container_Manager "HOL-Library.Multiset"
begin

text \<open>
  The container manager's facts: what one operation does to the cache and the pool, and the
  invariant of its interleaved tasks, that no sandbox is in two places.
\<close>

section \<open>The cache\<close>

definition vals :: "(string, sandbox \<times> time) dict \<Rightarrow> sandbox list" where
  "vals d = map (\<lambda>(wid, (ws, ts)). ws) d"

lemma vals_simps [simp]: "vals [] = []" "vals ((k, (ws, ts)) # d) = ws # vals d"
  by (simp_all add: vals_def)

lemma vals_touch: "dget d k = Some (ws, ts) \<Longrightarrow> vals (dput k (ws, now) d) = vals d"
  by (induction d) (auto simp: vals_def split: if_splits)

lemma vals_dput: "mset (vals (dput k (ws, now) d)) \<subseteq># add_mset ws (mset (vals d))"
  by (induction d) (auto simp: vals_def subset_mset.add_increasing add_mset_commute [of ws])

lemma vals_ddel: "mset (vals (ddel k d)) \<subseteq># mset (vals d)"
  by (simp add: vals_def AList.delete_eq image_mset_subseteq_mono)

lemma vals_take: "dget d k = Some (ws, ts) \<Longrightarrow> add_mset ws (mset (vals (ddel k d))) \<subseteq># mset (vals d)"
proof (induction d)
  case (Cons a d)
  obtain k' ws' ts' where a: "a = (k', (ws', ts'))" by (cases a) auto
  show ?case
  proof (cases "k' = k")
    case True
    with Cons.prems a show ?thesis by (simp add: vals_ddel)
  next
    case False
    with Cons a show ?thesis by (auto simp: add_mset_commute [of ws])
  qed
qed simp

lemma vals_dget: "dget d k = Some (ws, ts) \<Longrightarrow> ws \<in> set (vals d)"
  by (induction d) (auto split: if_splits)

lemma vals_inj:
  "distinct (vals d) \<Longrightarrow> dget d k = Some (ws, ts) \<Longrightarrow> dget d k' = Some (ws, ts') \<Longrightarrow> k = k'"
  by (induction d) (auto split: if_splits dest: vals_dget)

lemma take_SomeD:
  "mgr_take wid m = (Some ws, m') \<Longrightarrow>
   \<exists>ts. dget (m_cache m) wid = Some (ws, ts) \<and> m' = m\<lparr>m_cache := ddel wid (m_cache m)\<rparr>"
  by (auto simp: mgr_take_def)

lemma pop_ids_spec:
  "pop_ids ids m = (xs, m') \<Longrightarrow>
   m' = m\<lparr>m_cache := filter (\<lambda>(k, v). k \<notin> set ids) (m_cache m)\<rparr> \<and>
   mset xs + mset (vals (m_cache m')) \<subseteq># mset (vals (m_cache m))"
proof (induction ids arbitrary: m xs)
  case Nil
  then show ?case by simp
next
  case (Cons wid ids)
  let ?m1 = "m\<lparr>m_cache := ddel wid (m_cache m)\<rparr>"
  obtain ys where rest: "pop_ids ids ?m1 = (ys, m')"
    and xs: "xs = (case dget (m_cache m) wid of None \<Rightarrow> ys | Some (w, ts) \<Rightarrow> w # ys)"
    using Cons.prems by (auto simp: mgr_take_def split: prod.splits option.splits)
  note IH = Cons.IH [OF rest]
  have "filter (\<lambda>(k, v). k \<notin> set ids) (ddel wid (m_cache m)) =
      filter (\<lambda>(k, v). k \<notin> set (wid # ids)) (m_cache m)"
    by (auto simp: AList.delete_eq intro!: filter_cong)
  then have m': "m' = m\<lparr>m_cache := filter (\<lambda>(k, v). k \<notin> set (wid # ids)) (m_cache m)\<rparr>" using IH by simp
  have sub: "mset ys + mset (vals (m_cache m')) \<subseteq># mset (vals (ddel wid (m_cache m)))"
    using conjunct2 [OF IH] by simp
  have "mset xs + mset (vals (m_cache m')) \<subseteq># mset (vals (m_cache m))"
  proof (cases "dget (m_cache m) wid")
    case None
    with xs sub vals_ddel [of wid "m_cache m"] show ?thesis by (auto intro: subset_mset.order_trans)
  next
    case (Some v)
    obtain w ts where v: "v = (w, ts)" by (cases v)
    have "add_mset w (mset ys + mset (vals (m_cache m'))) \<subseteq># add_mset w (mset (vals (ddel wid (m_cache m))))"
      using sub by simp
    also have "\<dots> \<subseteq># mset (vals (m_cache m))" using vals_take Some v by simp
    finally show ?thesis using xs Some v by simp
  qed
  with m' show ?case by simp
qed

lemma evict_spec:
  assumes "mgr_evict now m = (xs, m')" and "dict_ok (m_cache m)"
  shows "m' = m\<lparr>m_cache := filter (\<lambda>(k, (ws, ts)). \<not> now - ts > m_ttl m) (m_cache m)\<rparr> \<and>
    mset xs + mset (vals (m_cache m')) \<subseteq># mset (vals (m_cache m))"
proof -
  have eq: "k \<in> set (mgr_expired now m) \<longleftrightarrow> now - snd v > m_ttl m" if "(k, v) \<in> set (m_cache m)" for k v
  proof
    assume "k \<in> set (mgr_expired now m)"
    then obtain ws ts where "(k, (ws, ts)) \<in> set (m_cache m)" "now - ts > m_ttl m"
      by (auto simp: mgr_expired_def)
    with that assms(2) show "now - snd v > m_ttl m" by (auto simp: dict_items)
  next
    assume "now - snd v > m_ttl m"
    with that show "k \<in> set (mgr_expired now m)" by (force simp: mgr_expired_def)
  qed
  have "filter (\<lambda>(k, v). k \<notin> set (mgr_expired now m)) (m_cache m) =
      filter (\<lambda>(k, (ws, ts)). \<not> now - ts > m_ttl m) (m_cache m)"
    by (rule filter_cong) (auto simp: eq)
  from pop_ids_spec [OF assms(1) [unfolded mgr_evict_def], unfolded this] show ?thesis .
qed

lemma safe_close_fold: "fold mgr_safe_close xs m = m\<lparr>m_closed_log := m_closed_log m @ xs\<rparr>"
  by (induction xs arbitrary: m) (simp_all add: mgr_safe_close_def)

section \<open>The invariant of the interleaved tasks\<close>

text \<open>The sandboxes on their way: cached, leased but not yet cached, popped but not yet disposed of.\<close>

definition out :: "mgr_sys \<Rightarrow> sandbox list" where
  "out s = vals (m_cache (ms_mgr s)) @ map snd (ms_hands s) @ ms_closing s @ ms_doomed s"

definition torn_down :: "mgr_sys \<Rightarrow> sandbox set" where
  "torn_down s = set (m_closed_log (ms_mgr s)) \<union> set (p_closed_log (pool_of s))"

definition free_set :: "pool \<Rightarrow> sandbox set" where
  "free_set p = fst ` set (p_free p)"

definition mgr_pool_ok :: "mgr_sys \<Rightarrow> bool" where
  "mgr_pool_ok s \<longleftrightarrow>
     (\<exists>p. m_pool (ms_mgr s) = Some p \<and> pool_ok p \<and> \<not> p_closed p \<and>
        p_pending_count p = int (length (ms_booting s)) + int (ms_prewarm s))"

definition places_ok :: "mgr_sys \<Rightarrow> bool" where
  "places_ok s \<longleftrightarrow>
     distinct (out s) \<and> set (out s) \<inter> free_set (pool_of s) = {} \<and>
     torn_down s \<inter> (set (out s) \<union> free_set (pool_of s)) = {} \<and>
     set (out s) \<union> pool_known (pool_of s) \<union> torn_down s \<subseteq> ms_born s"

definition mgr_inv :: "mgr_sys \<Rightarrow> bool" where
  "mgr_inv s \<longleftrightarrow> dict_ok (m_cache (ms_mgr s)) \<and> mgr_pool_ok s \<and> places_ok s"

lemma distinct_sub: "mset xs \<subseteq># mset ys \<Longrightarrow> distinct ys \<Longrightarrow> distinct xs"
proof -
  assume "mset xs \<subseteq># mset ys" and "distinct ys"
  then obtain M where "mset ys = mset xs + M" by (auto simp: subset_mset.le_iff_add)
  moreover obtain zs where "M = mset zs" by (metis ex_mset)
  ultimately have "mset ys = mset (xs @ zs)" by simp
  with \<open>distinct ys\<close> have "distinct (xs @ zs)" by (metis mset_eq_imp_distinct_iff)
  then show "distinct xs" by simp
qed

text \<open>A section that moves sandboxes around without taking new ones keeps them apart.\<close>

lemma places_shrink:
  assumes "places_ok s" and "mset (out t) \<subseteq># mset (out s)" and "pool_of t = pool_of s"
    and "m_closed_log (ms_mgr t) = m_closed_log (ms_mgr s)" and "ms_born t = ms_born s"
  shows "places_ok t"
proof -
  have "set (out t) \<subseteq> set (out s)" using assms(2) by (metis set_mset_mono set_mset_mset)
  with assms distinct_sub [OF assms(2)] show ?thesis
    unfolding places_ok_def torn_down_def by auto
qed

lemma mgr_fields [simp]:
  "ms_mgr (set_pool p s) = (ms_mgr s)\<lparr>m_pool := Some p\<rparr>" "ms_mgr (upd_mgr m s) = m"
  "ms_booting (set_pool p s) = ms_booting s" "ms_booting (upd_mgr m s) = ms_booting s"
  "ms_prewarm (set_pool p s) = ms_prewarm s" "ms_prewarm (upd_mgr m s) = ms_prewarm s"
  "ms_hands (set_pool p s) = ms_hands s" "ms_hands (upd_mgr m s) = ms_hands s"
  "ms_closing (set_pool p s) = ms_closing s" "ms_closing (upd_mgr m s) = ms_closing s"
  "ms_doomed (set_pool p s) = ms_doomed s" "ms_doomed (upd_mgr m s) = ms_doomed s"
  "ms_born (set_pool p s) = ms_born s" "ms_born (upd_mgr m s) = ms_born s"
  "ms_lock (set_pool p s) = ms_lock s" "ms_lock (upd_mgr m s) = ms_lock s"
  "ms_now (set_pool p s) = ms_now s" "ms_now (upd_mgr m s) = ms_now s"
  by (simp_all add: set_pool_def upd_mgr_def)

text \<open>Sections of the manager alone.\<close>

lemma inv_cache_only:
  assumes "mgr_inv s" and "mset (out t) \<subseteq># mset (out s)" and "dict_ok (m_cache (ms_mgr t))"
    and "m_pool (ms_mgr t) = m_pool (ms_mgr s)" and "m_closed_log (ms_mgr t) = m_closed_log (ms_mgr s)"
    and "ms_born t = ms_born s" and "ms_booting t = ms_booting s" and "ms_prewarm t = ms_prewarm s"
  shows "mgr_inv t"
  using assms places_shrink [of s t] by (simp add: mgr_inv_def mgr_pool_ok_def)

lemma hit_inv:
  assumes "mgr_inv s" and "mgr_hit wid now (ms_mgr s) = Some (ws, m')"
  shows "mgr_inv (upd_mgr m' s)"
proof -
  obtain ts where ts: "dget (m_cache (ms_mgr s)) wid = Some (ws, ts)" and m': "m' = mgr_store wid ws now (ms_mgr s)"
    using assms(2) by (auto simp: mgr_hit_def split: option.splits)
  show ?thesis
    by (rule inv_cache_only [OF assms(1)])
      (use assms(1) vals_touch [OF ts] in \<open>auto simp: m' mgr_store_def mgr_inv_def out_def\<close>)
qed

lemma store_inv:
  assumes "mgr_inv s" and h: "(wid, ws) \<in> set (ms_hands s)"
  shows "mgr_inv ((upd_mgr (mgr_store wid ws now (ms_mgr s)) s)\<lparr>ms_hands := remove1 (wid, ws) (ms_hands s)\<rparr>)"
proof (rule inv_cache_only [OF assms(1)])
  have "mset (ms_hands s) = add_mset (wid, ws) (mset (remove1 (wid, ws) (ms_hands s)))"
    using h by simp
  then have "mset (map snd (ms_hands s)) = add_mset ws (mset (map snd (remove1 (wid, ws) (ms_hands s))))"
    by (metis image_mset_add_mset mset_map snd_conv)
  with vals_dput [of wid ws now "m_cache (ms_mgr s)"]
  show "mset (out ((upd_mgr (mgr_store wid ws now (ms_mgr s)) s)\<lparr>ms_hands := remove1 (wid, ws) (ms_hands s)\<rparr>))
      \<subseteq># mset (out s)"
    by (simp add: out_def mgr_store_def del: mset_map mset_remove1)
qed (use assms(1) in \<open>auto simp: mgr_store_def mgr_inv_def\<close>)

lemma popped_inv:
  assumes "mgr_inv s" and "dict_ok d" and "mset xs + mset (vals d) \<subseteq># mset (vals (m_cache (ms_mgr s)))"
    and t: "ms_mgr t = (ms_mgr s)\<lparr>m_cache := d\<rparr>" "ms_born t = ms_born s" "ms_booting t = ms_booting s"
      "ms_prewarm t = ms_prewarm s" "ms_hands t = ms_hands s"
      "mset (ms_closing t @ ms_doomed t) = mset xs + mset (ms_closing s @ ms_doomed s)"
  shows "mgr_inv t"
proof (rule inv_cache_only [OF assms(1)])
  have "mset (out t) = (mset xs + mset (vals d)) + mset (map snd (ms_hands s) @ ms_closing s @ ms_doomed s)"
    using t by (simp add: out_def)
  then show "mset (out t) \<subseteq># mset (out s)"
    using assms(3) by (simp add: out_def)
qed (use assms in auto)

text \<open>Sections of the pool: which sandboxes join those on their way, and which are closed.\<close>

lemma inv_pool:
  assumes inv: "mgr_inv s" and t: "m_pool (ms_mgr t) = Some p'" "m_cache (ms_mgr t) = m_cache (ms_mgr s)"
      "m_closed_log (ms_mgr t) = m_closed_log (ms_mgr s)" "ms_born s \<subseteq> ms_born t"
    and pool: "pool_ok p'" "\<not> p_closed p'"
      "p_pending_count p' = int (length (ms_booting t)) + int (ms_prewarm t)"
    and out: "mset (out t) \<subseteq># mset new + mset (out s)" "distinct new" "set new \<inter> set (out s) = {}"
    and free: "set (out t) \<inter> free_set p' = {}" "torn_down s \<inter> (set new \<union> free_set p') = {}"
    and closed: "set (p_closed_log p') \<subseteq> set (p_closed_log (pool_of s)) \<union> X"
      "X \<inter> (set (out t) \<union> free_set p') = {}"
    and born: "set new \<union> pool_known p' \<union> X \<subseteq> ms_born t"
  shows "mgr_inv t"
proof -
  have sub: "set (out t) \<subseteq> set new \<union> set (out s)"
    using out(1) by (metis set_mset_mono set_mset_mset set_mset_union)
  have "distinct (out t)"
    by (rule distinct_sub [where ys = "new @ out s"]) (use out inv in \<open>auto simp: mgr_inv_def places_ok_def\<close>)
  moreover have "torn_down t \<subseteq> torn_down s \<union> X" using t closed(1) by (auto simp: torn_down_def)
  ultimately have "places_ok t"
    using inv sub t free closed(2) born unfolding mgr_inv_def places_ok_def by (auto; blast)
  then show ?thesis using inv t pool by (auto simp: mgr_inv_def mgr_pool_ok_def)
qed

lemma inv_pool_of:
  assumes "mgr_inv s"
  shows "m_pool (ms_mgr s) = Some (pool_of s)" "pool_ok (pool_of s)" "\<not> p_closed (pool_of s)"
    "p_pending_count (pool_of s) = int (length (ms_booting s)) + int (ms_prewarm s)"
    "distinct (out s)" "set (out s) \<inter> free_set (pool_of s) = {}"
    "torn_down s \<inter> (set (out s) \<union> free_set (pool_of s)) = {}"
    "set (out s) \<union> pool_known (pool_of s) \<union> torn_down s \<subseteq> ms_born s"
    "free_set (pool_of s) \<subseteq> pool_known (pool_of s)" "set (p_closed_log (pool_of s)) \<subseteq> torn_down s"
  using assms by (auto simp: mgr_inv_def mgr_pool_ok_def places_ok_def torn_down_def pool_known_def free_set_def)

lemma lease_inv:
  assumes "mgr_inv s" and al: "acquire_locked (pool_of s) = (Candidate c, p')"
  shows "mgr_inv ((set_pool p' s)\<lparr>ms_hands := (wid, c) # ms_hands s\<rparr>)"
proof -
  note P = inv_pool_of [OF assms(1)]
  note c = acquire_Candidate [OF al P(2)]
  have log: "p_closed_log p' = p_closed_log (pool_of s)" "p_closed p' = p_closed (pool_of s)"
    "p_pending_count p' = p_pending_count (pool_of s)"
    using al by (auto simp: acquire_locked_def pop_free_locked_def split: if_splits option.splits)
  have free: "free_set p' \<subseteq> free_set (pool_of s) - {c}"
  proof -
    have "free_set p' \<inter> p_in_use p' = {}"
      using c unfolding free_set_def pool_ok_def by (elim conjE)
    moreover have "free_set p' \<union> p_in_use p' = free_set (pool_of s) \<union> p_in_use (pool_of s)"
      using c unfolding free_set_def pool_known_def by (elim conjE)
    moreover have "p_in_use p' = insert c (p_in_use (pool_of s))" using c by (elim conjE)
    ultimately show ?thesis by blast
  qed
  have cf: "c \<in> free_set (pool_of s)" using c by (simp add: free_set_def)
  show ?thesis
    by (rule inv_pool [OF assms(1), where p' = p' and new = "[c]" and X = "{}"])
      (use P c log free cf in \<open>auto simp: out_def\<close>)
qed

lemma grow_inv:
  assumes "mgr_inv s" and al: "acquire_locked (pool_of s) = (Grow, p')"
  shows "mgr_inv ((set_pool p' s)\<lparr>ms_booting := wid # ms_booting s\<rparr>)"
proof -
  note P = inv_pool_of [OF assms(1)]
  note g = acquire_Grow [OF al]
  have ok: "pool_ok p'" using acquire_locked_ok [OF P(2)] al by simp
  have "free_set p' = {}" "pool_known p' = pool_known (pool_of s)"
    using g by (auto simp: free_set_def pool_known_def)
  with g ok P show ?thesis
    by (intro inv_pool [OF assms(1), where p' = p' and new = "[]" and X = "{}"]) (auto simp: out_def)
qed

lemma booted_inv:
  assumes "mgr_inv s" and wid: "wid \<in> set (ms_booting s)" and ws: "ws \<notin> ms_born s"
    and pd: "provision_done (Inr ws) (pool_of s) = (Inr ws, p')"
  shows "mgr_inv ((set_pool p' s)\<lparr>ms_booting := remove1 wid (ms_booting s),
      ms_hands := (wid, ws) # ms_hands s, ms_born := insert ws (ms_born s)\<rparr>)"
proof -
  note P = inv_pool_of [OF assms(1)]
  have len: "length (ms_booting s) = Suc (length (remove1 wid (ms_booting s)))"
    using wid length_pos_if_in_set [OF wid] by (simp add: length_remove1)
  have pend: "1 \<le> p_pending_count (pool_of s)" using P(4) len by simp
  have fresh: "ws \<notin> pool_known (pool_of s)" using ws P(8) by blast
  have ok: "pool_ok p'" using provision_done_ok [OF P(2) pend, of "Inr ws"] fresh pd by simp
  have p': "p' = (pool_of s)\<lparr>p_pending_count := p_pending_count (pool_of s) - 1, p_in_use := insert ws (p_in_use (pool_of s))\<rparr>"
    using pd by (simp add: provision_done_def Let_def)
  have "free_set p' = free_set (pool_of s)" "pool_known p' = insert ws (pool_known (pool_of s))"
    by (auto simp: p' free_set_def pool_known_def)
  with p' ok P ws len show ?thesis
    by (intro inv_pool [OF assms(1), where p' = p' and new = "[ws]" and X = "{}"]) (auto simp: out_def)
qed

lemma boot_failed_inv:
  assumes "mgr_inv s" and wid: "wid \<in> set (ms_booting s)"
    and pd: "provision_done (Inl e) (pool_of s) = (Inl e, p')"
  shows "mgr_inv ((set_pool p' s)\<lparr>ms_booting := remove1 wid (ms_booting s)\<rparr>)"
proof -
  note P = inv_pool_of [OF assms(1)]
  have len: "length (ms_booting s) = Suc (length (remove1 wid (ms_booting s)))"
    using wid length_pos_if_in_set [OF wid] by (simp add: length_remove1)
  have pend: "1 \<le> p_pending_count (pool_of s)" using P(4) len by simp
  have ok: "pool_ok p'" using provision_done_ok [OF P(2) pend, of "Inl e"] pd by simp
  have p': "p' = (pool_of s)\<lparr>p_pending_count := p_pending_count (pool_of s) - 1\<rparr>"
    using pd by (simp add: provision_done_def Let_def)
  have "free_set p' = free_set (pool_of s)" "pool_known p' = pool_known (pool_of s)"
    by (auto simp: p' free_set_def pool_known_def)
  with p' ok P len show ?thesis
    by (intro inv_pool [OF assms(1), where p' = p' and new = "[]" and X = "{}"]) (auto simp: out_def)
qed

lemma pool_sweep_inv:
  assumes "mgr_inv s"
  shows "mgr_inv (set_pool (pool_sweep_once now (pool_of s)) s)"
proof -
  note P = inv_pool_of [OF assms]
  let ?p' = "pool_sweep_once now (pool_of s)"
  define X where "X = fst ` set (filter (\<lambda>(ws, ts). now - ts > p_idle_ttl (pool_of s)) (p_free (pool_of s)))"
  have sw: "p_closed ?p' = p_closed (pool_of s)" "p_in_use ?p' = p_in_use (pool_of s)"
    "p_pending_count ?p' = p_pending_count (pool_of s)"
    "set (p_closed_log ?p') = set (p_closed_log (pool_of s)) \<union> X"
    by (auto simp: X_def pool_sweep_once_def sweep_scan_filter safe_close_all_def)
  have d: "distinct (map fst (p_free (pool_of s)))" using P(2) by (simp add: pool_ok_def)
  have X: "X \<inter> free_set ?p' = {}"
    using d by (auto simp: X_def pool_sweep_free free_set_def distinct_map inj_on_def)
  have sub: "free_set ?p' \<subseteq> free_set (pool_of s)" "X \<subseteq> free_set (pool_of s)"
    by (auto simp: X_def pool_sweep_free free_set_def)
  have known: "pool_known ?p' \<subseteq> pool_known (pool_of s)"
    using sub(1) sw(2) by (auto simp: pool_known_def free_set_def)
  have out: "out (set_pool ?p' s) = out s" by (simp add: out_def)
  show ?thesis
    by (rule inv_pool [OF assms, where p' = ?p' and new = "[]" and X = X])
      (use P sw X sub known out pool_sweep_ok [OF P(2)] in auto)
qed

lemma prewarm_inv:
  assumes "mgr_inv s" and pr: "prewarm_reserve (pool_of s) = (True, p')"
  shows "mgr_inv ((set_pool p' s)\<lparr>ms_prewarm := Suc (ms_prewarm s)\<rparr>)"
proof -
  note P = inv_pool_of [OF assms(1)]
  have ok: "pool_ok p'" using prewarm_reserve_ok [OF P(2) pr] by simp
  have p': "p' = (pool_of s)\<lparr>p_pending_count := p_pending_count (pool_of s) + 1\<rparr>"
    using pr by (auto simp: prewarm_reserve_def split: if_splits)
  have "free_set p' = free_set (pool_of s)" "pool_known p' = pool_known (pool_of s)"
    by (auto simp: p' free_set_def pool_known_def)
  with p' ok P show ?thesis
    by (intro inv_pool [OF assms(1), where p' = p' and new = "[]" and X = "{}"]) (auto simp: out_def)
qed

lemma prewarm_failed_inv:
  assumes "mgr_inv s" and pr: "ms_prewarm s = Suc n"
  shows "mgr_inv ((set_pool (prewarm_boot_failed (pool_of s)) s)\<lparr>ms_prewarm := n\<rparr>)"
proof -
  note P = inv_pool_of [OF assms(1)]
  let ?p' = "prewarm_boot_failed (pool_of s)"
  have ok: "pool_ok ?p'" using P(2,4) pr by (auto simp: prewarm_boot_failed_def pool_ok_def count_defs)
  have "free_set ?p' = free_set (pool_of s)" "pool_known ?p' = pool_known (pool_of s)"
    by (auto simp: prewarm_boot_failed_def free_set_def pool_known_def)
  with ok P pr show ?thesis
    by (intro inv_pool [OF assms(1), where p' = ?p' and new = "[]" and X = "{}"])
      (auto simp: out_def prewarm_boot_failed_def)
qed

lemma prewarmed_inv:
  assumes "mgr_inv s" and pr: "ms_prewarm s = Suc n" and ws: "ws \<notin> ms_born s"
  shows "mgr_inv ((set_pool (prewarm_booted ws now (pool_of s)) s)
      \<lparr>ms_prewarm := n, ms_born := insert ws (ms_born s)\<rparr>)"
proof -
  note P = inv_pool_of [OF assms(1)]
  let ?p = "pool_of s" and ?p' = "prewarm_booted ws now (pool_of s)"
  have fresh: "ws \<notin> pool_known ?p" using ws P(8) by blast
  have ok: "pool_ok ?p'" using prewarm_booted_ok [OF P(2) _ fresh] P(4) pr by simp
  have p': "p_closed ?p' = p_closed ?p" "p_pending_count ?p' = p_pending_count ?p - 1"
    "pool_known ?p' \<subseteq> insert ws (pool_known ?p)" "free_set ?p' \<subseteq> insert ws (free_set ?p)"
    "set (p_closed_log ?p') \<subseteq> set (p_closed_log ?p) \<union> (if ws \<in> free_set ?p' then {} else {ws})"
    using fresh
    by (auto simp: prewarm_booted_def safe_close_def Let_def pool_known_def free_set_def)
  have out: "out ((set_pool ?p' s)\<lparr>ms_prewarm := n, ms_born := insert ws (ms_born s)\<rparr>) = out s"
    by (simp add: out_def)
  show ?thesis
    by (rule inv_pool [OF assms(1), where p' = ?p' and new = "[]" and X = "if ws \<in> free_set ?p' then {} else {ws}"])
      (use P ok p' pr ws out in \<open>auto split: if_splits\<close>)
qed

lemma built_inv:
  assumes "mgr_inv s" and ws: "ws \<notin> ms_born s"
  shows "mgr_inv ((upd_mgr (mgr_store wid ws now (ms_mgr s)) s)
      \<lparr>ms_lock := None, ms_born := insert ws (ms_born s)\<rparr>)"
    (is "mgr_inv ?t")
proof -
  note P = inv_pool_of [OF assms(1)]
  have sub: "mset (out ?t) \<subseteq># mset (ws # out s)"
    using vals_dput [of wid ws now "m_cache (ms_mgr s)"] by (simp add: out_def mgr_store_def)
  have "ws \<notin> set (out s)" using ws P(8) by blast
  with P(5) have d: "distinct (out ?t)" by (intro distinct_sub [OF sub]) simp
  have "set (out ?t) \<subseteq> insert ws (set (out s))"
    using sub by (metis list.simps(15) set_mset_mono set_mset_mset)
  moreover have "pool_of ?t = pool_of s" "torn_down ?t = torn_down s" "ms_born ?t = insert ws (ms_born s)"
    by (simp_all add: torn_down_def mgr_store_def)
  ultimately have "places_ok ?t"
    using P(6-9) ws d unfolding places_ok_def by (simp only: ) blast
  then show ?thesis using assms(1) by (auto simp: mgr_inv_def mgr_pool_ok_def mgr_store_def)
qed

lemma places_drop:
  assumes "places_ok s" and "distinct (ws # out t)" and "set (ws # out t) = set (out s)"
    and "free_set (pool_of t) \<subseteq> free_set (pool_of s) \<union> F" and "F \<subseteq> {ws}"
    and "pool_known (pool_of t) \<subseteq> insert ws (pool_known (pool_of s))"
    and "torn_down t \<subseteq> torn_down s \<union> ({ws} - F)" and "ms_born t = ms_born s"
  shows "places_ok t"
proof -
  have ws: "ws \<in> set (out s)" "ws \<notin> set (out t)" "set (out t) \<subseteq> set (out s)" using assms(2,3) by auto
  have "torn_down t \<inter> (set (out t) \<union> free_set (pool_of t)) = {}"
    using assms(1,4,5,7) ws unfolding places_ok_def by blast
  moreover have "set (out t) \<inter> free_set (pool_of t) = {}"
    using assms(1,4,5) ws unfolding places_ok_def by blast
  moreover have "set (out t) \<union> pool_known (pool_of t) \<union> torn_down t \<subseteq> ms_born t"
    using assms(1,6,7,8) ws unfolding places_ok_def by blast
  ultimately show ?thesis using assms(2) by (simp add: places_ok_def)
qed

text \<open>Disposing of a popped sandbox: back to the pool, or torn down.\<close>

lemma tear_down_inv:
  assumes "mgr_inv s" and ws: "ws \<in> set (ms_doomed s)"
  shows "mgr_inv ((upd_mgr (mgr_safe_close ws (ms_mgr s)) s)\<lparr>ms_doomed := remove1 ws (ms_doomed s)\<rparr>)"
    (is "mgr_inv ?t")
proof -
  note P = inv_pool_of [OF assms(1)]
  have "add_mset ws (mset (out ?t)) = mset (out s)" using ws by (simp add: out_def mgr_safe_close_def)
  then have eq: "mset (ws # out ?t) = mset (out s)" by simp
  then have "distinct (ws # out ?t)" using P(5) by (metis mset_eq_imp_distinct_iff)
  moreover have "set (ws # out ?t) = set (out s)" using eq by (rule mset_eq_setD)
  moreover have "torn_down ?t = insert ws (torn_down s)" by (simp add: torn_down_def mgr_safe_close_def)
  ultimately have "places_ok ?t"
    using P unfolding places_ok_def by (auto simp: mgr_safe_close_def)
  then show ?thesis using assms(1) by (auto simp: mgr_inv_def mgr_pool_ok_def mgr_safe_close_def)
qed

lemma give_back_inv:
  assumes "mgr_inv s" and ws: "ws \<in> set (ms_closing s)"
  shows "mgr_inv ((upd_mgr (mgr_give_back ws alive now (ms_mgr s)) s)\<lparr>ms_closing := remove1 ws (ms_closing s)\<rparr>)"
    (is "mgr_inv ?t")
proof -
  note P = inv_pool_of [OF assms(1)]
  let ?p = "pool_of s"
  let ?p' = "if alive then pool_release ws False now ?p else ?p"
  have t: "m_pool (ms_mgr ?t) = Some ?p'" "m_cache (ms_mgr ?t) = m_cache (ms_mgr s)"
    "m_closed_log (ms_mgr ?t) = m_closed_log (ms_mgr s) @ (if alive then [] else [ws])"
    using P(1) by (auto simp: mgr_give_back_def mgr_safe_close_def split: option.split)
  have "add_mset ws (mset (out ?t)) = mset (out s)" using ws t(2) by (simp add: out_def)
  then have eq: "mset (ws # out ?t) = mset (out s)" by simp
  then have d: "distinct (ws # out ?t)" using P(5) by (metis mset_eq_imp_distinct_iff)
  have st: "set (ws # out ?t) = set (out s)" using eq by (rule mset_eq_setD)
  have ok: "pool_ok ?p'" using pool_release_ok [OF P(2)] P(2) by simp
  have p': "p_closed ?p' = p_closed ?p" "p_pending_count ?p' = p_pending_count ?p"
    "pool_known ?p' \<subseteq> insert ws (pool_known ?p)" "free_set ?p' \<subseteq> free_set ?p \<union> (if alive then {ws} else {})"
    "set (p_closed_log ?p') = set (p_closed_log ?p)"
    using release_room [OF P(2), of ws] P(3)
    by (auto simp: pool_release_def safe_close_def Let_def pool_known_def free_set_def warm_count_def)
  have "torn_down ?t = torn_down s \<union> (if alive then {} else {ws})"
    using t p'(5) by (auto simp: torn_down_def)
  then have torn: "torn_down ?t \<subseteq> torn_down s \<union> ({ws} - (if alive then {ws} else {}))" by auto
  have pt: "pool_of ?t = ?p'" unfolding t(1) by simp
  have "places_ok ?t"
  proof (rule places_drop [where s = s and ws = ws and F = "if alive then {ws} else {}"])
    show "places_ok s" using assms(1) by (simp add: mgr_inv_def)
    show "free_set (pool_of ?t) \<subseteq> free_set (pool_of s) \<union> (if alive then {ws} else {})"
      unfolding pt by (rule p'(4))
    show "pool_known (pool_of ?t) \<subseteq> insert ws (pool_known (pool_of s))" unfolding pt by (rule p'(3))
  qed (rule d st torn | simp)+
  then show ?thesis using assms(1) t ok p' P(3,4) by (simp add: mgr_inv_def mgr_pool_ok_def)
qed

lemma mgr_step_inv:
  assumes "mgr_step s t" and "mgr_inv s"
  shows "mgr_inv t"
  using assms
proof cases
  case (close wid ws m')
  from take_SomeD [OF close(3)] obtain ts where "dget (m_cache (ms_mgr s)) wid = Some (ws, ts)"
    and m': "m' = (ms_mgr s)\<lparr>m_cache := ddel wid (m_cache (ms_mgr s))\<rparr>" by blast
  from vals_take [OF this(1)] assms(2) show ?thesis
    by (intro popped_inv [OF assms(2), where xs = "[ws]" and d = "ddel wid (m_cache (ms_mgr s))"])
      (auto simp: close m' mgr_inv_def)
next
  case (sweep evicted m')
  have ok: "dict_ok (m_cache (ms_mgr s))" using assms(2) by (simp add: mgr_inv_def)
  from evict_spec [OF sweep(3) ok] ok show ?thesis
    by (intro popped_inv [OF assms(2), where xs = evicted and d = "m_cache m'"])
      (auto simp: sweep dict_ok_filter)
next
  case (close_all entries m')
  then show ?thesis
    by (intro popped_inv [OF assms(2), where xs = entries and d = "[]"]) (auto simp: mgr_clear_def vals_def)
next
  case (tick dt)
  with assms(2) show ?thesis by (intro inv_cache_only [OF assms(2)]) (auto simp: out_def mgr_inv_def)
next
  case (build wid)
  with assms(2) show ?thesis by (intro inv_cache_only [OF assms(2)]) (auto simp: out_def mgr_inv_def)
next
  case (build_failed wid)
  with assms(2) show ?thesis by (intro inv_cache_only [OF assms(2)]) (auto simp: out_def mgr_inv_def)
qed (auto intro: hit_inv store_inv lease_inv grow_inv booted_inv boot_failed_inv built_inv give_back_inv
    tear_down_inv pool_sweep_inv prewarm_inv prewarmed_inv prewarm_failed_inv)

text \<open>A manager whose context has just been entered with the pool enabled.\<close>

definition entered :: "manager \<Rightarrow> bool" where
  "entered m \<longleftrightarrow> m_cache m = [] \<and> m_closed_log m = [] \<and>
     (\<exists>p. m_pool m = Some p \<and> pool_ok p \<and> \<not> p_closed p \<and> \<not> p_health_check p \<and> p_free p = [] \<and>
        p_in_use p = {} \<and> p_pending_count p = 0 \<and> p_closed_log p = [])"

lemma aenter_entered:
  assumes "mgr_aenter m = (Inr (), m')" and "m_enable_pool m" and "m_pool m = None"
    and "m_cache m = []" and "m_closed_log m = []"
  shows "entered m'"
  using assms
  by (auto simp: mgr_aenter_def entered_def pool_init_def pool_start_def Let_def pool_ok_def count_defs
      split: if_splits option.splits)

lemma mgr_reach_inv: "mgr_reach m s \<Longrightarrow> entered m \<Longrightarrow> mgr_inv s"
proof (induction rule: mgr_reach.induct)
  case start
  then show ?case
    by (auto simp: mgr_inv_def entered_def mgr_sys_init_def mgr_pool_ok_def places_ok_def out_def
        torn_down_def free_set_def pool_known_def)
qed (rule mgr_step_inv)


section \<open>Properties\<close>

lemma hands_in_use:
  assumes "mgr_step s t" and "mgr_inv s" and "snd ` set (ms_hands s) \<subseteq> p_in_use (pool_of s)"
  shows "snd ` set (ms_hands t) \<subseteq> p_in_use (pool_of t)"
  using assms(1)
proof cases
  case (lease c p' wid)
  with acquire_Candidate [OF lease(2)] inv_pool_of(2) [OF assms(2)] assms(3) show ?thesis by auto
next
  case (grow p' wid)
  with acquire_Grow [OF grow(2)] assms(3) show ?thesis by auto
next
  case (booted wid ws p')
  with assms(3) show ?thesis by (auto simp: provision_done_def Let_def)
next
  case (boot_failed wid e p')
  with assms(3) show ?thesis by (auto simp: provision_done_def Let_def)
next
  case (store wid ws)
  with assms(3) show ?thesis by (auto simp: mgr_store_def dest!: set_remove1_subset [THEN subsetD])
next
  case (give_back ws alive)
  have "ws \<notin> snd ` set (ms_hands s)" using give_back(2) inv_pool_of(5) [OF assms(2)] by (auto simp: out_def)
  moreover have "p_in_use (pool_of s) - {ws} \<subseteq> p_in_use (pool_release ws False (ms_now s) (pool_of s))"
    by (auto simp: pool_release_def safe_close_def Let_def)
  ultimately have "snd ` set (ms_hands s) \<subseteq> p_in_use (pool_release ws False (ms_now s) (pool_of s))"
    using assms(3) by blast
  then show ?thesis
    using give_back(1) assms(3) inv_pool_of(1) [OF assms(2)]
    by (auto simp: mgr_give_back_def mgr_safe_close_def split: option.split)
next
  case (close wid ws m')
  with assms(3) show ?thesis by (auto simp: mgr_take_def)
next
  case (sweep evicted m')
  have "dict_ok (m_cache (ms_mgr s))" using assms(2) by (simp add: mgr_inv_def)
  with evict_spec [OF sweep(3)] have "m_pool m' = m_pool (ms_mgr s)" by simp
  with sweep(1) assms(3) show ?thesis by auto
qed (use assms(3) in \<open>auto simp: mgr_hit_def mgr_store_def mgr_clear_def mgr_safe_close_def mgr_take_def
    prewarm_reserve_def prewarm_booted_def prewarm_boot_failed_def pool_sweep_once_def sweep_scan_filter
    safe_close_def safe_close_all_def Let_def split: option.splits if_splits prod.splits\<close>)

lemma reach_hands: "mgr_reach m s \<Longrightarrow> entered m \<Longrightarrow> snd ` set (ms_hands s) \<subseteq> p_in_use (pool_of s)"
proof (induction rule: mgr_reach.induct)
  case (step s t)
  then show ?case using hands_in_use mgr_reach_inv by blast
qed (simp add: mgr_sys_init_def)

text \<open>
  C10: However the tasks of a manager with a pool interleave, while its context is open: the
  workspace cached under an id is cached under no other id, is not free in the pool, so no
  later \<open>get_workspace\<close> can be handed it for another id, has not been torn down, and no task that
  is about to cache, return or tear down a sandbox has it.
\<close>

theorem mgr_no_sharing:
  assumes "mgr_aenter (manager_init kind runtime basedir policy base_image node pip port env mcps skills ttl sweep True mx mn idle)
      = (Inr (), m)"
    and "mgr_reach m s" and "dget (m_cache (ms_mgr s)) wid = Some (ws, ts)"
  shows "(\<forall>wid' ts'. dget (m_cache (ms_mgr s)) wid' \<noteq> Some (ws, ts') \<or> wid' = wid) \<and>
    ws \<notin> fst ` set (p_free (pool_of s)) \<and>
    ws \<notin> set (m_closed_log (ms_mgr s)) \<union> set (p_closed_log (pool_of s)) \<and>
    ws \<notin> snd ` set (ms_hands s) \<union> set (ms_closing s) \<union> set (ms_doomed s)"
proof -
  have "entered m" by (rule aenter_entered [OF assms(1)]) (simp_all add: manager_init_def)
  note P = inv_pool_of [OF mgr_reach_inv [OF assms(2) this]]
  have ws: "ws \<in> set (vals (m_cache (ms_mgr s)))" by (rule vals_dget [OF assms(3)])
  then have out: "ws \<in> set (out s)" by (simp add: out_def)
  have "distinct (vals (m_cache (ms_mgr s)))" using P(5) by (simp add: out_def)
  then have "wid' = wid" if "dget (m_cache (ms_mgr s)) wid' = Some (ws, ts')" for wid' ts'
    using vals_inj [OF _ that assms(3)] by simp
  moreover have "ws \<notin> snd ` set (ms_hands s) \<union> set (ms_closing s) \<union> set (ms_doomed s)"
    using P(5) ws by (auto simp: out_def)
  moreover have "ws \<notin> free_set (pool_of s)" "ws \<notin> torn_down s" using P(6,7) out by blast+
  ultimately show ?thesis by (auto simp: free_set_def torn_down_def)
qed

definition demo_manager :: "int \<Rightarrow> manager" where
  "demo_manager n = manager_init ''gvisor'' (Some ''runsc'') ''/srv/ws'' ''per_agent'' ''python:3'' None None
     5600 None None None 3600 300 True n 0 1800"

definition demo_entered :: "int \<Rightarrow> manager" where
  "demo_entered n = snd (mgr_aenter (demo_manager n))"

lemma demo_aenter: "1 \<le> n \<Longrightarrow> mgr_aenter (demo_manager n) = (Inr (), demo_entered n)"
  by (simp add: demo_entered_def demo_manager_def mgr_aenter_def manager_init_def pool_init_def parse_strategy_def)

lemma demo_pool:
  assumes "1 \<le> n"
  shows "\<exists>p. m_pool (demo_entered n) = Some p \<and> p_free p = [] \<and> p_in_use p = {} \<and> p_pending_count p = 0 \<and>
     p_max_size p = n \<and> \<not> p_closed p \<and> \<not> p_health_check p \<and> p_closed_log p = [] \<and> p_acquire_strategy p = FIFO"
  and "m_cache (demo_entered n) = [] \<and> m_closed_log (demo_entered n) = [] \<and> m_ttl (demo_entered n) = 3600 \<and>
     m_runtime (demo_entered n) = Some ''runsc''"
  using assms
  by (auto simp: demo_entered_def demo_manager_def mgr_aenter_def manager_init_def pool_init_def
      parse_strategy_def pool_start_def Let_def)

text \<open>One task that boots a sandbox in the pool and caches it.\<close>

lemma demo_boot_step:
  assumes "mgr_reach m s" and "m_pool (ms_mgr s) = Some p" and "p_free p = []" and "total_count p < p_max_size p"
    and "ws \<notin> ms_born s"
  shows "mgr_reach m ((set_pool (p\<lparr>p_in_use := insert ws (p_in_use p)\<rparr>) s)
    \<lparr>ms_hands := (wid, ws) # ms_hands s, ms_born := insert ws (ms_born s)\<rparr>)" (is "mgr_reach m ?t")
proof -
  let ?p1 = "p\<lparr>p_pending_count := p_pending_count p + 1\<rparr>"
  let ?s1 = "(set_pool ?p1 s)\<lparr>ms_booting := wid # ms_booting s\<rparr>"
  have "mgr_step s ?s1"
    by (rule mgr_step.grow) (simp add: assms acquire_locked_def pop_free_locked_def)
  with assms(1) have "mgr_reach m ?s1" by (rule mgr_reach.step)
  moreover have "mgr_step ?s1 ?t"
  proof -
    have "?t = (set_pool (p\<lparr>p_in_use := insert ws (p_in_use p)\<rparr>) ?s1)
      \<lparr>ms_booting := remove1 wid (ms_booting ?s1), ms_hands := (wid, ws) # ms_hands ?s1,
       ms_born := insert ws (ms_born ?s1)\<rparr>"
      by (simp add: set_pool_def)
    also have "mgr_step ?s1 \<dots>"
      by (rule mgr_step.booted) (simp_all add: assms(5) provision_done_def Let_def)
    finally show ?thesis .
  qed
  ultimately show ?thesis by (rule mgr_reach.step)
qed

text \<open>Two tasks that each boot a sandbox in the pool for the same id.\<close>

lemma demo_two:
  "\<exists>s. mgr_reach (demo_entered 2) s \<and> ms_hands s = [(''w'', 8), (''w'', 7)] \<and> ms_lock s = None \<and>
     ms_now s = 0"
proof -
  obtain p where p: "m_pool (demo_entered 2) = Some p" "p_free p = []" "p_in_use p = {}" "p_pending_count p = 0"
    "p_max_size p = 2" using demo_pool(1) [of 2] by auto
  let ?s0 = "mgr_sys_init (demo_entered 2)"
  have s0: "mgr_reach (demo_entered 2) ?s0" by (rule mgr_reach.start)
  have "mgr_reach (demo_entered 2) ((set_pool (p\<lparr>p_in_use := insert 7 (p_in_use p)\<rparr>) ?s0)
    \<lparr>ms_hands := (''w'', 7) # ms_hands ?s0, ms_born := insert 7 (ms_born ?s0)\<rparr>)" (is "mgr_reach _ ?s1")
    by (rule demo_boot_step [OF s0]) (simp_all add: mgr_sys_init_def p count_defs)
  then have "mgr_reach (demo_entered 2) ((set_pool ((p\<lparr>p_in_use := {7}\<rparr>)\<lparr>p_in_use := insert 8 {7}\<rparr>) ?s1)
    \<lparr>ms_hands := (''w'', 8) # ms_hands ?s1, ms_born := insert 8 (ms_born ?s1)\<rparr>)" (is "mgr_reach _ ?s2")
    using demo_boot_step [of _ ?s1 "p\<lparr>p_in_use := {7}\<rparr>" 8 "''w''"] by (simp add: mgr_sys_init_def p count_defs)
  then show ?thesis by (intro exI [of _ ?s2]) (simp add: mgr_sys_init_def)
qed

lemma demo_cached:
  "\<exists>s. mgr_reach (demo_entered 2) s \<and> dget (m_cache (ms_mgr s)) ''w'' = Some (7, 0)"
proof -
  from demo_two obtain s where s: "mgr_reach (demo_entered 2) s" "ms_hands s = [(''w'', 8), (''w'', 7)]"
    "ms_lock s = None" "ms_now s = 0" by blast
  have "mgr_step s ((upd_mgr (mgr_store ''w'' 7 (ms_now s) (ms_mgr s)) s)\<lparr>ms_hands := remove1 (''w'', 7) (ms_hands s)\<rparr>)"
    (is "mgr_step s ?t") by (rule mgr_step.store) (simp_all add: s)
  with s(1) have "mgr_reach (demo_entered 2) ?t" by (rule mgr_reach.step)
  then show ?thesis by (intro exI [of _ ?t]) (simp add: mgr_store_def dict_simps s(4))
qed

theorem mgr_no_sharing_witness:
  "\<exists>s. mgr_reach (demo_entered 2) s \<and> dget (m_cache (ms_mgr s)) ''w'' = Some (7, 0) \<and>
     7 \<notin> fst ` set (p_free (pool_of s))"
proof -
  have "mgr_aenter (demo_manager 2) = (Inr (), demo_entered 2)" by (rule demo_aenter) simp
  with demo_cached mgr_no_sharing [OF this [unfolded demo_manager_def]] show ?thesis by blast
qed

text \<open>
  A sandbox in use that is neither cached nor on its way stays in use: only \<open>close\<close> of a cached
  workspace gives anything back.
\<close>

lemma slot_lost_step:
  assumes "mgr_step s t" and "mgr_inv s" and "ws \<in> p_in_use (pool_of s)" and "ws \<notin> set (out s)"
  shows "ws \<in> p_in_use (pool_of t) \<and> ws \<notin> set (out t)"
  using assms(1)
proof cases
  case (hit wid ws' m')
  then obtain ts where ts: "dget (m_cache (ms_mgr s)) wid = Some (ws', ts)"
    and m': "m' = mgr_store wid ws' (ms_now s) (ms_mgr s)" by (auto simp: mgr_hit_def split: option.splits)
  with hit(1) vals_touch [OF ts] assms(3,4) show ?thesis by (simp add: out_def mgr_store_def)
next
  case (lease c p' wid)
  have "c \<notin> p_in_use (pool_of s)" "p_in_use p' = insert c (p_in_use (pool_of s))"
    using acquire_Candidate [OF lease(2)] inv_pool_of(2) [OF assms(2)] by auto
  with lease assms(3,4) show ?thesis by (auto simp: out_def)
next
  case (grow p' wid)
  with acquire_Grow [OF grow(2)] assms(3,4) show ?thesis by (auto simp: out_def)
next
  case (booted wid ws' p')
  have "ws \<in> ms_born s" using inv_pool_of(8) [OF assms(2)] assms(3) by (auto simp: pool_known_def)
  with booted assms(3,4) show ?thesis by (auto simp: out_def provision_done_def Let_def)
next
  case (boot_failed wid e p')
  with assms(3,4) show ?thesis by (auto simp: out_def provision_done_def Let_def)
next
  case (store wid ws')
  then have "set (out t) \<subseteq> set (out s)"
    using vals_dput [of wid ws' "ms_now s" "m_cache (ms_mgr s)", THEN set_mset_mono]
    by (force simp: out_def mgr_store_def dest: set_remove1_subset [THEN subsetD])
  with store(1) assms(3,4) show ?thesis by (auto simp: mgr_store_def)
next
  case (built wid ws')
  have "ws \<in> ms_born s" using inv_pool_of(8) [OF assms(2)] assms(3) by (auto simp: pool_known_def)
  moreover have "set (out t) \<subseteq> insert ws' (set (out s))"
    using vals_dput [of wid ws' "ms_now s" "m_cache (ms_mgr s)", THEN set_mset_mono] built(1)
    by (force simp: out_def mgr_store_def)
  ultimately show ?thesis using built assms(3,4) by (auto simp: mgr_store_def)
next
  case (close wid ws' m')
  from take_SomeD [OF close(3)] obtain ts where ts: "dget (m_cache (ms_mgr s)) wid = Some (ws', ts)"
    and m': "m' = (ms_mgr s)\<lparr>m_cache := ddel wid (m_cache (ms_mgr s))\<rparr>" by blast
  from vals_take [OF ts, THEN set_mset_mono] m' close(1) assms(3,4) show ?thesis by (auto simp: out_def)
next
  case (give_back ws' alive)
  with assms(3,4) inv_pool_of(1) [OF assms(2)] have "ws' \<noteq> ws" by (auto simp: out_def)
  with give_back(1) assms(3,4) inv_pool_of(1) [OF assms(2)] show ?thesis
    by (auto simp: out_def mgr_give_back_def mgr_safe_close_def pool_release_def safe_close_def Let_def
        split: option.splits dest: set_remove1_subset [THEN subsetD])
next
  case (sweep evicted m')
  have "dict_ok (m_cache (ms_mgr s))" using assms(2) by (simp add: mgr_inv_def)
  note ev = evict_spec [OF sweep(3) this]
  from conjunct2 [OF ev, THEN set_mset_mono] have "set evicted \<union> set (vals (m_cache m')) \<subseteq> set (vals (m_cache (ms_mgr s)))" by simp
  moreover from ev have "m_pool m' = m_pool (ms_mgr s)" by simp
  ultimately show ?thesis using sweep(1) assms(3,4) by (auto simp: out_def)
next
  case (close_all entries m')
  with assms(3,4) show ?thesis by (auto simp: out_def mgr_clear_def vals_def)
qed (use assms(3,4) in \<open>auto simp: out_def mgr_safe_close_def
    prewarm_reserve_def prewarm_booted_def prewarm_boot_failed_def pool_sweep_once_def sweep_scan_filter
    safe_close_def safe_close_all_def Let_def split: if_splits prod.splits dest: set_remove1_subset [THEN subsetD]\<close>)

lemma slot_lost:
  assumes "mgr_step\<^sup>*\<^sup>* s t" and "mgr_inv s" and "ws \<in> p_in_use (pool_of s)" and "ws \<notin> set (out s)"
  shows "mgr_inv t \<and> ws \<in> p_in_use (pool_of t) \<and> ws \<notin> set (out t)"
  using assms by (induction rule: rtranclp_induct) (use mgr_step_inv slot_lost_step in blast)+

lemma vals_store_take:
  "ws1 \<notin> set (vals (ddel k d)) \<Longrightarrow> ws1 \<noteq> ws2 \<Longrightarrow> dict_ok d \<Longrightarrow> ws1 \<notin> set (vals (dput k (ws2, now) d))"
proof
  assume *: "ws1 \<notin> set (vals (ddel k d))" "ws1 \<noteq> ws2" "dict_ok d" "ws1 \<in> set (vals (dput k (ws2, now) d))"
  then obtain k' ts where "(k', (ws1, ts)) \<in> set (dput k (ws2, now) d)" by (auto simp: vals_def)
  moreover have "dict_ok (dput k (ws2, now) d)" using *(3) by simp
  ultimately have "dget (dput k (ws2, now) d) k' = Some (ws1, ts)" by (simp add: dict_items)
  with *(2) have "dget (ddel k d) k' = Some (ws1, ts)" by (auto simp: dict_simps split: if_splits)
  with *(1) show False using vals_dget by blast
qed

text \<open>
  C40: Two tasks that miss the cache for one id and each lease a sandbox from the pool: the second
  to store replaces the first, whose sandbox is then in nobody's hands and, whatever happens until
  the manager's context is left, never cached, closed or given back: its slot of the pool is lost.
\<close>

theorem concurrent_get_leaks:
  assumes "mgr_aenter (manager_init kind runtime basedir policy base_image node pip port env mcps skills ttl sweep True mx mn idle)
      = (Inr (), m)"
    and "mgr_reach m s" and "ms_lock s = None" and "ws1 \<noteq> ws2"
    and "(wid, ws1) \<in> set (ms_hands s)" and "(wid, ws2) \<in> set (ms_hands s)"
  shows "\<exists>t. mgr_step\<^sup>*\<^sup>* s t \<and> dget (m_cache (ms_mgr t)) wid = Some (ws2, ms_now s) \<and>
    (\<forall>u. mgr_step\<^sup>*\<^sup>* t u \<longrightarrow> ws1 \<in> p_in_use (pool_of u) \<and>
       ws1 \<notin> snd ` set (ms_hands u) \<union> set (ms_closing u) \<union> set (ms_doomed u) \<and>
       (\<forall>wid' ts. dget (m_cache (ms_mgr u)) wid' \<noteq> Some (ws1, ts)))"
proof -
  have ent: "entered m" by (rule aenter_entered [OF assms(1)]) (simp_all add: manager_init_def)
  have inv: "mgr_inv s" by (rule mgr_reach_inv [OF assms(2) ent])
  let ?s1 = "(upd_mgr (mgr_store wid ws1 (ms_now s) (ms_mgr s)) s)\<lparr>ms_hands := remove1 (wid, ws1) (ms_hands s)\<rparr>"
  let ?s2 = "(upd_mgr (mgr_store wid ws2 (ms_now ?s1) (ms_mgr ?s1)) ?s1)\<lparr>ms_hands := remove1 (wid, ws2) (ms_hands ?s1)\<rparr>"
  have st1: "mgr_step s ?s1" by (rule mgr_step.store [OF assms(3,5)])
  have h2: "(wid, ws2) \<in> set (ms_hands ?s1)" using assms(4,6) by simp
  have st2: "mgr_step ?s1 ?s2" by (rule mgr_step.store [OF _ h2]) (simp add: assms(3))
  have inv1: "mgr_inv ?s1" by (rule mgr_step_inv [OF st1 inv])
  have inv2: "mgr_inv ?s2" by (rule mgr_step_inv [OF st2 inv1])
  have c1: "dget (m_cache (ms_mgr ?s1)) wid = Some (ws1, ms_now s)" by (simp add: mgr_store_def dict_simps)
  have ok1: "dict_ok (m_cache (ms_mgr ?s1))" using inv1 by (simp add: mgr_inv_def)
  have "distinct (out ?s1)" by (rule inv_pool_of(5) [OF inv1])
  then have "distinct (vals (m_cache (ms_mgr ?s1)))" and rest: "ws1 \<notin> snd ` set (ms_hands ?s1) \<union> set (ms_closing s) \<union> set (ms_doomed s)"
    using vals_dget [OF c1] by (auto simp: out_def)
  then have "ws1 \<notin> set (vals (ddel wid (m_cache (ms_mgr ?s1))))"
    using distinct_sub [of "ws1 # vals (ddel wid (m_cache (ms_mgr ?s1)))"] vals_take [OF c1] by simp
  then have "ws1 \<notin> set (vals (m_cache (ms_mgr ?s2)))"
    using assms(4) ok1 vals_store_take [of ws1 wid "m_cache (ms_mgr ?s1)" ws2 "ms_now s"] by (simp add: mgr_store_def)
  then have out: "ws1 \<notin> set (out ?s2)" using rest
    by (auto simp: out_def mgr_store_def dest: set_remove1_subset [THEN subsetD])
  have "ws1 \<in> p_in_use (pool_of s)" using reach_hands [OF assms(2) ent] assms(5) by force
  then have use2: "ws1 \<in> p_in_use (pool_of ?s2)" by (simp add: mgr_store_def)
  have "ws1 \<in> p_in_use (pool_of u) \<and> ws1 \<notin> snd ` set (ms_hands u) \<union> set (ms_closing u) \<union> set (ms_doomed u) \<and>
       (\<forall>wid' ts. dget (m_cache (ms_mgr u)) wid' \<noteq> Some (ws1, ts))" if "mgr_step\<^sup>*\<^sup>* ?s2 u" for u
    using slot_lost [OF that inv2 use2 out] by (auto simp: out_def dest: vals_dget)
  moreover have "mgr_step\<^sup>*\<^sup>* s ?s2" using st1 st2 by (meson converse_rtranclp_into_rtranclp rtranclp.rtrancl_refl)
  moreover have "dget (m_cache (ms_mgr ?s2)) wid = Some (ws2, ms_now s)" by (simp add: mgr_store_def dict_simps)
  ultimately show ?thesis by blast
qed

theorem concurrent_get_leaks_witness:
  "\<exists>s t. mgr_reach (demo_entered 2) s \<and> mgr_step\<^sup>*\<^sup>* s t \<and> dget (m_cache (ms_mgr t)) ''w'' = Some (8, 0) \<and>
     7 \<in> p_in_use (pool_of t)"
proof -
  from demo_two obtain s where s: "mgr_reach (demo_entered 2) s" "ms_hands s = [(''w'', 8), (''w'', 7)]"
    "ms_lock s = None" "ms_now s = 0" by blast
  have "mgr_aenter (demo_manager 2) = (Inr (), demo_entered 2)" by (rule demo_aenter) simp
  from concurrent_get_leaks [OF this [unfolded demo_manager_def] s(1,3), of 7 8 "''w''"] s show ?thesis by auto
qed

text \<open>
  C29: Without interference, what \<open>get_workspace\<close> returns is cached under its id with the current
  time, every other entry is untouched, a cached workspace is returned as it is, and asking for the
  id again returns the same workspace without booting anything.
\<close>

theorem get_workspace_correct:
  assumes "get_workspace user agent (Some wid) now m env = (Inr ws, m', env')"
  shows "m_cache m' = dput wid (ws, now) (m_cache m) \<and>
    (case dget (m_cache m) wid of None \<Rightarrow> True | Some (ws', ts) \<Rightarrow> ws = ws' \<and> m_pool m' = m_pool m \<and> env' = env) \<and>
    get_workspace user' agent' (Some wid) later m' env' = (Inr ws, mgr_store wid ws later m', env')"
proof -
  have again: "get_workspace user' agent' (Some wid) later m1 env1 = (Inr ws, mgr_store wid ws later m1, env1)"
    if "m_cache m1 = dput wid (ws, now) d" for m1 env1 d
    using that by (simp add: get_workspace_def get_workspace_id_def mgr_hit_def dict_simps)
  have locked: "m_cache m2 = dput wid (ws, now) (m_cache m1) \<and> m_pool m2 = m_pool m1"
    if "get_locked user agent wid now m1 env1 = (Inr ws, m2, env2)" for m1 env1 m2 env2
    using that by (auto simp: get_locked_def mgr_hit_def mgr_store_def split: option.splits sum.splits)
  have "m_cache m' = dput wid (ws, now) (m_cache m) \<and>
      (case dget (m_cache m) wid of None \<Rightarrow> True | Some (ws', ts) \<Rightarrow> ws = ws' \<and> m_pool m' = m_pool m \<and> env' = env)"
  proof (cases "dget (m_cache m) wid")
    case (Some v)
    with assms show ?thesis
      by (cases v) (auto simp: get_workspace_def get_workspace_id_def mgr_hit_def mgr_store_def)
  next
    case None
    with assms show ?thesis
      by (auto simp: get_workspace_def get_workspace_id_def mgr_hit_def mgr_store_def Let_def
          split: option.splits prod.splits sum.splits if_splits dest!: locked)
  qed
  with again show ?thesis by blast
qed

definition demo_mgr_env :: mgr_env where
  "demo_mgr_env = \<lparr>me_assign = (\<lambda>n u a s. ''id''), me_assigns = 0, me_build = (\<lambda>n cfg. Inr (n + 7)), me_builds = 0\<rparr>"

lemma demo_build: "build_and_start m (me_build demo_mgr_env n) wid u a =
    (if m_runtime m = None then Inl NotImplementedError else Inr (n + 7))"
  by (auto simp: build_and_start_def make_workspace_def demo_mgr_env_def)

definition plain_manager :: manager where
  "plain_manager = (demo_manager 1)\<lparr>m_enable_pool := False\<rparr>"

lemma demo_get: "get_workspace ''u'' ''a'' (Some ''w'') 5 plain_manager demo_mgr_env =
    (Inr 7, mgr_store ''w'' 7 5 plain_manager, demo_mgr_env\<lparr>me_builds := 1\<rparr>)"
proof -
  have "m_runtime plain_manager = Some ''runsc''" "m_pool plain_manager = None" "m_cache plain_manager = []"
    by (simp_all add: plain_manager_def demo_manager_def manager_init_def)
  then show ?thesis
    using demo_build [of plain_manager 0 "''w''" "''u''" "''a''"]
    by (simp add: get_workspace_def get_workspace_id_def mgr_hit_def get_locked_def demo_mgr_env_def)
qed

theorem get_workspace_correct_witness:
  "\<exists>m' env'. get_workspace ''u'' ''a'' (Some ''w'') 5 plain_manager demo_mgr_env = (Inr 7, m', env') \<and>
     fst (get_workspace ''u'' ''a'' (Some ''w'') 9 m' env') = Inr 7"
  using demo_get get_workspace_correct [OF demo_get, of "''u''" "''a''" 9] by simp

lemma popped_exact:
  assumes "distinct ids" and "set ids \<subseteq> dom (dget (m_cache m))" and "pop_ids ids m = (xs, m')"
  shows "xs = map (\<lambda>k. fst (the (dget (m_cache m) k))) ids"
  using assms
proof (induction ids arbitrary: m xs)
  case (Cons wid ids)
  obtain ws ts where v: "dget (m_cache m) wid = Some (ws, ts)" using Cons.prems(2) by auto
  let ?m1 = "m\<lparr>m_cache := ddel wid (m_cache m)\<rparr>"
  obtain ys where rest: "pop_ids ids ?m1 = (ys, m')" and xs: "xs = ws # ys"
    using Cons.prems(3) v by (auto simp: mgr_take_def split: prod.splits)
  have "set ids \<subseteq> dom (dget (m_cache ?m1))" using Cons.prems(1,2) by (auto simp: dict_simps)
  then have "ys = map (\<lambda>k. fst (the (dget (m_cache ?m1) k))) ids" using Cons.IH [OF _ _ rest] Cons.prems(1) by simp
  also have "\<dots> = map (\<lambda>k. fst (the (dget (m_cache m) k))) ids"
    using Cons.prems(1) by (auto simp: dict_simps)
  finally show ?case using xs v by simp
qed simp

lemma evicted_exact:
  assumes "mgr_evict now m = (xs, m')" and ok: "dict_ok (m_cache m)"
  shows "xs = vals (filter (\<lambda>(wid, (ws, ts)). now - ts > m_ttl m) (m_cache m))"
proof -
  let ?old = "filter (\<lambda>(wid, (ws, ts)). now - ts > m_ttl m) (m_cache m)"
  have "distinct (mgr_expired now m)"
    using ok by (simp add: mgr_expired_def dict_ok_def distinct_map_filter)
  moreover have "set (mgr_expired now m) \<subseteq> dom (dget (m_cache m))"
    by (auto simp: mgr_expired_def dom_map_of_conv_image_fst)
  ultimately have "xs = map (\<lambda>k. fst (the (dget (m_cache m) k))) (map fst ?old)"
    using popped_exact assms(1) unfolding mgr_evict_def mgr_expired_def by blast
  also have "\<dots> = vals ?old" using ok by (auto simp: vals_def dict_items)
  finally show ?thesis .
qed

text \<open>
  The sweeper drops from the cache exactly the workspaces not asked for within the time to live
  and closes each of them once, but it never tells the pool, where they still count as in use.
\<close>

theorem mgr_sweep_exact:
  assumes "dict_ok (m_cache m)"
  shows "m_cache (mgr_sweep_once now m) = filter (\<lambda>(wid, (ws, ts)). \<not> now - ts > m_ttl m) (m_cache m) \<and>
    m_closed_log (mgr_sweep_once now m) = m_closed_log m @
      map (\<lambda>(wid, (ws, ts)). ws) (filter (\<lambda>(wid, (ws, ts)). now - ts > m_ttl m) (m_cache m)) \<and>
    m_pool (mgr_sweep_once now m) = m_pool m"
proof -
  obtain xs m' where ev: "mgr_evict now m = (xs, m')" by (cases "mgr_evict now m")
  then have sw: "mgr_sweep_once now m = m'\<lparr>m_closed_log := m_closed_log m' @ xs\<rparr>"
    by (simp add: mgr_sweep_once_def safe_close_fold)
  have xs: "xs = map (\<lambda>(wid, (ws, ts)). ws) (filter (\<lambda>(wid, (ws, ts)). now - ts > m_ttl m) (m_cache m))"
    using evicted_exact [OF ev assms] by (simp add: vals_def)
  from evict_spec [OF ev assms] have m': "m' = m\<lparr>m_cache := filter (\<lambda>(k, (ws, ts)). \<not> now - ts > m_ttl m) (m_cache m)\<rparr>"
    by blast
  from sw xs show ?thesis by (simp add: m')
qed

theorem mgr_sweep_exact_witness:
  "m_cache (mgr_sweep_once 4000 (mgr_store ''w'' 7 5 plain_manager)) = [] \<and>
   m_closed_log (mgr_sweep_once 4000 (mgr_store ''w'' 7 5 plain_manager)) = [7]"
proof -
  let ?m = "mgr_store ''w'' 7 5 plain_manager"
  have m: "m_cache ?m = [(''w'', (7, 5))]" "m_ttl ?m = 3600" "m_closed_log ?m = []"
    by (simp_all add: mgr_store_def plain_manager_def demo_manager_def manager_init_def)
  then have "dict_ok (m_cache ?m)" by (simp add: dict_ok_def)
  from mgr_sweep_exact [OF this, of 4000] m show ?thesis by simp
qed

text \<open>
  A workspace that \<open>get_workspace\<close> built directly because the pool timed out is forgotten
  when it is closed: it leaves the cache, the pool ignores it, and it is neither closed nor kept.
\<close>

theorem close_forgets_fallback:
  assumes "dget (m_cache m) wid = None" and "m_pool m = Some p"
    and "pool_acquire p (mgr_pool_env m env) = (Inl TimeoutError, p1, penv)"
    and "get_workspace user agent (Some wid) now m env = (Inr ws, m', env')"
    and "ws \<notin> p_in_use p1" and "is_alive ws"
  shows "mgr_close is_alive wid later m' = m\<lparr>m_pool := Some p1, m_cache := ddel wid (m_cache m)\<rparr> \<and>
    m_closed_log (mgr_close is_alive wid later m') = m_closed_log m"
proof -
  have "m' = mgr_store wid ws now (m\<lparr>m_pool := Some p1\<rparr>)"
    using assms(1-4)
    by (auto simp: get_workspace_def get_workspace_id_def mgr_hit_def get_locked_def Let_def split: sum.splits)
  with assms(5,6) show ?thesis
    by (auto simp: mgr_close_def mgr_take_def mgr_store_def mgr_give_back_def pool_release_def dict_simps ddel_dput)
qed

definition full_manager :: manager where
  "full_manager = (demo_entered 1)\<lparr>m_pool := map_option (\<lambda>p. p\<lparr>p_in_use := {7}\<rparr>) (m_pool (demo_entered 1))\<rparr>"

theorem close_forgets_fallback_witness:
  "\<exists>m' env'. get_workspace ''u'' ''a'' (Some ''w'') 6 full_manager (demo_mgr_env\<lparr>me_builds := 1\<rparr>) = (Inr 8, m', env') \<and>
     m_closed_log (mgr_close (\<lambda>ws. True) ''w'' 7 m') = []"
proof -
  let ?env = "demo_mgr_env\<lparr>me_builds := 1\<rparr>"
  obtain p where p: "m_pool (demo_entered 1) = Some p" "p_free p = []" "p_pending_count p = 0" "p_max_size p = 1"
    "\<not> p_closed p" using demo_pool(1) [of 1] by auto
  let ?p = "p\<lparr>p_in_use := {7}\<rparr>"
  have m: "m_pool full_manager = Some ?p" "m_cache full_manager = []" "m_runtime full_manager = Some ''runsc''"
    "m_closed_log full_manager = []"
    using p(1) demo_pool(2) [of 1] by (simp_all add: full_manager_def)
  have acq: "pool_acquire ?p (mgr_pool_env full_manager ?env) = (Inl TimeoutError, ?p, mgr_pool_env full_manager ?env)"
    using p by (simp add: pool_acquire.simps acquire_locked_def pop_free_locked_def count_defs)
  have calls: "pe_factory_calls (mgr_pool_env full_manager e) = me_builds e" for e by (simp add: mgr_pool_env_def)
  have build: "me_build demo_mgr_env n cfg = Inr (n + 7)" for n cfg by (simp add: demo_mgr_env_def)
  obtain m' env' where get: "get_workspace ''u'' ''a'' (Some ''w'') 6 full_manager ?env = (Inr 8, m', env')"
    using m acq calls
    by (auto simp: get_workspace_def get_workspace_id_def mgr_hit_def get_locked_def build_and_start_def
        make_workspace_def build Let_def)
  have "dget (m_cache full_manager) ''w'' = None" "(8::nat) \<notin> p_in_use ?p" using m by simp_all
  from close_forgets_fallback [OF this(1) m(1) acq get this(2), of "\<lambda>ws. True" 7] get m show ?thesis by auto
qed

text \<open>
  C31: Leaving the manager's context closes everything: no pool and no cached workspace is left, and
  every workspace that was cached, free in the pool or leased from it has been closed.
\<close>

theorem mgr_exit_closes:
  assumes "case m_pool m of None \<Rightarrow> True | Some p \<Rightarrow> pool_ok p \<and> \<not> p_closed p"
  shows "m_pool (mgr_aexit m) = None \<and> m_cache (mgr_aexit m) = [] \<and> \<not> m_sweep_task (mgr_aexit m) \<and>
    set (m_closed_log (mgr_aexit m)) = set (m_closed_log m) \<union> {ws. \<exists>wid ts. (wid, (ws, ts)) \<in> set (m_cache m)} \<union>
      (case m_pool m of None \<Rightarrow> {} | Some p \<Rightarrow> set (p_closed_log p) \<union> fst ` set (p_free p) \<union> p_in_use p)"
proof -
  have all: "mgr_close_all m1 = m1\<lparr>m_cache := [], m_closed_log := m_closed_log m1 @ vals (m_cache m1)\<rparr>" for m1
    by (simp add: mgr_close_all_def mgr_clear_def safe_close_fold vals_def)
  have vals: "set (vals d) = {ws. \<exists>wid ts. (wid, (ws, ts)) \<in> set d}" for d
    by (auto simp: vals_def) force
  show ?thesis
  proof (cases "m_pool m")
    case None
    then show ?thesis by (simp add: mgr_aexit_def all vals)
  next
    case (Some p)
    with assms have "finite (p_in_use p)" "\<not> p_closed p" by (auto simp: pool_ok_def)
    then have "set (p_closed_log (pool_aclose p)) = set (p_closed_log p) \<union> fst ` set (p_free p) \<union> p_in_use p"
      by (auto simp: pool_aclose_def safe_close_all_def)
    with Some show ?thesis by (auto simp: mgr_aexit_def all vals Let_def)
  qed
qed

theorem mgr_exit_closes_witness:
  "m_pool (mgr_aexit full_manager) = None \<and> set (m_closed_log (mgr_aexit full_manager)) = {7}"
proof -
  obtain p where p: "m_pool (demo_entered 1) = Some p" "p_free p = []" "p_pending_count p = 0" "p_max_size p = 1"
    "\<not> p_closed p" "p_closed_log p = []" using demo_pool(1) [of 1] by auto
  have m: "m_pool full_manager = Some (p\<lparr>p_in_use := {7}\<rparr>)" "m_cache full_manager = []" "m_closed_log full_manager = []"
    using p(1) demo_pool(2) [of 1] by (simp_all add: full_manager_def)
  with p have "case m_pool full_manager of None \<Rightarrow> True | Some p \<Rightarrow> pool_ok p \<and> \<not> p_closed p"
    by (simp add: pool_ok_def count_defs)
  from mgr_exit_closes [OF this] m p show ?thesis by simp
qed

end
