(* ===== verification/Json_Text.thy ===== *)
theory Json_Text
  imports Host_FS
begin

text \<open>
  The part of Python's standard library the guest protocol puts on the wire: \<open>json.dumps\<close> with
  its default settings and \<open>json.loads\<close>, UTF-8, \<open>base64\<close> and the four-byte big-endian length of
  \<open>struct\<close>, each with its round trip.

  Byte strings and texts are both lists of characters; a text is limited to the characters below
  256. A float is the text \<open>repr\<close> writes for it. An escape beyond that range is a parse error
  here.
\<close>

section \<open>JSON values and their text\<close>

datatype jval =
    J_Null
  | J_Bool bool
  | J_Int int
  | J_Real string
  | J_Str string
  | J_List "jval list"
  | J_Obj "(string \<times> jval) list"

definition code :: "char \<Rightarrow> nat" where
  "code c = of_char c"

definition hex_digits :: string where
  "hex_digits = ''0123456789abcdef''"

definition escape_char :: "char \<Rightarrow> string" where
  "escape_char c =
     (if c = CHR 0x22 then [CHR 0x5C, CHR 0x22]
      else if c = CHR 0x5C then [CHR 0x5C, CHR 0x5C]
      else if c = CHR 0x0A then [CHR 0x5C, CHR ''n'']
      else if c = CHR 0x0D then [CHR 0x5C, CHR ''r'']
      else if c = CHR 0x09 then [CHR 0x5C, CHR ''t'']
      else if c = CHR 0x0C then [CHR 0x5C, CHR ''f'']
      else if c = CHR 0x08 then [CHR 0x5C, CHR ''b'']
      else if code c < 32 \<or> 126 < code c
        then [CHR 0x5C, CHR ''u'', CHR ''0'', CHR ''0'', hex_digits ! (code c div 16), hex_digits ! (code c mod 16)]
      else [c])"

definition json_string :: "string \<Rightarrow> string" where
  "json_string s = CHR 0x22 # concat (map escape_char s) @ [CHR 0x22]"

fun json_dumps :: "jval \<Rightarrow> string"
and dumps_elems :: "jval list \<Rightarrow> string"
and dumps_members :: "(string \<times> jval) list \<Rightarrow> string" where
  "json_dumps J_Null = ''null''"
| "json_dumps (J_Bool b) = (if b then ''true'' else ''false'')"
| "json_dumps (J_Int i) = show_int i"
| "json_dumps (J_Real s) = s"
| "json_dumps (J_Str s) = json_string s"
| "json_dumps (J_List vs) = ''['' @ dumps_elems vs @ '']''"
| "json_dumps (J_Obj kvs) = ''{'' @ dumps_members kvs @ ''}''"
| "dumps_elems [] = []"
| "dumps_elems [v] = json_dumps v"
| "dumps_elems (v # w # vs) = json_dumps v @ '', '' @ dumps_elems (w # vs)"
| "dumps_members [] = []"
| "dumps_members [(k, v)] = json_string k @ '': '' @ json_dumps v"
| "dumps_members ((k, v) # kv # kvs) = json_string k @ '': '' @ json_dumps v @ '', '' @ dumps_members (kv # kvs)"

section \<open>Reading JSON\<close>

definition is_ws :: "char \<Rightarrow> bool" where
  "is_ws c \<longleftrightarrow> c = CHR '' '' \<or> c = CHR 0x09 \<or> c = CHR 0x0A \<or> c = CHR 0x0D"

abbreviation skip_ws :: "string \<Rightarrow> string" where
  "skip_ws s \<equiv> dropWhile is_ws s"

definition is_digit :: "char \<Rightarrow> bool" where
  "is_digit c \<longleftrightarrow> 48 \<le> code c \<and> code c \<le> 57"

definition hex_value :: "char \<Rightarrow> nat option" where
  "hex_value c =
     (if is_digit c then Some (code c - 48)
      else if 97 \<le> code c \<and> code c \<le> 102 then Some (code c - 87)
      else if 65 \<le> code c \<and> code c \<le> 70 then Some (code c - 55)
      else None)"

fun hex_number :: "nat \<Rightarrow> string \<Rightarrow> nat option" where
  "hex_number acc [] = Some acc"
| "hex_number acc (c # cs) =
     (case hex_value c of None \<Rightarrow> None | Some d \<Rightarrow> hex_number (16 * acc + d) cs)"

definition simple_escape :: "char \<Rightarrow> char option" where
  "simple_escape c =
     (if c = CHR 0x22 \<or> c = CHR 0x5C \<or> c = CHR ''/'' then Some c
      else if c = CHR ''n'' then Some (CHR 0x0A)
      else if c = CHR ''r'' then Some (CHR 0x0D)
      else if c = CHR ''t'' then Some (CHR 0x09)
      else if c = CHR ''f'' then Some (CHR 0x0C)
      else if c = CHR ''b'' then Some (CHR 0x08)
      else None)"

text \<open>The text after an opening quote: the string and what follows its closing quote.\<close>

fun scan_string :: "string \<Rightarrow> (string \<times> string) option" where
  "scan_string [] = None"
| "scan_string (c # cs) =
     (if c = CHR 0x22 then Some ([], cs)
      else if c = CHR 0x5C then
        (case cs of
           CHR ''u'' # a # b # d # e # rest \<Rightarrow>
             (case hex_number 0 [a, b, d, e] of
                None \<Rightarrow> None
              | Some n \<Rightarrow>
                  if 255 < n then None
                  else map_option (apfst (Cons (char_of n))) (scan_string rest))
         | x # rest \<Rightarrow>
             (case simple_escape x of
                None \<Rightarrow> None
              | Some y \<Rightarrow> map_option (apfst (Cons y)) (scan_string rest))
         | [] \<Rightarrow> None)
      else if code c < 32 then None
      else map_option (apfst (Cons c)) (scan_string cs))"

definition digits_value :: "string \<Rightarrow> nat" where
  "digits_value ds = foldl (\<lambda>acc c. 10 * acc + (code c - 48)) 0 ds"

text \<open>\<open>NUMBER_RE\<close>: sign, integer part, fraction and exponent, each as long as it goes.\<close>

definition scan_int_part :: "string \<Rightarrow> (string \<times> string) option" where
  "scan_int_part s =
     (case s of
        [] \<Rightarrow> None
      | c # cs \<Rightarrow>
          if c = CHR ''0'' then Some ([c], cs)
          else if is_digit c then Some (takeWhile is_digit s, dropWhile is_digit s)
          else None)"

definition scan_frac :: "string \<Rightarrow> string \<times> string" where
  "scan_frac s =
     (case s of
        c # cs \<Rightarrow>
          if c = CHR ''.'' \<and> takeWhile is_digit cs \<noteq> []
          then (c # takeWhile is_digit cs, dropWhile is_digit cs) else ([], s)
      | [] \<Rightarrow> ([], s))"

definition scan_exp :: "string \<Rightarrow> string \<times> string" where
  "scan_exp s =
     (case s of
        e # cs \<Rightarrow>
          if e = CHR ''e'' \<or> e = CHR ''E'' then
            (let sign = (case cs of d # ds \<Rightarrow> if d = CHR ''+'' \<or> d = CHR ''-'' then [d] else [] | [] \<Rightarrow> []);
                 ds = drop (length sign) cs
             in if takeWhile is_digit ds \<noteq> []
                then (e # sign @ takeWhile is_digit ds, dropWhile is_digit ds) else ([], s))
          else ([], s)
      | [] \<Rightarrow> ([], s))"

definition scan_number :: "string \<Rightarrow> (jval \<times> string) option" where
  "scan_number s =
     (let neg = (s \<noteq> [] \<and> hd s = CHR ''-''); s1 = (if neg then tl s else s) in
      case scan_int_part s1 of
        None \<Rightarrow> None
      | Some (ip, s2) \<Rightarrow>
          (case scan_frac s2 of (fp, s3) \<Rightarrow>
           case scan_exp s3 of (ep, s4) \<Rightarrow>
             if fp = [] \<and> ep = []
             then Some (J_Int (if neg then - int (digits_value ip) else int (digits_value ip)), s4)
             else Some (J_Real ((if neg then ''-'' else []) @ ip @ fp @ ep), s4)))"

definition literal :: "string \<Rightarrow> jval \<Rightarrow> string \<Rightarrow> (jval \<times> string) option" where
  "literal w v s = (if take (length w) s = w then Some (v, drop (length w) s) else None)"

definition scan_word :: "string \<Rightarrow> (jval \<times> string) option" where
  "scan_word s =
     (case s of
        [] \<Rightarrow> None
      | c # cs \<Rightarrow>
          if c = CHR ''n'' then literal ''null'' J_Null s
          else if c = CHR ''t'' then literal ''true'' (J_Bool True) s
          else if c = CHR ''f'' then literal ''false'' (J_Bool False) s
          else if c = CHR ''N'' then literal ''NaN'' (J_Real ''NaN'') s
          else if c = CHR ''I'' then literal ''Infinity'' (J_Real ''Infinity'') s
          else if c = CHR ''-'' \<and> take 9 s = ''-Infinity'' then Some (J_Real ''-Infinity'', drop 9 s)
          else scan_number s)"

text \<open>
  The recursive scanner. Each level of nesting and each element uses up one unit of fuel or two;
  both take a character of the text, so twice its length is enough.
\<close>

fun scan_value :: "nat \<Rightarrow> string \<Rightarrow> (jval \<times> string) option"
and scan_elems :: "nat \<Rightarrow> string \<Rightarrow> (jval list \<times> string) option"
and scan_members :: "nat \<Rightarrow> string \<Rightarrow> ((string \<times> jval) list \<times> string) option" where
  "scan_value 0 s = None"
| "scan_value (Suc n) s =
     (case s of
        [] \<Rightarrow> None
      | c # cs \<Rightarrow>
          if c = CHR 0x22 then map_option (apfst J_Str) (scan_string cs)
          else if c = CHR ''['' then
            (case skip_ws cs of
               [] \<Rightarrow> None
             | d # rest \<Rightarrow>
                 if d = CHR '']'' then Some (J_List [], rest)
                 else map_option (apfst J_List) (scan_elems n (d # rest)))
          else if c = CHR ''{'' then
            (case skip_ws cs of
               [] \<Rightarrow> None
             | d # rest \<Rightarrow>
                 if d = CHR ''}'' then Some (J_Obj [], rest)
                 else map_option (apfst (\<lambda>kvs. J_Obj (foldl (\<lambda>d (k, v). dput k v d) [] kvs)))
                        (scan_members n (d # rest)))
          else scan_word s)"
| "scan_elems 0 s = None"
| "scan_elems (Suc n) s =
     (case scan_value n s of
        None \<Rightarrow> None
      | Some (v, s1) \<Rightarrow>
          (case skip_ws s1 of
             [] \<Rightarrow> None
           | c # rest \<Rightarrow>
               if c = CHR '']'' then Some ([v], rest)
               else if c = CHR '','' then map_option (apfst (Cons v)) (scan_elems n (skip_ws rest))
               else None))"
| "scan_members 0 s = None"
| "scan_members (Suc n) s =
     (case s of
        [] \<Rightarrow> None
      | q # s0 \<Rightarrow>
          if q \<noteq> CHR 0x22 then None
          else (case scan_string s0 of
            None \<Rightarrow> None
          | Some (k, s1) \<Rightarrow>
              (case skip_ws s1 of
                 [] \<Rightarrow> None
               | colon # s2 \<Rightarrow>
                   if colon \<noteq> CHR '':'' then None
                   else (case scan_value n (skip_ws s2) of
                     None \<Rightarrow> None
                   | Some (v, s3) \<Rightarrow>
                       (case skip_ws s3 of
                          [] \<Rightarrow> None
                        | c # rest \<Rightarrow>
                            if c = CHR ''}'' then Some ([(k, v)], rest)
                            else if c = CHR '','' then map_option (apfst (Cons (k, v))) (scan_members n (skip_ws rest))
                            else None)))))"

definition json_loads :: "string \<Rightarrow> jval option" where
  "json_loads s =
     (case scan_value (2 * length s + 2) (skip_ws s) of
        None \<Rightarrow> None
      | Some (v, rest) \<Rightarrow> if skip_ws rest = [] then Some v else None)"

section \<open>Reading back a text\<close>

lemma hex_value_digit: "d < 16 \<Longrightarrow> hex_value (hex_digits ! d) = Some d"
proof -
  have "\<forall>d \<in> set [0..<16]. hex_value (hex_digits ! d) = Some d" by code_simp
  then show "d < 16 \<Longrightarrow> hex_value (hex_digits ! d) = Some d" by simp
qed

lemma code_less: "code c < 256"
  unfolding code_def by (rule nat_of_char_less_256)

lemma char_of_code: "char_of (code c) = c"
  by (simp add: code_def)

lemma scan_escape: "scan_string (escape_char c @ t) = map_option (apfst (Cons c)) (scan_string t)"
proof -
  have "hex_number 0 [CHR ''0'', CHR ''0'', hex_digits ! (code c div 16), hex_digits ! (code c mod 16)] = Some (code c)"
  proof -
    have "code c div 16 < 16" using code_less [of c] by simp
    moreover have "hex_value (CHR ''0'') = Some 0" by code_simp
    ultimately show ?thesis by (simp add: hex_value_digit)
  qed
  then show ?thesis
    using code_less [of c] by (auto simp: escape_char_def char_of_code simple_escape_def not_less)
qed

lemma scan_json_string: "scan_string (concat (map escape_char s) @ CHR 0x22 # t) = Some (s, t)"
  by (induction s) (simp_all add: scan_escape)

text \<open>Numbers end where a character follows that cannot belong to one.\<close>

definition number_char :: "char \<Rightarrow> bool" where
  "number_char c \<longleftrightarrow> is_digit c \<or> c = CHR ''.'' \<or> c = CHR ''e'' \<or> c = CHR ''E'' \<or> c = CHR ''+'' \<or> c = CHR ''-''"

definition stops :: "string \<Rightarrow> bool" where
  "stops t \<longleftrightarrow> (case t of [] \<Rightarrow> True | c # _ \<Rightarrow> \<not> number_char c)"

lemma stops_simps [simp]: "stops []" "stops (c # t) \<longleftrightarrow> \<not> number_char c"
  by (simp_all add: stops_def)

lemma digits_append:
  "stops t \<Longrightarrow> takeWhile is_digit (s @ t) = takeWhile is_digit s"
  "stops t \<Longrightarrow> dropWhile is_digit (s @ t) = dropWhile is_digit s @ t"
  by (induction s; cases t; simp add: number_char_def)+

lemma scan_int_part_append:
  "stops t \<Longrightarrow> scan_int_part s = Some (a, r) \<Longrightarrow> scan_int_part (s @ t) = Some (a, r @ t)"
  by (auto simp: scan_int_part_def digits_append split: list.splits if_splits)

lemma scan_frac_append: "stops t \<Longrightarrow> scan_frac s = (a, r) \<Longrightarrow> scan_frac (s @ t) = (a, r @ t)"
  by (cases s) (auto simp: scan_frac_def digits_append number_char_def split: list.splits if_splits)

lemma scan_exp_append: "stops t \<Longrightarrow> scan_exp s = (a, r) \<Longrightarrow> scan_exp (s @ t) = (a, r @ t)"
proof (cases s)
  case Nil
  assume "stops t" "scan_exp s = (a, r)"
  with Nil show ?thesis by (cases t) (auto simp: scan_exp_def number_char_def)
next
  case (Cons e cs)
  assume st: "stops t" and sc: "scan_exp s = (a, r)"
  show ?thesis
  proof (cases cs)
    case Nil
    with Cons st sc show ?thesis by (cases t) (auto simp: scan_exp_def number_char_def)
  next
    case (Cons d ds)
    have dd: "takeWhile is_digit (d # ds @ t) = takeWhile is_digit (d # ds)"
      "dropWhile is_digit (d # ds @ t) = dropWhile is_digit (d # ds) @ t"
      using digits_append [OF st, of "d # ds"] by (simp_all only: append_Cons)
    have s: "s = e # d # ds" using \<open>s = e # cs\<close> Cons by simp
    show ?thesis
    proof (cases "e = CHR ''e'' \<or> e = CHR ''E''")
      case False
      with sc s show ?thesis by (auto simp: scan_exp_def)
    next
      case e: True
      show ?thesis
      proof (cases "d = CHR ''+'' \<or> d = CHR ''-''")
        case True
        with e sc s digits_append [OF st, of ds] show ?thesis by (auto simp: scan_exp_def split: if_splits)
      next
        case False
        with e sc s dd show ?thesis
          by (auto simp: scan_exp_def Let_def simp del: takeWhile.simps dropWhile.simps split: if_splits)
      qed
    qed
  qed
qed

lemma scan_number_append:
  assumes st: "stops t" and sc: "scan_number s = Some (v, r)"
  shows "scan_number (s @ t) = Some (v, r @ t)"
proof -
  let ?neg = "s \<noteq> [] \<and> hd s = CHR ''-''"
  let ?s1 = "if ?neg then tl s else s"
  obtain ip s2 where ip: "scan_int_part ?s1 = Some (ip, s2)"
    using sc by (auto simp: scan_number_def Let_def split: option.splits)
  obtain fp s3 where fp: "scan_frac s2 = (fp, s3)" by (cases "scan_frac s2")
  obtain ep s4 where ep: "scan_exp s3 = (ep, s4)" by (cases "scan_exp s3")
  have ne: "s \<noteq> []" using ip by (auto simp: scan_int_part_def)
  then have "(if s @ t \<noteq> [] \<and> hd (s @ t) = CHR ''-'' then tl (s @ t) else s @ t) = ?s1 @ t"
    by (cases s) auto
  with scan_int_part_append [OF st ip] scan_frac_append [OF st fp] scan_exp_append [OF st ep] sc ip fp ep ne
  show ?thesis unfolding scan_number_def Let_def by (cases s) (auto split: if_splits)
qed

lemma digit_char_digit: "is_digit (digit_char d)" "code (digit_char d) - 48 = d mod 10"
proof -
  have "\<forall>d \<in> set [0..<10]. is_digit (''0123456789'' ! d) \<and> code (''0123456789'' ! d) - 48 = d" by code_simp
  moreover have "d mod 10 \<in> set [0..<10]" by simp
  ultimately show "is_digit (digit_char d)" "code (digit_char d) - 48 = d mod 10"
    unfolding digit_char_def by blast+
qed

lemma digit_char_0: "digit_char d = CHR ''0'' \<longleftrightarrow> d mod 10 = 0"
  using nth_eq_iff_index_eq [of "''0123456789''" "d mod 10" 0] by (simp add: digit_char_def)

lemma show_nat_digits: "list_all is_digit (show_nat n) \<and> digits_value (show_nat n) = n \<and> show_nat n \<noteq> [] \<and>
    (hd (show_nat n) = CHR ''0'' \<longleftrightarrow> n = 0)"
proof (induction n rule: show_nat.induct)
  case (1 n)
  show ?case
  proof (cases "n < 10")
    case True
    then show ?thesis
      by (simp add: show_nat.simps [of n] digit_char_digit digits_value_def digit_char_0)
  next
    case False
    with 1 show ?thesis
      by (subst (1 2 3 4) show_nat.simps) (simp add: digit_char_digit digits_value_def hd_append)
  qed
qed

lemma scan_show_nat:
  assumes "stops t"
  shows "scan_int_part (show_nat n @ t) = Some (show_nat n, t)"
proof -
  note d = show_nat_digits [of n]
  have "scan_int_part (show_nat n) = Some (show_nat n, [])"
  proof (cases "n = 0")
    case True
    then show ?thesis by (simp add: show_nat.simps [of 0] scan_int_part_def digit_char_def)
  next
    case False
    with d have "hd (show_nat n) \<noteq> CHR ''0''" "is_digit (hd (show_nat n))"
      by (auto simp: list_all_iff)
    moreover have "takeWhile is_digit (show_nat n) = show_nat n" "dropWhile is_digit (show_nat n) = []"
      using d by (simp_all add: list_all_iff)
    ultimately show ?thesis using d by (cases "show_nat n") (simp_all add: scan_int_part_def)
  qed
  from scan_int_part_append [OF assms this] show ?thesis by simp
qed

lemma scan_show_int: "stops t \<Longrightarrow> scan_number (show_int i @ t) = Some (J_Int i, t)"
proof -
  assume t: "stops t"
  have rest: "scan_frac t = ([], t)" "scan_exp t = ([], t)"
    using t by (cases t; simp add: scan_frac_def scan_exp_def number_char_def)+
  note d = show_nat_digits
  have plus: "hd (show_nat n @ t) \<noteq> CHR ''-''" for n
    using d [of n] by (cases "show_nat n") (auto simp: is_digit_def code_def)
  show ?thesis
  proof (cases "i < 0")
    case True
    then show ?thesis
      using d [of "nat (- i)"] by (simp add: show_int_def scan_number_def scan_show_nat [OF t] rest)
  next
    case False
    then show ?thesis
      using d [of "nat i"] plus [of "nat i"] by (simp add: show_int_def scan_number_def scan_show_nat [OF t] rest)
  qed
qed

text \<open>The values \<open>json.dumps\<close> writes so that they can be read back: floats as \<open>repr\<close> writes them,
  no key twice in an object.\<close>

definition real_ok :: "string \<Rightarrow> bool" where
  "real_ok s \<longleftrightarrow> scan_number s = Some (J_Real s, [])"

fun jval_ok :: "jval \<Rightarrow> bool" where
  "jval_ok (J_Real s) = real_ok s"
| "jval_ok (J_List vs) = list_all jval_ok vs"
| "jval_ok (J_Obj kvs) = (dict_ok kvs \<and> list_all (\<lambda>(k, v). jval_ok v) kvs)"
| "jval_ok _ = True"

lemma scan_number_start:
  "scan_number s = Some (v, r) \<Longrightarrow>
   \<exists>c cs. s = c # cs \<and> (is_digit c \<or> c = CHR ''-'' \<and> cs \<noteq> [] \<and> is_digit (hd cs))"
proof -
  assume "scan_number s = Some (v, r)"
  then obtain ip s2 where "scan_int_part (if s \<noteq> [] \<and> hd s = CHR ''-'' then tl s else s) = Some (ip, s2)"
    by (auto simp: scan_number_def Let_def split: option.splits)
  moreover have "is_digit (CHR ''0'')" by code_simp
  ultimately show ?thesis
    by (cases s) (auto simp: scan_int_part_def split: if_splits list.splits)
qed

lemma digit_not: "is_digit c \<Longrightarrow> c \<noteq> CHR 0x22 \<and> c \<noteq> CHR ''['' \<and> c \<noteq> CHR '']'' \<and> c \<noteq> CHR ''{'' \<and> c \<noteq> CHR ''}'' \<and>
    c \<noteq> CHR ''n'' \<and> c \<noteq> CHR ''t'' \<and> c \<noteq> CHR ''f'' \<and> c \<noteq> CHR ''N'' \<and> c \<noteq> CHR ''I'' \<and> c \<noteq> CHR ''-'' \<and> \<not> is_ws c"
  by (auto simp: is_digit_def code_def is_ws_def)

lemma scan_number_value:
  assumes "scan_number s = Some (v, r)"
  shows "scan_value (Suc n) s = Some (v, r)"
proof -
  from scan_number_start [OF assms] obtain c cs
    where s: "s = c # cs" and c: "is_digit c \<or> c = CHR ''-'' \<and> cs \<noteq> [] \<and> is_digit (hd cs)" by blast
  have "scan_word s = scan_number s"
  proof (cases "c = CHR ''-''")
    case True
    moreover have "\<not> is_digit (CHR ''-'')" by (simp add: is_digit_def code_def)
    ultimately have "cs \<noteq> []" "is_digit (hd cs)" using c by auto
    then obtain d ds where "cs = d # ds" "d \<noteq> CHR ''I''" using digit_not [of "hd cs"] by (cases cs) auto
    with s True show ?thesis by (simp add: scan_word_def)
  next
    case False
    with c digit_not [of c] s show ?thesis by (auto simp: scan_word_def)
  qed
  moreover have "c \<noteq> CHR 0x22 \<and> c \<noteq> CHR ''['' \<and> c \<noteq> CHR ''{''"
    using c digit_not [of c] by (elim disjE) simp_all
  ultimately show ?thesis using s assms by simp
qed

text \<open>How the text of a value begins.\<close>

lemma dumps_start:
  assumes "jval_ok v"
  shows "\<exists>c cs. json_dumps v = c # cs \<and> \<not> is_ws c \<and> c \<noteq> CHR '']'' \<and> c \<noteq> CHR ''}''"
proof -
  have num: "\<exists>c cs. s = c # cs \<and> \<not> is_ws c \<and> c \<noteq> CHR '']'' \<and> c \<noteq> CHR ''}''"
    if "scan_number s = Some (x, r)" for s x r
    using scan_number_start [OF that] by (auto dest: digit_not simp: is_ws_def)
  show ?thesis
  proof (cases v)
    case (J_Int i)
    with num [OF scan_show_int [of "[]" i]] show ?thesis by simp
  next
    case (J_Real s)
    with assms num [of s] show ?thesis by (simp add: real_ok_def)
  qed (simp_all add: json_string_def is_ws_def)
qed

lemma skip_ws_start: "\<not> is_ws c \<Longrightarrow> skip_ws (c # s) = c # s"
  by simp

lemma object_again: "dict_ok kvs \<Longrightarrow> foldl (\<lambda>d (k, v). dput k v d) [] kvs = kvs"
proof -
  have "foldl (\<lambda>d (k, v). dput k v d) d kvs = d @ kvs" if "dict_ok (d @ kvs)" for d
    using that
  proof (induction kvs arbitrary: d)
    case (Cons kv kvs)
    obtain k v where kv: "kv = (k, v)" by (cases kv)
    with Cons.prems have "k \<notin> fst ` set d" by (auto simp: dict_ok_def)
    then have "dput k v d = d @ [(k, v)]" by (induction d) auto
    with Cons kv show ?case by simp
  qed simp
  then show "dict_ok kvs \<Longrightarrow> foldl (\<lambda>d (k, v). dput k v d) [] kvs = kvs" by simp
qed

text \<open>
  Reading back what was written, with at least as much fuel as the text is long. The induction is
  over the fuel; each statement speaks of the value, of a non-empty list and of non-empty members.
\<close>

lemma number_char_not [simp]:
  "\<not> number_char (CHR '','')" "\<not> number_char (CHR '']'')" "\<not> number_char (CHR ''}'')"
  by (simp_all add: number_char_def is_digit_def code_def)

lemma ws_not [simp]: "is_ws (CHR '' '')" "\<not> is_ws (CHR '','')" "\<not> is_ws (CHR '']'')" "\<not> is_ws (CHR ''}'')"
  "\<not> is_ws (CHR '':'')" "\<not> is_ws (CHR 0x22)"
  by (simp_all add: is_ws_def)

lemma dumps_list_start:
  assumes "list_all jval_ok vs" and "vs \<noteq> []"
  shows "\<exists>c cs. dumps_elems vs = c # cs \<and> \<not> is_ws c \<and> c \<noteq> CHR '']''"
proof -
  obtain v ws where vs: "vs = v # ws" using assms(2) by (cases vs) auto
  with assms(1) dumps_start [of v] show ?thesis by (cases ws) auto
qed

lemma dumps_members_start: "kvs \<noteq> [] \<Longrightarrow> \<exists>cs. dumps_members kvs = CHR 0x22 # cs"
  by (cases kvs rule: dumps_members.cases) (auto simp: json_string_def)

lemma scan_dumps:
  "length (json_dumps v) \<le> n \<Longrightarrow> jval_ok v \<Longrightarrow> stops t \<Longrightarrow> scan_value n (json_dumps v @ t) = Some (v, t)"
  "length (dumps_elems vs) < n \<Longrightarrow> list_all jval_ok vs \<Longrightarrow> vs \<noteq> [] \<Longrightarrow>
     scan_elems n (dumps_elems vs @ CHR '']'' # t) = Some (vs, t)"
  "length (dumps_members kvs) < n \<Longrightarrow> list_all (\<lambda>(k, v). jval_ok v) kvs \<Longrightarrow> kvs \<noteq> [] \<Longrightarrow>
     scan_members n (dumps_members kvs @ CHR ''}'' # t) = Some (kvs, t)"
proof (induction n arbitrary: v vs kvs t)
  case 0
  {
    case 1
    with dumps_start [of v] show ?case by auto
  next
    case 2
    then show ?case by simp
  next
    case 3
    then show ?case by simp
  }
next
  case (Suc n)
  {
    case 1
    show ?case
    proof (cases v)
      case (J_Int i)
      with scan_number_value [OF scan_show_int [OF 1(3)]] show ?thesis by simp
    next
      case (J_Real s)
      with 1 scan_number_append [OF 1(3), of s "J_Real s" "[]"] scan_number_value show ?thesis
        by (simp add: real_ok_def)
    next
      case (J_Str s)
      then show ?thesis by (simp add: json_string_def scan_json_string)
    next
      case (J_List vs)
      show ?thesis
      proof (cases "vs = []")
        case True
        with J_List show ?thesis by simp
      next
        case False
        have ok: "list_all jval_ok vs" using 1(2) J_List by simp
        obtain c cs where c: "dumps_elems vs = c # cs" "\<not> is_ws c" "c \<noteq> CHR '']''"
          using dumps_list_start [OF ok False] by blast
        have "scan_elems n (dumps_elems vs @ CHR '']'' # t) = Some (vs, t)"
          by (rule Suc.IH(2)) (use 1 J_List ok False in auto)
        with c J_List show ?thesis by simp
      qed
    next
      case (J_Obj kvs)
      show ?thesis
      proof (cases "kvs = []")
        case True
        with J_Obj show ?thesis by simp
      next
        case False
        have ok: "list_all (\<lambda>(k, v). jval_ok v) kvs" "dict_ok kvs" using 1(2) J_Obj by simp_all
        obtain cs where c: "dumps_members kvs = CHR 0x22 # cs" using dumps_members_start [OF False] by blast
        have "scan_members n (dumps_members kvs @ CHR ''}'' # t) = Some (kvs, t)"
          by (rule Suc.IH(3)) (use 1 J_Obj ok False in auto)
        with c J_Obj object_again [OF ok(2)] show ?thesis by simp
      qed
    qed (simp_all add: scan_word_def literal_def)
  next
    case 2
    obtain v ws where vs: "vs = v # ws" using 2(3) by (cases vs) auto
    show ?case
    proof (cases "ws = []")
      case True
      have "scan_value n (json_dumps v @ CHR '']'' # t) = Some (v, CHR '']'' # t)"
        by (rule Suc.IH(1)) (use 2 vs True in auto)
      with vs True show ?thesis by simp
    next
      case False
      then obtain w us where ws: "ws = w # us" by (cases ws) auto
      let ?rest = "dumps_elems ws @ CHR '']'' # t"
      have "scan_value n (json_dumps v @ CHR '','' # CHR '' '' # ?rest) = Some (v, CHR '','' # CHR '' '' # ?rest)"
        by (rule Suc.IH(1)) (use 2 vs ws in auto)
      moreover have "scan_elems n ?rest = Some (ws, t)"
        by (rule Suc.IH(2)) (use 2 vs ws in auto)
      moreover obtain c cs where "dumps_elems ws = c # cs" "\<not> is_ws c"
        using dumps_list_start [of ws] 2(2) vs False by auto
      ultimately show ?thesis using vs ws by simp
    qed
  next
    case 3
    obtain k v ws where kvs: "kvs = (k, v) # ws" using 3(3) by (cases kvs) auto
    have vok: "jval_ok v" using 3(2) kvs by simp
    obtain c cs where c: "json_dumps v = c # cs" "\<not> is_ws c" using dumps_start [OF vok] by blast
    show ?case
    proof (cases "ws = []")
      case True
      have "scan_value n (json_dumps v @ CHR ''}'' # t) = Some (v, CHR ''}'' # t)"
        by (rule Suc.IH(1)) (use 3 kvs True vok in auto)
      with kvs True c show ?thesis by (simp add: json_string_def scan_json_string)
    next
      case False
      then obtain kw us where ws: "ws = kw # us" by (cases ws) auto
      let ?rest = "dumps_members ws @ CHR ''}'' # t"
      have "scan_value n (json_dumps v @ CHR '','' # CHR '' '' # ?rest) = Some (v, CHR '','' # CHR '' '' # ?rest)"
        by (rule Suc.IH(1)) (use 3 kvs ws vok in auto)
      moreover have "scan_members n ?rest = Some (ws, t)"
        by (rule Suc.IH(3)) (use 3 kvs ws in auto)
      moreover obtain ds where "dumps_members ws = CHR 0x22 # ds"
        using dumps_members_start [OF False] by blast
      ultimately show ?thesis using kvs ws c by (simp add: json_string_def scan_json_string)
    qed
  }
qed

lemma json_again:
  assumes "jval_ok v"
  shows "json_loads (json_dumps v) = Some v"
proof -
  obtain c cs where c: "json_dumps v = c # cs" "\<not> is_ws c" using dumps_start [OF assms] by blast
  have "scan_value (2 * length (json_dumps v) + 2) (json_dumps v @ []) = Some (v, [])"
    by (rule scan_dumps(1)) (use assms in auto)
  with c show ?thesis by (simp add: json_loads_def)
qed

section \<open>UTF-8\<close>

definition utf8_char :: "char \<Rightarrow> string" where
  "utf8_char c = (if code c < 128 then [c] else [char_of (192 + code c div 64), char_of (128 + code c mod 64)])"

definition utf8_encode :: "string \<Rightarrow> string" where
  "utf8_encode s = concat (map utf8_char s)"

text \<open>Sequences for characters beyond the modelled range are rejected like malformed ones.\<close>

fun utf8_decode :: "string \<Rightarrow> string option" where
  "utf8_decode [] = Some []"
| "utf8_decode (b # bs) =
     (if code b < 128 then map_option (Cons b) (utf8_decode bs)
      else if code b = 194 \<or> code b = 195 then
        (case bs of
           [] \<Rightarrow> None
         | d # ds \<Rightarrow>
             if 128 \<le> code d \<and> code d < 192
             then map_option (Cons (char_of (64 * (code b - 192) + (code d - 128)))) (utf8_decode ds)
             else None)
      else None)"

lemma code_char_of [simp]: "code (char_of n) = n mod 256"
  by (simp add: code_def)

lemma utf8_again: "utf8_decode (utf8_encode s) = Some s"
proof (induction s)
  case (Cons c s)
  show ?case
  proof (cases "code c < 128")
    case True
    with Cons show ?thesis by (simp add: utf8_encode_def utf8_char_def)
  next
    case False
    then have "2 \<le> code c div 64" by (simp add: less_eq_div_iff_mult_less_eq)
    moreover have "code c div 64 < 4" using code_less [of c] by simp
    ultimately have "code c div 64 = 2 \<or> code c div 64 = 3" by auto
    then have "code c div 64 = 2 \<and> code c = 128 + code c mod 64 \<or> code c div 64 = 3 \<and> code c = 192 + code c mod 64"
      using mult_div_mod_eq [of 64 "code c"] by (elim disjE) linarith+
    then have d: "code c div 64 = 2 \<and> char_of (128 + code c mod 64) = c \<or> code c div 64 = 3 \<and> char_of (192 + code c mod 64) = c"
      using char_of_code [of c] by metis
    have m: "code c mod 64 < 64" by simp
    with Cons False d m show ?thesis by (auto simp: utf8_encode_def utf8_char_def)
  qed
qed (simp add: utf8_encode_def)

lemma utf8_ascii: "list_all (\<lambda>c. code c < 128) s \<Longrightarrow> utf8_encode s = s"
  by (induction s) (auto simp: utf8_encode_def utf8_char_def)

section \<open>Base64\<close>

definition b64_alphabet :: string where
  "b64_alphabet = ''ABCDEFGHIJKLMNOPQRSTUVWXYZabcdefghijklmnopqrstuvwxyz0123456789+/''"

definition b64_char :: "nat \<Rightarrow> char" where
  "b64_char n = b64_alphabet ! n"

definition b64_value :: "char \<Rightarrow> nat option" where
  "b64_value c = map_of (zip b64_alphabet [0..<64]) c"

fun b64_encode :: "string \<Rightarrow> string" where
  "b64_encode [] = []"
| "b64_encode [a] = [b64_char (code a div 4), b64_char (code a mod 4 * 16), CHR ''='', CHR ''='']"
| "b64_encode [a, b] =
     [b64_char (code a div 4), b64_char (code a mod 4 * 16 + code b div 16), b64_char (code b mod 16 * 4), CHR ''='']"
| "b64_encode (a # b # c # s) =
     b64_char (code a div 4) # b64_char (code a mod 4 * 16 + code b div 16) #
     b64_char (code b mod 16 * 4 + code c div 64) # b64_char (code c mod 64) # b64_encode s"

text \<open>
  \<open>binascii.a2b_base64\<close> without strict mode: \<open>quad\<close> is the position in the group of four,
  \<open>pads\<close> the padding seen there, \<open>left\<close> the bits carried over. Characters outside the alphabet are
  skipped, and complete padding ends the data.
\<close>

fun a2b :: "nat \<Rightarrow> nat \<Rightarrow> nat \<Rightarrow> string \<Rightarrow> string option" where
  "a2b quad pads left [] = (if quad = 0 then Some [] else None)"
| "a2b quad pads left (c # cs) =
     (if c = CHR ''='' then
        (if 2 \<le> quad then (if 4 \<le> quad + (pads + 1) then Some [] else a2b quad (pads + 1) left cs)
         else a2b quad pads left cs)
      else (case b64_value c of
        None \<Rightarrow> a2b quad pads left cs
      | Some v \<Rightarrow>
          if quad = 0 then a2b 1 0 v cs
          else if quad = 1 then map_option (Cons (char_of (left * 4 + v div 16))) (a2b 2 0 (v mod 16) cs)
          else if quad = 2 then map_option (Cons (char_of (left * 16 + v div 4))) (a2b 3 0 (v mod 4) cs)
          else map_option (Cons (char_of (left * 64 + v))) (a2b 0 0 0 cs)))"

definition b64_decode :: "string \<Rightarrow> string option" where
  "b64_decode s = a2b 0 0 0 s"

lemma b64_value_char: "n < 64 \<Longrightarrow> b64_value (b64_char n) = Some n \<and> b64_char n \<noteq> CHR ''='' \<and> code (b64_char n) < 128"
proof -
  have "\<forall>n \<in> set [0..<64]. b64_value (b64_char n) = Some n \<and> b64_char n \<noteq> CHR ''='' \<and> code (b64_char n) < 128"
    by code_simp
  then show "n < 64 \<Longrightarrow> ?thesis" by simp
qed

lemma a2b_char:
  assumes "n < 64"
  shows "a2b quad pads left (b64_char n # cs) =
    (if quad = 0 then a2b 1 0 n cs
     else if quad = 1 then map_option (Cons (char_of (left * 4 + n div 16))) (a2b 2 0 (n mod 16) cs)
     else if quad = 2 then map_option (Cons (char_of (left * 16 + n div 4))) (a2b 3 0 (n mod 4) cs)
     else map_option (Cons (char_of (left * 64 + n))) (a2b 0 0 0 cs))"
  using b64_value_char [OF assms] by simp

lemma sextets:
  "code a div 4 < 64" "code a mod 4 * 16 + code b div 16 < 64" "code b mod 16 * 4 + code c div 64 < 64"
  "code c mod 64 < 64" "code a mod 4 * 16 < 64" "code b mod 16 * 4 < 64"
  using code_less [of a] code_less [of b] code_less [of c] by simp_all

lemma octets:
  "char_of (code a div 4 * 4 + (code a mod 4 * 16 + code b div 16) div 16) = a"
  "char_of ((code a mod 4 * 16 + code b div 16) mod 16 * 16 + (code b mod 16 * 4 + code c div 64) div 4) = b"
  "char_of ((code b mod 16 * 4 + code c div 64) mod 4 * 64 + code c mod 64) = c"
proof -
  have w: "code b div 16 < 16" "code c div 64 < 4" using code_less [of b] code_less [of c] by simp_all
  have "(code a mod 4 * 16 + code b div 16) div 16 = code a mod 4"
    "(code a mod 4 * 16 + code b div 16) mod 16 = code b div 16"
    "(code b mod 16 * 4 + code c div 64) div 4 = code b mod 16"
    "(code b mod 16 * 4 + code c div 64) mod 4 = code c div 64"
    using w by simp_all
  then have "code a div 4 * 4 + (code a mod 4 * 16 + code b div 16) div 16 = code a"
    "(code a mod 4 * 16 + code b div 16) mod 16 * 16 + (code b mod 16 * 4 + code c div 64) div 4 = code b"
    "(code b mod 16 * 4 + code c div 64) mod 4 * 64 + code c mod 64 = code c"
    by simp_all
  then show "char_of (code a div 4 * 4 + (code a mod 4 * 16 + code b div 16) div 16) = a"
    "char_of ((code a mod 4 * 16 + code b div 16) mod 16 * 16 + (code b mod 16 * 4 + code c div 64) div 4) = b"
    "char_of ((code b mod 16 * 4 + code c div 64) mod 4 * 64 + code c mod 64) = c"
    by (simp_all only: char_of_code)
qed

lemma code_0: "code (CHR 0x00) = 0"
  by (simp add: code_def)

lemma b64_pad: "a2b (Suc (Suc 0)) 0 left [CHR ''='', CHR ''=''] = Some []" "a2b 3 0 left [CHR ''=''] = Some []"
  by simp_all

lemma b64_again: "b64_decode (b64_encode s) = Some s"
  unfolding b64_decode_def
proof (induction s rule: b64_encode.induct)
  case 1
  then show ?case by simp
next
  case (2 a)
  show ?case
    using octets(1) [of a "CHR 0x00"] b64_pad(1)
    by (simp add: a2b_char sextets code_0 del: a2b.simps(2)) (simp add: a2b_char sextets)
next
  case (3 a b)
  show ?case
    using octets(1) [of a b] octets(2) [of a b "CHR 0x00"] b64_pad(2)
    by (simp add: a2b_char sextets code_0 del: a2b.simps(2))
next
  case (4 a b c s)
  then show ?case
    using octets(1) [of a b] octets(2) [of a b c] octets(3) [of b c] by (simp add: a2b_char sextets del: a2b.simps(2))
qed

section \<open>The length header\<close>

text \<open>\<open>struct.pack(">I", n)\<close> and back.\<close>

definition pack_be32 :: "nat \<Rightarrow> string result" where
  "pack_be32 n =
     (if 4294967296 \<le> n then Inl (OtherError ''struct.error'')
      else Inr (map (\<lambda>i. char_of (n div 256 ^ i mod 256)) [3, 2, 1, 0]))"

definition unpack_be32 :: "string \<Rightarrow> nat" where
  "unpack_be32 bs = foldl (\<lambda>acc c. 256 * acc + code c) 0 bs"

lemma be32_again: "pack_be32 n = Inr bs \<Longrightarrow> length bs = 4 \<and> unpack_be32 bs = n"
proof -
  assume "pack_be32 n = Inr bs"
  then have n: "n < 4294967296" and bs: "bs = map (\<lambda>i. char_of (n div 256 ^ i mod 256)) [3, 2, 1, 0]"
    by (auto simp: pack_be32_def split: if_splits)
  have "n div 16777216 < 256" using n by simp
  moreover have "n div 16777216 * 256 + n div 65536 mod 256 = n div 65536"
    using div_mult_mod_eq [of "n div 65536" 256] by (simp add: div_mult2_eq [symmetric])
  moreover have "n div 65536 * 256 + n div 256 mod 256 = n div 256"
    using div_mult_mod_eq [of "n div 256" 256] by (simp add: div_mult2_eq [symmetric])
  ultimately show ?thesis
    unfolding bs unpack_be32_def by (simp add: mult.commute [of 256])
qed

end
