(* ===== verification/Guest_Protocol.thy ===== *)
theory Guest_Protocol
  imports Json_Text VFS_Workspace
begin

text \<open>
  \<open>_firecracker/_guest_agent.py\<close> and \<open>_firecracker/_backend.py\<close>: the agent inside the microVM
  and the client that talks to it over a stream of bytes, frames of a four-byte length and a JSON
  text.

  A connection is what its reads will see: pieces of the stream, of any length, and possibly an
  exception; when it is used up the peer has closed it. Subprocesses, the texts of exceptions and
  what \<open>str\<close> and \<open>int\<close> make of other JSON values are parameters. Writes to a socket succeed.
\<close>

section \<open>Streams and frames\<close>

datatype recv_event = Got string | Broken exn

type_synonym conn = "recv_event list"

abbreviation EOFError :: exn where
  "EOFError \<equiv> OtherError ''EOFError''"

abbreviation ConnectionResetError :: exn where
  "ConnectionResetError \<equiv> OtherError ''ConnectionResetError''"

text \<open>\<open>_recv_exactly\<close>: \<open>recv(k)\<close> returns at most \<open>k\<close> bytes of the next piece.\<close>

fun recv_exactly :: "nat \<Rightarrow> conn \<Rightarrow> string result \<times> conn" where
  "recv_exactly n [] = (if n = 0 then Inr [] else Inl EOFError, [])"
| "recv_exactly n (ev # c) =
     (if n = 0 then (Inr [], ev # c)
      else case ev of
        Broken e \<Rightarrow> (Inl e, c)
      | Got bs \<Rightarrow>
          if bs = [] then (Inl EOFError, c)
          else if n < length bs then (Inr (take n bs), Got (drop n bs) # c)
          else (case recv_exactly (n - length bs) c of
             (Inl e, c') \<Rightarrow> (Inl e, c')
           | (Inr rest, c') \<Rightarrow> (Inr (bs @ rest), c')))"

definition max_frame :: nat where
  "max_frame = 64 * 1024 * 1024"

definition recv_frame :: "conn \<Rightarrow> jval result \<times> conn" where
  "recv_frame c =
     (case recv_exactly 4 c of
        (Inl e, c1) \<Rightarrow> (Inl e, c1)
      | (Inr header, c1) \<Rightarrow>
          (let len = unpack_be32 header in
           if len \<le> 0 \<or> max_frame < len then (Inl ValueError, c1)
           else (case recv_exactly len c1 of
             (Inl e, c2) \<Rightarrow> (Inl e, c2)
           | (Inr body, c2) \<Rightarrow>
               (case Option.bind (utf8_decode body) json_loads of
                  None \<Rightarrow> (Inl ValueError, c2)
                | Some v \<Rightarrow> (Inr v, c2)))))"

definition send_frame :: "jval \<Rightarrow> string result" where
  "send_frame v =
     (let body = utf8_encode (json_dumps v) in
      case pack_be32 (length body) of Inl e \<Rightarrow> Inl e | Inr header \<Rightarrow> Inr (header @ body))"

section \<open>The agent\<close>

datatype run_outcome =
    Completed int string string
  | Not_Found string
  | Expired "string option" "string option"
  | Failed exn

record guest_env =
  ge_run :: "jval list \<Rightarrow> jval \<Rightarrow> jval \<Rightarrow> fs \<Rightarrow> run_outcome \<times> fs"
  ge_text :: "exn \<Rightarrow> string"
  ge_repr :: "jval \<Rightarrow> string"
  ge_bytes :: "blob \<Rightarrow> string"
  ge_pid :: nat

text \<open>A response may hold raw bytes until they are encoded for the wire.\<close>

datatype rval = R_Json jval | R_Bytes string

type_synonym response = "(string \<times> rval) list"

abbreviation r_ok :: "bool \<Rightarrow> string \<times> rval" where
  "r_ok b \<equiv> (''ok'', R_Json (J_Bool b))"

abbreviation r_error :: "string \<Rightarrow> response" where
  "r_error msg \<equiv> [r_ok False, (''error'', R_Json (J_Str msg))]"

definition quoted :: "string \<Rightarrow> string" where
  "quoted s = CHR 0x27 # s @ [CHR 0x27]"

definition jget :: "(string \<times> jval) list \<Rightarrow> string \<Rightarrow> jval" where
  "jget d k = (case dget d k of None \<Rightarrow> J_Null | Some v \<Rightarrow> v)"

text \<open>What became of the subprocess, as a response.\<close>

definition run_response :: "guest_env \<Rightarrow> run_outcome \<Rightarrow> response" where
  "run_response ge outcome =
     (case outcome of
        Completed status out err \<Rightarrow>
          [r_ok True, (''exit_code'', R_Json (J_Int status)), (''stdout'', R_Bytes out), (''stderr'', R_Bytes err)]
      | Not_Found msg \<Rightarrow>
          [r_ok True, (''exit_code'', R_Json (J_Int 127)), (''stdout'', R_Bytes []),
           (''stderr'', R_Bytes (utf8_encode msg))]
      | Expired out err \<Rightarrow>
          [r_ok True, (''exit_code'', R_Json (J_Int (- 1))),
           (''stdout'', R_Bytes (case out of None \<Rightarrow> [] | Some b \<Rightarrow> b)),
           (''stderr'', R_Bytes ((case err of None \<Rightarrow> [] | Some b \<Rightarrow> b) @ CHR 0x0A # ''timed out''))]
      | Failed e \<Rightarrow> r_error (''exec failed: '' @ ge_text ge e))"

definition handle_exec :: "guest_env \<Rightarrow> (string \<times> jval) list \<Rightarrow> fs \<Rightarrow> response \<times> fs" where
  "handle_exec ge req f =
     (case jget req ''argv'' of
        J_List argv \<Rightarrow>
          if argv = [] then (r_error (''missing or invalid '' @ quoted ''argv''), f)
          else apfst (run_response ge) (ge_run ge argv (jget req ''cwd'') (jget req ''timeout'') f)
      | _ \<Rightarrow> (r_error (''missing or invalid '' @ quoted ''argv''), f))"

definition guest_open_read :: "fs \<Rightarrow> string \<Rightarrow> blob result" where
  "guest_open_read f path = (if path = [] then Inl FileNotFoundError else fs_open_read f path)"

definition guest_open_write :: "string \<Rightarrow> blob \<Rightarrow> fs \<Rightarrow> unit result \<times> fs" where
  "guest_open_write path data f =
     (if path = [] then (Inl FileNotFoundError, f) else fs_write (fs_path path) data f)"

definition handle_read_file :: "guest_env \<Rightarrow> (string \<times> jval) list \<Rightarrow> fs \<Rightarrow> response" where
  "handle_read_file ge req f =
     (case jget req ''path'' of
        J_Str path \<Rightarrow>
          (case guest_open_read f path of
             Inl e \<Rightarrow> r_error (if e = FileNotFoundError then ''FileNotFoundError'' else ge_text ge e)
           | Inr b \<Rightarrow> [r_ok True, (''data'', R_Json (J_Str (b64_encode (ge_bytes ge b))))])
      | _ \<Rightarrow> r_error (''missing '' @ quoted ''path''))"

definition py_b64decode :: "string \<Rightarrow> string result" where
  "py_b64decode s =
     (if list_all (\<lambda>c. code c < 128) s
      then (case b64_decode s of None \<Rightarrow> Inl (OtherError ''binascii.Error'') | Some b \<Rightarrow> Inr b)
      else Inl ValueError)"

text \<open>\<open>os.makedirs\<close> runs outside the \<open>try\<close>: its exception leaves the handler.\<close>

definition handle_write_file ::
  "guest_env \<Rightarrow> (string \<times> jval) list \<Rightarrow> fs \<Rightarrow> response result \<times> fs" where
  "handle_write_file ge req f =
     (case (jget req ''path'', jget req ''data'') of
        (J_Str path, J_Str data_b64) \<Rightarrow>
          (case py_b64decode data_b64 of
             Inl e \<Rightarrow> (Inr (r_error (''bad base64: '' @ ge_text ge e)), f)
           | Inr data \<Rightarrow>
               (let parent = path_dirname path in
                case (if parent \<noteq> [] then fs_makedirs (fs_path parent) f else (Inr (), f)) of
                  (Inl e, f1) \<Rightarrow> (Inl e, f1)
                | (Inr _, f1) \<Rightarrow>
                    (case guest_open_write path (Raw data) f1 of
                       (Inl e, f2) \<Rightarrow> (Inr (r_error (ge_text ge e)), f2)
                     | (Inr _, f2) \<Rightarrow> (Inr [r_ok True], f2))))
      | _ \<Rightarrow> (Inr (r_error (''missing '' @ quoted ''path'' @ '' or '' @ quoted ''data'')), f))"

definition handle_ping :: "guest_env \<Rightarrow> response" where
  "handle_ping ge = [r_ok True, (''pong'', R_Json (J_Bool True)), (''pid'', R_Json (J_Int (int (ge_pid ge))))]"

text \<open>
  The handler of an operation, if there is one; a list or an object is no key of a dictionary.
\<close>

definition handlers ::
  "guest_env \<Rightarrow> string \<Rightarrow> ((string \<times> jval) list \<Rightarrow> fs \<Rightarrow> response result \<times> fs) option" where
  "handlers ge op =
     (if op = ''exec'' then Some (\<lambda>req f. apfst Inr (handle_exec ge req f))
      else if op = ''read_file'' then Some (\<lambda>req f. (Inr (handle_read_file ge req f), f))
      else if op = ''write_file'' then Some (handle_write_file ge)
      else if op = ''ping'' then Some (\<lambda>req f. (Inr (handle_ping ge), f))
      else None)"

definition encode_bytes :: "response \<Rightarrow> (string \<times> jval) list" where
  "encode_bytes resp =
     map (\<lambda>(k, v). (k, case v of R_Json j \<Rightarrow> j | R_Bytes b \<Rightarrow> J_Str (b64_encode b))) resp"

definition agent_answer :: "guest_env \<Rightarrow> jval \<Rightarrow> fs \<Rightarrow> jval result \<times> fs" where
  "agent_answer ge req f =
     (let kvs = (case req of J_Obj d \<Rightarrow> d | _ \<Rightarrow> []); op = jget kvs ''op'';
          unknown = (Inr (J_Obj (encode_bytes (r_error (''unknown op: '' @ ge_repr ge op)))), f)
      in case op of
           J_List _ \<Rightarrow> (Inl TypeError, f)
         | J_Obj _ \<Rightarrow> (Inl TypeError, f)
         | J_Str name \<Rightarrow>
             (case handlers ge name of
                None \<Rightarrow> unknown
              | Some h \<Rightarrow>
                  (case h kvs f of
                     (Inl e, f1) \<Rightarrow> (Inr (J_Obj (encode_bytes (r_error (''handler raised: '' @ ge_text ge e)))), f1)
                   | (Inr resp, f1) \<Rightarrow> (Inr (J_Obj (encode_bytes resp)), f1)))
         | _ \<Rightarrow> unknown)"

text \<open>
  \<open>_serve_connection\<close>: frames until the peer closes or resets the connection. Every other
  exception of \<open>_recv_frame\<close> leaves the loop and, in \<open>main\<close>, the agent. The bytes sent are collected.
\<close>

definition conn_bytes :: "conn \<Rightarrow> nat" where
  "conn_bytes c = sum_list (map (\<lambda>ev. case ev of Got bs \<Rightarrow> length bs | Broken _ \<Rightarrow> 0) c)"

lemma conn_bytes_simps [simp]:
  "conn_bytes [] = 0" "conn_bytes (Got bs # c) = length bs + conn_bytes c" "conn_bytes (Broken e # c) = conn_bytes c"
  by (simp_all add: conn_bytes_def)

lemma recv_exactly_bytes:
  "recv_exactly n c = (Inr bs, c') \<Longrightarrow> length bs = n \<and> conn_bytes c = n + conn_bytes c'"
proof (induction n c arbitrary: bs c' rule: recv_exactly.induct)
  case (1 n)
  then show ?case by (simp split: if_splits)
next
  case (2 n ev c)
  show ?case
  proof (cases ev)
    case (Broken e)
    with 2 show ?thesis by (auto split: if_splits)
  next
    case (Got xs)
    consider "n = 0" | "n \<noteq> 0" "n < length xs" | "n \<noteq> 0" "xs \<noteq> []" "length xs \<le> n"
      using 2(2) Got by (cases "xs = []") (auto split: if_splits)
    then show ?thesis
    proof cases
      case 3
      obtain r c1 where rec: "recv_exactly (n - length xs) c = (r, c1)" by (cases "recv_exactly (n - length xs) c")
      with 2(2) Got 3 obtain rest where "r = Inr rest" "bs = xs @ rest" "c' = c1"
        by (auto split: sum.splits)
      with 2(1) [OF _ Got _ _, of rest c1] rec 3 Got show ?thesis by simp
    qed (use 2(2) Got in \<open>auto split: if_splits\<close>)
  qed
qed

lemma recv_frame_less: "recv_frame c = (Inr v, c') \<Longrightarrow> conn_bytes c' < conn_bytes c"
  by (auto simp: recv_frame_def Let_def split: prod.splits sum.splits if_splits option.splits dest!: recv_exactly_bytes)

function serve :: "guest_env \<Rightarrow> conn \<Rightarrow> fs \<Rightarrow> string \<Rightarrow> unit result \<times> fs \<times> string" where
  "serve ge c f sent =
     (case recv_frame c of
        (Inl e, c1) \<Rightarrow>
          if e = EOFError \<or> e = ConnectionResetError then (Inr (), f, sent) else (Inl e, f, sent)
      | (Inr req, c1) \<Rightarrow>
          (case agent_answer ge req f of
             (Inl e, f1) \<Rightarrow> (Inl e, f1, sent)
           | (Inr resp, f1) \<Rightarrow>
               (case send_frame resp of
                  Inl e \<Rightarrow> (Inl e, f1, sent)
                | Inr bs \<Rightarrow> serve ge c1 f1 (sent @ bs))))"
  by pat_completeness auto
termination
  by (relation "measure (\<lambda>(ge, c, f, sent). conn_bytes c)") (auto dest: recv_frame_less [OF sym])

declare serve.simps [simp del]

text \<open>\<open>main\<close>: one connection after the other; an exception that leaves one ends the agent.\<close>

fun agent_main :: "guest_env \<Rightarrow> conn list \<Rightarrow> fs \<Rightarrow> unit result \<times> fs" where
  "agent_main ge [] f = (Inr (), f)"
| "agent_main ge (c # cs) f =
     (case serve ge c f [] of
        (Inl e, f1, _) \<Rightarrow> (Inl e, f1)
      | (Inr _, f1, _) \<Rightarrow> agent_main ge cs f1)"

section \<open>The client\<close>

text \<open>
  The connection factory and what comes back over a connection after a frame was sent, with the
  world they act on. A time-out of \<open>wait_for\<close> is a \<open>TimeoutError\<close> of either.
\<close>

record 'w transport =
  tp_connect :: "'w \<Rightarrow> unit result \<times> 'w"
  tp_exchange :: "string \<Rightarrow> 'w \<Rightarrow> conn result \<times> 'w"

text \<open>
  \<open>wait_for\<close> around the reply: a peer that takes longer than the limit to answer the bytes has
  done its work all the same, but the client gets \<open>TimeoutError\<close>.
\<close>

definition timed_tp :: "time \<Rightarrow> (string \<Rightarrow> 'w \<Rightarrow> time) \<Rightarrow> 'w transport \<Rightarrow> 'w transport" where
  "timed_tp limit took tp =
     tp\<lparr>tp_exchange := (\<lambda>bs w.
       case tp_exchange tp bs w of
         (r, w1) \<Rightarrow> (if limit < took bs w then Inl TimeoutError else r, w1))\<rparr>"

record client_env =
  ce_str :: "jval \<Rightarrow> string"
  ce_int :: "jval \<Rightarrow> int result"
  ce_repr :: "exn \<Rightarrow> string"

definition guest_agent_error :: "string \<Rightarrow> exn" where
  "guest_agent_error msg = OtherError (''GuestAgentError: '' @ msg)"

definition is_guest_agent_error :: "exn \<Rightarrow> bool" where
  "is_guest_agent_error e \<longleftrightarrow> (case e of OtherError s \<Rightarrow> prefix ''GuestAgentError: '' s | _ \<Rightarrow> False)"

definition is_os_error :: "exn \<Rightarrow> bool" where
  "is_os_error e \<longleftrightarrow>
     e \<in> {OSError, FileNotFoundError, PermissionError, TimeoutError, ConnectionResetError,
           OtherError ''IsADirectoryError'', OtherError ''NotADirectoryError''}"

definition request :: "'w transport \<Rightarrow> jval \<Rightarrow> 'w \<Rightarrow> jval result \<times> 'w" where
  "request tp req w =
     (case tp_connect tp w of
        (Inl e, w1) \<Rightarrow> (Inl e, w1)
      | (Inr _, w1) \<Rightarrow>
          (case send_frame req of
             Inl e \<Rightarrow> (Inl e, w1)
           | Inr bs \<Rightarrow>
               (case tp_exchange tp bs w1 of
                  (Inl e, w2) \<Rightarrow> (Inl e, w2)
                | (Inr c, w2) \<Rightarrow> (fst (recv_frame c), w2))))"

definition truthy :: "jval \<Rightarrow> bool" where
  "truthy v =
     (case v of
        J_Null \<Rightarrow> False
      | J_Bool b \<Rightarrow> b
      | J_Int i \<Rightarrow> i \<noteq> 0
      | J_Real s \<Rightarrow> \<not> list_all (\<lambda>c. c = CHR ''0'' \<or> c = CHR ''.'' \<or> c = CHR ''-'')
                       (takeWhile (\<lambda>c. c \<noteq> CHR ''e'' \<and> c \<noteq> CHR ''E'') s)
      | J_Str s \<Rightarrow> s \<noteq> []
      | J_List vs \<Rightarrow> vs \<noteq> []
      | J_Obj d \<Rightarrow> d \<noteq> [])"

definition py_str :: "client_env \<Rightarrow> jval \<Rightarrow> string" where
  "py_str ce v = (case v of J_Str s \<Rightarrow> s | _ \<Rightarrow> ce_str ce v)"

definition answer_int :: "client_env \<Rightarrow> jval \<Rightarrow> int result" where
  "answer_int ce v = (case v of J_Int i \<Rightarrow> Inr i | _ \<Rightarrow> ce_int ce v)"

text \<open>\<open>_b64decode\<close>; a value without \<open>encode\<close> raises \<open>AttributeError\<close>.\<close>

definition tolerant_b64decode :: "jval \<Rightarrow> string result" where
  "tolerant_b64decode v =
     (if \<not> truthy v then Inr []
      else case v of J_Str s \<Rightarrow> py_b64decode s | _ \<Rightarrow> Inl (OtherError ''AttributeError''))"

definition jget_or :: "(string \<times> jval) list \<Rightarrow> string \<Rightarrow> jval \<Rightarrow> jval" where
  "jget_or d k dflt = (case dget d k of None \<Rightarrow> dflt | Some v \<Rightarrow> v)"

text \<open>The response as a dictionary; anything else has no \<open>get\<close>.\<close>

definition as_dict :: "jval \<Rightarrow> ((string \<times> jval) list) result" where
  "as_dict v = (case v of J_Obj d \<Rightarrow> Inr d | _ \<Rightarrow> Inl (OtherError ''AttributeError''))"

definition client_ping :: "'w transport \<Rightarrow> 'w \<Rightarrow> bool result \<times> 'w" where
  "client_ping tp w =
     (case request tp (J_Obj [(''op'', J_Str ''ping'')]) w of
        (Inl e, w1) \<Rightarrow>
          if is_os_error e \<or> e = TimeoutError \<or> is_guest_agent_error e then (Inr False, w1) else (Inl e, w1)
      | (Inr v, w1) \<Rightarrow>
          (case as_dict v of Inl e \<Rightarrow> (Inl e, w1) | Inr resp \<Rightarrow> (Inr (truthy (jget resp ''ok'')), w1)))"

record guest_result =
  gr_exit_code :: int
  gr_stdout :: string
  gr_stderr :: string

definition exec_request :: "string list \<Rightarrow> string option \<Rightarrow> jval option \<Rightarrow> jval" where
  "exec_request argv cwd timeout =
     J_Obj ([(''op'', J_Str ''exec''), (''argv'', J_List (map J_Str argv))] @
       (case cwd of None \<Rightarrow> [] | Some d \<Rightarrow> [(''cwd'', J_Str d)]) @
       (case timeout of None \<Rightarrow> [] | Some t \<Rightarrow> [(''timeout'', t)]))"

definition client_exec ::
  "client_env \<Rightarrow> 'w transport \<Rightarrow> string list \<Rightarrow> string option \<Rightarrow> jval option \<Rightarrow> 'w \<Rightarrow>
   guest_result result \<times> 'w" where
  "client_exec ce tp argv cwd timeout w =
     (case request tp (exec_request argv cwd timeout) w of
        (Inl e, w1) \<Rightarrow> (Inl e, w1)
      | (Inr v, w1) \<Rightarrow>
          (case as_dict v of
             Inl e \<Rightarrow> (Inl e, w1)
           | Inr resp \<Rightarrow>
               if \<not> truthy (jget resp ''ok'')
               then (Inl (guest_agent_error (py_str ce (jget_or resp ''error'' (J_Str ''unknown'')))), w1)
               else (case answer_int ce (jget_or resp ''exit_code'' (J_Int (- 1))) of
                 Inl e \<Rightarrow> (Inl e, w1)
               | Inr status \<Rightarrow>
                   (case tolerant_b64decode (jget_or resp ''stdout'' (J_Str [])) of
                      Inl e \<Rightarrow> (Inl e, w1)
                    | Inr out \<Rightarrow>
                        (case tolerant_b64decode (jget_or resp ''stderr'' (J_Str [])) of
                           Inl e \<Rightarrow> (Inl e, w1)
                         | Inr err \<Rightarrow>
                             (Inr \<lparr>gr_exit_code = status, gr_stdout = out, gr_stderr = err\<rparr>, w1))))))"

definition client_read_file :: "client_env \<Rightarrow> 'w transport \<Rightarrow> string \<Rightarrow> 'w \<Rightarrow> string result \<times> 'w" where
  "client_read_file ce tp path w =
     (case request tp (J_Obj [(''op'', J_Str ''read_file''), (''path'', J_Str path)]) w of
        (Inl e, w1) \<Rightarrow> (Inl e, w1)
      | (Inr v, w1) \<Rightarrow>
          (case as_dict v of
             Inl e \<Rightarrow> (Inl e, w1)
           | Inr resp \<Rightarrow>
               if \<not> truthy (jget resp ''ok'')
               then (let err = py_str ce (jget_or resp ''error'' (J_Str ''unknown''))
                     in if sublist ''FileNotFound'' err then (Inl FileNotFoundError, w1)
                        else (Inl (guest_agent_error err), w1))
               else (tolerant_b64decode (jget_or resp ''data'' (J_Str [])), w1)))"

definition client_write_file ::
  "client_env \<Rightarrow> 'w transport \<Rightarrow> string \<Rightarrow> string \<Rightarrow> 'w \<Rightarrow> unit result \<times> 'w" where
  "client_write_file ce tp path data w =
     (case request tp (J_Obj [(''op'', J_Str ''write_file''), (''path'', J_Str path),
             (''data'', J_Str (b64_encode data))]) w of
        (Inl e, w1) \<Rightarrow> (Inl e, w1)
      | (Inr v, w1) \<Rightarrow>
          (case as_dict v of
             Inl e \<Rightarrow> (Inl e, w1)
           | Inr resp \<Rightarrow>
               if \<not> truthy (jget resp ''ok'')
               then (Inl (guest_agent_error (py_str ce (jget_or resp ''error'' (J_Str ''unknown'')))), w1)
               else (Inr (), w1)))"

section \<open>Opening a connection\<close>

text \<open>
  The handshake with Firecracker's bridge: reads of at most 64 bytes up to the first newline; what
  such a read returns beyond the newline is dropped with the buffer.
\<close>

fun read_line :: "string \<Rightarrow> conn \<Rightarrow> string result \<times> conn" where
  "read_line buf [] = (if CHR 0x0A \<in> set buf then Inr buf else Inl EOFError, [])"
| "read_line buf (ev # c) =
     (if CHR 0x0A \<in> set buf then (Inr buf, ev # c)
      else case ev of
        Broken e \<Rightarrow> (Inl e, c)
      | Got bs \<Rightarrow>
          if bs = [] then (Inl EOFError, c)
          else read_line (buf @ bs) c)"

text \<open>Pieces as \<open>recv(64)\<close> returns them.\<close>

fun split64 :: "nat \<Rightarrow> string \<Rightarrow> conn" where
  "split64 0 bs = [Got bs]"
| "split64 (Suc n) bs = (if length bs \<le> 64 then [Got bs] else Got (take 64 bs) # split64 n (drop 64 bs))"

definition recv64 :: "conn \<Rightarrow> conn" where
  "recv64 c = concat (map (\<lambda>ev. case ev of Got bs \<Rightarrow> split64 (length bs) bs | Broken e \<Rightarrow> [Broken e]) c)"

definition py_strip :: "string \<Rightarrow> string" where
  "py_strip s = (let ws = (\<lambda>c. c \<in> {CHR '' '', CHR 0x09, CHR 0x0A, CHR 0x0B, CHR 0x0C, CHR 0x0D, CHR 0x1C, CHR 0x1D, CHR 0x1E, CHR 0x1F})
     in rev (dropWhile ws (rev (dropWhile ws s))))"

definition connect_line :: "nat \<Rightarrow> string" where
  "connect_line guest_port = ''CONNECT '' @ show_nat guest_port @ [CHR 0x0A]"

definition vsock_handshake :: "(string \<Rightarrow> string) \<Rightarrow> conn \<Rightarrow> conn result" where
  "vsock_handshake ascii c =
     (case read_line [] (recv64 c) of
        (Inl e, _) \<Rightarrow> Inl e
      | (Inr buf, c1) \<Rightarrow>
          (let line = py_strip (ascii (takeWhile (\<lambda>x. x \<noteq> CHR 0x0A) buf))
           in if prefix ''OK'' line then Inr c1
              else Inl (guest_agent_error (''vsock handshake failed: '' @ line))))"

section \<open>The backend\<close>

record fc_backend =
  fb_vsock_uds :: string
  fb_guest_agent_port :: nat
  fb_workdir :: string
  fb_request_timeout :: time
  fb_connect_timeout :: time

definition fb_init :: "string \<Rightarrow> nat \<Rightarrow> string \<Rightarrow> time \<Rightarrow> time \<Rightarrow> fc_backend" where
  "fb_init vsock_uds guest_agent_port workdir request_timeout connect_timeout =
     \<lparr>fb_vsock_uds = vsock_uds, fb_guest_agent_port = guest_agent_port, fb_workdir = workdir,
      fb_request_timeout = request_timeout, fb_connect_timeout = connect_timeout\<rparr>"

definition fb_getcwd :: "fc_backend \<Rightarrow> string" where
  "fb_getcwd fb = fb_workdir fb"

definition unreachable_result :: "client_env \<Rightarrow> exn \<Rightarrow> guest_result" where
  "unreachable_result ce e =
     \<lparr>gr_exit_code = 127, gr_stdout = [],
      gr_stderr = utf8_encode (''Firecracker guest agent unreachable: '' @ ce_repr ce e)\<rparr>"

definition fb_exec_shell ::
  "client_env \<Rightarrow> 'w transport \<Rightarrow> fc_backend \<Rightarrow> string list \<Rightarrow> string option \<Rightarrow> jval option \<Rightarrow> 'w \<Rightarrow>
   guest_result result \<times> 'w" where
  "fb_exec_shell ce tp fb command cwd timeout w =
     (let effective_cwd = (case cwd of Some d \<Rightarrow> if d \<noteq> [] then d else fb_workdir fb | None \<Rightarrow> fb_workdir fb)
      in case client_exec ce tp command (Some effective_cwd) timeout w of
           (Inr r, w1) \<Rightarrow> (Inr r, w1)
         | (Inl e, w1) \<Rightarrow>
             if is_os_error e \<or> e = TimeoutError \<or> is_guest_agent_error e
             then (Inr (unreachable_result ce e), w1) else (Inl e, w1))"

definition fb_read_file :: "client_env \<Rightarrow> 'w transport \<Rightarrow> string \<Rightarrow> 'w \<Rightarrow> string result \<times> 'w" where
  "fb_read_file ce tp path w = client_read_file ce tp path w"

definition fb_write_file ::
  "client_env \<Rightarrow> 'w transport \<Rightarrow> string \<Rightarrow> string \<Rightarrow> 'w \<Rightarrow> unit result \<times> 'w" where
  "fb_write_file ce tp path data w = client_write_file ce tp path data w"

end
