(* ===== verification/Guest_Facts.thy ===== *)
theory Guest_Facts
  imports Guest_Protocol
begin

text \<open>
  What the client and the agent of \<open>Guest_Protocol\<close> make of a stream whatever the pieces it comes
  in, and the two put together: the agent behind the client's connections.
\<close>

section \<open>Streams\<close>

definition conn_data :: "conn \<Rightarrow> string" where
  "conn_data c = concat (map (\<lambda>ev. case ev of Got bs \<Rightarrow> bs | Broken _ \<Rightarrow> []) c)"

definition clean :: "conn \<Rightarrow> bool" where
  "clean c \<longleftrightarrow> list_all (\<lambda>ev. case ev of Got bs \<Rightarrow> bs \<noteq> [] | Broken _ \<Rightarrow> False) c"

lemma conn_simps [simp]:
  "conn_data [] = []" "conn_data (Got bs # c) = bs @ conn_data c" "clean []"
  "clean (Got bs # c) \<longleftrightarrow> bs \<noteq> [] \<and> clean c" "\<not> clean (Broken e # c)"
  by (simp_all add: conn_data_def clean_def)

lemma recv_exactly_clean:
  "clean c \<Longrightarrow> n \<le> length (conn_data c) \<Longrightarrow>
   \<exists>c'. recv_exactly n c = (Inr (take n (conn_data c)), c') \<and> clean c' \<and> conn_data c' = drop n (conn_data c)"
proof (induction n c rule: recv_exactly.induct)
  case (2 n ev c)
  then obtain bs where ev: "ev = Got bs" "bs \<noteq> []" "clean c" by (cases ev) auto
  show ?case
  proof (cases "n < length bs")
    case True
    with ev "2.prems" show ?thesis by (cases "n = 0") auto
  next
    case False
    with ev(2) have "n \<noteq> 0" by (cases bs) auto
    with False have n: "n \<noteq> 0" "n - length bs \<le> length (conn_data c)" using ev "2.prems" by auto
    from "2.IH" [OF n(1) ev(1,2) False ev(3) n(2)] False ev n(1) show ?thesis by auto
  qed
qed simp

lemma recv_exactly_short:
  "clean c \<Longrightarrow> length (conn_data c) < n \<Longrightarrow> \<exists>c'. recv_exactly n c = (Inl EOFError, c')"
proof (induction n c rule: recv_exactly.induct)
  case (2 n ev c)
  then obtain bs where ev: "ev = Got bs" "bs \<noteq> []" "clean c" by (cases ev) auto
  with "2.prems" have n: "n \<noteq> 0" "\<not> n < length bs" "length (conn_data c) < n - length bs" by auto
  from "2.IH" [OF n(1) ev(1,2) n(2) ev(3) n(3)] ev n show ?case by auto
qed simp

lemma utf8_ne: "s \<noteq> [] \<Longrightarrow> utf8_encode s \<noteq> []"
  by (cases s) (auto simp: utf8_encode_def utf8_char_def)

definition frame_ok :: "jval \<Rightarrow> bool" where
  "frame_ok v \<longleftrightarrow> jval_ok v \<and> length (utf8_encode (json_dumps v)) \<le> max_frame"

lemma send_frame_ok:
  assumes "frame_ok v"
  shows "\<exists>h. send_frame v = Inr (h @ utf8_encode (json_dumps v)) \<and> length h = 4 \<and>
    unpack_be32 h = length (utf8_encode (json_dumps v))"
proof -
  let ?n = "length (utf8_encode (json_dumps v))"
  have "?n < 4294967296" using assms by (simp add: frame_ok_def max_frame_def)
  then obtain h where h: "pack_be32 ?n = Inr h" by (auto simp: pack_be32_def)
  with be32_again [OF h] show ?thesis by (simp add: send_frame_def Let_def)
qed

lemma recv_sent:
  assumes v: "frame_ok v" and bs: "send_frame v = Inr bs" and c: "clean c" "conn_data c = bs @ rest"
  shows "\<exists>c'. recv_frame c = (Inr v, c') \<and> clean c' \<and> conn_data c' = rest"
proof -
  let ?body = "utf8_encode (json_dumps v)"
  from send_frame_ok [OF v] bs obtain h where h: "bs = h @ ?body" "length h = 4" "unpack_be32 h = length ?body" by auto
  from recv_exactly_clean [OF c(1), of 4] c(2) h obtain c1
    where c1: "recv_exactly 4 c = (Inr h, c1)" "clean c1" "conn_data c1 = ?body @ rest" by auto
  from recv_exactly_clean [OF c1(2), of "length ?body"] c1(3) obtain c2
    where c2: "recv_exactly (length ?body) c1 = (Inr ?body, c2)" "clean c2" "conn_data c2 = rest" by auto
  have ok: "jval_ok v" using v by (simp add: frame_ok_def)
  have "?body \<noteq> []" using dumps_start [OF ok] by (intro utf8_ne) auto
  moreover have "\<not> max_frame < length ?body" using v by (simp add: frame_ok_def)
  ultimately show ?thesis
    using c1 c2 h(3) json_again [OF ok] by (simp add: recv_frame_def Let_def utf8_again)
qed

lemma recv_nothing: "clean c \<Longrightarrow> conn_data c = [] \<Longrightarrow> \<exists>c'. recv_frame c = (Inl EOFError, c')"
  using recv_exactly_short [of c 4] by (auto simp: recv_frame_def)

section \<open>The agent behind the connection\<close>

text \<open>
  Both directions of a connection come in pieces of the network's choosing; the client reads the
  answer and closes, at which the agent's next read sees the end.
\<close>

definition cut_ok :: "(string \<Rightarrow> conn) \<Rightarrow> bool" where
  "cut_ok net \<longleftrightarrow> (\<forall>s. clean (net s) \<and> conn_data (net s) = s)"

definition agent_tp :: "guest_env \<Rightarrow> (string \<Rightarrow> conn) \<Rightarrow> (string \<Rightarrow> conn) \<Rightarrow> fs transport" where
  "agent_tp ge up down =
     \<lparr>tp_connect = (\<lambda>f. (Inr (), f)),
      tp_exchange = (\<lambda>bs f. case serve ge (up bs) f [] of (_, f', sent) \<Rightarrow> (Inr (down sent), f'))\<rparr>"

lemma serve_end:
  assumes "clean c" and "conn_data c = []"
  shows "serve ge c f sent = (Inr (), f, sent)"
  using recv_nothing [OF assms] by (auto simp: serve.simps)

lemma serve_one:
  assumes "frame_ok req" and "send_frame req = Inr bs" and "clean c" and "conn_data c = bs @ rest"
    and "agent_answer ge req f = (Inr resp, f')" and "send_frame resp = Inr out"
  shows "\<exists>c'. serve ge c f sent = serve ge c' f' (sent @ out) \<and> clean c' \<and> conn_data c' = rest"
  using recv_sent [OF assms(1-4)] assms(5,6) by (auto simp: serve.simps [of ge c])

lemma request_agent:
  assumes "cut_ok up" and "cut_ok down" and "frame_ok req" and "frame_ok resp"
    and "agent_answer ge req f = (Inr resp, f')"
  shows "request (agent_tp ge up down) req f = (Inr resp, f')"
proof -
  obtain bs where bs: "send_frame req = Inr bs" using send_frame_ok [OF assms(3)] by blast
  obtain out where out: "send_frame resp = Inr out" using send_frame_ok [OF assms(4)] by blast
  have up: "clean (up bs)" "conn_data (up bs) = bs @ []" and down: "clean (down out)" "conn_data (down out) = out @ []"
    using assms(1,2) by (simp_all add: cut_ok_def)
  from serve_one [OF assms(3) bs up assms(5) out, of "[]"] serve_end
  have "serve ge (up bs) f [] = (Inr (), f', out)" by auto
  with bs recv_sent [OF assms(4) out down] show ?thesis by (auto simp: request_def agent_tp_def)
qed

text \<open>The same exchange under \<open>wait_for\<close>.\<close>

lemma request_timed:
  assumes "request tp req w = (Inr resp, w')" and "send_frame req = Inr bs" and "tp_connect tp w = (Inr (), w)"
  shows "request (timed_tp limit took tp) req w =
    (if took bs w \<le> limit then Inr resp else Inl TimeoutError, w')"
  using assms by (auto simp: request_def timed_tp_def split: sum.splits prod.splits)

lemma recv_too_long:
  assumes "max_frame < length (utf8_encode (json_dumps v))" and "send_frame v = Inr bs"
    and "clean c" and "conn_data c = bs @ rest"
  shows "\<exists>c'. recv_frame c = (Inl ValueError, c')"
proof -
  let ?body = "utf8_encode (json_dumps v)"
  obtain h where h: "pack_be32 (length ?body) = Inr h" "bs = h @ ?body"
    using assms(2) by (auto simp: send_frame_def Let_def split: sum.splits)
  note be = be32_again [OF h(1)]
  from recv_exactly_clean [OF assms(3), of 4] assms(4) h be obtain c1 where "recv_exactly 4 c = (Inr h, c1)" by auto
  with be assms(1) show ?thesis by (simp add: recv_frame_def Let_def)
qed

text \<open>A request that is too long ends the agent; the client finds the connection closed.\<close>

lemma request_too_long:
  assumes "cut_ok up" and "cut_ok down" and "max_frame < length (utf8_encode (json_dumps req))"
    and "send_frame req = Inr bs"
  shows "serve ge (up bs) f [] = (Inl ValueError, f, [])" "request (agent_tp ge up down) req f = (Inl EOFError, f)"
proof -
  have "clean (up bs)" "conn_data (up bs) = bs @ []" using assms(1) by (simp_all add: cut_ok_def)
  from recv_too_long [OF assms(3,4) this] show s: "serve ge (up bs) f [] = (Inl ValueError, f, [])"
    by (auto simp: serve.simps [of ge "up bs"])
  have "clean (down [])" "conn_data (down []) = []" using assms(2) by (simp_all add: cut_ok_def)
  from recv_nothing [OF this] s assms(4) show "request (agent_tp ge up down) req f = (Inl EOFError, f)"
    by (auto simp: request_def agent_tp_def)
qed

text \<open>An answer the client gets is the agent's.\<close>

lemma request_answer:
  assumes "cut_ok up" and "cut_ok down" and "frame_ok req" and "jval_ok resp"
    and "agent_answer ge req f = (Inr resp, f1)" and "request (agent_tp ge up down) req f = (Inr v, f2)"
  shows "v = resp \<and> f2 = f1"
proof -
  obtain bs where bs: "send_frame req = Inr bs" using send_frame_ok [OF assms(3)] by blast
  have up: "clean (up bs)" "conn_data (up bs) = bs @ []" using assms(1) by (simp_all add: cut_ok_def)
  have down: "clean (down s)" "conn_data (down s) = s @ []" for s using assms(2) by (simp_all add: cut_ok_def)
  show ?thesis
  proof (cases "send_frame resp")
    case (Inl e)
    with recv_sent [OF assms(3) bs up] assms(5) have "serve ge (up bs) f [] = (Inl e, f1, [])"
      by (auto simp: serve.simps [of ge "up bs"])
    with recv_nothing [of "down []"] down [of "[]"] bs assms(6) show ?thesis
      by (auto simp: request_def agent_tp_def)
  next
    case (Inr out)
    show ?thesis
    proof (cases "length (utf8_encode (json_dumps resp)) \<le> max_frame")
      case True
      with assms(4) have "frame_ok resp" by (simp add: frame_ok_def)
      from request_agent [OF assms(1-3) this assms(5)] assms(6) show ?thesis by simp
    next
      case False
      from serve_one [OF assms(3) bs up assms(5) Inr, of "[]"] serve_end
      have "serve ge (up bs) f [] = (Inr (), f1, out)" by auto
      with recv_too_long [OF _ Inr down, of] False bs assms(6) show ?thesis
        by (auto simp: request_def agent_tp_def not_le)
    qed
  qed
qed

section \<open>A guest to try things on\<close>

definition demo_guest :: guest_env where
  "demo_guest = \<lparr>ge_run = (\<lambda>argv cwd t f. (Completed 3 [CHR 0xFF, CHR 0x00] [CHR 0x0A], f)), ge_text = (\<lambda>e. ''error''),
     ge_repr = (\<lambda>v. ''value''), ge_bytes = (\<lambda>b. case b of Raw s \<Rightarrow> s | _ \<Rightarrow> []), ge_pid = 7\<rparr>"

definition demo_client :: client_env where
  "demo_client = \<lparr>ce_str = (\<lambda>v. ''value''), ce_int = (\<lambda>v. Inl TypeError), ce_repr = (\<lambda>e. ''error'')\<rparr>"

text \<open>A network that delivers one byte at a time.\<close>

definition drip :: "string \<Rightarrow> conn" where
  "drip s = map (\<lambda>c. Got [c]) s"

lemma drip_ok: "cut_ok drip"
proof -
  have "clean (drip s) \<and> conn_data (drip s) = s" for s by (induction s) (auto simp: drip_def)
  then show ?thesis by (simp add: cut_ok_def)
qed

definition ping_request :: jval where
  "ping_request = J_Obj [(''op'', J_Str ''ping'')]"

definition pong :: jval where
  "pong = J_Obj [(''ok'', J_Bool True), (''pong'', J_Bool True), (''pid'', J_Int 7)]"

lemma demo_frames: "frame_ok ping_request" "frame_ok pong"
proof -
  have "length (utf8_encode (json_dumps ping_request)) = 14" by code_simp
  then show "frame_ok ping_request" by (simp add: frame_ok_def ping_request_def dict_ok_def max_frame_def)
  have "utf8_encode (json_dumps pong) = ''{'' @ json_string ''ok'' @ '': true, '' @ json_string ''pong'' @ '': true, '' @ json_string ''pid'' @ '': 7}''"
    by (simp add: pong_def utf8_encode_def utf8_char_def json_string_def escape_char_def code_def show_int_def show_nat.simps digit_char_def)
  moreover have "length (''{'' @ json_string ''ok'' @ '': true, '' @ json_string ''pong'' @ '': true, '' @ json_string ''pid'' @ '': 7}'') = 36"
    by code_simp
  ultimately show "frame_ok pong" by (simp add: frame_ok_def pong_def dict_ok_def max_frame_def)
qed

lemma demo_ping: "agent_answer demo_guest ping_request f = (Inr pong, f)"
  by (simp add: agent_answer_def ping_request_def jget_def handlers_def handle_ping_def encode_bytes_def pong_def demo_guest_def)

text \<open>The client's ping reaches the agent.\<close>

lemma client_ping_agent:
  assumes "cut_ok up" and "cut_ok down" and "frame_ok (J_Obj (encode_bytes (handle_ping ge)))"
  shows "client_ping (agent_tp ge up down) f = (Inr True, f)"
proof -
  have "frame_ok (J_Obj [(''op'', J_Str ''ping'')])" using demo_frames(1) by (simp add: ping_request_def)
  moreover have "agent_answer ge (J_Obj [(''op'', J_Str ''ping'')]) f = (Inr (J_Obj (encode_bytes (handle_ping ge))), f)"
    by (simp add: agent_answer_def jget_def handlers_def)
  ultimately have "request (agent_tp ge up down) (J_Obj [(''op'', J_Str ''ping'')]) f =
      (Inr (J_Obj (encode_bytes (handle_ping ge))), f)"
    using request_agent [OF assms(1,2)] assms(3) by blast
  then show ?thesis
    by (simp add: client_ping_def as_dict_def encode_bytes_def handle_ping_def jget_def truthy_def)
qed


section \<open>Properties\<close>

definition frames :: "jval list \<Rightarrow> string" where
  "frames vs = concat (map (\<lambda>v. case send_frame v of Inl _ \<Rightarrow> [] | Inr bs \<Rightarrow> bs) vs)"

lemma frames_Cons: "send_frame v = Inr bs \<Longrightarrow> frames (v # vs) = bs @ frames vs"
  by (simp add: frames_def)

text \<open>
  A frame arrives as it was sent: for every JSON object within the size limit, and however the
  network cuts the stream into pieces, the receiver gets the same object and consumes exactly its
  frame, so that what follows in the stream is untouched.
\<close>

theorem frame_arrives:
  assumes "jval_ok v" and "length (utf8_encode (json_dumps v)) \<le> max_frame" and "send_frame v = Inr bs"
    and "clean c" and "conn_data c = bs @ rest"
  shows "\<exists>c'. recv_frame c = (Inr v, c') \<and> clean c' \<and> conn_data c' = rest"
  by (rule recv_sent [OF _ assms(3-5)]) (simp add: frame_ok_def assms(1,2))

text \<open>The requests of a connection, one after the other, without any bytes.\<close>

fun answer_all :: "guest_env \<Rightarrow> jval list \<Rightarrow> fs \<Rightarrow> jval list option \<times> fs" where
  "answer_all ge [] f = (Some [], f)"
| "answer_all ge (req # reqs) f =
     (case agent_answer ge req f of
        (Inl e, f1) \<Rightarrow> (None, f1)
      | (Inr resp, f1) \<Rightarrow> apfst (map_option (Cons resp)) (answer_all ge reqs f1))"

lemma serve_all:
  "clean c \<Longrightarrow> conn_data c = frames reqs \<Longrightarrow> list_all frame_ok reqs \<Longrightarrow> list_all frame_ok resps \<Longrightarrow>
   answer_all ge reqs f = (Some resps, f') \<Longrightarrow> serve ge c f sent = (Inr (), f', sent @ frames resps)"
proof (induction reqs arbitrary: c f sent resps)
  case Nil
  then show ?case using serve_end by (simp add: frames_def)
next
  case (Cons req reqs)
  obtain bs where bs: "send_frame req = Inr bs" using send_frame_ok [of req] Cons.prems(3) by auto
  obtain resp f1 rest where ans: "agent_answer ge req f = (Inr resp, f1)" "resps = resp # rest"
    "answer_all ge reqs f1 = (Some rest, f')"
    using Cons.prems(5) by (auto simp: apfst_def map_prod_def split: prod.splits sum.splits)
  obtain out where out: "send_frame resp = Inr out" using send_frame_ok [of resp] Cons.prems(4) ans(2) by auto
  from serve_one [of req bs c "frames reqs" ge f resp f1 out sent] Cons.prems bs ans(1) out
  obtain c' where c': "serve ge c f sent = serve ge c' f1 (sent @ out)" "clean c'" "conn_data c' = frames reqs"
    by (auto simp: frames_Cons)
  with Cons.IH [OF c'(2,3) _ _ ans(3)] Cons.prems(3,4) ans(2) out show ?case by (simp add: frames_Cons)
qed

text \<open>
  C33: On a connection that carries well-formed requests, in whatever pieces, the agent does what
  answering them in order without any framing does: the same effects, and the frames of the same
  answers in the same order, and it survives the connection.
\<close>

theorem agent_serves_in_order:
  assumes "clean c" and "conn_data c = frames reqs" and "list_all frame_ok reqs" and "list_all frame_ok resps"
    and "answer_all ge reqs f = (Some resps, f')"
  shows "serve ge c f [] = (Inr (), f', frames resps) \<and> agent_main ge [c] f = (Inr (), f')"
  using serve_all [OF assms, of "[]"] by simp

lemma b64_text: "list_all (\<lambda>c. code c < 128) (b64_encode s)"
proof -
  have pad: "code (CHR ''='') < 128" by (simp add: code_def)
  show ?thesis by (induction s rule: b64_encode.induct) (simp_all add: pad b64_value_char sextets)
qed

lemma py_b64_again: "py_b64decode (b64_encode s) = Inr s"
  by (simp add: py_b64decode_def b64_text b64_again)

lemma tolerant_again: "tolerant_b64decode (J_Str (b64_encode s)) = Inr s"
proof (cases "s = []")
  case False
  then have "b64_encode s \<noteq> []" by (cases s rule: b64_encode.cases) auto
  then show ?thesis by (simp add: tolerant_b64decode_def truthy_def py_b64_again)
qed (simp add: tolerant_b64decode_def truthy_def)

lemma fs_write_read:
  "fs_write p b f = (Inr (), f1) \<Longrightarrow> fs_lookup f1 p = Some (FileE b)"
  by (auto simp: fs_write_def fs_isdir_def fs_lookup_def dict_simps split: if_splits)

definition write_request :: "string \<Rightarrow> string \<Rightarrow> jval" where
  "write_request path data =
     J_Obj [(''op'', J_Str ''write_file''), (''path'', J_Str path), (''data'', J_Str (b64_encode data))]"

definition data_reply :: "string \<Rightarrow> jval" where
  "data_reply data = J_Obj [(''ok'', J_Bool True), (''data'', J_Str (b64_encode data))]"

lemma reply_shorter:
  "length (utf8_encode (json_dumps (data_reply data))) \<le> length (utf8_encode (json_dumps (write_request path data)))"
proof -
  have app: "utf8_encode (a @ b) = utf8_encode a @ utf8_encode b" for a b by (simp add: utf8_encode_def)
  have "json_dumps (data_reply data) = (''{'' @ json_string ''ok'' @ '': true, '' @ json_string ''data'' @ '': '') @
      json_string (b64_encode data) @ ''}''"
    by (simp add: data_reply_def)
  moreover have "json_dumps (write_request path data) = (''{'' @ json_string ''op'' @ '': '' @ json_string ''write_file'' @
      '', '') @ (json_string ''path'' @ '': '' @ json_string path @ '', '' @ json_string ''data'' @ '': '') @ json_string (b64_encode data) @ ''}''"
    by (simp add: write_request_def)
  moreover have "length (utf8_encode (''{'' @ json_string ''ok'' @ '': true, '' @ json_string ''data'' @ '': '')) \<le>
      length (utf8_encode (''{'' @ json_string ''op'' @ '': '' @ json_string ''write_file'' @ '', ''))"
    by code_simp
  ultimately show ?thesis by (simp only: app length_append)
qed

text \<open>What the agent answers a write request, and what the client makes of a request that failed.\<close>

lemma answer_write:
  "agent_answer ge (write_request path data) f =
    (case handle_write_file ge [(''op'', J_Str ''write_file''), (''path'', J_Str path), (''data'', J_Str (b64_encode data))] f of
       (Inl e, f1) \<Rightarrow> (Inr (J_Obj (encode_bytes (r_error (''handler raised: '' @ ge_text ge e)))), f1)
     | (Inr resp, f1) \<Rightarrow> (Inr (J_Obj (encode_bytes resp)), f1))"
  by (simp add: agent_answer_def write_request_def jget_def handlers_def Let_def)

lemma ok_reply: "frame_ok (J_Obj [(''ok'', J_Bool True)])"
proof -
  have "length (utf8_encode (json_dumps (J_Obj [(''ok'', J_Bool True)]))) = 12" by code_simp
  then show ?thesis by (simp add: frame_ok_def dict_ok_def max_frame_def)
qed

lemma write_request_jval: "jval_ok (write_request path data)"
  by (simp add: write_request_def dict_ok_def)

text \<open>A write the client takes for successful has written the file.\<close>

lemma write_answer_cases:
  "(\<exists>f1. agent_answer ge (write_request path data) f = (Inr (J_Obj [(''ok'', J_Bool True)]), f1) \<and>
      path \<noteq> [] \<and> (\<exists>fm. fs_write (fs_path path) (Raw data) fm = (Inr (), f1))) \<or>
   (\<exists>msg f1. agent_answer ge (write_request path data) f =
      (Inr (J_Obj [(''ok'', J_Bool False), (''error'', J_Str msg)]), f1))"
proof -
  let ?kvs = "[(''op'', J_Str ''write_file''), (''path'', J_Str path), (''data'', J_Str (b64_encode data))]"
  obtain r0 f0 where mk: "(if path_dirname path \<noteq> [] then fs_makedirs (fs_path (path_dirname path)) f else (Inr (), f)) = (r0, f0)"
    by (cases "if path_dirname path \<noteq> [] then fs_makedirs (fs_path (path_dirname path)) f else (Inr (), f)")
  have h: "handle_write_file ge ?kvs f = (case r0 of Inl e \<Rightarrow> (Inl e, f0)
      | Inr _ \<Rightarrow> (case guest_open_write path (Raw data) f0 of
          (Inl e, f2) \<Rightarrow> (Inr (r_error (ge_text ge e)), f2) | (Inr _, f2) \<Rightarrow> (Inr [r_ok True], f2)))"
    using mk by (simp add: handle_write_file_def jget_def py_b64_again Let_def split: sum.split)
  show ?thesis
  proof (cases r0)
    case (Inl e)
    then show ?thesis using h by (simp add: answer_write encode_bytes_def)
  next
    case (Inr u)
    obtain r1 f2 where w: "guest_open_write path (Raw data) f0 = (r1, f2)" by (cases "guest_open_write path (Raw data) f0")
    show ?thesis
    proof (cases r1)
      case (Inl e)
      then show ?thesis using h Inr w by (simp add: answer_write encode_bytes_def)
    next
      case (Inr u')
      with w have "path \<noteq> []" "fs_write (fs_path path) (Raw data) f0 = (Inr (), f2)"
        by (auto simp: guest_open_write_def split: if_splits)
      then show ?thesis using h \<open>r0 = Inr u\<close> Inr w by (auto simp: answer_write encode_bytes_def)
    qed
  qed
qed

lemma written:
  assumes "cut_ok up" "cut_ok down" and fr: "frame_ok (write_request path data)"
    and req: "request (agent_tp ge up down) (write_request path data) f = (Inr v, f1)"
    and ok: "\<exists>d. v = J_Obj d \<and> truthy (jget d ''ok'')"
  shows "path \<noteq> [] \<and> (\<exists>fm. fs_write (fs_path path) (Raw data) fm = (Inr (), f1))"
proof -
  consider (good) f2 where "agent_answer ge (write_request path data) f = (Inr (J_Obj [(''ok'', J_Bool True)]), f2)"
      "path \<noteq> []" "\<exists>fm. fs_write (fs_path path) (Raw data) fm = (Inr (), f2)"
    | (bad) msg f2 where "agent_answer ge (write_request path data) f =
        (Inr (J_Obj [(''ok'', J_Bool False), (''error'', J_Str msg)]), f2)"
    using write_answer_cases [of ge path data f] by blast
  then show ?thesis
  proof cases
    case good
    from request_answer [OF assms(1-3) _ good(1) req] good show ?thesis by (auto simp: dict_ok_def)
  next
    case bad
    from request_answer [OF assms(1-3) _ bad req] ok show ?thesis by (auto simp: dict_ok_def jget_def truthy_def)
  qed
qed

text \<open>
  C9: What the host writes into the microVM is what it reads back, byte for byte: after a write
  through the agent that succeeded, a read of the same path succeeds and returns the data, whatever
  the bytes are and however the four streams are cut into pieces.
\<close>

theorem guest_write_read:
  assumes cuts: "cut_ok up" "cut_ok down" "cut_ok up'" "cut_ok down'"
    and bytes: "ge_bytes ge (Raw data) = data"
    and wr: "fb_write_file ce (agent_tp ge up down) path data f = (Inr (), f1)"
    and small: "frame_ok (J_Obj [(''op'', J_Str ''read_file''), (''path'', J_Str path)])"
  shows "fb_read_file ce (agent_tp ge up' down') path f1 = (Inr data, f1)"
proof -
  let ?req = "write_request path data"
  obtain v where req: "request (agent_tp ge up down) ?req f = (Inr v, f1)" and v: "\<exists>d. v = J_Obj d \<and> truthy (jget d ''ok'')"
    using wr by (auto simp: fb_write_file_def client_write_file_def write_request_def as_dict_def
        split: prod.splits sum.splits if_splits jval.splits)
  obtain bs where bs: "send_frame ?req = Inr bs" using req by (auto simp: request_def agent_tp_def split: sum.splits)
  have len: "length (utf8_encode (json_dumps ?req)) \<le> max_frame"
    using request_too_long(2) [OF cuts(1,2) _ bs] req by (metis Inl_Inr_False not_le prod.inject)
  have fr: "frame_ok ?req" using len write_request_jval by (simp add: frame_ok_def)
  have reply: "frame_ok (data_reply data)"
    using len reply_shorter [of data path] by (auto simp: frame_ok_def data_reply_def dict_ok_def)
  obtain fm where dir: "path \<noteq> []" "fs_write (fs_path path) (Raw data) fm = (Inr (), f1)"
    using written [OF cuts(1,2) fr req v] by blast
  then have "fs_lookup f1 (fs_path path) = Some (FileE (Raw data))" by (intro fs_write_read)
  then have "guest_open_read f1 path = Inr (Raw data)" using dir(1) by (simp add: guest_open_read_def fs_open_read_def)
  then have ans: "agent_answer ge (J_Obj [(''op'', J_Str ''read_file''), (''path'', J_Str path)]) f1 = (Inr (data_reply data), f1)"
    by (simp add: agent_answer_def jget_def handlers_def handle_read_file_def encode_bytes_def data_reply_def bytes)
  from request_agent [OF cuts(3,4) small reply ans] show ?thesis
    by (simp add: fb_read_file_def client_read_file_def as_dict_def data_reply_def jget_def jget_or_def truthy_def tolerant_again)
qed

text \<open>What the caller of \<open>exec_shell\<close> is to get for each outcome of the subprocess.\<close>

fun outcome_result :: "client_env \<Rightarrow> guest_env \<Rightarrow> run_outcome \<Rightarrow> guest_result" where
  "outcome_result ce ge (Completed status out err) = \<lparr>gr_exit_code = status, gr_stdout = out, gr_stderr = err\<rparr>"
| "outcome_result ce ge (Not_Found msg) = \<lparr>gr_exit_code = 127, gr_stdout = [], gr_stderr = utf8_encode msg\<rparr>"
| "outcome_result ce ge (Expired out err) =
     \<lparr>gr_exit_code = - 1, gr_stdout = (case out of None \<Rightarrow> [] | Some b \<Rightarrow> b),
      gr_stderr = (case err of None \<Rightarrow> [] | Some b \<Rightarrow> b) @ CHR 0x0A # ''timed out''\<rparr>"
| "outcome_result ce ge (Failed e) =
     unreachable_result ce (guest_agent_error (''exec failed: '' @ ge_text ge e))"

text \<open>
  C32: A command run through the agent, its request and its reply each within one frame (64 MiB of
  JSON), runs in the directory the caller named or, without one, in the backend's. When the reply
  comes within \<open>request_timeout\<close> the caller gets exactly what the subprocess gave: its exit code and
  its output byte for byte, 127 for a program that was not found, -1 with the partial output after a
  time-out of its own, and 127 with a message when it could not be started. When the reply takes
  longer, whatever \<open>timeout\<close> the caller asked for, the command has had its effects all the same and
  the caller is told 127, that the agent cannot be reached.
\<close>

theorem guest_exec_transparent:
  assumes cuts: "cut_ok up" "cut_ok down" and argv: "argv \<noteq> []"
    and dir: "dir = (case cwd of Some d \<Rightarrow> if d \<noteq> [] then d else fb_workdir fb | None \<Rightarrow> fb_workdir fb)"
    and run: "ge_run ge (map J_Str argv) (J_Str dir) (case timeout of None \<Rightarrow> J_Null | Some t \<Rightarrow> t) f = (outcome, f')"
    and small: "frame_ok (exec_request argv (Some dir) timeout)" "frame_ok (J_Obj (encode_bytes (run_response ge outcome)))"
    and sent: "send_frame (exec_request argv (Some dir) timeout) = Inr bs"
  shows "fb_exec_shell ce (timed_tp (fb_request_timeout fb) took (agent_tp ge up down)) fb argv cwd timeout f =
    (Inr (if took bs f \<le> fb_request_timeout fb then outcome_result ce ge outcome
          else unreachable_result ce TimeoutError), f')"
proof -
  let ?tp = "timed_tp (fb_request_timeout fb) took (agent_tp ge up down)"
  have "agent_answer ge (exec_request argv (Some dir) timeout) f = (Inr (J_Obj (encode_bytes (run_response ge outcome))), f')"
    using argv run
    by (cases timeout) (simp_all add: agent_answer_def exec_request_def jget_def handlers_def handle_exec_def Let_def)
  from request_timed [OF request_agent [OF cuts small this] sent, of "fb_request_timeout fb" took]
  have req: "request ?tp (exec_request argv (Some dir) timeout) f =
      (if took bs f \<le> fb_request_timeout fb then Inr (J_Obj (encode_bytes (run_response ge outcome)))
       else Inl TimeoutError, f')" by (simp add: agent_tp_def)
  show ?thesis
  proof (cases "took bs f \<le> fb_request_timeout fb")
    case False
    with req have "client_exec ce ?tp argv (Some dir) timeout f = (Inl TimeoutError, f')"
      by (simp add: client_exec_def)
    with False show ?thesis by (simp add: fb_exec_shell_def Let_def is_os_error_def flip: dir)
  next
    case True
    have "client_exec ce ?tp argv (Some dir) timeout f =
      (case outcome of Failed e \<Rightarrow> (Inl (guest_agent_error (''exec failed: '' @ ge_text ge e)), f')
       | _ \<Rightarrow> (Inr (outcome_result ce ge outcome), f'))"
    using True by (cases outcome)
      (simp_all add: client_exec_def req as_dict_def run_response_def encode_bytes_def jget_def jget_or_def truthy_def
        answer_int_def py_str_def tolerant_again tolerant_again [of "[]", simplified])
  with True show ?thesis
    by (cases outcome)
      (simp_all add: fb_exec_shell_def Let_def flip: dir, simp add: is_guest_agent_error_def guest_agent_error_def)
  qed
qed

text \<open>
  One malformed length is enough to end the agent: on a connection whose first header is zero or
  beyond the limit the agent stops with \<open>ValueError\<close> and serves none of the connections after it.
\<close>

theorem bad_frame_ends_agent:
  assumes "clean c" and "conn_data c = header @ rest" and "length header = 4"
    and "unpack_be32 header = 0 \<or> max_frame < unpack_be32 header"
  shows "agent_main ge (c # cs) f = (Inl ValueError, f)"
proof -
  from recv_exactly_clean [OF assms(1), of 4] assms(2,3) obtain c1 where "recv_exactly 4 c = (Inr header, c1)" by auto
  with assms(4) have "recv_frame c = (Inl ValueError, c1)" by (auto simp: recv_frame_def Let_def)
  then show ?thesis by (simp add: serve.simps [of ge c])
qed

theorem frame_arrives_witness:
  "\<exists>bs c'. send_frame ping_request = Inr bs \<and> recv_frame (drip (bs @ ''xy'')) = (Inr ping_request, c') \<and> conn_data c' = ''xy''"
proof -
  have p: "jval_ok ping_request" "length (utf8_encode (json_dumps ping_request)) \<le> max_frame"
    using demo_frames(1) by (simp_all add: frame_ok_def)
  obtain bs where bs: "send_frame ping_request = Inr bs" using send_frame_ok [OF demo_frames(1)] by blast
  have "clean (drip (bs @ ''xy''))" "conn_data (drip (bs @ ''xy'')) = bs @ ''xy''" using drip_ok by (simp_all add: cut_ok_def)
  from frame_arrives [OF p bs this] bs show ?thesis by blast
qed

theorem agent_serves_in_order_witness:
  "serve demo_guest (drip (frames [ping_request, ping_request])) [] [] = (Inr (), [], frames [pong, pong])"
proof -
  have "clean (drip (frames [ping_request, ping_request]))"
    "conn_data (drip (frames [ping_request, ping_request])) = frames [ping_request, ping_request]"
    using drip_ok by (simp_all add: cut_ok_def)
  from agent_serves_in_order [OF this, of "[pong, pong]" demo_guest "[]" "[]"] demo_frames show ?thesis
    by (simp add: demo_ping)
qed

theorem bad_frame_ends_agent_witness:
  "agent_main demo_guest [[Got (replicate 4 (CHR 0x00))], drip (frames [ping_request])] [] = (Inl ValueError, [])"
  by (rule bad_frame_ends_agent [of _ "replicate 4 (CHR 0x00)" "[]"]) (simp_all add: unpack_be32_def code_def numeral_eq_Suc)

lemma demo_exec_frames:
  "frame_ok (exec_request [''true''] (Some ''/w'') None)"
  "frame_ok (J_Obj (encode_bytes (run_response demo_guest (Completed 3 [CHR 0xFF, CHR 0x00] [CHR 0x0A]))))"
proof -
  have "length (utf8_encode (json_dumps (exec_request [''true''] (Some ''/w'') None))) < 100" by code_simp
  then show "frame_ok (exec_request [''true''] (Some ''/w'') None)"
    by (simp add: frame_ok_def max_frame_def exec_request_def dict_ok_def)
  have "length (utf8_encode (json_dumps (J_Obj (encode_bytes (run_response demo_guest (Completed 3 [CHR 0xFF, CHR 0x00] [CHR 0x0A])))))) < 100"
    by code_simp
  then show "frame_ok (J_Obj (encode_bytes (run_response demo_guest (Completed 3 [CHR 0xFF, CHR 0x00] [CHR 0x0A]))))"
    by (simp add: frame_ok_def max_frame_def run_response_def encode_bytes_def dict_ok_def)
qed

theorem guest_exec_transparent_witness:
  "fb_exec_shell demo_client (timed_tp 30 (\<lambda>bs f. 1) (agent_tp demo_guest drip drip)) (fb_init ''v.sock'' 1024 ''/w'' 30 5)
      [''true''] None None [] =
    (Inr \<lparr>gr_exit_code = 3, gr_stdout = [CHR 0xFF, CHR 0x00], gr_stderr = [CHR 0x0A]\<rparr>, []) \<and>
   fb_exec_shell demo_client (timed_tp 30 (\<lambda>bs f. 31) (agent_tp demo_guest drip drip)) (fb_init ''v.sock'' 1024 ''/w'' 30 5)
      [''true''] None None [] =
    (Inr (unreachable_result demo_client TimeoutError), [])"
proof -
  obtain bs where "send_frame (exec_request [''true''] (Some ''/w'') None) = Inr bs"
    using send_frame_ok [OF demo_exec_frames(1)] by blast
  note run = guest_exec_transparent [OF drip_ok drip_ok, where argv = "[''true'']" and dir = "''/w''" and cwd = None and
      timeout = None and f = "[]" and f' = "[]" and fb = "fb_init ''v.sock'' 1024 ''/w'' 30 5" and ge = demo_guest and
      bs = bs and outcome = "Completed 3 [CHR 0xFF, CHR 0x00] [CHR 0x0A]" and ce = demo_client,
      OF _ _ _ demo_exec_frames this]
  show ?thesis
    using run [where took = "\<lambda>bs f. 1"] run [where took = "\<lambda>bs f. 31"] by (simp add: fb_init_def demo_guest_def)
qed

lemma demo_write_frames:
  "frame_ok (write_request ''/f'' [CHR 0xFF, CHR 0x0A])"
  "frame_ok (J_Obj [(''op'', J_Str ''read_file''), (''path'', J_Str ''/f'')])"
proof -
  have "length (utf8_encode (json_dumps (write_request ''/f'' [CHR 0xFF, CHR 0x0A]))) < 100" by code_simp
  then show "frame_ok (write_request ''/f'' [CHR 0xFF, CHR 0x0A])"
    using write_request_jval by (simp add: frame_ok_def max_frame_def)
  have "length (utf8_encode (json_dumps (J_Obj [(''op'', J_Str ''read_file''), (''path'', J_Str ''/f'')]))) < 100" by code_simp
  then show "frame_ok (J_Obj [(''op'', J_Str ''read_file''), (''path'', J_Str ''/f'')])"
    by (simp add: frame_ok_def max_frame_def dict_ok_def)
qed

theorem guest_write_read_witness:
  "\<exists>f1. fb_write_file demo_client (agent_tp demo_guest drip drip) ''/f'' [CHR 0xFF, CHR 0x0A] [] = (Inr (), f1) \<and>
     fb_read_file demo_client (agent_tp demo_guest drip drip) ''/f'' f1 = (Inr [CHR 0xFF, CHR 0x0A], f1)"
proof -
  let ?data = "[CHR 0xFF, CHR 0x0A]"
  let ?f1 = "[([''f''], FileE (Raw ?data))]"
  have p: "path_dirname ''/f'' = ''/''" "fs_path ''/'' = []" "fs_path ''/f'' = [''f'']" by code_simp+
  have "handle_write_file demo_guest [(''op'', J_Str ''write_file''), (''path'', J_Str ''/f''), (''data'', J_Str (b64_encode ?data))] [] =
      (Inr [r_ok True], ?f1)"
    by (simp add: handle_write_file_def jget_def py_b64_again p fs_makedirs_def guest_open_write_def fs_write_def fs_isdir_def
        fs_lookup_def Let_def del: b64_encode.simps)
  then have "agent_answer demo_guest (write_request ''/f'' ?data) [] = (Inr (J_Obj [(''ok'', J_Bool True)]), ?f1)"
    by (simp add: answer_write encode_bytes_def)
  from request_agent [OF drip_ok drip_ok demo_write_frames(1) ok_reply this]
  have wr: "fb_write_file demo_client (agent_tp demo_guest drip drip) ''/f'' ?data [] = (Inr (), ?f1)"
    by (simp add: fb_write_file_def client_write_file_def write_request_def as_dict_def jget_def truthy_def)
  have "ge_bytes demo_guest (Raw ?data) = ?data" by (simp add: demo_guest_def)
  from guest_write_read [OF drip_ok drip_ok drip_ok drip_ok this wr demo_write_frames(2)] wr show ?thesis by blast
qed

end
