(* ===== verification/Firecracker_Api.thy ===== *)
theory Firecracker_Api
  imports Guest_Protocol
begin

text \<open>
  \<open>_firecracker/_api.py\<close>: the client of Firecracker's HTTP interface, one request after the other
  over its Unix socket, and the helpers that spawn a Firecracker process, wait for its socket,
  collect its output and end it.

  The Firecracker process, the kernel and the HTTP package are the environment \<open>vm_env\<close>: what
  spawning does, what the \<open>n\<close>-th request, connection attempt, sleep and termination come to, and
  the bridge to the guest. They may change the file tree (a socket is a file there). What the
  program asked for is the world \<open>vm_world\<close>: its processes, the requests it sent, how often it
  asked. Any wait may end in \<open>CancelledError\<close>.
\<close>

section \<open>Request bodies\<close>

record machine_config =
  mc_vcpu_count :: int
  mc_mem_size_mib :: int
  mc_smt :: bool
  mc_cpu_template :: "string option"
  mc_track_dirty_pages :: bool

record boot_source =
  bs_kernel_image_path :: string
  bs_boot_args :: string
  bs_initrd_path :: "string option"

record drive =
  dr_drive_id :: string
  dr_path_on_host :: string
  dr_is_root_device :: bool
  dr_is_read_only :: bool
  dr_cache_type :: string

record network_interface =
  ni_iface_id :: string
  ni_host_dev_name :: string
  ni_guest_mac :: "string option"

record vsock =
  vs_vsock_id :: string
  vs_guest_cid :: int
  vs_uds_path :: string

definition opt_field :: "string \<Rightarrow> string option \<Rightarrow> (string \<times> jval) list" where
  "opt_field k v = (case v of None \<Rightarrow> [] | Some s \<Rightarrow> [(k, J_Str s)])"

definition machine_config_json :: "machine_config \<Rightarrow> jval" where
  "machine_config_json c = J_Obj
     ([(''vcpu_count'', J_Int (mc_vcpu_count c)), (''mem_size_mib'', J_Int (mc_mem_size_mib c)),
       (''smt'', J_Bool (mc_smt c)), (''track_dirty_pages'', J_Bool (mc_track_dirty_pages c))] @
      opt_field ''cpu_template'' (mc_cpu_template c))"

definition boot_source_json :: "boot_source \<Rightarrow> jval" where
  "boot_source_json b = J_Obj
     ([(''kernel_image_path'', J_Str (bs_kernel_image_path b)), (''boot_args'', J_Str (bs_boot_args b))] @
      opt_field ''initrd_path'' (bs_initrd_path b))"

definition drive_json :: "drive \<Rightarrow> jval" where
  "drive_json d = J_Obj
     [(''drive_id'', J_Str (dr_drive_id d)), (''path_on_host'', J_Str (dr_path_on_host d)),
      (''is_root_device'', J_Bool (dr_is_root_device d)), (''is_read_only'', J_Bool (dr_is_read_only d)),
      (''cache_type'', J_Str (dr_cache_type d))]"

definition network_interface_json :: "network_interface \<Rightarrow> jval" where
  "network_interface_json i = J_Obj
     ([(''iface_id'', J_Str (ni_iface_id i)), (''host_dev_name'', J_Str (ni_host_dev_name i))] @
      opt_field ''guest_mac'' (ni_guest_mac i))"

definition vsock_json :: "vsock \<Rightarrow> jval" where
  "vsock_json v = J_Obj
     [(''vsock_id'', J_Str (vs_vsock_id v)), (''guest_cid'', J_Int (vs_guest_cid v)),
      (''uds_path'', J_Str (vs_uds_path v))]"

section \<open>The environment and the world\<close>

text \<open>
  A response with what its \<open>json()\<close> gives (\<open>None\<close>: it raises) and its text; how a process takes
  a SIGTERM: it is gone already, exits in time, does not, or the wait is cancelled.
\<close>

record http_response =
  hr_status :: int
  hr_json :: "jval option"
  hr_text :: string

record vm_request =
  rq_method :: string
  rq_path :: string
  rq_body :: "jval option"
  rq_timeout :: time

datatype term_outcome = Gone int | Exits int | Ignores | Interrupted

datatype probe_outcome = Probe_Raises exn | Probe_Silent | Probe_Exit int string string

datatype proc_state = Alive | Exited int

record 'w vm_env =
  ve_version :: "string \<Rightarrow> probe_outcome"
  ve_spawn :: "string list \<Rightarrow> fs \<Rightarrow> unit result \<times> fs"
  ve_http :: "nat \<Rightarrow> vm_request \<Rightarrow> fs \<Rightarrow> http_response result \<times> fs"
  ve_connect :: "nat \<Rightarrow> string \<Rightarrow> int result"
  ve_sleep :: "nat \<Rightarrow> time result"
  ve_term :: "nat \<Rightarrow> term_outcome"
  ve_vsock :: "string \<Rightarrow> nat \<Rightarrow> 'w transport"
  ve_client :: client_env
  ve_agent_bytes :: string

record 'w vm_world =
  vw_host :: host
  vw_procs :: "proc_state list"
  vw_requests :: "vm_request list"
  vw_connects :: nat
  vw_sleeps :: nat
  vw_terms :: nat
  vw_guest :: 'w

definition vw_fs :: "'w vm_world \<Rightarrow> fs" where
  "vw_fs w = h_fs (vw_host w)"

definition set_vw_fs :: "fs \<Rightarrow> 'w vm_world \<Rightarrow> 'w vm_world" where
  "set_vw_fs f w = w\<lparr>vw_host := (vw_host w)\<lparr>h_fs := f\<rparr>\<rparr>"

text \<open>\<open>asyncio.sleep\<close>: it takes the given time and whatever the environment adds.\<close>

definition nap :: "'w vm_env \<Rightarrow> time \<Rightarrow> 'w vm_world \<Rightarrow> unit result \<times> 'w vm_world" where
  "nap env d w =
     (case ve_sleep env (vw_sleeps w) of
        Inl e \<Rightarrow> (Inl e, w\<lparr>vw_sleeps := Suc (vw_sleeps w)\<rparr>)
      | Inr extra \<Rightarrow>
          (Inr (), w\<lparr>vw_sleeps := Suc (vw_sleeps w),
                     vw_host := (vw_host w)\<lparr>h_mono := h_mono (vw_host w) + d + max 0 extra\<rparr>\<rparr>))"

text \<open>Steps that may raise, one after the other.\<close>

fun run_steps :: "('s \<Rightarrow> unit result \<times> 's) list \<Rightarrow> 's \<Rightarrow> unit result \<times> 's" where
  "run_steps [] s = (Inr (), s)"
| "run_steps (f # fs) s = (case f s of (Inl e, s1) \<Rightarrow> (Inl e, s1) | (Inr _, s1) \<Rightarrow> run_steps fs s1)"

lemma run_steps_append:
  "run_steps (fs @ gs) s = (case run_steps fs s of (Inl e, s1) \<Rightarrow> (Inl e, s1) | (Inr _, s1) \<Rightarrow> run_steps gs s1)"
  by (induction fs arbitrary: s) (auto split: prod.splits sum.splits)

section \<open>The client\<close>

record fc_api =
  fa_api_socket :: string
  fa_request_timeout :: time
  fa_client_open :: bool

definition api_init :: "string \<Rightarrow> fc_api" where
  "api_init api_socket = \<lparr>fa_api_socket = api_socket, fa_request_timeout = 5, fa_client_open = False\<rparr>"

definition ensure_client :: "fc_api \<Rightarrow> fc_api" where
  "ensure_client api = (if \<not> fa_client_open api then api\<lparr>fa_client_open := True\<rparr> else api)"

definition api_aclose :: "fc_api \<Rightarrow> fc_api" where
  "api_aclose api = (if fa_client_open api then api\<lparr>fa_client_open := False\<rparr> else api)"

definition py_or :: "jval \<Rightarrow> jval \<Rightarrow> jval" where
  "py_or a b = (if truthy a then a else b)"

definition fault_message :: "client_env \<Rightarrow> http_response \<Rightarrow> string" where
  "fault_message ce resp =
     (case hr_json resp of
        None \<Rightarrow> if hr_text resp \<noteq> [] then hr_text resp else ''unknown''
      | Some (J_Obj body) \<Rightarrow>
          py_str ce (py_or (jget body ''fault_message'') (py_or (jget body ''error'') (J_Obj body)))
      | Some _ \<Rightarrow> ''unknown'')"

definition fc_api_error :: "int \<Rightarrow> string \<Rightarrow> exn" where
  "fc_api_error status_code fault =
     OtherError (''FirecrackerApiError: Firecracker API error: HTTP '' @ show_int status_code @ '': '' @ fault)"

definition http_ok :: "http_response \<Rightarrow> bool" where
  "http_ok resp \<longleftrightarrow> 200 \<le> hr_status resp \<and> hr_status resp < 300"

definition api_request ::
  "'w vm_env \<Rightarrow> string \<Rightarrow> string \<Rightarrow> jval option \<Rightarrow> time option \<Rightarrow> fc_api \<times> 'w vm_world \<Rightarrow>
   http_response result \<times> fc_api \<times> 'w vm_world" where
  "api_request env meth path json timeout x =
     (case x of (api0, w) \<Rightarrow>
      let api = ensure_client api0;
          rq = \<lparr>rq_method = meth, rq_path = path, rq_body = json,
                rq_timeout = (case timeout of None \<Rightarrow> fa_request_timeout api | Some t \<Rightarrow> t)\<rparr>
      in case ve_http env (length (vw_requests w)) rq (vw_fs w) of
           (r, f) \<Rightarrow>
             (let w1 = set_vw_fs f w\<lparr>vw_requests := vw_requests w @ [rq]\<rparr> in
              case r of
                Inl e \<Rightarrow> (Inl e, api, w1)
              | Inr resp \<Rightarrow>
                  if http_ok resp then (Inr resp, api, w1)
                  else (Inl (fc_api_error (hr_status resp) (fault_message (ve_client env) resp)), api, w1)))"

text \<open>An endpoint that sends a body and returns nothing.\<close>

definition api_send ::
  "'w vm_env \<Rightarrow> string \<Rightarrow> string \<Rightarrow> jval \<Rightarrow> fc_api \<times> 'w vm_world \<Rightarrow> unit result \<times> fc_api \<times> 'w vm_world" where
  "api_send env meth path body x =
     (case api_request env meth path (Some body) None x of
        (Inl e, x1) \<Rightarrow> (Inl e, x1)
      | (Inr _, x1) \<Rightarrow> (Inr (), x1))"

text \<open>An endpoint whose response is read as JSON.\<close>

definition api_fetch ::
  "'w vm_env \<Rightarrow> string \<Rightarrow> fc_api \<times> 'w vm_world \<Rightarrow> jval result \<times> fc_api \<times> 'w vm_world" where
  "api_fetch env path x =
     (case api_request env ''GET'' path None None x of
        (Inl e, x1) \<Rightarrow> (Inl e, x1)
      | (Inr resp, x1) \<Rightarrow> ((case hr_json resp of None \<Rightarrow> Inl ValueError | Some v \<Rightarrow> Inr v), x1))"

record instance_info =
  ii_state :: string
  ii_vmm_version :: string

definition describe :: "'w vm_env \<Rightarrow> fc_api \<times> 'w vm_world \<Rightarrow> instance_info result \<times> fc_api \<times> 'w vm_world" where
  "describe env x =
     (case api_fetch env ''/'' x of
        (Inl e, x1) \<Rightarrow> (Inl e, x1)
      | (Inr v, x1) \<Rightarrow>
          (case as_dict v of
             Inl e \<Rightarrow> (Inl e, x1)
           | Inr body \<Rightarrow>
               (Inr \<lparr>ii_state = py_str (ve_client env) (jget_or body ''state'' (J_Str ''Unknown'')),
                     ii_vmm_version = py_str (ve_client env) (jget_or body ''vmm_version'' (J_Str ''unknown''))\<rparr>, x1)))"

definition get_vm_state :: "'w vm_env \<Rightarrow> fc_api \<times> 'w vm_world \<Rightarrow> string result \<times> fc_api \<times> 'w vm_world" where
  "get_vm_state env x =
     (case api_fetch env ''/vm'' x of
        (Inl e, x1) \<Rightarrow> (Inl e, x1)
      | (Inr v, x1) \<Rightarrow>
          (case as_dict v of
             Inl e \<Rightarrow> (Inl e, x1)
           | Inr body \<Rightarrow> (Inr (py_str (ve_client env) (jget_or body ''state'' (J_Str ''Unknown''))), x1)))"

definition get_vm_config :: "'w vm_env \<Rightarrow> fc_api \<times> 'w vm_world \<Rightarrow> jval result \<times> fc_api \<times> 'w vm_world" where
  "get_vm_config env = api_fetch env ''/vm/config''"

definition pause_vm :: "'w vm_env \<Rightarrow> fc_api \<times> 'w vm_world \<Rightarrow> unit result \<times> fc_api \<times> 'w vm_world" where
  "pause_vm env = api_send env ''PATCH'' ''/vm'' (J_Obj [(''state'', J_Str ''Paused'')])"

definition resume_vm :: "'w vm_env \<Rightarrow> fc_api \<times> 'w vm_world \<Rightarrow> unit result \<times> fc_api \<times> 'w vm_world" where
  "resume_vm env = api_send env ''PATCH'' ''/vm'' (J_Obj [(''state'', J_Str ''Resumed'')])"

definition put_boot_source ::
  "'w vm_env \<Rightarrow> boot_source \<Rightarrow> fc_api \<times> 'w vm_world \<Rightarrow> unit result \<times> fc_api \<times> 'w vm_world" where
  "put_boot_source env boot = api_send env ''PUT'' ''/boot-source'' (boot_source_json boot)"

definition put_machine_config ::
  "'w vm_env \<Rightarrow> machine_config \<Rightarrow> fc_api \<times> 'w vm_world \<Rightarrow> unit result \<times> fc_api \<times> 'w vm_world" where
  "put_machine_config env cfg = api_send env ''PUT'' ''/machine-config'' (machine_config_json cfg)"

definition put_drive ::
  "'w vm_env \<Rightarrow> drive \<Rightarrow> fc_api \<times> 'w vm_world \<Rightarrow> unit result \<times> fc_api \<times> 'w vm_world" where
  "put_drive env d = api_send env ''PUT'' (''/drives/'' @ dr_drive_id d) (drive_json d)"

definition patch_drive ::
  "'w vm_env \<Rightarrow> string \<Rightarrow> string \<Rightarrow> fc_api \<times> 'w vm_world \<Rightarrow> unit result \<times> fc_api \<times> 'w vm_world" where
  "patch_drive env drive_id path_on_host =
     api_send env ''PATCH'' (''/drives/'' @ drive_id) (J_Obj [(''path_on_host'', J_Str path_on_host)])"

definition put_network_interface ::
  "'w vm_env \<Rightarrow> network_interface \<Rightarrow> fc_api \<times> 'w vm_world \<Rightarrow> unit result \<times> fc_api \<times> 'w vm_world" where
  "put_network_interface env i =
     api_send env ''PUT'' (''/network-interfaces/'' @ ni_iface_id i) (network_interface_json i)"

definition put_vsock ::
  "'w vm_env \<Rightarrow> vsock \<Rightarrow> fc_api \<times> 'w vm_world \<Rightarrow> unit result \<times> fc_api \<times> 'w vm_world" where
  "put_vsock env v = api_send env ''PUT'' ''/vsock'' (vsock_json v)"

definition vm_action ::
  "string \<Rightarrow> 'w vm_env \<Rightarrow> fc_api \<times> 'w vm_world \<Rightarrow> unit result \<times> fc_api \<times> 'w vm_world" where
  "vm_action kind env = api_send env ''PUT'' ''/actions'' (J_Obj [(''action_type'', J_Str kind)])"

definition start_instance :: "'w vm_env \<Rightarrow> fc_api \<times> 'w vm_world \<Rightarrow> unit result \<times> fc_api \<times> 'w vm_world" where
  "start_instance = vm_action ''InstanceStart''"

definition send_ctrl_alt_del :: "'w vm_env \<Rightarrow> fc_api \<times> 'w vm_world \<Rightarrow> unit result \<times> fc_api \<times> 'w vm_world" where
  "send_ctrl_alt_del = vm_action ''SendCtrlAltDel''"

definition flush_metrics :: "'w vm_env \<Rightarrow> fc_api \<times> 'w vm_world \<Rightarrow> unit result \<times> fc_api \<times> 'w vm_world" where
  "flush_metrics = vm_action ''FlushMetrics''"

definition put_logger ::
  "'w vm_env \<Rightarrow> string \<Rightarrow> string \<Rightarrow> bool \<Rightarrow> bool \<Rightarrow> fc_api \<times> 'w vm_world \<Rightarrow>
   unit result \<times> fc_api \<times> 'w vm_world" where
  "put_logger env log_path level show_level show_log_origin =
     api_send env ''PUT'' ''/logger'' (J_Obj
       [(''log_path'', J_Str log_path), (''level'', J_Str level),
        (''show_level'', J_Bool show_level), (''show_log_origin'', J_Bool show_log_origin)])"

section \<open>Waiting for the socket\<close>

function wait_for_socket_from ::
  "'w vm_env \<Rightarrow> string \<Rightarrow> time \<Rightarrow> 'w vm_world \<Rightarrow> unit result \<times> 'w vm_world" where
  "wait_for_socket_from env socket_path deadline w =
     (if h_mono (vw_host w) < deadline then
        (let w1 = w\<lparr>vw_connects := Suc (vw_connects w)\<rparr> in
         case ve_connect env (vw_connects w) socket_path of
           Inl e \<Rightarrow> (Inl e, w1)
         | Inr err \<Rightarrow>
             if err = 0 then (Inr (), w1)
             else (case nap env (1 / 20) w1 of
               (Inl e, w2) \<Rightarrow> (Inl e, w2)
             | (Inr _, w2) \<Rightarrow> wait_for_socket_from env socket_path deadline w2))
      else (Inl TimeoutError, w))"
  by pat_completeness auto

lemma nap_later: "nap env d w = (Inr u, w') \<Longrightarrow> h_mono (vw_host w) + d \<le> h_mono (vw_host w')"
  by (auto simp: nap_def split: sum.splits)

text \<open>How many sleeps of length \<open>d\<close> fit before the deadline.\<close>

definition rounds :: "time \<Rightarrow> time \<Rightarrow> nat" where
  "rounds d left = nat \<lceil>left / d\<rceil>"

lemma rounds_less: "0 < d \<Longrightarrow> 0 < left \<Longrightarrow> left' \<le> left - d \<Longrightarrow> rounds d left' < rounds d left"
proof -
  assume d: "0 < d" and left: "0 < left" "left' \<le> left - d"
  then have "left' / d \<le> left / d - 1"
    by (simp add: field_simps)
  then have "\<lceil>left' / d\<rceil> \<le> \<lceil>left / d\<rceil> - 1" by linarith
  moreover have "0 < \<lceil>left / d\<rceil>" using d left by simp
  ultimately show ?thesis by (simp add: rounds_def)
qed

termination wait_for_socket_from
proof (relation "measure (\<lambda>(env, p, deadline, w). rounds (1 / 20) (deadline - h_mono (vw_host w)))", simp, goal_cases)
  case (1 env p deadline w w1 err r w2 u)
  then have "h_mono (vw_host w) + 1 / 20 \<le> h_mono (vw_host w2)"
    using nap_later [of env "1 / 20" w1 u w2] by auto
  with 1 show ?case by (auto intro!: rounds_less)
qed

declare wait_for_socket_from.simps [simp del]

definition default_api_ready_timeout :: time where
  "default_api_ready_timeout = 5"

definition wait_for_socket ::
  "'w vm_env \<Rightarrow> string \<Rightarrow> time \<Rightarrow> 'w vm_world \<Rightarrow> unit result \<times> 'w vm_world" where
  "wait_for_socket env socket_path timeout w =
     wait_for_socket_from env socket_path (h_mono (vw_host w) + timeout) w"

section \<open>The process\<close>

record fc_process =
  fp_pid :: nat
  fp_api_socket :: string
  fp_vsock_uds :: "string option"
  fp_stdout_task :: bool
  fp_stdout_buffer :: string

text \<open>The drain task: what \<open>stdout.read(4096)\<close> returned, up to the first empty piece.\<close>

definition stdout_limit :: nat where
  "stdout_limit = 65536"

definition drain_chunk :: "string \<Rightarrow> string \<Rightarrow> string" where
  "drain_chunk buf chunk =
     (let b = buf @ chunk
      in if stdout_limit < length b then drop (length b - stdout_limit) b else b)"

fun drain :: "string list \<Rightarrow> string \<Rightarrow> string" where
  "drain [] buf = buf"
| "drain (chunk # chunks) buf = (if chunk = [] then buf else drain chunks (drain_chunk buf chunk))"

text \<open>\<open>buffer[-n:]\<close>: with \<open>n = 0\<close> it is the whole buffer.\<close>

definition tail_slice :: "nat \<Rightarrow> string \<Rightarrow> string" where
  "tail_slice n buf = (if n = 0 then buf else drop (length buf - n) buf)"

definition tail_stdout :: "nat \<Rightarrow> fc_process \<Rightarrow> string" where
  "tail_stdout n p = (if fp_stdout_buffer p = [] then [] else tail_slice n (fp_stdout_buffer p))"

definition py_unlink :: "path \<Rightarrow> fs \<Rightarrow> unit result \<times> fs" where
  "py_unlink p f =
     (case fs_lookup f p of
        None \<Rightarrow> (Inl (fs_missing f p), f)
      | Some DirE \<Rightarrow> (Inl OSError, f)
      | Some (FileE _) \<Rightarrow> (Inr (), fs_unlink p f))"

definition spawn_command ::
  "string \<Rightarrow> string \<Rightarrow> string option \<Rightarrow> string \<Rightarrow> int \<Rightarrow> string list \<Rightarrow> string list" where
  "spawn_command api_socket firecracker_bin log_path log_level seccomp_level extra_args =
     [firecracker_bin, ''--api-sock'', api_socket, ''--seccomp-level'', show_int seccomp_level,
      ''--level'', log_level] @
     (case log_path of None \<Rightarrow> [] | Some p \<Rightarrow> [''--log-path'', p]) @ extra_args"

definition drain_task :: "string list \<Rightarrow> fc_process \<Rightarrow> fc_process" where
  "drain_task chunks p = p\<lparr>fp_stdout_buffer := drain chunks (fp_stdout_buffer p)\<rparr>"

definition remove_stale :: "path \<Rightarrow> fs \<Rightarrow> unit result \<times> fs" where
  "remove_stale p f =
     (case py_unlink p f of
        (Inl e, f1) \<Rightarrow> (if e = FileNotFoundError then Inr () else Inl e, f1)
      | (Inr _, f1) \<Rightarrow> (Inr (), f1))"

definition spawn_firecracker ::
  "'w vm_env \<Rightarrow> string \<Rightarrow> string \<Rightarrow> string option \<Rightarrow> string \<Rightarrow> int \<Rightarrow> string list \<Rightarrow> 'w vm_world \<Rightarrow>
   fc_process result \<times> 'w vm_world" where
  "spawn_firecracker env api_socket firecracker_bin log_path log_level seccomp_level extra_args w =
     (case remove_stale (fs_path api_socket) (vw_fs w) of
        (Inl e, f1) \<Rightarrow> (Inl e, set_vw_fs f1 w)
      | (Inr _, f1) \<Rightarrow>
          (case fs_makedirs (fs_path (path_dirname api_socket)) f1 of
             (Inl e, f2) \<Rightarrow> (Inl e, set_vw_fs f2 w)
           | (Inr _, f2) \<Rightarrow>
               (case ve_spawn env
                       (spawn_command api_socket firecracker_bin log_path log_level seccomp_level extra_args) f2 of
                  (Inl e, f3) \<Rightarrow> (Inl e, set_vw_fs f3 w)
                | (Inr _, f3) \<Rightarrow>
                    (Inr \<lparr>fp_pid = length (vw_procs w), fp_api_socket = api_socket, fp_vsock_uds = None,
                          fp_stdout_task = True, fp_stdout_buffer = []\<rparr>,
                     set_vw_fs f3 w\<lparr>vw_procs := vw_procs w @ [Alive]\<rparr>))))"

text \<open>
  Ending a process: the drain task is cancelled; a process that has not exited gets a SIGTERM and,
  when it outlives the time-out, a SIGKILL (exit code -9).
\<close>

definition reap_firecracker ::
  "'w vm_env \<Rightarrow> fc_process \<Rightarrow> 'w vm_world \<Rightarrow> unit result \<times> fc_process \<times> 'w vm_world" where
  "reap_firecracker env p w =
     (let p1 = p\<lparr>fp_stdout_task := False\<rparr>; pid = fp_pid p;
          w1 = w\<lparr>vw_terms := Suc (vw_terms w)\<rparr>
      in if vw_procs w ! pid \<noteq> Alive then (Inr (), p1, w)
         else (case ve_term env (vw_terms w) of
             Gone c \<Rightarrow> (Inr (), p1, w1\<lparr>vw_procs := (vw_procs w)[pid := Exited c]\<rparr>)
           | Exits c \<Rightarrow> (Inr (), p1, w1\<lparr>vw_procs := (vw_procs w)[pid := Exited c]\<rparr>)
           | Ignores \<Rightarrow> (Inr (), p1, w1\<lparr>vw_procs := (vw_procs w)[pid := Exited (- 9)]\<rparr>)
           | Interrupted \<Rightarrow> (Inl CancelledError, p1, w1)))"

end
