(* ===== verification/Micro_VM.thy ===== *)
theory Micro_VM
  imports Firecracker_Api
begin

text \<open>
  \<open>_firecracker/_workspace.py\<close>: the workspace in a microVM. Provisioning spawns a Firecracker
  process, configures and boots the machine over its HTTP interface, and waits for the guest
  agent (\<open>Guest_Protocol\<close>); tearing down asks the guest to shut down, ends the process and removes
  the sockets.

  A step of the provisioning acts on the workspace and the world and may raise; which failures
  tear down what was built is where each step says it.
\<close>

section \<open>State\<close>

definition container_workdir :: string where
  "container_workdir = ''/workspace''"

definition default_firecracker_bin :: string where
  "default_firecracker_bin = ''firecracker''"

record fc_config =
  fg_workspace_id :: string
  fg_bin :: string
  fg_kernel_path :: string
  fg_rootfs_path :: string
  fg_boot_args :: string
  fg_vcpu_count :: int
  fg_mem_size_mib :: int
  fg_guest_cid :: int
  fg_guest_agent_port :: nat
  fg_gateway_port :: int
  fg_run_dir :: string
  fg_env :: "(string, string) dict"
  fg_extra_pip :: "string list"
  fg_default_mcps :: "string list"
  fg_skill_paths :: "string list"
  fg_seccomp_level :: int
  fg_log_level :: string

record fc_workspace =
  fw_config :: fc_config
  fw_process :: "fc_process option"
  fw_api :: "fc_api option"
  fw_backend :: "fc_backend option"
  fw_vm_dir :: string
  fw_api_socket :: string
  fw_vsock_uds :: string
  fw_log_path :: string
  fw_boot_started :: "time option"
  fw_boot_finished :: "time option"
  fw_agent_path :: "string option"

definition fc_workspace_init :: "fc_config \<Rightarrow> fc_workspace" where
  "fc_workspace_init cfg =
     \<lparr>fw_config = cfg, fw_process = None, fw_api = None, fw_backend = None, fw_vm_dir = [],
      fw_api_socket = [], fw_vsock_uds = [], fw_log_path = [], fw_boot_started = None,
      fw_boot_finished = None, fw_agent_path = None\<rparr>"

type_synonym 'w vm = "fc_workspace \<times> 'w vm_world"

section \<open>Tearing down\<close>

text \<open>\<open>except Exception\<close> lets a cancellation through.\<close>

definition swallow :: "unit result \<Rightarrow> unit result" where
  "swallow r = (if r = Inl CancelledError then r else Inr ())"

definition drop_socket :: "string \<Rightarrow> fs \<Rightarrow> fs" where
  "drop_socket p f = (if p \<noteq> [] then snd (py_unlink (fs_path p) f) else f)"

definition shutdown_guest :: "'w vm_env \<Rightarrow> 'w vm \<Rightarrow> unit result \<times> 'w vm" where
  "shutdown_guest env x =
     (case x of (ws, w) \<Rightarrow>
      case fw_api ws of
        None \<Rightarrow> (Inr (), x)
      | Some api \<Rightarrow>
          (case send_ctrl_alt_del env (api, w) of
             (r, api1, w1) \<Rightarrow> (swallow r, ws\<lparr>fw_api := Some api1\<rparr>, w1)))"

definition reap_process :: "'w vm_env \<Rightarrow> 'w vm \<Rightarrow> unit result \<times> 'w vm" where
  "reap_process env x =
     (case x of (ws, w) \<Rightarrow>
      case fw_process ws of
        None \<Rightarrow> (Inr (), x)
      | Some p \<Rightarrow>
          (case reap_firecracker env p w of
             (r, p1, w1) \<Rightarrow> (swallow r, ws\<lparr>fw_process := Some p1\<rparr>, w1)))"

definition forget_runtime :: "'w vm \<Rightarrow> unit result \<times> 'w vm" where
  "forget_runtime x =
     (case x of (ws, w) \<Rightarrow>
      (Inr (), ws\<lparr>fw_api := None, fw_process := None, fw_backend := None\<rparr>,
       set_vw_fs (drop_socket (fw_vsock_uds ws) (drop_socket (fw_api_socket ws) (vw_fs w))) w))"

definition teardown_vm :: "'w vm_env \<Rightarrow> 'w vm \<Rightarrow> unit result \<times> 'w vm" where
  "teardown_vm env = run_steps [shutdown_guest env, reap_process env, forget_runtime]"

section \<open>Is there a hypervisor\<close>

definition kvm_device :: path where
  "kvm_device = [''dev'', ''kvm'']"

definition verify_firecracker :: "'w vm_env \<Rightarrow> fs \<Rightarrow> unit result" where
  "verify_firecracker env f =
     (case ve_version env default_firecracker_bin of
        Probe_Raises e \<Rightarrow> Inl e
      | Probe_Silent \<Rightarrow> Inl RuntimeError
      | Probe_Exit c out err \<Rightarrow>
          if c \<noteq> 0 then Inl RuntimeError
          else if \<not> fs_exists f kvm_device then Inl RuntimeError
          else Inr ())"

section \<open>Provisioning\<close>

definition verify_step :: "'w vm_env \<Rightarrow> 'w vm \<Rightarrow> unit result \<times> 'w vm" where
  "verify_step env x = (verify_firecracker env (vw_fs (snd x)), x)"

definition scratch_step :: "'w vm \<Rightarrow> unit result \<times> 'w vm" where
  "scratch_step x =
     (case x of (ws, w) \<Rightarrow>
      let dir = path_join (fg_run_dir (fw_config ws)) (fg_workspace_id (fw_config ws)) in
      case fs_makedirs (fs_path dir) (vw_fs w) of
        (Inl e, f) \<Rightarrow> (Inl e, ws\<lparr>fw_vm_dir := dir\<rparr>, set_vw_fs f w)
      | (Inr _, f) \<Rightarrow>
          (Inr (), ws\<lparr>fw_vm_dir := dir, fw_api_socket := path_join dir ''api.sock'',
             fw_vsock_uds := path_join dir ''vsock.sock'',
             fw_log_path := path_join dir ''firecracker.log''\<rparr>, set_vw_fs f w))"

definition spawn_step :: "'w vm_env \<Rightarrow> 'w vm \<Rightarrow> unit result \<times> 'w vm" where
  "spawn_step env x =
     (case x of (ws, w) \<Rightarrow>
      let cfg = fw_config ws in
      case spawn_firecracker env (fw_api_socket ws) (fg_bin cfg) (Some (fw_log_path ws))
             (fg_log_level cfg) (fg_seccomp_level cfg) [] w of
        (Inl e, w1) \<Rightarrow> (Inl e, ws, w1)
      | (Inr p, w1) \<Rightarrow> (Inr (), ws\<lparr>fw_process := Some p\<rparr>, w1))"

text \<open>
  Tearing down before raising. The message of the two time-out handlers quotes the output of
  \<open>self._process\<close>, after the teardown.
\<close>

definition raise_after_teardown :: "'w vm_env \<Rightarrow> exn \<Rightarrow> 'w vm \<Rightarrow> unit result \<times> 'w vm" where
  "raise_after_teardown env e x =
     (case teardown_vm env x of (Inl e1, x1) \<Rightarrow> (Inl e1, x1) | (Inr _, x1) \<Rightarrow> (Inl e, x1))"

definition process_report :: "nat \<Rightarrow> fc_workspace \<Rightarrow> string result" where
  "process_report n ws =
     (case fw_process ws of
        None \<Rightarrow> Inl (OtherError ''AttributeError'')
      | Some p \<Rightarrow> Inr (tail_stdout n p))"

definition report_timeout :: "'w vm_env \<Rightarrow> nat \<Rightarrow> 'w vm \<Rightarrow> unit result \<times> 'w vm" where
  "report_timeout env n x =
     (case teardown_vm env x of
        (Inl e, x1) \<Rightarrow> (Inl e, x1)
      | (Inr _, x1) \<Rightarrow>
          (case process_report n (fst x1) of
             Inl e \<Rightarrow> (Inl e, x1)
           | Inr _ \<Rightarrow> (Inl RuntimeError, x1)))"

definition socket_step :: "'w vm_env \<Rightarrow> 'w vm \<Rightarrow> unit result \<times> 'w vm" where
  "socket_step env x =
     (case x of (ws, w) \<Rightarrow>
      case wait_for_socket env (fw_api_socket ws) default_api_ready_timeout w of
        (Inr _, w1) \<Rightarrow> (Inr (), ws, w1)
      | (Inl e, w1) \<Rightarrow>
          if e = TimeoutError then report_timeout env 4096 (ws, w1) else (Inl e, ws, w1))"

text \<open>A call of the client the workspace holds.\<close>

definition with_api ::
  "(fc_api \<times> 'w vm_world \<Rightarrow> unit result \<times> fc_api \<times> 'w vm_world) \<Rightarrow> 'w vm \<Rightarrow> unit result \<times> 'w vm" where
  "with_api call x =
     (case x of (ws, w) \<Rightarrow>
      case fw_api ws of
        None \<Rightarrow> (Inl (OtherError ''AttributeError''), x)
      | Some api \<Rightarrow> (case call (api, w) of (r, api1, w1) \<Rightarrow> (r, ws\<lparr>fw_api := Some api1\<rparr>, w1)))"

definition boot_source_of :: "fc_workspace \<Rightarrow> boot_source" where
  "boot_source_of ws =
     \<lparr>bs_kernel_image_path = fg_kernel_path (fw_config ws), bs_boot_args = fg_boot_args (fw_config ws),
      bs_initrd_path = None\<rparr>"

definition machine_config_of :: "fc_workspace \<Rightarrow> machine_config" where
  "machine_config_of ws =
     \<lparr>mc_vcpu_count = fg_vcpu_count (fw_config ws), mc_mem_size_mib = fg_mem_size_mib (fw_config ws),
      mc_smt = False, mc_cpu_template = None, mc_track_dirty_pages = False\<rparr>"

definition root_drive_of :: "fc_workspace \<Rightarrow> drive" where
  "root_drive_of ws =
     \<lparr>dr_drive_id = ''rootfs'', dr_path_on_host = fg_rootfs_path (fw_config ws),
      dr_is_root_device = True, dr_is_read_only = False, dr_cache_type = ''Writeback''\<rparr>"

definition vsock_of :: "fc_workspace \<Rightarrow> vsock" where
  "vsock_of ws =
     \<lparr>vs_vsock_id = ''vsock0'', vs_guest_cid = fg_guest_cid (fw_config ws), vs_uds_path = fw_vsock_uds ws\<rparr>"

definition mark_boot_start :: "'w vm \<Rightarrow> unit result \<times> 'w vm" where
  "mark_boot_start x =
     (case x of (ws, w) \<Rightarrow>
      (Inr (), ws\<lparr>fw_process := map_option (\<lambda>p. p\<lparr>fp_vsock_uds := Some (fw_vsock_uds ws)\<rparr>) (fw_process ws),
                 fw_boot_started := Some (h_mono (vw_host w))\<rparr>, w))"

definition configure_steps :: "'w vm_env \<Rightarrow> fc_workspace \<Rightarrow> ('w vm \<Rightarrow> unit result \<times> 'w vm) list" where
  "configure_steps env ws =
     [with_api (put_logger env (fw_log_path ws) (fg_log_level (fw_config ws)) False False),
      with_api (put_boot_source env (boot_source_of ws)),
      with_api (put_machine_config env (machine_config_of ws)),
      with_api (put_drive env (root_drive_of ws)),
      with_api (put_vsock env (vsock_of ws)),
      mark_boot_start,
      with_api (start_instance env)]"

definition boot_step :: "'w vm_env \<Rightarrow> 'w vm \<Rightarrow> unit result \<times> 'w vm" where
  "boot_step env x =
     (case x of (ws0, w) \<Rightarrow>
      let ws = ws0\<lparr>fw_api := Some (api_init (fw_api_socket ws0))\<rparr> in
      case run_steps (configure_steps env ws) (ws, w) of
        (Inr _, x1) \<Rightarrow> (Inr (), x1)
      | (Inl e, x1) \<Rightarrow> if e = CancelledError then (Inl e, x1) else raise_after_teardown env e x1)"

text \<open>The back-off between two pings of the guest agent.\<close>

primrec agent_delay :: "nat \<Rightarrow> time" where
  "agent_delay 0 = 1 / 10"
| "agent_delay (Suc k) = min (agent_delay k * (3 / 2)) 1"

lemma agent_delay_bounds: "1 / 10 \<le> agent_delay k \<and> agent_delay k \<le> 1"
  by (induction k) (auto simp: min_def)

function wait_for_agent_from ::
  "'w vm_env \<Rightarrow> 'w transport \<Rightarrow> time \<Rightarrow> nat \<Rightarrow> 'w vm_world \<Rightarrow> unit result \<times> 'w vm_world" where
  "wait_for_agent_from env tp deadline k w =
     (if h_mono (vw_host w) < deadline then
        (case client_ping tp (vw_guest w) of
           (r, g) \<Rightarrow>
             (let w1 = w\<lparr>vw_guest := g\<rparr> in
              if r = Inr True then (Inr (), w1)
              else if r = Inl CancelledError then (Inl CancelledError, w1)
              else (case nap env (agent_delay k) w1 of
                (Inl e, w2) \<Rightarrow> (Inl e, w2)
              | (Inr _, w2) \<Rightarrow> wait_for_agent_from env tp deadline (Suc k) w2)))
      else (Inl TimeoutError, w))"
  by pat_completeness auto

termination wait_for_agent_from
proof (relation "measure (\<lambda>(env, tp, deadline, k, w). rounds (1 / 10) (deadline - h_mono (vw_host w)))", simp, goal_cases)
  case (1 env tp deadline k w r g w1 r' w2 u)
  then have "h_mono (vw_host w) + agent_delay k \<le> h_mono (vw_host w2)"
    using nap_later [of env "agent_delay k" w1 u w2] by auto
  with 1 agent_delay_bounds [of k] show ?case by (auto intro!: rounds_less)
qed

declare wait_for_agent_from.simps [simp del]

definition wait_for_guest_agent :: "'w vm_env \<Rightarrow> time \<Rightarrow> 'w vm \<Rightarrow> unit result \<times> 'w vm" where
  "wait_for_guest_agent env timeout x =
     (case x of (ws, w) \<Rightarrow>
      case wait_for_agent_from env (ve_vsock env (fw_vsock_uds ws) (fg_guest_agent_port (fw_config ws)))
             (h_mono (vw_host w) + timeout) 0 w of
        (r, w1) \<Rightarrow> (r, ws, w1))"

definition agent_step :: "'w vm_env \<Rightarrow> 'w vm \<Rightarrow> unit result \<times> 'w vm" where
  "agent_step env x =
     (case wait_for_guest_agent env 30 x of
        (Inr _, ws, w) \<Rightarrow> (Inr (), ws\<lparr>fw_boot_finished := Some (h_mono (vw_host w))\<rparr>, w)
      | (Inl e, x1) \<Rightarrow>
          if e = TimeoutError then report_timeout env 8192 x1 else (Inl e, x1))"

text \<open>
  The copy of the agent's source that stays behind in the temporary directory
  (\<open>NamedTemporaryFile\<close> with \<open>delete=False\<close>); any failure is logged only.
\<close>

definition temp_dir :: string where
  "temp_dir = ''/tmp''"

fun named_temp_try :: "nat \<Rightarrow> string \<Rightarrow> string \<Rightarrow> string \<Rightarrow> blob \<Rightarrow> host \<Rightarrow> string result \<times> host" where
  "named_temp_try 0 pre sfx dir data h = (Inl OSError, h)"
| "named_temp_try (Suc n) pre sfx dir data h =
     (let name = path_join dir (pre @ h_names h (h_nnames h) @ sfx);
          h1 = h\<lparr>h_nnames := Suc (h_nnames h)\<rparr>;
          p = fs_path name
      in if fs_exists (h_fs h1) p then named_temp_try n pre sfx dir data h1
         else (case fs_write p data (h_fs h1) of
             (Inl e, f) \<Rightarrow> (Inl e, h1\<lparr>h_fs := f\<rparr>)
           | (Inr _, f) \<Rightarrow> (Inr name, h1\<lparr>h_fs := f\<rparr>)))"

definition bootstrap_step :: "'w vm_env \<Rightarrow> 'w vm \<Rightarrow> unit result \<times> 'w vm" where
  "bootstrap_step env x =
     (case x of (ws, w) \<Rightarrow>
      case named_temp_try tmp_max ''as_fc_guest_agent_'' ''.py'' temp_dir (Raw (ve_agent_bytes env)) (vw_host w) of
        (Inl e, h) \<Rightarrow> (Inr (), ws, w\<lparr>vw_host := h\<rparr>)
      | (Inr name, h) \<Rightarrow> (Inr (), ws\<lparr>fw_agent_path := Some name\<rparr>, w\<lparr>vw_host := h\<rparr>))"

definition bind_step :: "'w vm \<Rightarrow> unit result \<times> 'w vm" where
  "bind_step x =
     (case x of (ws, w) \<Rightarrow>
      (Inr (), ws\<lparr>fw_backend := Some (fb_init (fw_vsock_uds ws) (fg_guest_agent_port (fw_config ws))
          container_workdir 30 5)\<rparr>, w))"

definition provision_vm :: "'w vm_env \<Rightarrow> 'w vm \<Rightarrow> unit result \<times> 'w vm" where
  "provision_vm env =
     run_steps [verify_step env, scratch_step, spawn_step env, socket_step env, boot_step env,
                agent_step env, bootstrap_step env, bind_step]"

section \<open>Metrics\<close>

record vm_metrics =
  vx_sandbox_kind :: string
  vx_is_alive :: bool
  vx_workspace_id :: string
  vx_vcpu_count :: int
  vx_mem_size_mib :: int
  vx_guest_cid :: int
  vx_kernel_path :: string
  vx_rootfs_path :: string
  vx_api_socket :: string
  vx_vsock_uds :: string
  vx_boot_time :: "time option"

definition boot_time :: "fc_workspace \<Rightarrow> time option" where
  "boot_time ws =
     (case (fw_boot_finished ws, fw_boot_started ws) of
        (Some b, Some a) \<Rightarrow> Some (b - a)
      | _ \<Rightarrow> None)"

definition vm_metrics_of :: "bool \<Rightarrow> fc_workspace \<Rightarrow> vm_metrics" where
  "vm_metrics_of is_alive ws =
     (let cfg = fw_config ws in
      \<lparr>vx_sandbox_kind = ''firecracker'', vx_is_alive = is_alive, vx_workspace_id = fg_workspace_id cfg,
       vx_vcpu_count = fg_vcpu_count cfg, vx_mem_size_mib = fg_mem_size_mib cfg,
       vx_guest_cid = fg_guest_cid cfg, vx_kernel_path = fg_kernel_path cfg,
       vx_rootfs_path = fg_rootfs_path cfg, vx_api_socket = fw_api_socket ws,
       vx_vsock_uds = fw_vsock_uds ws, vx_boot_time = boot_time ws\<rparr>)"

end
