(* ===== verification/VM_Facts.thy ===== *)
theory VM_Facts
  imports Micro_VM Guest_Facts
begin

text \<open>
  The microVM's provisioning and teardown: what a teardown leaves, what each provisioning step
  keeps, and the loops that wait.
\<close>

section \<open>Environments without cancellation\<close>

text \<open>
  Nothing is cancelled, and an attempt to connect gives an error number (it raises only for a
  path that is too long).
\<close>

definition undisturbed :: "'w vm_env \<Rightarrow> bool" where
  "undisturbed env \<longleftrightarrow>
     (\<forall>n rq f. fst (ve_http env n rq f) \<noteq> Inl CancelledError) \<and>
     (\<forall>n p. is_ok (ve_connect env n p)) \<and> (\<forall>n. is_ok (ve_sleep env n)) \<and>
     (\<forall>n. ve_term env n \<noteq> Interrupted) \<and>
     (\<forall>p port g. fst (client_ping (ve_vsock env p port) g) \<noteq> Inl CancelledError)"

lemma vw_simps [simp]:
  "vw_procs (set_vw_fs f w) = vw_procs w" "vw_requests (set_vw_fs f w) = vw_requests w"
  "vw_fs (set_vw_fs f w) = f" "vw_connects (set_vw_fs f w) = vw_connects w"
  "vw_guest (set_vw_fs f w) = vw_guest w" "h_mono (vw_host (set_vw_fs f w)) = h_mono (vw_host w)"
  by (simp_all add: set_vw_fs_def vw_fs_def)

lemma api_request_world:
  assumes "api_request env m p j t (api, w) = (r, api', w')"
  shows "vw_procs w' = vw_procs w" and "fa_api_socket api' = fa_api_socket api"
    and "fa_request_timeout api' = fa_request_timeout api"
    and "vw_requests w' = vw_requests w @
      [\<lparr>rq_method = m, rq_path = p, rq_body = j,
        rq_timeout = (case t of None \<Rightarrow> fa_request_timeout api | Some x \<Rightarrow> x)\<rparr>]"
    and "h_mono (vw_host w') = h_mono (vw_host w)"
    and "undisturbed env \<Longrightarrow> r \<noteq> Inl CancelledError"
proof -
  let ?api = "ensure_client api"
  let ?rq = "\<lparr>rq_method = m, rq_path = p, rq_body = j,
        rq_timeout = (case t of None \<Rightarrow> fa_request_timeout api | Some x \<Rightarrow> x)\<rparr>"
  obtain a f where h: "ve_http env (length (vw_requests w)) ?rq (vw_fs w) = (a, f)"
    by (cases "ve_http env (length (vw_requests w)) ?rq (vw_fs w)")
  have keep: "fa_api_socket ?api = fa_api_socket api" "fa_request_timeout ?api = fa_request_timeout api"
    by (simp_all add: ensure_client_def)
  have time: "(case t of None \<Rightarrow> fa_request_timeout ?api | Some x \<Rightarrow> x) =
      (case t of None \<Rightarrow> fa_request_timeout api | Some x \<Rightarrow> x)"
    by (cases t) (simp_all add: keep)
  have res: "api' = ?api" "w' = set_vw_fs f w\<lparr>vw_requests := vw_requests w @ [?rq]\<rparr>"
    "r = (case a of Inl e \<Rightarrow> Inl e | Inr resp \<Rightarrow> if http_ok resp then Inr resp
       else Inl (fc_api_error (hr_status resp) (fault_message (ve_client env) resp)))"
    using assms by (auto simp: api_request_def time h Let_def split: sum.splits if_splits)
  show "vw_procs w' = vw_procs w" "fa_api_socket api' = fa_api_socket api"
    "fa_request_timeout api' = fa_request_timeout api" "vw_requests w' = vw_requests w @ [?rq]"
    "h_mono (vw_host w') = h_mono (vw_host w)"
    by (simp_all add: res keep)
  show "r \<noteq> Inl CancelledError" if "undisturbed env"
  proof -
    from that have "fst (ve_http env (length (vw_requests w)) ?rq (vw_fs w)) \<noteq> Inl CancelledError"
      unfolding undisturbed_def by blast
    then show ?thesis by (auto simp: h res(3) fc_api_error_def split: sum.split)
  qed
qed

lemma api_send_world:
  assumes "api_send env m p b (api, w) = (r, api', w')"
  shows "vw_procs w' = vw_procs w" and "fa_api_socket api' = fa_api_socket api"
    and "fa_request_timeout api' = fa_request_timeout api"
    and "vw_requests w' = vw_requests w @
      [\<lparr>rq_method = m, rq_path = p, rq_body = Some b, rq_timeout = fa_request_timeout api\<rparr>]"
    and "h_mono (vw_host w') = h_mono (vw_host w)"
    and "undisturbed env \<Longrightarrow> r \<noteq> Inl CancelledError"
proof -
  obtain a where q: "api_request env m p (Some b) None (api, w) = (a, api', w')"
    and r: "r = (case a of Inl e \<Rightarrow> Inl e | Inr _ \<Rightarrow> Inr ())"
    using assms by (auto simp: api_send_def split: prod.splits sum.splits)
  note Q = api_request_world [OF q]
  from Q(1-5) show "vw_procs w' = vw_procs w" "fa_api_socket api' = fa_api_socket api"
    "fa_request_timeout api' = fa_request_timeout api" "h_mono (vw_host w') = h_mono (vw_host w)"
    "vw_requests w' = vw_requests w @
      [\<lparr>rq_method = m, rq_path = p, rq_body = Some b, rq_timeout = fa_request_timeout api\<rparr>]"
    by simp_all
  show "r \<noteq> Inl CancelledError" if "undisturbed env"
    using Q(6) [OF that] by (auto simp: r split: sum.split)
qed

lemmas api_calls =
  put_logger_def put_boot_source_def put_machine_config_def put_drive_def put_vsock_def
  start_instance_def send_ctrl_alt_del_def vm_action_def

section \<open>What a teardown leaves\<close>

text \<open>One process of this workspace is alive, and after its teardown.\<close>

definition vm_up :: "'v vm_world \<Rightarrow> 'w vm \<Rightarrow> bool" where
  "vm_up w0 x \<longleftrightarrow>
     (\<exists>p. fw_process (fst x) = Some p \<and> fp_pid p = length (vw_procs w0)) \<and>
     vw_procs (snd x) = vw_procs w0 @ [Alive] \<and>
     fw_api_socket (fst x) \<noteq> [] \<and> fw_vsock_uds (fst x) \<noteq> []"

definition sockets_gone :: "'w vm \<Rightarrow> bool" where
  "sockets_gone x \<longleftrightarrow>
     \<not> fs_isfile (vw_fs (snd x)) (fs_path (fw_api_socket (fst x))) \<and>
     \<not> fs_isfile (vw_fs (snd x)) (fs_path (fw_vsock_uds (fst x)))"

definition vm_gone :: "'v vm_world \<Rightarrow> 'w vm \<Rightarrow> bool" where
  "vm_gone w0 x \<longleftrightarrow>
     fw_process (fst x) = None \<and> fw_api (fst x) = None \<and> fw_backend (fst x) = None \<and>
     (\<exists>c. vw_procs (snd x) = vw_procs w0 @ [Exited c]) \<and> sockets_gone x"

lemma drop_socket_gone:
  assumes "\<not> fs_isfile f (fs_path q) \<or> p = q \<and> p \<noteq> []"
  shows "\<not> fs_isfile (drop_socket p f) (fs_path q)"
  using assms
  by (auto simp: drop_socket_def py_unlink_def fs_isfile_def fs_lookup_def fs_unlink_def dict_simps
      split: option.splits entry.splits if_splits)

lemma shutdown_guest_up:
  assumes "vm_up w0 x" and "undisturbed env" and "shutdown_guest env x = (r, x')"
  shows "vm_up w0 x' \<and> r = Inr ()"
  using assms
  by (auto simp: shutdown_guest_def vm_up_def swallow_def api_calls split: option.splits prod.splits
      dest: api_send_world(1) api_send_world(6))

lemma reap_process_up:
  assumes "vm_up w0 x" and "undisturbed env" and "reap_process env x = (r, x')"
  shows "r = Inr () \<and> (\<exists>c. vw_procs (snd x') = vw_procs w0 @ [Exited c]) \<and>
    fw_api_socket (fst x') \<noteq> [] \<and> fw_vsock_uds (fst x') \<noteq> []"
proof -
  obtain ws w where x: "x = (ws, w)" by (cases x)
  from assms(1) x obtain p where p: "fw_process ws = Some p" "fp_pid p = length (vw_procs w0)"
    "vw_procs w = vw_procs w0 @ [Alive]" by (auto simp: vm_up_def)
  have "ve_term env (vw_terms w) \<noteq> Interrupted" using assms(2) by (simp add: undisturbed_def)
  with assms p x show ?thesis
    by (auto simp: reap_process_def reap_firecracker_def Let_def swallow_def vm_up_def
        split: term_outcome.splits prod.splits)
qed

lemma teardown_gone:
  assumes up: "vm_up w0 x" and env: "undisturbed env" and run: "teardown_vm env x = (r, x')"
  shows "r = Inr () \<and> vm_gone w0 x'"
proof -
  obtain r1 x1 where s: "shutdown_guest env x = (r1, x1)" by (cases "shutdown_guest env x")
  obtain r2 ws2 w2 where p: "reap_process env x1 = (r2, ws2, w2)" by (cases "reap_process env x1")
  note S = shutdown_guest_up [OF up env s]
  note R = reap_process_up [OF conjunct1 [OF S] env p]
  let ?f = "drop_socket (fw_vsock_uds ws2) (drop_socket (fw_api_socket ws2) (vw_fs w2))"
  have api: "\<not> fs_isfile ?f (fs_path (fw_api_socket ws2))"
    using R by (intro drop_socket_gone [OF disjI1] drop_socket_gone [OF disjI2]) simp_all
  have uds: "\<not> fs_isfile ?f (fs_path (fw_vsock_uds ws2))"
    using R by (intro drop_socket_gone [OF disjI2]) simp_all
  from run s p S R have "r = Inr ()" "x' = (ws2\<lparr>fw_api := None, fw_process := None, fw_backend := None\<rparr>,
      set_vw_fs ?f w2)"
    by (auto simp: teardown_vm_def forget_runtime_def)
  with R api uds show ?thesis by (auto simp: vm_gone_def sockets_gone_def)
qed

section \<open>Waiting\<close>

lemma nap_simps:
  "nap env d w = (r, w') \<Longrightarrow> vw_procs w' = vw_procs w \<and> vw_requests w' = vw_requests w \<and>
     vw_guest w' = vw_guest w \<and> vw_connects w' = vw_connects w \<and> (is_ok (ve_sleep env (vw_sleeps w)) \<longrightarrow> r = Inr ())"
  by (auto simp: nap_def is_ok_iff split: sum.splits)

lemma wait_for_socket_keeps:
  "wait_for_socket_from env p d w = (r, w') \<Longrightarrow> vw_procs w' = vw_procs w \<and> vw_requests w' = vw_requests w \<and>
     vw_guest w' = vw_guest w \<and> (undisturbed env \<longrightarrow> r \<in> {Inr (), Inl TimeoutError})"
proof (induction env p d w arbitrary: r w' rule: wait_for_socket_from.induct)
  case (1 env p d w)
  let ?w1 = "w\<lparr>vw_connects := Suc (vw_connects w)\<rparr>"
  show ?case
  proof (cases "h_mono (vw_host w) < d")
    case False
    with 1(2) show ?thesis by (simp add: wait_for_socket_from.simps [of env p d w])
  next
    case True
    show ?thesis
    proof (cases "ve_connect env (vw_connects w) p")
      case (Inl e)
      with True 1(2) have "\<not> undisturbed env" by (auto simp: undisturbed_def) (metis is_ok_simps(2))
      with True Inl 1(2) show ?thesis by (auto simp: wait_for_socket_from.simps [of env p d w])
    next
      case (Inr err)
      obtain r2 w2 where n: "nap env (1 / 20) ?w1 = (r2, w2)" by (cases "nap env (1 / 20) ?w1")
      note N = nap_simps [OF n]
      show ?thesis
      proof (cases "err = 0")
        case True
        with \<open>h_mono (vw_host w) < d\<close> Inr 1(2) show ?thesis
          by (auto simp: wait_for_socket_from.simps [of env p d w])
      next
        case nz: False
        show ?thesis
        proof (cases r2)
          case e: (Inl e)
          have "\<not> undisturbed env" using N e by (auto simp: undisturbed_def)
          with True nz Inr n e N 1(2) show ?thesis by (simp add: wait_for_socket_from.simps [of env p d w])
        next
          case u: (Inr u)
          with True nz Inr n 1(2) have "wait_for_socket_from env p d w2 = (r, w')"
            by (simp add: wait_for_socket_from.simps [of env p d w])
          from 1(1) [OF True refl Inr nz n [symmetric] u this] N show ?thesis by simp
        qed
      qed
    qed
  qed
qed

lemma wait_for_agent_keeps:
  "wait_for_agent_from env tp d k w = (r, w') \<Longrightarrow> vw_procs w' = vw_procs w \<and> vw_requests w' = vw_requests w \<and>
     (undisturbed env \<and> (\<forall>g. fst (client_ping tp g) \<noteq> Inl CancelledError) \<longrightarrow> r \<in> {Inr (), Inl TimeoutError})"
proof (induction env tp d k w arbitrary: r w' rule: wait_for_agent_from.induct)
  case (1 env tp d k w)
  obtain rp g where ping: "client_ping tp (vw_guest w) = (rp, g)" by (cases "client_ping tp (vw_guest w)")
  let ?w1 = "w\<lparr>vw_guest := g\<rparr>"
  obtain r2 w2 where n: "nap env (agent_delay k) ?w1 = (r2, w2)" by (cases "nap env (agent_delay k) ?w1")
  note N = nap_simps [OF n]
  show ?case
  proof (cases "h_mono (vw_host w) < d \<and> rp \<noteq> Inr True \<and> rp \<noteq> Inl CancelledError")
    case False
    then have "rp \<noteq> Inl CancelledError \<or> \<not> (\<forall>g. fst (client_ping tp g) \<noteq> Inl CancelledError)"
      using ping by (metis fst_conv)
    with False ping 1(2) show ?thesis by (auto simp: wait_for_agent_from.simps [of env tp d k w] split: if_splits)
  next
    case True
    show ?thesis
    proof (cases r2)
      case e: (Inl e)
      then have "\<not> undisturbed env" using N by (auto simp: undisturbed_def)
      with True ping n e N 1(2) show ?thesis by (simp add: wait_for_agent_from.simps [of env tp d k w])
    next
      case u: (Inr u)
      with True ping n 1(2) have "wait_for_agent_from env tp d (Suc k) w2 = (r, w')"
        by (simp add: wait_for_agent_from.simps [of env tp d k w])
      from 1(1) [OF _ ping [symmetric] refl _ _ n [symmetric] u this] True N show ?thesis by simp
    qed
  qed
qed

section \<open>A sequence of calls\<close>

type_synonym vm_call = "string \<times> string \<times> jval"

definition call_step :: "'w vm_env \<Rightarrow> vm_call \<Rightarrow> 'w vm \<Rightarrow> unit result \<times> 'w vm" where
  "call_step env c = with_api (api_send env (fst c) (fst (snd c)) (snd (snd c)))"

definition call_request :: "time \<Rightarrow> vm_call \<Rightarrow> vm_request" where
  "call_request t c =
     \<lparr>rq_method = fst c, rq_path = fst (snd c), rq_body = Some (snd (snd c)), rq_timeout = t\<rparr>"

lemma call_step_world:
  assumes "call_step env c (ws, w) = (r, ws', w')" and "fw_api ws = Some api"
  shows "\<exists>api'. ws' = ws\<lparr>fw_api := Some api'\<rparr> \<and> fa_request_timeout api' = fa_request_timeout api \<and>
    vw_procs w' = vw_procs w \<and> vw_requests w' = vw_requests w @ [call_request (fa_request_timeout api) c] \<and>
    (undisturbed env \<longrightarrow> r \<noteq> Inl CancelledError)"
proof -
  obtain api' where s: "api_send env (fst c) (fst (snd c)) (snd (snd c)) (api, w) = (r, api', w')"
    and ws': "ws' = ws\<lparr>fw_api := Some api'\<rparr>"
    using assms by (auto simp: call_step_def with_api_def split: prod.splits)
  from api_send_world [OF s] ws' show ?thesis by (auto simp: call_request_def)
qed

lemma calls_world:
  "run_steps (map (call_step env) cs) (ws, w) = (r, ws', w') \<Longrightarrow> fw_api ws = Some api \<Longrightarrow>
   \<exists>api' n. ws' = ws\<lparr>fw_api := Some api'\<rparr> \<and> fa_request_timeout api' = fa_request_timeout api \<and>
    vw_procs w' = vw_procs w \<and>
    vw_requests w' = vw_requests w @ map (call_request (fa_request_timeout api)) (take n cs) \<and>
    (r = Inr () \<longrightarrow> n = length cs) \<and> (undisturbed env \<longrightarrow> r \<noteq> Inl CancelledError)"
proof (induction cs arbitrary: ws w api)
  case Nil
  then show ?case by (intro exI [of _ api] exI [of _ 0]) auto
next
  case (Cons c cs)
  obtain r1 ws1 w1 where one: "call_step env c (ws, w) = (r1, ws1, w1)" by (cases "call_step env c (ws, w)")
  from call_step_world [OF one Cons.prems(2)] obtain api1
    where W: "ws1 = ws\<lparr>fw_api := Some api1\<rparr>" "fa_request_timeout api1 = fa_request_timeout api"
      "vw_procs w1 = vw_procs w" "vw_requests w1 = vw_requests w @ [call_request (fa_request_timeout api) c]"
      "undisturbed env \<longrightarrow> r1 \<noteq> Inl CancelledError" by auto
  show ?case
  proof (cases r1)
    case (Inl e)
    with Cons.prems(1) one W show ?thesis
      by (intro exI [of _ api1] exI [of _ 1]) auto
  next
    case (Inr u)
    with Cons.prems(1) one have "run_steps (map (call_step env) cs) (ws1, w1) = (r, ws', w')" by simp
    from Cons.IH [OF this] W obtain api' n where
      "ws' = ws1\<lparr>fw_api := Some api'\<rparr>" "fa_request_timeout api' = fa_request_timeout api1"
      "vw_procs w' = vw_procs w1" "vw_requests w' = vw_requests w1 @ map (call_request (fa_request_timeout api1)) (take n cs)"
      "r = Inr () \<longrightarrow> n = length cs" "undisturbed env \<longrightarrow> r \<noteq> Inl CancelledError" by auto
    with W show ?thesis by (intro exI [of _ api'] exI [of _ "Suc n"]) auto
  qed
qed

definition configure_calls :: "fc_workspace \<Rightarrow> vm_call list" where
  "configure_calls ws =
     [(''PUT'', ''/logger'', J_Obj [(''log_path'', J_Str (fw_log_path ws)),
         (''level'', J_Str (fg_log_level (fw_config ws))), (''show_level'', J_Bool False),
         (''show_log_origin'', J_Bool False)]),
      (''PUT'', ''/boot-source'', boot_source_json (boot_source_of ws)),
      (''PUT'', ''/machine-config'', machine_config_json (machine_config_of ws)),
      (''PUT'', ''/drives/rootfs'', drive_json (root_drive_of ws)),
      (''PUT'', ''/vsock'', vsock_json (vsock_of ws))]"

definition start_call :: vm_call where
  "start_call = (''PUT'', ''/actions'', J_Obj [(''action_type'', J_Str ''InstanceStart'')])"

lemma configure_steps_calls:
  "configure_steps env ws =
     map (call_step env) (configure_calls ws) @ [mark_boot_start, call_step env start_call]"
  by (simp add: configure_steps_def configure_calls_def start_call_def call_step_def api_calls root_drive_of_def)

lemma boot_step_up:
  assumes up: "vm_up w0 (ws, w)" and run: "boot_step env (ws, w) = (r, ws', w')"
  shows "r = Inr () \<Longrightarrow> vm_up w0 (ws', w') \<and>
      vw_requests w' = vw_requests w @ map (call_request 5) (configure_calls ws @ [start_call]) \<and>
      fw_config ws' = fw_config ws \<and> fw_vsock_uds ws' = fw_vsock_uds ws \<and>
      fw_api_socket ws' = fw_api_socket ws"
    and "undisturbed env \<Longrightarrow> r \<noteq> Inr () \<Longrightarrow> vm_gone w0 (ws', w')"
proof -
  let ?ws = "ws\<lparr>fw_api := Some (api_init (fw_api_socket ws))\<rparr>"
  let ?cs = "map (call_step env) (configure_calls ?ws)"
  have calls: "configure_calls ?ws = configure_calls ws"
    by (simp add: configure_calls_def boot_source_of_def machine_config_of_def root_drive_of_def vsock_of_def)
  have api: "fw_api ?ws = Some (api_init (fw_api_socket ws))" "fa_request_timeout (api_init (fw_api_socket ws)) = 5"
    by (simp_all add: api_init_def)
  obtain r1 ws1 w1 where c: "run_steps ?cs (?ws, w) = (r1, ws1, w1)" by (cases "run_steps ?cs (?ws, w)")
  from calls_world [OF c api(1)] obtain a1 n where
    C: "ws1 = ?ws\<lparr>fw_api := Some a1\<rparr>" "fa_request_timeout a1 = 5" "vw_procs w1 = vw_procs w"
      "vw_requests w1 = vw_requests w @ map (call_request 5) (take n (configure_calls ws))"
      "r1 = Inr () \<longrightarrow> n = length (configure_calls ws)" "undisturbed env \<longrightarrow> r1 \<noteq> Inl CancelledError"
    using api(2) calls by auto
  define ws2 where "ws2 = ws1\<lparr>fw_process := map_option (\<lambda>p. p\<lparr>fp_vsock_uds := Some (fw_vsock_uds ws1)\<rparr>) (fw_process ws1),
                 fw_boot_started := Some (h_mono (vw_host w1))\<rparr>"
  obtain r3 ws3 w3 where s: "call_step env start_call (ws2, w1) = (r3, ws3, w3)"
    by (cases "call_step env start_call (ws2, w1)")
  have "fw_api ws2 = Some a1" by (simp add: ws2_def C(1))
  from call_step_world [OF s this] obtain a3 where
    S: "ws3 = ws2\<lparr>fw_api := Some a3\<rparr>" "vw_procs w3 = vw_procs w1"
      "vw_requests w3 = vw_requests w1 @ [call_request 5 start_call]" "undisturbed env \<longrightarrow> r3 \<noteq> Inl CancelledError"
    using C(2) by auto
  let ?r = "case r1 of Inl e \<Rightarrow> Inl e | Inr _ \<Rightarrow> r3"
  let ?x = "case r1 of Inl e \<Rightarrow> (ws1, w1) | Inr _ \<Rightarrow> (ws3, w3)"
  have steps: "run_steps (configure_steps env ?ws) (?ws, w) = (?r, ?x)"
    unfolding configure_steps_calls run_steps_append c
    using s by (auto simp: mark_boot_start_def ws2_def split: sum.split prod.split)
  have run': "(r, ws', w') = (case ?r of Inr _ \<Rightarrow> (Inr (), ?x)
      | Inl e \<Rightarrow> if e = CancelledError then (Inl e, ?x) else raise_after_teardown env e ?x)"
    using run by (simp add: boot_step_def steps split: sum.splits prod.splits)
  have "vm_up w0 (ws1, w1)" "vm_up w0 (ws3, w3)"
    using up by (auto simp: vm_up_def C S ws2_def)
  then have up': "vm_up w0 ?x" by (simp split: sum.split)
  show "vm_up w0 (ws', w') \<and>
      vw_requests w' = vw_requests w @ map (call_request 5) (configure_calls ws @ [start_call]) \<and>
      fw_config ws' = fw_config ws \<and> fw_vsock_uds ws' = fw_vsock_uds ws \<and> fw_api_socket ws' = fw_api_socket ws"
    if "r = Inr ()"
  proof -
    have r1: "r1 = Inr ()" and r3: "r3 = Inr ()"
      using run' that by (auto simp: raise_after_teardown_def split: sum.splits if_splits prod.splits)
    with run' have "(ws', w') = (ws3, w3)" by simp
    with up' r1 C S show ?thesis by (simp add: ws2_def)
  qed
  show "vm_gone w0 (ws', w')" if env: "undisturbed env" and bad: "r \<noteq> Inr ()"
  proof -
    obtain e where e: "?r = Inl e" using run' bad by (auto split: sum.splits)
    then have "e \<noteq> CancelledError" using C(6) S(4) env by (auto split: sum.splits)
    with run' e have "(r, ws', w') = raise_after_teardown env e ?x" by simp
    moreover obtain r4 x4 where t: "teardown_vm env ?x = (r4, x4)" by (cases "teardown_vm env ?x")
    ultimately show ?thesis using teardown_gone [OF up' env t] by (simp add: raise_after_teardown_def)
  qed
qed

section \<open>The steps around the boot\<close>

lemma report_timeout_gone:
  assumes "vm_up w0 x" and "undisturbed env" and "report_timeout env n x = (r, x')"
  shows "r = Inl (OtherError ''AttributeError'') \<and> vm_gone w0 x'"
proof -
  obtain r1 x1 where t: "teardown_vm env x = (r1, x1)" by (cases "teardown_vm env x")
  from teardown_gone [OF assms(1,2) t] assms(3) t show ?thesis
    by (auto simp: report_timeout_def process_report_def vm_gone_def)
qed

lemma socket_step_up:
  assumes up: "vm_up w0 (ws, w)" and run: "socket_step env (ws, w) = (r, ws', w')"
  shows "r = Inr () \<Longrightarrow> vm_up w0 (ws', w') \<and> vw_requests w' = vw_requests w \<and> ws' = ws"
    and "undisturbed env \<Longrightarrow> r \<noteq> Inr () \<Longrightarrow>
      vm_gone w0 (ws', w') \<and> r = Inl (OtherError ''AttributeError'')"
proof -
  obtain r1 w1 where s: "wait_for_socket env (fw_api_socket ws) default_api_ready_timeout w = (r1, w1)"
    by (cases "wait_for_socket env (fw_api_socket ws) default_api_ready_timeout w")
  have keeps: "vw_procs w1 = vw_procs w" "vw_requests w1 = vw_requests w"
    "undisturbed env \<longrightarrow> r1 \<in> {Inr (), Inl TimeoutError}"
    using wait_for_socket_keeps s [unfolded wait_for_socket_def] by blast+
  have up1: "vm_up w0 (ws, w1)" using up keeps by (simp add: vm_up_def)
  have no: "\<not> (case report_timeout env n x of (r, y) \<Rightarrow> r = Inr ())" for n x
    by (auto simp: report_timeout_def split: prod.splits sum.splits)
  have run': "(r, ws', w') = (case r1 of Inr _ \<Rightarrow> (Inr (), ws, w1)
      | Inl e \<Rightarrow> if e = TimeoutError then report_timeout env 4096 (ws, w1) else (Inl e, ws, w1))"
    using run s by (cases r1) (auto simp: socket_step_def)
  show "vm_up w0 (ws', w') \<and> vw_requests w' = vw_requests w \<and> ws' = ws" if "r = Inr ()"
    using run' that up1 keeps no [of 4096 "(ws, w1)"] by (auto split: sum.splits if_splits prod.splits)
  show "vm_gone w0 (ws', w') \<and> r = Inl (OtherError ''AttributeError'')"
    if env: "undisturbed env" and bad: "r \<noteq> Inr ()"
  proof -
    from run' bad keeps(3) env have "report_timeout env 4096 (ws, w1) = (r, ws', w')"
      by (auto split: sum.splits if_splits)
    from report_timeout_gone [OF up1 env this] show ?thesis by simp
  qed
qed

lemma agent_step_up:
  assumes up: "vm_up w0 (ws, w)" and run: "agent_step env (ws, w) = (r, ws', w')"
  shows "r = Inr () \<Longrightarrow> vm_up w0 (ws', w') \<and> vw_requests w' = vw_requests w \<and>
      ws' = ws\<lparr>fw_boot_finished := Some (h_mono (vw_host w'))\<rparr>"
    and "undisturbed env \<Longrightarrow> r \<noteq> Inr () \<Longrightarrow>
      vm_gone w0 (ws', w') \<and> r = Inl (OtherError ''AttributeError'')"
proof -
  let ?tp = "ve_vsock env (fw_vsock_uds ws) (fg_guest_agent_port (fw_config ws))"
  let ?wait = "wait_for_agent_from env ?tp (h_mono (vw_host w) + 30) 0 w"
  obtain r1 w1 where s: "?wait = (r1, w1)" by (cases ?wait)
  note keeps = wait_for_agent_keeps [OF s]
  have two: "undisturbed env \<longrightarrow> r1 \<in> {Inr (), Inl TimeoutError}"
    using keeps by (simp add: undisturbed_def)
  have up1: "vm_up w0 (ws, w1)" "vm_up w0 (ws\<lparr>fw_boot_finished := Some (h_mono (vw_host w1))\<rparr>, w1)"
    using up keeps by (simp_all add: vm_up_def)
  have no: "\<not> (case report_timeout env n x of (r, y) \<Rightarrow> r = Inr ())" for n x
    by (auto simp: report_timeout_def split: prod.splits sum.splits)
  have run': "(r, ws', w') = (case r1 of Inr _ \<Rightarrow> (Inr (), ws\<lparr>fw_boot_finished := Some (h_mono (vw_host w1))\<rparr>, w1)
      | Inl e \<Rightarrow> if e = TimeoutError then report_timeout env 8192 (ws, w1) else (Inl e, ws, w1))"
    using run s by (cases r1) (auto simp: agent_step_def wait_for_guest_agent_def)
  show "vm_up w0 (ws', w') \<and> vw_requests w' = vw_requests w \<and>
      ws' = ws\<lparr>fw_boot_finished := Some (h_mono (vw_host w'))\<rparr>" if "r = Inr ()"
    using run' that up1 keeps no [of 8192 "(ws, w1)"] by (auto split: sum.splits if_splits prod.splits)
  show "vm_gone w0 (ws', w') \<and> r = Inl (OtherError ''AttributeError'')"
    if env: "undisturbed env" and bad: "r \<noteq> Inr ()"
  proof -
    from run' bad two env have "report_timeout env 8192 (ws, w1) = (r, ws', w')"
      by (auto split: sum.splits if_splits)
    from report_timeout_gone [OF up1(1) env this] show ?thesis by simp
  qed
qed

lemma spawn_step_up:
  assumes none: "fw_process ws = None" and socks: "fw_api_socket ws \<noteq> []" "fw_vsock_uds ws \<noteq> []"
    and run: "spawn_step env (ws, w) = (r, ws', w')"
  shows "r = Inr () \<Longrightarrow> vm_up w (ws', w') \<and> vw_requests w' = vw_requests w \<and>
      (\<exists>p. ws' = ws\<lparr>fw_process := p\<rparr>)"
    and "r \<noteq> Inr () \<Longrightarrow> ws' = ws \<and> vw_procs w' = vw_procs w"
  using run none socks
  by (cases ws, auto simp: spawn_step_def spawn_firecracker_def vm_up_def Let_def split: prod.splits sum.splits)+

lemma scratch_step_effect:
  assumes "scratch_step (ws, w) = (r, ws', w')"
  shows "fw_process ws' = fw_process ws \<and> fw_config ws' = fw_config ws \<and> vw_procs w' = vw_procs w \<and>
    vw_requests w' = vw_requests w \<and>
    (r = Inr () \<longrightarrow> (let dir = path_join (fg_run_dir (fw_config ws)) (fg_workspace_id (fw_config ws)) in
      fw_api_socket ws' = path_join dir ''api.sock'' \<and> fw_vsock_uds ws' = path_join dir ''vsock.sock'' \<and>
      fw_log_path ws' = path_join dir ''firecracker.log''))"
  using assms by (auto simp: scratch_step_def Let_def split: prod.splits sum.splits)

lemma path_join_ne: "b \<noteq> [] \<Longrightarrow> path_join a b \<noteq> []"
  by (simp add: path_join_def)

lemma bootstrap_step_effect:
  "bootstrap_step env (ws, w) = (r, ws', w') \<Longrightarrow> r = Inr () \<and> vw_procs w' = vw_procs w \<and>
     vw_requests w' = vw_requests w \<and> (\<exists>a. ws' = ws\<lparr>fw_agent_path := a\<rparr>)"
  by (cases ws) (auto simp: bootstrap_step_def split: prod.splits sum.splits)

text \<open>
  Provisioning as far as it got: refused before a process was spawned, torn down, or up with the
  requests of a boot sent.
\<close>

definition boot_requests :: "fc_workspace \<Rightarrow> vm_request list" where
  "boot_requests ws = map (call_request 5) (configure_calls ws @ [start_call])"

lemma provision_outcome:
  assumes none: "fw_process ws = None" and run: "provision_vm env (ws, w) = (r, ws', w')"
  shows "(r = Inr () \<and> vm_up w (ws', w') \<and>
      (\<exists>ws1. vw_requests w' = vw_requests w @ boot_requests ws1 \<and> fw_config ws1 = fw_config ws \<and>
         fw_log_path ws1 = path_join (path_join (fg_run_dir (fw_config ws)) (fg_workspace_id (fw_config ws))) ''firecracker.log'' \<and>
         fw_vsock_uds ws1 = fw_vsock_uds ws') \<and>
      fw_config ws' = fw_config ws \<and>
      fw_api_socket ws' = path_join (path_join (fg_run_dir (fw_config ws)) (fg_workspace_id (fw_config ws))) ''api.sock'' \<and>
      fw_vsock_uds ws' = path_join (path_join (fg_run_dir (fw_config ws)) (fg_workspace_id (fw_config ws))) ''vsock.sock'' \<and>
      fw_backend ws' = Some (fb_init (fw_vsock_uds ws') (fg_guest_agent_port (fw_config ws)) container_workdir 30 5)) \<or>
    (r \<noteq> Inr () \<and> fw_process ws' = None \<and> vw_procs w' = vw_procs w) \<or>
    (r \<noteq> Inr () \<and> (undisturbed env \<longrightarrow> vm_gone w (ws', w')))"
proof -
  obtain r1 ws1 w1 where s1: "scratch_step (ws, w) = (r1, ws1, w1)" by (cases "scratch_step (ws, w)")
  note S1 = scratch_step_effect [OF s1]
  obtain r2 ws2 w2 where s2: "spawn_step env (ws1, w1) = (r2, ws2, w2)" by (cases "spawn_step env (ws1, w1)")
  obtain r3 ws3 w3 where s3: "socket_step env (ws2, w2) = (r3, ws3, w3)" by (cases "socket_step env (ws2, w2)")
  obtain r4 ws4 w4 where s4: "boot_step env (ws3, w3) = (r4, ws4, w4)" by (cases "boot_step env (ws3, w3)")
  obtain r5 ws5 w5 where s5: "agent_step env (ws4, w4) = (r5, ws5, w5)" by (cases "agent_step env (ws4, w4)")
  obtain r6 ws6 w6 where s6: "bootstrap_step env (ws5, w5) = (r6, ws6, w6)" by (cases "bootstrap_step env (ws5, w5)")
  note S6 = bootstrap_step_effect [OF s6]
  let ?v = "verify_firecracker env (vw_fs w)"
  have all: "(r, ws', w') = (case ?v of Inl e \<Rightarrow> (Inl e, ws, w) | Inr _ \<Rightarrow>
      case r1 of Inl e \<Rightarrow> (Inl e, ws1, w1) | Inr _ \<Rightarrow>
      case r2 of Inl e \<Rightarrow> (Inl e, ws2, w2) | Inr _ \<Rightarrow>
      case r3 of Inl e \<Rightarrow> (Inl e, ws3, w3) | Inr _ \<Rightarrow>
      case r4 of Inl e \<Rightarrow> (Inl e, ws4, w4) | Inr _ \<Rightarrow>
      case r5 of Inl e \<Rightarrow> (Inl e, ws5, w5) | Inr _ \<Rightarrow> bind_step (ws6, w6))"
    unfolding run [symmetric]
    by (auto simp: provision_vm_def verify_step_def s1 s2 s3 s4 s5 s6 S6 bind_step_def split: sum.split)
  show ?thesis
  proof (cases "is_ok ?v \<and> is_ok r1")
    case False
    with all none S1 show ?thesis by (auto simp: is_ok_iff split: sum.splits)
  next
    case ok1: True
    then have r1: "r1 = Inr ()" and v: "?v = Inr ()" by (auto simp: is_ok_iff)
    have none1: "fw_process ws1 = None" "fw_api_socket ws1 \<noteq> []" "fw_vsock_uds ws1 \<noteq> []"
      using S1 none r1 by (simp_all add: Let_def path_join_ne)
    note S2 = spawn_step_up [OF none1 s2]
    show ?thesis
    proof (cases "r2 = Inr ()")
      case False
      with all v r1 S2(2) none1 S1 show ?thesis by (auto split: sum.splits)
    next
      case r2: True
      have procs: "vm_up w x = vm_up w1 x" "vm_gone w x = vm_gone w1 x" for x :: "'a vm"
        using S1 by (simp_all add: vm_up_def vm_gone_def)
      note U2 = S2(1) [OF r2]
      note S3 = socket_step_up [OF conjunct1 [OF U2] s3]
      show ?thesis
      proof (cases "r3 = Inr ()")
        case False
        with all v r1 r2 S3(2) procs show ?thesis by (auto split: sum.splits)
      next
        case r3: True
        note U3 = S3(1) [OF r3]
        note S4 = boot_step_up [OF conjunct1 [OF U3] s4]
        show ?thesis
        proof (cases "r4 = Inr ()")
          case False
          with all v r1 r2 r3 S4(2) procs show ?thesis by (auto split: sum.splits)
        next
          case r4: True
          note U4 = S4(1) [OF r4]
          note S5 = agent_step_up [OF conjunct1 [OF U4] s5]
          show ?thesis
          proof (cases "r5 = Inr ()")
            case False
            with all v r1 r2 r3 r4 S5(2) procs show ?thesis by (auto split: sum.splits)
          next
            case r5: True
            note U5 = S5(1) [OF r5]
            have end_eq: "r = Inr ()" "w' = w6" "ws' = ws6\<lparr>fw_backend := Some (fb_init (fw_vsock_uds ws6)
                (fg_guest_agent_port (fw_config ws6)) container_workdir 30 5)\<rparr>"
              using all v r1 r2 r3 r4 r5 by (simp_all add: bind_step_def)
            obtain a p where ws6: "ws6 = ws5\<lparr>fw_agent_path := a\<rparr>" and ws2: "ws2 = ws1\<lparr>fw_process := p\<rparr>"
              using S6 U2 by blast
            have ws5: "ws5 = ws4\<lparr>fw_boot_finished := Some (h_mono (vw_host w5))\<rparr>" and ws3: "ws3 = ws2"
              using U5 U3 by blast+
            have keep: "fw_config ws6 = fw_config ws" "fw_api_socket ws6 = fw_api_socket ws1"
              "fw_vsock_uds ws6 = fw_vsock_uds ws1" "fw_log_path ws3 = fw_log_path ws1"
              "fw_config ws3 = fw_config ws" "fw_vsock_uds ws3 = fw_vsock_uds ws1"
              using U4 S1 unfolding ws6 ws5 ws3 ws2 by simp_all
            have up: "vm_up w (ws', w')"
              using conjunct1 [OF U5] conjunct1 [OF conjunct2 [OF S6]]
              unfolding procs end_eq ws6 by (simp add: vm_up_def)
            have reqs: "vw_requests w' = vw_requests w @ boot_requests ws3"
              using U5 U4 U3 U2 S1 S6 unfolding end_eq boot_requests_def by simp
            show ?thesis
              using up reqs keep S1 r1 unfolding end_eq by (auto simp: Let_def intro!: exI [of _ ws3])
          qed
        qed
      qed
    qed
  qed
qed

section \<open>How often the wait tries\<close>

lemma wait_for_socket_from_attempts:
  "wait_for_socket_from env p d w = (r, w') \<Longrightarrow> undisturbed env \<Longrightarrow>
   vw_connects w' \<le> vw_connects w + rounds (1 / 20) (d - h_mono (vw_host w)) \<and>
    (r = Inr () \<and> vw_connects w < vw_connects w' \<and> ve_connect env (vw_connects w' - 1) p = Inr 0 \<and>
       (\<forall>i. vw_connects w \<le> i \<longrightarrow> i < vw_connects w' - 1 \<longrightarrow> ve_connect env i p \<noteq> Inr 0) \<or>
     r = Inl TimeoutError \<and> d \<le> h_mono (vw_host w') \<and>
       (\<forall>i. vw_connects w \<le> i \<longrightarrow> i < vw_connects w' \<longrightarrow> ve_connect env i p \<noteq> Inr 0))"
proof (induction env p d w arbitrary: r w' rule: wait_for_socket_from.induct)
  case (1 env p d w)
  let ?now = "h_mono (vw_host w)"
  let ?w1 = "w\<lparr>vw_connects := Suc (vw_connects w)\<rparr>"
  from 1(3) have "is_ok (ve_connect env (vw_connects w) p)" by (simp add: undisturbed_def)
  then obtain err where c: "ve_connect env (vw_connects w) p = Inr err" by (auto simp: is_ok_iff)
  show ?case
  proof (cases "?now < d \<and> err \<noteq> 0")
    case False
    have "0 < rounds (1 / 20) (d - ?now)" if "?now < d" using that by (simp add: rounds_def)
    with False 1(2) c show ?thesis
      by (auto simp: wait_for_socket_from.simps [of env p d w] split: if_splits)
  next
    case True
    obtain r2 w2 where n: "nap env (1 / 20) ?w1 = (r2, w2)" by (cases "nap env (1 / 20) ?w1")
    have r2: "r2 = Inr ()" using nap_simps [OF n] 1(3) by (simp add: undisturbed_def)
    have later: "?now + 1 / 20 \<le> h_mono (vw_host w2)" using nap_later [of env "1 / 20" ?w1] n r2 by simp
    have rec: "wait_for_socket_from env p d w2 = (r, w')"
      using 1(2) True c n r2 by (simp add: wait_for_socket_from.simps [of env p d w])
    have less: "rounds (1 / 20) (d - h_mono (vw_host w2)) < rounds (1 / 20) (d - ?now)"
      using True later by (intro rounds_less) simp_all
    have con: "vw_connects w2 = Suc (vw_connects w)" using nap_simps [OF n] by simp
    have first: "(\<forall>i. vw_connects w \<le> i \<longrightarrow> i < m \<longrightarrow> ve_connect env i p \<noteq> Inr 0) \<longleftrightarrow>
        (\<forall>i. Suc (vw_connects w) \<le> i \<longrightarrow> i < m \<longrightarrow> ve_connect env i p \<noteq> Inr 0)" for m
    proof -
      have "ve_connect env (vw_connects w) p \<noteq> Inr 0" using c True by simp
      then show ?thesis by (metis Suc_leD Suc_leI le_neq_implies_less)
    qed
    note IH = 1(1) [OF conjunct1 [OF True] refl c conjunct2 [OF True] n [symmetric] r2 rec 1(3), unfolded con]
    show ?thesis unfolding first using IH less by auto
  qed
qed

lemma wait_for_socket_attempts:
  assumes "undisturbed env" and "wait_for_socket_from env p (h_mono (vw_host w) + t) w = (r, w')"
  shows "vw_connects w' \<le> vw_connects w + rounds (1 / 20) t \<and>
    (r = Inr () \<and> vw_connects w < vw_connects w' \<and> ve_connect env (vw_connects w' - 1) p = Inr 0 \<and>
       (\<forall>i. vw_connects w \<le> i \<longrightarrow> i < vw_connects w' - 1 \<longrightarrow> ve_connect env i p \<noteq> Inr 0) \<or>
     r = Inl TimeoutError \<and> h_mono (vw_host w) + t \<le> h_mono (vw_host w') \<and>
       (\<forall>i. vw_connects w \<le> i \<longrightarrow> i < vw_connects w' \<longrightarrow> ve_connect env i p \<noteq> Inr 0))"
  using wait_for_socket_from_attempts [OF assms(2,1)] by simp

section \<open>The output\<close>

definition last_bytes :: "nat \<Rightarrow> string \<Rightarrow> string" where
  "last_bytes n s = drop (length s - n) s"

lemma last_bytes_append: "last_bytes n (last_bytes n s @ t) = last_bytes n (s @ t)"
  by (cases "n \<le> length s") (simp_all add: last_bytes_def add.commute)

lemma drain_chunk_last: "drain_chunk buf chunk = last_bytes stdout_limit (buf @ chunk)"
  by (simp add: drain_chunk_def last_bytes_def Let_def)

lemma drain_exact:
  "drain chunks (last_bytes stdout_limit s) =
     last_bytes stdout_limit (s @ concat (takeWhile (\<lambda>c. c \<noteq> []) chunks))"
  by (induction chunks arbitrary: s) (simp_all add: drain_chunk_last last_bytes_append)


section \<open>Properties\<close>

text \<open>
  C11: a provisioning that raises leaves nothing running: unless it was cancelled (or the socket's
  path is too long to be tried), the Firecracker process it spawned, if it came that far, has
  exited, the workspace holds no process, client or backend, and both sockets are gone.
\<close>

theorem vm_failure_torn_down:
  assumes "undisturbed env" and "fw_process ws = None"
    and "provision_vm env (ws, w) = (Inl e, ws', w')"
  shows "fw_process ws' = None \<and>
    (vw_procs w' = vw_procs w \<or>
     (\<exists>c. vw_procs w' = vw_procs w @ [Exited c]) \<and> fw_api ws' = None \<and> fw_backend ws' = None \<and>
     \<not> fs_isfile (vw_fs w') (fs_path (fw_api_socket ws')) \<and>
     \<not> fs_isfile (vw_fs w') (fs_path (fw_vsock_uds ws')))"
  using provision_outcome [OF assms(2,3)] assms(1) by (auto simp: vm_gone_def sockets_gone_def)

definition example_fc_config :: fc_config where
  "example_fc_config =
     \<lparr>fg_workspace_id = ''w1'', fg_bin = ''firecracker'', fg_kernel_path = ''/k'', fg_rootfs_path = ''/r'',
      fg_boot_args = ''panic=1'', fg_vcpu_count = 2, fg_mem_size_mib = 1024, fg_guest_cid = 3,
      fg_guest_agent_port = 1024, fg_gateway_port = 5600, fg_run_dir = ''/run'', fg_env = [],
      fg_extra_pip = [], fg_default_mcps = [], fg_skill_paths = [], fg_seccomp_level = 2,
      fg_log_level = ''Info''\<rparr>"

text \<open>
  A Firecracker that creates its socket, answers connections with the given error number and
  every request with the given status; the modelled agent runs in the guest.
\<close>

definition example_vm_env :: "int \<Rightarrow> int \<Rightarrow> fs vm_env" where
  "example_vm_env connect_error status =
     \<lparr>ve_version = (\<lambda>_. Probe_Exit 0 [] []),
      ve_spawn = (\<lambda>cmd f. (Inr (), dput [''run'', ''w1'', ''api.sock''] (FileE (Raw [])) f)),
      ve_http = (\<lambda>n rq f. (Inr \<lparr>hr_status = status, hr_json = None, hr_text = ''no''\<rparr>, f)),
      ve_connect = (\<lambda>n p. Inr connect_error), ve_sleep = (\<lambda>n. Inr 10), ve_term = (\<lambda>n. Ignores),
      ve_vsock = (\<lambda>p port. agent_tp demo_guest drip drip),
      ve_client = demo_client,
      ve_agent_bytes = []\<rparr>"

definition example_vm_world :: "fs vm_world" where
  "example_vm_world =
     \<lparr>vw_host = \<lparr>h_fs = [([''dev''], DirE), ([''dev'', ''kvm''], FileE (Raw [])), ([''tmp''], DirE)],
        h_time = 0, h_mono = 0, h_pid = 1, h_names = (\<lambda>n. ''x''), h_nnames = 0,
        h_digest = (\<lambda>_. []), h_size = (\<lambda>_. 0)\<rparr>,
      vw_procs = [], vw_requests = [], vw_connects = 0, vw_sleeps = 0, vw_terms = 0, vw_guest = []\<rparr>"

lemma example_ping: "client_ping (agent_tp demo_guest drip drip) f = (Inr True, f)"
proof -
  have "J_Obj (encode_bytes (handle_ping demo_guest)) = pong"
    by (simp add: encode_bytes_def handle_ping_def pong_def demo_guest_def)
  with demo_frames(2) show ?thesis by (intro client_ping_agent drip_ok) simp
qed

lemma example_undisturbed: "undisturbed (example_vm_env c s)"
  by (simp add: undisturbed_def example_vm_env_def example_ping)

lemma example_boot_fails:
  "fst (provision_vm (example_vm_env 0 400) (fc_workspace_init example_fc_config, example_vm_world)) =
    Inl (fc_api_error 400 ''no'')"
  by code_simp

theorem vm_failure_torn_down_witness:
  "\<exists>ws' w'. provision_vm (example_vm_env 0 400) (fc_workspace_init example_fc_config, example_vm_world) =
      (Inl (fc_api_error 400 ''no''), ws', w') \<and> fw_process ws' = None"
proof -
  obtain ws' w' where run: "provision_vm (example_vm_env 0 400) (fc_workspace_init example_fc_config, example_vm_world) =
      (Inl (fc_api_error 400 ''no''), ws', w')"
    using example_boot_fails by (metis prod.collapse)
  from vm_failure_torn_down [OF example_undisturbed _ run] run show ?thesis
    by (simp add: fc_workspace_init_def)
qed

text \<open>
  C17: a provisioning that succeeds has sent Firecracker exactly the six requests of a boot, in
  order: the logger, the boot source, the machine's size, the root drive, the vsock device, and
  the start, each with the workspace's own configuration; it leaves one live process, its
  sockets below the run directory of this workspace, and a backend on the vsock socket.
\<close>

theorem vm_boot_correct:
  assumes "fw_process ws = None" and "provision_vm env (ws, w) = (Inr (), ws', w')"
    and "cfg = fw_config ws" and "dir = path_join (fg_run_dir cfg) (fg_workspace_id cfg)"
  shows "map (\<lambda>rq. (rq_method rq, rq_path rq, rq_body rq)) (drop (length (vw_requests w)) (vw_requests w')) =
      [(''PUT'', ''/logger'', Some (J_Obj [(''log_path'', J_Str (path_join dir ''firecracker.log'')),
          (''level'', J_Str (fg_log_level cfg)), (''show_level'', J_Bool False), (''show_log_origin'', J_Bool False)])),
       (''PUT'', ''/boot-source'', Some (J_Obj [(''kernel_image_path'', J_Str (fg_kernel_path cfg)),
          (''boot_args'', J_Str (fg_boot_args cfg))])),
       (''PUT'', ''/machine-config'', Some (J_Obj [(''vcpu_count'', J_Int (fg_vcpu_count cfg)),
          (''mem_size_mib'', J_Int (fg_mem_size_mib cfg)), (''smt'', J_Bool False), (''track_dirty_pages'', J_Bool False)])),
       (''PUT'', ''/drives/rootfs'', Some (J_Obj [(''drive_id'', J_Str ''rootfs''), (''path_on_host'', J_Str (fg_rootfs_path cfg)),
          (''is_root_device'', J_Bool True), (''is_read_only'', J_Bool False), (''cache_type'', J_Str ''Writeback'')])),
       (''PUT'', ''/vsock'', Some (J_Obj [(''vsock_id'', J_Str ''vsock0''), (''guest_cid'', J_Int (fg_guest_cid cfg)),
          (''uds_path'', J_Str (path_join dir ''vsock.sock''))])),
       (''PUT'', ''/actions'', Some (J_Obj [(''action_type'', J_Str ''InstanceStart'')]))] \<and>
    take (length (vw_requests w)) (vw_requests w') = vw_requests w \<and>
    vw_procs w' = vw_procs w @ [Alive] \<and>
    (\<exists>p. fw_process ws' = Some p \<and> fp_pid p = length (vw_procs w)) \<and>
    fw_api_socket ws' = path_join dir ''api.sock'' \<and>
    fw_backend ws' = Some (fb_init (path_join dir ''vsock.sock'') (fg_guest_agent_port cfg) ''/workspace'' 30 5)"
  using provision_outcome [OF assms(1,2)] unfolding assms(3,4)
  by (auto simp: vm_up_def boot_requests_def call_request_def configure_calls_def start_call_def boot_source_json_def
      boot_source_of_def machine_config_json_def machine_config_of_def drive_json_def root_drive_of_def vsock_json_def
      vsock_of_def opt_field_def container_workdir_def)

lemma example_booted:
  "fst (run_steps [verify_step (example_vm_env 0 204), scratch_step, spawn_step (example_vm_env 0 204),
      socket_step (example_vm_env 0 204), boot_step (example_vm_env 0 204)]
      (fc_workspace_init example_fc_config, example_vm_world)) = Inr ()"
  by code_simp

lemma example_agent: "fst (agent_step (example_vm_env c s) x) = Inr ()"
  by (cases x) (simp add: agent_step_def wait_for_guest_agent_def example_vm_env_def example_ping
      wait_for_agent_from.simps)

lemma example_boot_works:
  "fst (provision_vm (example_vm_env 0 204) (fc_workspace_init example_fc_config, example_vm_world)) = Inr ()"
proof -
  let ?env = "example_vm_env 0 204"
  let ?boot = "[verify_step ?env, scratch_step, spawn_step ?env, socket_step ?env, boot_step ?env]"
  have all: "provision_vm ?env = run_steps (?boot @ [agent_step ?env, bootstrap_step ?env, bind_step])"
    by (simp add: provision_vm_def)
  obtain x1 where boot: "run_steps ?boot (fc_workspace_init example_fc_config, example_vm_world) = (Inr (), x1)"
    using example_booted by (metis prod.collapse)
  obtain ws2 w2 where agent: "agent_step ?env x1 = (Inr (), ws2, w2)"
    using example_agent by (metis prod.collapse)
  obtain r3 ws3 w3 where script: "bootstrap_step ?env (ws2, w2) = (r3, ws3, w3)"
    by (cases "bootstrap_step ?env (ws2, w2)")
  from bootstrap_step_effect [OF script] have "r3 = Inr ()" by simp
  then show ?thesis unfolding all run_steps_append boot by (simp add: agent script bind_step_def)
qed

theorem vm_boot_correct_witness:
  "\<exists>ws' w'. provision_vm (example_vm_env 0 204) (fc_workspace_init example_fc_config, example_vm_world) = (Inr (), ws', w') \<and>
     vw_procs w' = [Alive] \<and> fw_api_socket ws' = ''/run/w1/api.sock''"
proof -
  obtain ws' w' where run: "provision_vm (example_vm_env 0 204) (fc_workspace_init example_fc_config, example_vm_world) =
      (Inr (), ws', w')"
    using example_boot_works by (metis prod.collapse)
  from vm_boot_correct [OF _ run refl refl] run show ?thesis
    by (simp add: fc_workspace_init_def example_vm_world_def example_fc_config_def path_join_def)
qed

text \<open>
  C38: The error a provisioning promises for a Firecracker that never answers is never raised: when
  the API socket accepts no connection, the workspace is torn down first (the new process has been
  ended and reaped, the process, the client and the backend are forgotten, neither socket file is
  left) and the message then reads the output of a process that is no longer there, so that the
  caller gets \<open>AttributeError\<close> in place of the \<open>RuntimeError\<close> with the process's output.
\<close>

theorem vm_timeout_misreported:
  assumes env: "undisturbed env" and none: "fw_process ws = None"
    and spawned: "run_steps [verify_step env, scratch_step, spawn_step env] (ws, w) = (Inr (), ws1, w1)"
    and dead: "\<And>n p. ve_connect env n p \<noteq> Inr 0"
  shows "\<exists>ws' w'. provision_vm env (ws, w) = (Inl (OtherError ''AttributeError''), ws', w') \<and>
    fw_process ws' = None \<and> fw_api ws' = None \<and> fw_backend ws' = None \<and>
    (\<exists>c. vw_procs w' = vw_procs w @ [Exited c]) \<and>
    \<not> fs_isfile (vw_fs w') (fs_path (fw_api_socket ws')) \<and> \<not> fs_isfile (vw_fs w') (fs_path (fw_vsock_uds ws'))"
proof -
  obtain ra wsa wa where sa: "scratch_step (ws, w) = (ra, wsa, wa)" by (cases "scratch_step (ws, w)")
  have v: "verify_firecracker env (vw_fs w) = Inr ()" and ra: "ra = Inr ()"
    and sp: "spawn_step env (wsa, wa) = (Inr (), ws1, w1)"
    using spawned sa by (auto simp: verify_step_def split: sum.splits prod.splits)
  note S = scratch_step_effect [OF sa]
  have "fw_process wsa = None" "fw_api_socket wsa \<noteq> []" "fw_vsock_uds wsa \<noteq> []"
    using S none ra by (simp_all add: Let_def path_join_ne)
  from spawn_step_up(1) [OF this sp] have up: "vm_up wa (ws1, w1)" by simp
  obtain r2 ws2 w2 where so: "socket_step env (ws1, w1) = (r2, ws2, w2)" by (cases "socket_step env (ws1, w1)")
  have "r2 \<noteq> Inr ()"
  proof
    assume r2: "r2 = Inr ()"
    let ?wait = "wait_for_socket env (fw_api_socket ws1) default_api_ready_timeout w1"
    obtain r w3 where wait: "?wait = (r, w3)" by (cases ?wait)
    from wait_for_socket_attempts [OF env wait [unfolded wait_for_socket_def]] dead
    have "r = Inl TimeoutError" by blast
    with so wait r2 show False
      by (auto simp: socket_step_def report_timeout_def split: prod.splits sum.splits)
  qed
  with socket_step_up(2) [OF up so env] have r2: "r2 = Inl (OtherError ''AttributeError'')"
    and gone: "vm_gone wa (ws2, w2)" by blast+
  from r2 have "provision_vm env (ws, w) = (Inl (OtherError ''AttributeError''), ws2, w2)"
    by (simp add: provision_vm_def verify_step_def v sa ra sp so)
  moreover have "vw_procs wa = vw_procs w" using S by simp
  ultimately show ?thesis using gone by (auto simp: vm_gone_def sockets_gone_def)
qed

lemma example_spawned:
  "fst (run_steps [verify_step (example_vm_env 111 204), scratch_step, spawn_step (example_vm_env 111 204)]
      (fc_workspace_init example_fc_config, example_vm_world)) = Inr ()"
  by code_simp

theorem vm_timeout_misreported_witness:
  "\<exists>ws' w' c. provision_vm (example_vm_env 111 204) (fc_workspace_init example_fc_config, example_vm_world) =
     (Inl (OtherError ''AttributeError''), ws', w') \<and> fw_process ws' = None \<and> vw_procs w' = [Exited c]"
proof -
  obtain ws1 w1 where "run_steps [verify_step (example_vm_env 111 204), scratch_step, spawn_step (example_vm_env 111 204)]
      (fc_workspace_init example_fc_config, example_vm_world) = (Inr (), ws1, w1)"
    using example_spawned by (metis prod.collapse)
  from vm_timeout_misreported [OF example_undisturbed _ this] show ?thesis
    by (auto simp: example_vm_env_def example_vm_world_def fc_workspace_init_def)
qed

text \<open>
  C37: Waiting for the API socket ends: it tries to connect at most once per twentieth of a second of
  its time-out, returns at the first attempt that succeeds, and otherwise raises
  \<open>TimeoutError\<close> after attempts that all failed.
\<close>

theorem wait_for_socket_bounded:
  assumes "undisturbed env" and "wait_for_socket env p timeout w = (r, w')"
  shows "vw_connects w' \<le> vw_connects w + nat \<lceil>timeout / (1 / 20)\<rceil> \<and>
    (r = Inr () \<and> vw_connects w < vw_connects w' \<and> ve_connect env (vw_connects w' - 1) p = Inr 0 \<and>
       (\<forall>i. vw_connects w \<le> i \<longrightarrow> i < vw_connects w' - 1 \<longrightarrow> ve_connect env i p \<noteq> Inr 0) \<or>
     r = Inl TimeoutError \<and> h_mono (vw_host w) + timeout \<le> h_mono (vw_host w') \<and>
       (\<forall>i. vw_connects w \<le> i \<longrightarrow> i < vw_connects w' \<longrightarrow> ve_connect env i p \<noteq> Inr 0))"
  using wait_for_socket_attempts [OF assms(1) assms(2) [unfolded wait_for_socket_def]]
  by (simp add: rounds_def)

theorem wait_for_socket_bounded_witness:
  "vw_connects (snd (wait_for_socket (example_vm_env 111 204) ''/s'' 5 example_vm_world)) \<le> 100"
proof -
  obtain r w' where run: "wait_for_socket (example_vm_env 111 204) ''/s'' 5 example_vm_world = (r, w')"
    by (cases "wait_for_socket (example_vm_env 111 204) ''/s'' 5 example_vm_world")
  from wait_for_socket_bounded [OF example_undisturbed run] run show ?thesis
    by (simp add: example_vm_world_def)
qed

text \<open>
  The rolling buffer holds exactly the end of what Firecracker wrote: whatever the pieces its
  output came in, it is the last 65536 bytes of the whole, and the tail taken of it for a
  message is the tail of the output.
\<close>

theorem stdout_tail_exact:
  assumes "out = concat (takeWhile (\<lambda>c. c \<noteq> []) chunks)" and "fp_stdout_buffer p = []"
  shows "fp_stdout_buffer (drain_task chunks p) = drop (length out - 65536) out \<and>
    (0 < n \<and> n \<le> 65536 \<longrightarrow> tail_stdout n (drain_task chunks p) = drop (length out - n) out)"
proof -
  have buf: "fp_stdout_buffer (drain_task chunks p) = last_bytes 65536 out"
    using drain_exact [of chunks "[]"] assms by (simp add: drain_task_def stdout_limit_def last_bytes_def)
  have tail: "tail_slice n (last_bytes 65536 out) = drop (length out - n) out" if "0 < n" "n \<le> 65536"
    using that by (cases "length out \<le> 65536") (auto simp: tail_slice_def last_bytes_def)
  have "last_bytes 65536 out = [] \<Longrightarrow> out = []" by (cases out) (auto simp: last_bytes_def)
  with buf tail show ?thesis by (auto simp: tail_stdout_def last_bytes_def)
qed

theorem stdout_tail_exact_witness:
  "tail_stdout 2 (drain_task [''boo'', ''ting''] \<lparr>fp_pid = 0, fp_api_socket = [], fp_vsock_uds = None,
     fp_stdout_task = True, fp_stdout_buffer = []\<rparr>) = ''ng''"
  using stdout_tail_exact [of "''booting''" "[''boo'', ''ting'']" "\<lparr>fp_pid = 0, fp_api_socket = [], fp_vsock_uds = None,
     fp_stdout_task = True, fp_stdout_buffer = []\<rparr>" 2] by simp

end
