(* ===== verification/Firecracker_Manager.thy ===== *)
theory Firecracker_Manager
  imports Micro_VM Container_Manager
begin

text \<open>
  \<open>_firecracker/_manager.py\<close>: the manager of the microVM workspaces. Its code repeats the
  container managers' (\<open>Container_Manager\<close>) with another workspace class and configuration; the
  definitions follow its own text, and the last section relates the two by an abstraction that
  forgets the configuration.
\<close>

section \<open>State\<close>

definition default_boot_args :: string where
  "default_boot_args =
     ''console=ttyS0 reboot=k panic=1 pci=off '' @
     ''random.trust_cpu=on i8042.noaux i8042.nomux i8042.nopnp i8042.dumbkbd''"

record fc_manager =
  fm_isolation :: string
  fm_bin :: string
  fm_kernel_path :: string
  fm_rootfs_path :: string
  fm_vcpu_count :: int
  fm_mem_size_mib :: int
  fm_guest_cid :: int
  fm_guest_agent_port :: nat
  fm_gateway_port :: int
  fm_run_dir :: string
  fm_env :: "(string, string) dict"
  fm_extra_pip :: "string list"
  fm_default_mcps :: "string list"
  fm_skill_paths :: "string list"
  fm_ttl :: time
  fm_sweep_interval :: time
  fm_cache :: "(string, sandbox \<times> time) dict"
  fm_sweep_task :: bool
  fm_enable_pool :: bool
  fm_pool :: "pool option"
  fm_pool_max_size :: int
  fm_pool_min_warm :: int
  fm_pool_idle_ttl :: time
  fm_closed_log :: "sandbox list"

definition or_empty :: "'a list option \<Rightarrow> 'a list" where
  "or_empty xs = (case xs of None \<Rightarrow> [] | Some ys \<Rightarrow> ys)"

definition fc_manager_init ::
  "string \<Rightarrow> string \<Rightarrow> string \<Rightarrow> string \<Rightarrow> int \<Rightarrow> int \<Rightarrow> int \<Rightarrow> nat \<Rightarrow> int \<Rightarrow> string \<Rightarrow>
   (string, string) dict option \<Rightarrow> string list option \<Rightarrow> string list option \<Rightarrow> string list option \<Rightarrow>
   time \<Rightarrow> time \<Rightarrow> bool \<Rightarrow> int \<Rightarrow> int \<Rightarrow> time \<Rightarrow> fc_manager" where
  "fc_manager_init isolation bin kernel_path rootfs_path vcpu_count mem_size_mib guest_cid
     guest_agent_port gateway_port run_dir env extra_pip default_mcps skill_paths ttl sweep_interval
     enable_pool pool_max_size pool_min_warm pool_idle_ttl =
     \<lparr>fm_isolation = isolation, fm_bin = bin, fm_kernel_path = kernel_path,
      fm_rootfs_path = rootfs_path, fm_vcpu_count = vcpu_count, fm_mem_size_mib = mem_size_mib,
      fm_guest_cid = guest_cid, fm_guest_agent_port = guest_agent_port, fm_gateway_port = gateway_port,
      fm_run_dir = run_dir, fm_env = or_empty env, fm_extra_pip = or_empty extra_pip,
      fm_default_mcps = or_empty default_mcps, fm_skill_paths = or_empty skill_paths, fm_ttl = ttl,
      fm_sweep_interval = sweep_interval, fm_cache = [], fm_sweep_task = False,
      fm_enable_pool = enable_pool, fm_pool = None, fm_pool_max_size = pool_max_size,
      fm_pool_min_warm = pool_min_warm, fm_pool_idle_ttl = pool_idle_ttl, fm_closed_log = []\<rparr>"

text \<open>The workspace's defaults for what the manager does not set.\<close>

definition fc_make_workspace :: "fc_manager \<Rightarrow> string \<Rightarrow> fc_config" where
  "fc_make_workspace m workspace_id =
     \<lparr>fg_workspace_id = workspace_id, fg_bin = fm_bin m, fg_kernel_path = fm_kernel_path m,
      fg_rootfs_path = fm_rootfs_path m, fg_boot_args = default_boot_args,
      fg_vcpu_count = fm_vcpu_count m, fg_mem_size_mib = fm_mem_size_mib m,
      fg_guest_cid = fm_guest_cid m, fg_guest_agent_port = fm_guest_agent_port m,
      fg_gateway_port = fm_gateway_port m, fg_run_dir = fm_run_dir m, fg_env = fm_env m,
      fg_extra_pip = fm_extra_pip m, fg_default_mcps = fm_default_mcps m,
      fg_skill_paths = fm_skill_paths m, fg_seccomp_level = 2, fg_log_level = ''Info''\<rparr>"

record fc_mgr_env =
  fe_assign :: "nat \<Rightarrow> string \<Rightarrow> string \<Rightarrow> string \<Rightarrow> string"
  fe_assigns :: nat
  fe_build :: "nat \<Rightarrow> fc_config \<Rightarrow> sandbox result"
  fe_builds :: nat

definition fc_build_and_start :: "fc_manager \<Rightarrow> (fc_config \<Rightarrow> sandbox result) \<Rightarrow> string \<Rightarrow> sandbox result" where
  "fc_build_and_start m build workspace_id = build (fc_make_workspace m workspace_id)"

definition fc_factory :: "fc_manager \<Rightarrow> fc_mgr_env \<Rightarrow> nat \<Rightarrow> sandbox result" where
  "fc_factory m env n =
     fc_build_and_start m (fe_build env n) (fe_assign env n ''pool'' ''prewarm'' [])"

definition fc_pool_env :: "fc_manager \<Rightarrow> fc_mgr_env \<Rightarrow> pool_env" where
  "fc_pool_env m env =
     \<lparr>pe_factory = fc_factory m env, pe_factory_calls = fe_builds env,
      pe_probe = (\<lambda>n. Inr True), pe_probe_calls = 0\<rparr>"

section \<open>Operations\<close>

definition fc_store :: "string \<Rightarrow> sandbox \<Rightarrow> time \<Rightarrow> fc_manager \<Rightarrow> fc_manager" where
  "fc_store wid ws now m = m\<lparr>fm_cache := dput wid (ws, now) (fm_cache m)\<rparr>"

definition fc_hit :: "string \<Rightarrow> time \<Rightarrow> fc_manager \<Rightarrow> (sandbox \<times> fc_manager) option" where
  "fc_hit wid now m =
     (case dget (fm_cache m) wid of
        None \<Rightarrow> None
      | Some (ws, _) \<Rightarrow> Some (ws, fc_store wid ws now m))"

definition fc_get_locked ::
  "string \<Rightarrow> time \<Rightarrow> fc_manager \<Rightarrow> fc_mgr_env \<Rightarrow> sandbox result \<times> fc_manager \<times> fc_mgr_env" where
  "fc_get_locked wid now m env =
     (case fc_hit wid now m of
        Some (ws, m1) \<Rightarrow> (Inr ws, m1, env)
      | None \<Rightarrow>
          (case fc_build_and_start m (fe_build env (fe_builds env)) wid of
             Inl e \<Rightarrow> (Inl e, m, env\<lparr>fe_builds := Suc (fe_builds env)\<rparr>)
           | Inr ws \<Rightarrow> (Inr ws, fc_store wid ws now m, env\<lparr>fe_builds := Suc (fe_builds env)\<rparr>)))"

definition fc_get_workspace ::
  "string \<Rightarrow> string \<Rightarrow> string option \<Rightarrow> time \<Rightarrow> fc_manager \<Rightarrow> fc_mgr_env \<Rightarrow>
   sandbox result \<times> fc_manager \<times> fc_mgr_env" where
  "fc_get_workspace user_id agent_id workspace_id now m env0 =
     (case (case workspace_id of
              Some wid \<Rightarrow> (wid, env0)
            | None \<Rightarrow> (fe_assign env0 (fe_assigns env0) user_id agent_id [],
                       env0\<lparr>fe_assigns := Suc (fe_assigns env0)\<rparr>)) of
      (wid, env) \<Rightarrow>
      case fc_hit wid now m of
        Some (ws, m1) \<Rightarrow> (Inr ws, m1, env)
      | None \<Rightarrow>
          (case fm_pool m of
             None \<Rightarrow> fc_get_locked wid now m env
           | Some p \<Rightarrow>
               (case pool_acquire p (fc_pool_env m env) of (r, p1, penv) \<Rightarrow>
                let m1 = m\<lparr>fm_pool := Some p1\<rparr>; env1 = env\<lparr>fe_builds := pe_factory_calls penv\<rparr> in
                case r of
                  Inr ws \<Rightarrow> (Inr ws, fc_store wid ws now m1, env1)
                | Inl e \<Rightarrow>
                    if e = TimeoutError then fc_get_locked wid now m1 env1
                    else (Inl e, m1, env1))))"

definition fc_safe_close :: "sandbox \<Rightarrow> fc_manager \<Rightarrow> fc_manager" where
  "fc_safe_close ws m = m\<lparr>fm_closed_log := fm_closed_log m @ [ws]\<rparr>"

definition fc_close :: "(sandbox \<Rightarrow> bool) \<Rightarrow> string \<Rightarrow> time \<Rightarrow> fc_manager \<Rightarrow> fc_manager" where
  "fc_close is_alive wid now m =
     (let m1 = m\<lparr>fm_cache := ddel wid (fm_cache m)\<rparr> in
      case dget (fm_cache m) wid of
        None \<Rightarrow> m1
      | Some (ws, _) \<Rightarrow>
          (case fm_pool m1 of
             Some p \<Rightarrow>
               if is_alive ws then m1\<lparr>fm_pool := Some (pool_release ws False now p)\<rparr>
               else fc_safe_close ws m1
           | None \<Rightarrow> fc_safe_close ws m1))"

definition fc_close_all :: "fc_manager \<Rightarrow> fc_manager" where
  "fc_close_all m =
     fold fc_safe_close (map (\<lambda>(wid, (ws, ts)). ws) (fm_cache m)) (m\<lparr>fm_cache := []\<rparr>)"

fun fc_pop_ids :: "string list \<Rightarrow> fc_manager \<Rightarrow> sandbox list \<times> fc_manager" where
  "fc_pop_ids [] m = ([], m)"
| "fc_pop_ids (wid # wids) m =
     (case fc_pop_ids wids (m\<lparr>fm_cache := ddel wid (fm_cache m)\<rparr>) of
        (rest, m1) \<Rightarrow>
          ((case dget (fm_cache m) wid of None \<Rightarrow> rest | Some (ws, _) \<Rightarrow> ws # rest), m1))"

definition fc_sweep_once :: "time \<Rightarrow> fc_manager \<Rightarrow> fc_manager" where
  "fc_sweep_once now m =
     (let expired = map fst (filter (\<lambda>(wid, (ws, ts)). now - ts > fm_ttl m) (fm_cache m)) in
      case fc_pop_ids expired m of (evicted, m1) \<Rightarrow> fold fc_safe_close evicted m1)"

definition fc_aenter :: "fc_manager \<Rightarrow> unit result \<times> fc_manager" where
  "fc_aenter m =
     (case (if fm_enable_pool m \<and> fm_pool m = None
            then (case pool_init (fm_pool_max_size m) (fm_pool_min_warm m) (fm_pool_idle_ttl m) 60 60
                    True ''fifo'' False 0 of
                    Inl e \<Rightarrow> Inl e
                  | Inr p \<Rightarrow> Inr (m\<lparr>fm_pool := Some (pool_start p)\<rparr>))
            else Inr m) of
        Inl e \<Rightarrow> (Inl e, m)
      | Inr m1 \<Rightarrow> (Inr (), m1\<lparr>fm_sweep_task := True\<rparr>))"

definition fc_aexit :: "fc_manager \<Rightarrow> fc_manager" where
  "fc_aexit m =
     (let m1 = m\<lparr>fm_sweep_task := False\<rparr>;
          m2 = (case fm_pool m1 of
                  None \<Rightarrow> m1
                | Some p \<Rightarrow> m1\<lparr>fm_pool := None,
                    fm_closed_log := fm_closed_log m1 @ p_closed_log (pool_aclose p)\<rparr>)
      in fc_close_all m2)"

definition fc_manager_metrics :: "fc_manager \<Rightarrow> mgr_metrics" where
  "fc_manager_metrics m =
     \<lparr>mm_backend_kind = ''firecracker'', mm_cache_size = int (length (fm_cache m)),
      mm_pool = map_option pool_metrics_of (fm_pool m)\<rparr>"

section \<open>The container manager it repeats\<close>

definition as_manager :: "fc_manager \<Rightarrow> manager" where
  "as_manager m =
     \<lparr>m_backend_kind = ''firecracker'', m_runtime = Some [], m_isolation = fm_isolation m,
      m_basedir = [], m_base_image = [], m_node_version = None, m_extra_pip = fm_extra_pip m,
      m_gateway_port = fm_gateway_port m, m_env = fm_env m, m_default_mcps = fm_default_mcps m,
      m_skill_paths = fm_skill_paths m, m_ttl = fm_ttl m, m_sweep_interval = fm_sweep_interval m,
      m_cache = fm_cache m, m_sweep_task = fm_sweep_task m, m_enable_pool = fm_enable_pool m,
      m_pool = fm_pool m, m_pool_max_size = fm_pool_max_size m, m_pool_min_warm = fm_pool_min_warm m,
      m_pool_idle_ttl = fm_pool_idle_ttl m, m_closed_log = fm_closed_log m\<rparr>"

text \<open>The container manager's workspaces by id, built as the microVM manager \<open>m\<close> builds them.\<close>

definition as_env :: "fc_manager \<Rightarrow> fc_mgr_env \<Rightarrow> mgr_env" where
  "as_env m env =
     \<lparr>me_assign = fe_assign env, me_assigns = fe_assigns env,
      me_build = (\<lambda>n cfg. fe_build env n (fc_make_workspace m (wc_workspace_id cfg))),
      me_builds = fe_builds env\<rparr>"

named_theorems as_simps \<open>operations of the microVM manager seen as the container manager's\<close>

lemma as_fields [as_simps]:
  "m_cache (as_manager m) = fm_cache m" "m_pool (as_manager m) = fm_pool m" "m_ttl (as_manager m) = fm_ttl m"
  "(as_manager m)\<lparr>m_cache := c\<rparr> = as_manager (m\<lparr>fm_cache := c\<rparr>)"
  "(as_manager m)\<lparr>m_pool := p\<rparr> = as_manager (m\<lparr>fm_pool := p\<rparr>)"
  "(as_manager m)\<lparr>m_sweep_task := b\<rparr> = as_manager (m\<lparr>fm_sweep_task := b\<rparr>)"
  "(as_manager m)\<lparr>m_closed_log := l\<rparr> = as_manager (m\<lparr>fm_closed_log := l\<rparr>)"
  "m_closed_log (as_manager m) = fm_closed_log m"
  by (simp_all add: as_manager_def)

lemma as_make [as_simps]: "fc_make_workspace (m\<lparr>fm_cache := c\<rparr>) = fc_make_workspace m"
  "fc_make_workspace (m\<lparr>fm_pool := p\<rparr>) = fc_make_workspace m"
  by (simp_all add: fc_make_workspace_def fun_eq_iff)

lemma as_build [as_simps]:
  "build_and_start (as_manager m) (me_build (as_env m env) n) wid u a = fc_build_and_start m (fe_build env n) wid"
  by (simp add: build_and_start_def make_workspace_def as_manager_def as_env_def fc_build_and_start_def)

lemma as_build_pool [as_simps]:
  "build_and_start (as_manager (m\<lparr>fm_pool := p\<rparr>)) (me_build (as_env m env) n) wid u a =
     fc_build_and_start (m\<lparr>fm_pool := p\<rparr>) (fe_build env n) wid"
  by (simp add: build_and_start_def make_workspace_def as_manager_def as_env_def fc_build_and_start_def as_make)

lemma as_pool_env [as_simps]: "mgr_pool_env (as_manager m) (as_env m env) = fc_pool_env m env"
proof -
  have "mgr_factory (as_manager m) (as_env m env) = fc_factory m env"
    by (rule ext) (simp add: mgr_factory_def fc_factory_def as_build as_env_def [of m env, THEN arg_cong [where f = me_assign]])
  then show ?thesis by (simp add: mgr_pool_env_def fc_pool_env_def as_env_def)
qed

lemma as_store [as_simps]: "mgr_store wid ws now (as_manager m) = as_manager (fc_store wid ws now m)"
  by (simp add: mgr_store_def fc_store_def as_simps)

lemma as_hit [as_simps]: "mgr_hit wid now (as_manager m) = map_option (apsnd as_manager) (fc_hit wid now m)"
  by (simp add: mgr_hit_def fc_hit_def as_simps split: option.split)

lemma as_builds [as_simps]:
  "me_builds (as_env m env) = fe_builds env"
  "(as_env m env)\<lparr>me_builds := n\<rparr> = as_env m (env\<lparr>fe_builds := n\<rparr>)"
  "me_assign (as_env m env) = fe_assign env" "me_assigns (as_env m env) = fe_assigns env"
  "(as_env m env)\<lparr>me_assigns := n\<rparr> = as_env m (env\<lparr>fe_assigns := n\<rparr>)"
  by (simp_all add: as_env_def)

lemma as_env_config [as_simps]: "as_env (m\<lparr>fm_pool := p\<rparr>) env = as_env m env"
  by (simp add: as_env_def as_make)

lemma as_get_locked:
  "get_locked u a wid now (as_manager m) (as_env m env) =
     (case fc_get_locked wid now m env of (r, m', env') \<Rightarrow> (r, as_manager m', as_env m env'))"
  by (auto simp: get_locked_def fc_get_locked_def as_simps split: option.split sum.split prod.split)

lemma as_get_workspace:
  "get_workspace u a w now (as_manager m) (as_env m env) =
     (case fc_get_workspace u a w now m env of (r, m', env') \<Rightarrow> (r, as_manager m', as_env m env'))"
proof -
  obtain wid env1 where id: "(case w of Some wid \<Rightarrow> (wid, env)
      | None \<Rightarrow> (fe_assign env (fe_assigns env) u a [], env\<lparr>fe_assigns := Suc (fe_assigns env)\<rparr>)) = (wid, env1)"
    by fastforce
  have gid: "get_workspace_id u a w (as_env m env) = (wid, as_env m env1)"
    using id by (cases w) (auto simp: get_workspace_id_def as_simps)
  show ?thesis
  proof (cases "fc_hit wid now m")
    case (Some x)
    then show ?thesis
      by (cases x) (simp add: get_workspace_def fc_get_workspace_def id gid as_simps)
  next
    case none: None
    show ?thesis
    proof (cases "fm_pool m")
      case None
      with none show ?thesis
        by (simp add: get_workspace_def fc_get_workspace_def id gid as_simps as_get_locked)
    next
      case (Some p)
      obtain r p1 penv where acq: "pool_acquire p (fc_pool_env m env1) = (r, p1, penv)"
        by (metis prod_cases3)
      let ?m1 = "m\<lparr>fm_pool := Some p1\<rparr>"
      have locked: "get_locked u a wid now (as_manager ?m1) (as_env m e) =
          (case fc_get_locked wid now ?m1 e of (r, m', env') \<Rightarrow> (r, as_manager m', as_env m env'))" for e
        using as_get_locked [of u a wid now ?m1 e] by (simp add: as_simps)
      show ?thesis
        using none Some acq
        by (cases r) (simp_all add: get_workspace_def fc_get_workspace_def id gid as_simps Let_def locked)
    qed
  qed
qed

lemma as_safe_close [as_simps]: "mgr_safe_close ws (as_manager m) = as_manager (fc_safe_close ws m)"
  by (simp add: mgr_safe_close_def fc_safe_close_def as_simps)

lemma as_safe_closes: "fold mgr_safe_close wss (as_manager m) = as_manager (fold fc_safe_close wss m)"
  by (induction wss arbitrary: m) (simp_all add: as_simps)

lemma as_close: "mgr_close is_alive wid now (as_manager m) = as_manager (fc_close is_alive wid now m)"
  by (auto simp: mgr_close_def fc_close_def mgr_take_def mgr_give_back_def as_simps Let_def split: option.split)

lemma as_close_all: "mgr_close_all (as_manager m) = as_manager (fc_close_all m)"
  by (simp add: mgr_close_all_def fc_close_all_def mgr_clear_def as_simps as_safe_closes)

lemma as_pop_ids: "pop_ids wids (as_manager m) = apsnd as_manager (fc_pop_ids wids m)"
  by (induction wids arbitrary: m) (auto simp: mgr_take_def as_simps split: prod.split option.split)

lemma as_sweep: "mgr_sweep_once now (as_manager m) = as_manager (fc_sweep_once now m)"
  by (simp add: mgr_sweep_once_def mgr_evict_def mgr_expired_def fc_sweep_once_def Let_def as_simps as_pop_ids
      as_safe_closes split: prod.split)

lemma as_aenter: "mgr_aenter (as_manager m) = apsnd as_manager (fc_aenter m)"
proof -
  have "m_enable_pool (as_manager m) = fm_enable_pool m" "m_pool_max_size (as_manager m) = fm_pool_max_size m"
    "m_pool_min_warm (as_manager m) = fm_pool_min_warm m" "m_pool_idle_ttl (as_manager m) = fm_pool_idle_ttl m"
    by (simp_all add: as_manager_def)
  then show ?thesis by (simp add: mgr_aenter_def fc_aenter_def as_simps split: sum.split)
qed

lemma as_aexit: "mgr_aexit (as_manager m) = as_manager (fc_aexit m)"
  by (simp add: mgr_aexit_def fc_aexit_def as_simps as_close_all Let_def split: option.split)


section \<open>The microVM manager is the container manager\<close>

text \<open>
  C30: The two managers are written separately, in two modules, and agree: with the configuration
  forgotten, every operation of the microVM manager does to its cache, its pool and its closed
  workspaces, and returns and raises, what the container manager's operation of that name does, with
  a factory that builds by the same identifiers. So what is shown of the container manager's
  cache and pool holds of the microVM manager.
\<close>

theorem fc_manager_equivalent:
  "get_workspace u a w now (as_manager m) (as_env m env) =
     (case fc_get_workspace u a w now m env of (r, m', env') \<Rightarrow> (r, as_manager m', as_env m env')) \<and>
   mgr_close is_alive wid now (as_manager m) = as_manager (fc_close is_alive wid now m) \<and>
   mgr_close_all (as_manager m) = as_manager (fc_close_all m) \<and>
   mgr_sweep_once now (as_manager m) = as_manager (fc_sweep_once now m) \<and>
   mgr_aenter (as_manager m) = apsnd as_manager (fc_aenter m) \<and>
   mgr_aexit (as_manager m) = as_manager (fc_aexit m) \<and>
   manager_metrics (as_manager m) = fc_manager_metrics m"
  by (simp add: as_get_workspace as_close as_close_all as_sweep as_aenter as_aexit
      manager_metrics_def fc_manager_metrics_def base_metrics_def)
     (simp add: as_manager_def)

end
