(* ===== verification/Object_Store.thy ===== *)
theory Object_Store
  imports Local_List
begin

text \<open>
  \<open>_runtime/minio_store.py\<close>: the snapshot store on a MinIO bucket. The client is a third-party package:
  a record of the calls the store makes, over a state of any type, is a parameter, and what it is
  relied on for is \<open>bucket_laws\<close>. The clock, the size and the digest of a content are the host's.
\<close>

section \<open>Payloads\<close>

text \<open>
  \<open>isinstance(data, BinaryIO)\<close> holds for no stream of the standard library, and hashing a stream
  raises \<open>TypeError\<close>.
\<close>

definition hash_update :: "payload \<Rightarrow> blob result" where
  "hash_update data = (case data of Bytes b \<Rightarrow> Inr b | Stream _ \<Rightarrow> Inl TypeError)"

definition remote_meta ::
  "string \<Rightarrow> string \<Rightarrow> string \<Rightarrow> string option \<Rightarrow> string \<Rightarrow> blob \<Rightarrow> host \<Rightarrow> snapshot_meta" where
  "remote_meta ref actor_id tag template_id compression b h =
     \<lparr>sm_snapshot_ref = ref, sm_actor_id = actor_id, sm_template_id = template_id, sm_tag = tag,
      sm_size_bytes = int (h_size h b), sm_created_at = h_mono h, sm_compression = compression,
      sm_checksum = Some (h_digest h b)\<rparr>"

section \<open>The bucket\<close>

type_synonym metadata = "(string, string) dict"

record object_info =
  oi_name :: string
  oi_size :: int

record object_stat =
  os_metadata :: "metadata option"
  os_size :: int

record 'b bucket_client =
  bk_bucket_exists :: "string \<Rightarrow> 'b \<Rightarrow> bool result \<times> 'b"
  bk_make_bucket :: "string \<Rightarrow> 'b \<Rightarrow> unit result \<times> 'b"
  bk_put :: "string \<Rightarrow> string \<Rightarrow> blob \<Rightarrow> metadata \<Rightarrow> 'b \<Rightarrow> unit result \<times> 'b"
  bk_get :: "string \<Rightarrow> string \<Rightarrow> 'b \<Rightarrow> blob result \<times> 'b"
  bk_remove :: "string \<Rightarrow> string \<Rightarrow> 'b \<Rightarrow> unit result \<times> 'b"
  bk_list :: "string \<Rightarrow> string \<Rightarrow> 'b \<Rightarrow> object_info list result \<times> 'b"
  bk_stat :: "string \<Rightarrow> string \<Rightarrow> 'b \<Rightarrow> object_stat result \<times> 'b"
  bk_copy :: "string \<Rightarrow> string \<Rightarrow> string \<Rightarrow> metadata \<Rightarrow> 'b \<Rightarrow> unit result \<times> 'b"
  bk_str_float :: "time \<Rightarrow> string"

record minio_store =
  mi_endpoint :: string
  mi_bucket :: string
  mi_secure :: bool
  mi_region :: string
  mi_connected :: bool

definition minio_init :: "string \<Rightarrow> string \<Rightarrow> bool \<Rightarrow> string \<Rightarrow> minio_store" where
  "minio_init endpoint bucket secure region =
     \<lparr>mi_endpoint = endpoint, mi_bucket = bucket, mi_secure = secure, mi_region = region,
      mi_connected = False\<rparr>"

text \<open>The client is kept before its bucket is looked for.\<close>

definition minio_ensure ::
  "'b bucket_client \<Rightarrow> minio_store \<times> 'b \<Rightarrow> unit result \<times> minio_store \<times> 'b" where
  "minio_ensure bc x =
     (case x of (st, b) \<Rightarrow>
      if mi_connected st then (Inr (), x)
      else (let st1 = st\<lparr>mi_connected := True\<rparr> in
        case bk_bucket_exists bc (mi_bucket st) b of
          (Inl e, b1) \<Rightarrow> (Inl e, st1, b1)
        | (Inr found, b1) \<Rightarrow>
            if found then (Inr (), st1, b1)
            else (case bk_make_bucket bc (mi_bucket st) b1 of (r, b2) \<Rightarrow> (r, st1, b2))))"

definition object_name :: "string \<Rightarrow> string \<Rightarrow> time \<Rightarrow> string" where
  "object_name actor_id tag ts = actor_id @ ''/'' @ tag @ ''/'' @ show_fixed6 ts @ ''.tar''"

definition minio_ref :: "string \<Rightarrow> string \<Rightarrow> string \<Rightarrow> time \<Rightarrow> string" where
  "minio_ref bucket actor_id tag ts = ''minio:'' @ bucket @ ''/'' @ object_name actor_id tag ts"

definition meta_prefix :: string where
  "meta_prefix = ''x-amz-meta-''"

definition lower_char :: "char \<Rightarrow> char" where
  "lower_char c =
     (let n = of_char c :: nat in if 65 \<le> n \<and> n \<le> 90 then char_of (n + 32) else c)"

fun parse_items :: "metadata \<Rightarrow> metadata \<Rightarrow> metadata" where
  "parse_items [] acc = acc"
| "parse_items ((k, v) # kvs) acc =
     (let k_lower = map lower_char k in
      parse_items kvs
        (if prefix meta_prefix k_lower then dput (drop (length meta_prefix) k_lower) v acc else acc))"

definition parse_metadata :: "metadata option \<Rightarrow> metadata" where
  "parse_metadata m = (case m of None \<Rightarrow> [] | Some kvs \<Rightarrow> parse_items kvs [])"

definition put_metadata ::
  "'b bucket_client \<Rightarrow> string \<Rightarrow> string \<Rightarrow> string \<Rightarrow> string option \<Rightarrow> time \<Rightarrow> string option \<Rightarrow> metadata" where
  "put_metadata bc actor_id tag compression checksum ts template_id =
     [(''actor_id'', actor_id), (''tag'', tag), (''compression'', compression),
      (''checksum'', case checksum of None \<Rightarrow> [] | Some c \<Rightarrow> c), (''created_at'', bk_str_float bc ts),
      (''template_id'', case template_id of None \<Rightarrow> [] | Some t \<Rightarrow> t)]"

definition minio_put ::
  "'b bucket_client \<Rightarrow> string \<Rightarrow> string \<Rightarrow> payload \<Rightarrow> string \<Rightarrow> string option \<Rightarrow> string option \<Rightarrow> host \<Rightarrow>
   minio_store \<times> 'b \<Rightarrow> snapshot_meta result \<times> minio_store \<times> 'b" where
  "minio_put bc actor_id tag data compression template_id ref h x =
     (let ts = h_mono h in
      case hash_update data of
        Inl e \<Rightarrow> (Inl e, x)
      | Inr content \<Rightarrow>
          (let obj = (case ref of Some r \<Rightarrow> r | None \<Rightarrow> minio_ref (mi_bucket (fst x)) actor_id tag ts) in
           case minio_ensure bc x of
             (Inl e, x1) \<Rightarrow> (Inl e, x1)
           | (Inr _, st, b) \<Rightarrow>
               (case bk_put bc (mi_bucket st) obj content
                       (put_metadata bc actor_id tag compression (Some (h_digest h content)) ts template_id) b of
                  (Inl e, b1) \<Rightarrow> (Inl e, st, b1)
                | (Inr _, b1) \<Rightarrow>
                    (Inr (remote_meta obj actor_id tag template_id compression content h), st, b1))))"

definition minio_get ::
  "'b bucket_client \<Rightarrow> string \<Rightarrow> minio_store \<times> 'b \<Rightarrow> blob result \<times> minio_store \<times> 'b" where
  "minio_get bc ref x =
     (case minio_ensure bc x of
        (Inl e, x1) \<Rightarrow> (Inl e, x1)
      | (Inr _, st, b) \<Rightarrow>
          (case bk_get bc (mi_bucket st) ref b of
             (Inl e, b1) \<Rightarrow> (Inl KeyError, st, b1)
           | (Inr d, b1) \<Rightarrow> (Inr d, st, b1)))"

definition minio_delete ::
  "'b bucket_client \<Rightarrow> string \<Rightarrow> minio_store \<times> 'b \<Rightarrow> unit result \<times> minio_store \<times> 'b" where
  "minio_delete bc ref x =
     (case minio_ensure bc x of
        (Inl e, x1) \<Rightarrow> (Inl e, x1)
      | (Inr _, st, b) \<Rightarrow>
          (case bk_remove bc (mi_bucket st) ref b of
             (Inl e, b1) \<Rightarrow> (Inl KeyError, st, b1)
           | (Inr _, b1) \<Rightarrow> (Inr (), st, b1)))"

text \<open>What the name of an object says of its tag and time.\<close>

definition parse_tag :: "string \<Rightarrow> string" where
  "parse_tag obj_name =
     (if prefix ''snap:'' obj_name then
        (let parts = split_on CHR '':'' (drop 5 obj_name) in
         if 2 \<le> length parts then parts ! 1 else ''default'')
      else
        (let parts = split_on CHR ''/'' obj_name in
         if 4 \<le> length parts then parts ! 2
         else if 3 \<le> length parts then parts ! 1 else ''default''))"

text \<open>\<open>rsplit(sep, 1)[0]\<close>: what comes before the last occurrence, or all of it.\<close>

definition before_last :: "string \<Rightarrow> string \<Rightarrow> string" where
  "before_last sep s =
     (case filter (\<lambda>i. prefix sep (drop i s)) [0..<length s] of
        [] \<Rightarrow> s | is \<Rightarrow> take (last is) s)"

definition parse_ts :: "string \<Rightarrow> time" where
  "parse_ts obj_name =
     (let text = (if prefix ''snap:'' obj_name then last (split_on CHR '':'' obj_name)
                  else before_last ''.tar'' (last (split_on CHR ''/'' obj_name)))
      in case py_float text of None \<Rightarrow> 0 | Some t \<Rightarrow> t)"

definition list_prefixes :: "string \<Rightarrow> string \<Rightarrow> string option \<Rightarrow> string list" where
  "list_prefixes bucket actor_id tag =
     (case tag of
        None \<Rightarrow> [''snap:'' @ actor_id @ '':'', ''minio:'' @ bucket @ ''/'' @ actor_id @ ''/'']
      | Some t \<Rightarrow> [''snap:'' @ actor_id @ '':'' @ t @ '':'', ''minio:'' @ bucket @ ''/'' @ actor_id @ ''/'' @ t @ ''/''])"

definition object_entry :: "string \<Rightarrow> object_info \<Rightarrow> snapshot_meta" where
  "object_entry actor_id obj =
     \<lparr>sm_snapshot_ref = oi_name obj, sm_actor_id = actor_id, sm_template_id = None,
      sm_tag = parse_tag (oi_name obj), sm_size_bytes = oi_size obj,
      sm_created_at = parse_ts (oi_name obj), sm_compression = ''none'', sm_checksum = None\<rparr>"

fun add_objects ::
  "string \<Rightarrow> string option \<Rightarrow> object_info list \<Rightarrow> string set \<times> snapshot_meta list \<Rightarrow>
   string set \<times> snapshot_meta list" where
  "add_objects actor_id tag [] acc = acc"
| "add_objects actor_id tag (obj # objs) (seen, results) =
     (if oi_name obj \<in> seen then add_objects actor_id tag objs (seen, results)
      else add_objects actor_id tag objs
        (insert (oi_name obj) seen,
         if tag \<noteq> None \<and> tag \<noteq> Some (parse_tag (oi_name obj)) then results
         else results @ [object_entry actor_id obj]))"

fun list_under ::
  "'b bucket_client \<Rightarrow> string \<Rightarrow> string \<Rightarrow> string option \<Rightarrow> string list \<Rightarrow> string set \<times> snapshot_meta list \<Rightarrow> 'b \<Rightarrow>
   snapshot_meta list result \<times> 'b" where
  "list_under bc bucket actor_id tag [] acc b = (Inr (snd acc), b)"
| "list_under bc bucket actor_id tag (p # ps) acc b =
     (case bk_list bc bucket p b of
        (Inl e, b1) \<Rightarrow> (Inl e, b1)
      | (Inr objs, b1) \<Rightarrow> list_under bc bucket actor_id tag ps (add_objects actor_id tag objs acc) b1)"

definition minio_list ::
  "'b bucket_client \<Rightarrow> string \<Rightarrow> string option \<Rightarrow> minio_store \<times> 'b \<Rightarrow>
   snapshot_meta list result \<times> minio_store \<times> 'b" where
  "minio_list bc actor_id tag x =
     (case minio_ensure bc x of
        (Inl e, x1) \<Rightarrow> (Inl e, x1)
      | (Inr _, st, b) \<Rightarrow>
          (case list_under bc (mi_bucket st) actor_id tag (list_prefixes (mi_bucket st) actor_id tag) ({}, []) b of
             (Inl e, b1) \<Rightarrow> (Inl e, st, b1)
           | (Inr ms, b1) \<Rightarrow> (Inr (newest_first ms), st, b1)))"

definition minio_copy ::
  "'b bucket_client \<Rightarrow> string \<Rightarrow> string \<Rightarrow> string \<Rightarrow> host \<Rightarrow> minio_store \<times> 'b \<Rightarrow>
   snapshot_meta result \<times> minio_store \<times> 'b" where
  "minio_copy bc ref target_actor_id target_tag h x =
     (case minio_ensure bc x of
        (Inl e, x1) \<Rightarrow> (Inl e, x1)
      | (Inr _, st, b) \<Rightarrow>
          (case bk_stat bc (mi_bucket st) ref b of
             (Inl e, b1) \<Rightarrow> (Inl KeyError, st, b1)
           | (Inr stat, b1) \<Rightarrow>
               (let meta = parse_metadata (os_metadata stat);
                    template_id = (case dget meta ''template_id'' of None \<Rightarrow> None
                                   | Some t \<Rightarrow> if t = [] then None else Some t);
                    compression = (case dget meta ''compression'' of None \<Rightarrow> ''none'' | Some c \<Rightarrow> c);
                    checksum = dget meta ''checksum'';
                    ts = h_mono h;
                    target_ref = minio_ref (mi_bucket st) target_actor_id target_tag ts
                in case bk_copy bc (mi_bucket st) target_ref ref
                          (put_metadata bc target_actor_id target_tag compression checksum ts template_id) b1 of
                     (Inl e, b2) \<Rightarrow> (Inl e, st, b2)
                   | (Inr _, b2) \<Rightarrow>
                       (Inr \<lparr>sm_snapshot_ref = target_ref, sm_actor_id = target_actor_id,
                             sm_template_id = template_id, sm_tag = target_tag, sm_size_bytes = os_size stat,
                             sm_created_at = ts, sm_compression = compression, sm_checksum = checksum\<rparr>, st, b2))))"

record store_metrics =
  st_objects :: nat
  st_bytes :: int

definition minio_metrics ::
  "'b bucket_client \<Rightarrow> minio_store \<times> 'b \<Rightarrow> store_metrics result \<times> minio_store \<times> 'b" where
  "minio_metrics bc x =
     (case minio_ensure bc x of
        (Inl e, x1) \<Rightarrow> (Inl e, x1)
      | (Inr _, st, b) \<Rightarrow>
          (case bk_list bc (mi_bucket st) [] b of
             (Inl e, b1) \<Rightarrow> (Inl e, st, b1)
           | (Inr objs, b1) \<Rightarrow>
               (Inr \<lparr>st_objects = length objs, st_bytes = sum_list (map oi_size objs)\<rparr>, st, b1)))"

section \<open>Directory trees\<close>

text \<open>The remote stores inherit the archiving of the abstract class.\<close>

definition pack_tree :: "string \<Rightarrow> host \<Rightarrow> payload result" where
  "pack_tree source_dir h =
     (if \<not> fs_exists (h_fs h) (fs_path source_dir) then Inl FileNotFoundError
      else (case tar_pack ''gz'' (fs_path source_dir) (h_fs h) of
        Inl e \<Rightarrow> Inl e
      | Inr buf \<Rightarrow> Inr (Stream buf)))"

definition minio_put_tree ::
  "'b bucket_client \<Rightarrow> string \<Rightarrow> string \<Rightarrow> string \<Rightarrow> string option \<Rightarrow> host \<Rightarrow> minio_store \<times> 'b \<Rightarrow>
   snapshot_meta result \<times> minio_store \<times> 'b" where
  "minio_put_tree bc actor_id tag source_dir template_id h x =
     (case pack_tree source_dir h of
        Inl e \<Rightarrow> (Inl e, x)
      | Inr buf \<Rightarrow> minio_put bc actor_id tag buf ''gz'' template_id None h x)"

section \<open>What the client is relied on for\<close>

text \<open>
  A bucket whose service answers: the objects it holds are a map, a put stores under its name, a
  read finds what is there, a removal succeeds whether or not there was something, and a listing
  names each object with the prefix once.
\<close>

definition bucket_laws ::
  "'b bucket_client \<Rightarrow> string \<Rightarrow> ('b \<Rightarrow> string \<Rightarrow> blob option) \<Rightarrow> bool" where
  "bucket_laws bc bucket view \<longleftrightarrow>
     (\<forall>b. \<exists>b'. bk_bucket_exists bc bucket b = (Inr True, b') \<and> view b' = view b) \<and>
     (\<forall>n c md b. \<exists>b'. bk_put bc bucket n c md b = (Inr (), b') \<and> view b' = (view b)(n \<mapsto> c)) \<and>
     (\<forall>n b. \<exists>e b'. view b' = view b \<and>
        bk_get bc bucket n b = (case view b n of None \<Rightarrow> Inl e | Some c \<Rightarrow> Inr c, b')) \<and>
     (\<forall>n b. \<exists>b'. bk_remove bc bucket n b = (Inr (), b') \<and> view b' = (view b)(n := None)) \<and>
     (\<forall>p b. \<exists>objs b'. bk_list bc bucket p b = (Inr objs, b') \<and> view b' = view b \<and>
        distinct (map oi_name objs) \<and> set (map oi_name objs) = {n. prefix p n \<and> view b n \<noteq> None})"

end
