(* ===== verification/Object_Facts.thy ===== *)
theory Object_Facts
  imports Object_Store
begin

text \<open>
  The object store: what a time written with \<open>:.6f\<close> reads back as, what the names of objects give
  back, and what the store makes of a client that keeps \<open>bucket_laws\<close>.
\<close>

section \<open>Times in names\<close>

lemma digit_char_cases: "digit_char d \<in> set ''0123456789''"
proof -
  have "d mod 10 < length ''0123456789''" by simp
  from nth_mem [OF this] show ?thesis by (simp only: digit_char_def)
qed

lemma digit_value_char: "digit_value (digit_char d) = d mod 10"
proof -
  have "\<forall>k < 10. length (takeWhile (\<lambda>x. x \<noteq> ''0123456789'' ! k) ''0123456789'') = k"
    by (simp add: All_less_Suc numeral_eq_Suc)
  then show ?thesis by (simp add: digit_value_def digit_char_def)
qed

lemma digit_char_is_digit: "is_digit (digit_char d)"
  using digit_char_cases by (simp add: is_digit_def)

lemma read_nat_append: "read_nat (s @ [c]) = 10 * read_nat s + digit_value c"
  by (simp add: read_nat_def)

lemma read_nat_Cons: "read_nat (c # s) = digit_value c * 10 ^ length s + read_nat s"
proof (induction s rule: rev_induct)
  case (snoc x xs)
  have "read_nat (c # xs @ [x]) = 10 * read_nat (c # xs) + digit_value x"
    using read_nat_append [of "c # xs" x] by simp
  with snoc show ?case by (simp add: read_nat_append algebra_simps)
qed (simp add: read_nat_def)

lemma show_nat_reads: "list_all is_digit (show_nat n) \<and> show_nat n \<noteq> [] \<and> read_nat (show_nat n) = n"
proof (induction n rule: show_nat.induct)
  case (1 n)
  show ?case
  proof (cases "n < 10")
    case True
    then show ?thesis
      by (simp add: show_nat.simps [of n] digit_char_is_digit read_nat_def digit_value_char)
  next
    case False
    with 1 show ?thesis
      by (subst (1 2 3) show_nat.simps) (simp add: digit_char_is_digit read_nat_append digit_value_char)
  qed
qed

definition fraction :: "nat \<Rightarrow> nat \<Rightarrow> string" where
  "fraction k u = map (\<lambda>i. digit_char (u div 10 ^ i)) (rev [0..<k])"

lemma fraction_reads: "list_all is_digit (fraction k u) \<and> length (fraction k u) = k \<and> read_nat (fraction k u) = u mod 10 ^ k"
proof (induction k)
  case 0
  then show ?case by (simp add: fraction_def read_nat_def)
next
  case (Suc k)
  have "fraction (Suc k) u = digit_char (u div 10 ^ k) # fraction k u" by (simp add: fraction_def)
  moreover have "u mod 10 ^ Suc k = (u div 10 ^ k mod 10) * 10 ^ k + u mod 10 ^ k"
    using mod_mult2_eq [of u "10 ^ k" 10] by (simp add: mult.commute)
  ultimately show ?case using Suc by (simp add: digit_char_is_digit read_nat_Cons digit_value_char)
qed

lemma digit_part_digits: "s \<noteq> [] \<Longrightarrow> list_all is_digit s \<Longrightarrow> digit_part s = Some s"
proof (induction s rule: digit_part.induct)
  case (3 c d s)
  then have "d \<noteq> CHR ''_''" by (auto simp: is_digit_def)
  with 3 show ?case by simp
qed simp_all

lemma split_first_hit: "c \<notin> set a \<Longrightarrow> split_first c (a @ c # b) = (a, Some b)"
proof -
  assume c: "c \<notin> set a"
  then have "dropWhile (\<lambda>x. x \<noteq> c) (a @ c # b) = c # b" "takeWhile (\<lambda>x. x \<noteq> c) (a @ c # b) = a"
    by (induction a) auto
  then show ?thesis by (simp add: split_first_def)
qed

lemma split_first_miss: "c \<notin> set s \<Longrightarrow> split_first c s = (s, None)"
proof -
  assume "c \<notin> set s"
  then have "dropWhile (\<lambda>x. x \<noteq> c) s = []" by (induction s) auto
  then show ?thesis by (simp only: split_first_def list.case)
qed

definition round6 :: "rat \<Rightarrow> rat" where
  "round6 t = of_int (round_half_even (t * 1000000)) / 1000000"

definition time_char :: "char \<Rightarrow> bool" where
  "time_char c \<longleftrightarrow> is_digit c \<or> c = CHR ''.''"

lemma show_fixed6_form:
  assumes "0 \<le> t"
  shows "show_fixed6 t = show_nat (nat (round_half_even (t * 1000000)) div 1000000) @ CHR ''.'' #
    fraction 6 (nat (round_half_even (t * 1000000)))"
  using assms by (simp add: show_fixed6_def Let_def fraction_def)

lemma round_half_even_nonneg: "0 \<le> t \<Longrightarrow> 0 \<le> round_half_even t"
  by (simp add: round_half_even_def Let_def)

lemma show_fixed6_chars: "0 \<le> t \<Longrightarrow> list_all time_char (show_fixed6 t)"
  using show_nat_reads fraction_reads
  by (auto simp: show_fixed6_form time_char_def list_all_iff)

lemma time_char_plain:
  assumes "time_char c"
  shows "c \<notin> set ''eE-+/:'' \<and> \<not> is_space c"
proof -
  have "\<forall>c \<in> set ''0123456789.''. c \<notin> set ''eE-+/:'' \<and> \<not> is_space c" by code_simp
  moreover have "c \<in> set ''0123456789.''" using assms by (auto simp: time_char_def is_digit_def)
  ultimately show ?thesis by blast
qed

lemma py_float_fixed6:
  assumes "0 \<le> t"
  shows "py_float (show_fixed6 t) = Some (round6 t)"
proof -
  define u where "u = nat (round_half_even (t * 1000000))"
  let ?a = "show_nat (u div 1000000)" and ?b = "fraction 6 u"
  have s: "show_fixed6 t = ?a @ CHR ''.'' # ?b" using show_fixed6_form [OF assms] by (simp add: u_def)
  have a: "list_all is_digit ?a" "?a \<noteq> []" "read_nat ?a = u div 1000000"
    and b: "list_all is_digit ?b" "?b \<noteq> []" "length ?b = 6" "read_nat ?b = u mod 1000000"
    using show_nat_reads [of "u div 1000000"] fraction_reads [of 6 u] by auto
  have digits: "c \<noteq> CHR ''e'' \<and> c \<noteq> CHR ''E'' \<and> c \<noteq> CHR ''-'' \<and> c \<noteq> CHR ''+'' \<and> \<not> is_space c"
    if "c \<in> set (show_fixed6 t)" for c
    using that show_fixed6_chars [OF assms] time_char_plain [of c] by (simp add: list_all_iff)
  have strip: "strip_space (show_fixed6 t) = show_fixed6 t"
  proof -
    have "dropWhile is_space s = s" if "set s = set (show_fixed6 t)" for s
      using that digits by (cases s) auto
    from this [of "show_fixed6 t"] this [of "rev (show_fixed6 t)"] show ?thesis
      by (simp add: strip_space_def)
  qed
  obtain c cs where hd: "show_fixed6 t = c # cs" using a(2) s by (cases ?a) auto
  have "c \<noteq> CHR ''-''" "c \<noteq> CHR ''+''" using digits [of c] hd by auto
  then have "py_float (show_fixed6 t) = read_unsigned (show_fixed6 t)"
    unfolding py_float_def strip unfolding hd by (simp add: read_signed_def)
  also have "\<dots> = read_point (show_fixed6 t)"
  proof -
    have "map (\<lambda>c. if c = CHR ''E'' then CHR ''e'' else c) (show_fixed6 t) = show_fixed6 t"
      using digits by (intro map_idI) auto
    moreover have "CHR ''e'' \<notin> set (show_fixed6 t)" using digits by blast
    ultimately show ?thesis by (simp add: read_unsigned_def split_first_miss)
  qed
  also have "\<dots> = Some (of_nat (u div 1000000) + of_nat (u mod 1000000) / 10 ^ 6)"
  proof -
    have "\<not> is_digit CHR ''.''" by code_simp
    with a(1) have "CHR ''.'' \<notin> set ?a" by (auto simp: list_all_iff)
    then have "split_first CHR ''.'' (show_fixed6 t) = (?a, Some ?b)"
      unfolding s by (rule split_first_hit)
    then show ?thesis using a b by (simp add: read_point_def digit_part_digits)
  qed
  also have "of_nat (u div 1000000) + of_nat (u mod 1000000) / 10 ^ 6 = (round6 t :: rat)"
  proof -
    have "of_nat u = (of_nat (u div 1000000) * 1000000 + of_nat (u mod 1000000) :: rat)"
      by (metis div_mult_mod_eq of_nat_add of_nat_mult of_nat_numeral)
    moreover have "of_nat u = (of_int (round_half_even (t * 1000000)) :: rat)"
      using round_half_even_nonneg [of "t * 1000000"] assms by (simp add: u_def)
    ultimately show ?thesis by (simp add: round6_def field_simps)
  qed
  finally show ?thesis .
qed

section \<open>Names of objects\<close>

lemma time_no: "0 \<le> t \<Longrightarrow> CHR '':'' \<notin> set (show_fixed6 t) \<and> CHR ''/'' \<notin> set (show_fixed6 t)"
  using show_fixed6_chars [of t] time_char_plain by (auto simp: list_all_iff)

lemma parse_tag_tiered:
  assumes "CHR '':'' \<notin> set a" and "CHR '':'' \<notin> set tag"
  shows "parse_tag (make_ref a tag t) = tag"
  using assms by (simp add: parse_tag_def make_ref_def split_on_append split_on_plain Let_def)

lemma last_split: "last (split_on c (s @ c # t)) = last (split_on c t)"
  by (simp add: split_on_append)

lemma parse_ts_tiered:
  assumes "0 \<le> t"
  shows "parse_ts (make_ref a tag t) = round6 t"
proof -
  have "last (split_on CHR '':'' (make_ref a tag t)) = show_fixed6 t"
    using last_split [of "CHR '':''" "''snap:'' @ a @ '':'' @ tag" "show_fixed6 t"] time_no [OF assms]
    by (simp add: make_ref_def split_on_plain)
  moreover have "prefix ''snap:'' (make_ref a tag t)" by (simp add: make_ref_def)
  ultimately show ?thesis using py_float_fixed6 [OF assms] by (simp add: parse_ts_def)
qed

lemma before_last_tar:
  assumes "CHR ''t'' \<notin> set s"
  shows "before_last ''.tar'' (s @ ''.tar'') = s"
proof -
  let ?s = "s @ ''.tar''"
  have only: "prefix ''.tar'' (drop i ?s) \<longleftrightarrow> i = length s" if i: "i < length ?s" for i
  proof
    assume "prefix ''.tar'' (drop i ?s)"
    then obtain r where r: "drop i ?s = ''.tar'' @ r" by (auto simp: prefix_def)
    have "length (drop i ?s) = 4 + length r" using r by simp
    then have "i \<le> length s" by simp
    moreover have "?s ! (i + 1) = CHR ''t''"
    proof -
      have "drop i ?s ! 1 = CHR ''t''" unfolding r by simp
      moreover have "i \<le> length ?s" using i by simp
      ultimately show ?thesis using nth_drop [of i ?s 1] by simp
    qed
    moreover have "\<not> Suc i < length s"
    proof
      assume lt: "Suc i < length s"
      then have "s ! Suc i = CHR ''t''" using calculation(2) by (simp add: nth_append)
      with nth_mem [OF lt] assms show False by simp
    qed
    moreover have "Suc i \<noteq> length s" using calculation(2) by (auto simp: nth_append)
    ultimately show "i = length s" by simp
  qed simp
  have "filter (\<lambda>i. prefix ''.tar'' (drop i ?s)) [0..<length ?s] = filter (\<lambda>i. i = length s) [0..<length ?s]"
    by (rule filter_cong [OF refl], rule only) auto
  also have "[0..<length ?s] = [0..<length s] @ [length s, length s + 1, length s + 2, length s + 3]"
    by (simp add: upt_rec [of "length s"] upt_add_eq_append [of 0 "length s" 4, simplified])
  also have "filter (\<lambda>i. i = length s) \<dots> = [length s]" by simp
  finally show ?thesis by (simp add: before_last_def)
qed

lemma parse_standalone:
  assumes "CHR ''/'' \<notin> set bucket" and "CHR ''/'' \<notin> set a" and "CHR ''/'' \<notin> set tag" and t: "0 \<le> t"
  shows "parse_tag (minio_ref bucket a tag t) = tag" and "parse_ts (minio_ref bucket a tag t) = round6 t"
proof -
  let ?f = "show_fixed6 t @ ''.tar''"
  have no: "CHR ''/'' \<notin> set ?f" "CHR ''t'' \<notin> set (show_fixed6 t)"
  proof -
    show "CHR ''/'' \<notin> set ?f" using time_no [OF t] by simp
    have "\<forall>c \<in> set ''0123456789.''. c \<noteq> CHR ''t''" by code_simp
    then show "CHR ''t'' \<notin> set (show_fixed6 t)"
      using show_fixed6_chars [OF t] by (force simp: list_all_iff time_char_def is_digit_def)
  qed
  have split: "split_on CHR ''/'' (minio_ref bucket a tag t) = [''minio:'' @ bucket, a, tag, ?f]"
  proof -
    define p where "p = ''minio:'' @ bucket"
    have eq: "minio_ref bucket a tag t = p @ CHR ''/'' # a @ CHR ''/'' # tag @ CHR ''/'' # ?f"
      by (simp add: minio_ref_def object_name_def p_def)
    have "CHR ''/'' \<notin> set p" using assms by (simp add: p_def)
    then have "split_on CHR ''/'' p = [p]" "split_on CHR ''/'' a = [a]" "split_on CHR ''/'' tag = [tag]"
      "split_on CHR ''/'' ?f = [?f]"
      using assms(2,3) no(1) by (blast intro: split_on_plain)+
    then have "split_on CHR ''/'' (minio_ref bucket a tag t) = [p, a, tag, ?f]"
      unfolding eq by (simp only: split_on_append append.simps)
    then show ?thesis by (simp only: p_def)
  qed
  have np: "\<not> prefix ''snap:'' (minio_ref bucket a tag t)" by (simp add: minio_ref_def)
  show "parse_tag (minio_ref bucket a tag t) = tag" by (simp add: parse_tag_def np split Let_def)
  show "parse_ts (minio_ref bucket a tag t) = round6 t"
    using py_float_fixed6 [OF t] by (simp add: parse_ts_def np split before_last_tar [OF no(2)])
qed

section \<open>Listing a bucket\<close>

lemma minio_ensure_ok:
  assumes "bucket_laws bc (mi_bucket st) view"
  shows "\<exists>b'. minio_ensure bc (st, b) = (Inr (), st\<lparr>mi_connected := True\<rparr>, b') \<and> view b' = view b"
proof -
  from assms obtain b' where "bk_bucket_exists bc (mi_bucket st) b = (Inr True, b')" "view b' = view b"
    unfolding bucket_laws_def by blast
  then show ?thesis by (cases st) (auto simp: minio_ensure_def)
qed

text \<open>What a listing has collected: an entry for every name seen whose tag fits.\<close>

definition collected :: "string \<Rightarrow> string option \<Rightarrow> string set \<times> snapshot_meta list \<Rightarrow> bool" where
  "collected a tag acc \<longleftrightarrow>
     (\<forall>m \<in> set (snd acc). sm_snapshot_ref m \<in> fst acc \<and> sm_actor_id m = a \<and>
        sm_tag m = parse_tag (sm_snapshot_ref m) \<and> sm_created_at m = parse_ts (sm_snapshot_ref m)) \<and>
     (\<forall>n \<in> fst acc. (tag = None \<or> tag = Some (parse_tag n)) \<longrightarrow> n \<in> sm_snapshot_ref ` set (snd acc)) \<and>
     (\<forall>m \<in> set (snd acc). tag = None \<or> tag = Some (sm_tag m)) \<and> distinct (map sm_snapshot_ref (snd acc))"

lemma add_objects_collected:
  "collected a tag acc \<Longrightarrow>
   collected a tag (add_objects a tag objs acc) \<and>
   fst (add_objects a tag objs acc) = fst acc \<union> oi_name ` set objs"
proof (induction a tag objs acc rule: add_objects.induct)
  case (2 a tag obj objs seen results)
  show ?case
  proof (cases "oi_name obj \<in> seen")
    case True
    with 2 show ?thesis by auto
  next
    case False
    let ?acc = "(insert (oi_name obj) seen,
         if tag \<noteq> None \<and> tag \<noteq> Some (parse_tag (oi_name obj)) then results else results @ [object_entry a obj])"
    have new: "oi_name obj \<notin> sm_snapshot_ref ` set results"
      using 2(3) False by (auto simp: collected_def)
    have "collected a tag ?acc"
      using 2(3) new by (auto simp: collected_def object_entry_def)
    from 2(2) [OF False this] False show ?thesis by auto
  qed
qed simp

lemma list_under_collected:
  assumes laws: "bucket_laws bc bucket view"
  shows "collected a tag acc \<Longrightarrow> \<exists>ms b' seen. list_under bc bucket a tag ps acc b = (Inr ms, b') \<and> view b' = view b \<and>
    collected a tag (seen, ms) \<and>
    seen = fst acc \<union> {n. view b n \<noteq> None \<and> (\<exists>p \<in> set ps. prefix p n)}"
proof (induction ps arbitrary: acc b)
  case Nil
  then show ?case by (cases acc) auto
next
  case (Cons p ps)
  from laws obtain objs b1 where l: "bk_list bc bucket p b = (Inr objs, b1)" "view b1 = view b"
    "set (map oi_name objs) = {n. prefix p n \<and> view b n \<noteq> None}" unfolding bucket_laws_def by blast
  note A = add_objects_collected [OF Cons.prems, of objs]
  from Cons.IH [OF conjunct1 [OF A], of b1] obtain ms b' seen where
    "list_under bc bucket a tag ps (add_objects a tag objs acc) b1 = (Inr ms, b')" "view b' = view b1"
    "collected a tag (seen, ms)"
    "seen = fst (add_objects a tag objs acc) \<union> {n. view b1 n \<noteq> None \<and> (\<exists>p \<in> set ps. prefix p n)}" by blast
  with l A show ?case by (intro exI [of _ ms] exI [of _ b'] exI [of _ seen]) auto
qed

lemma newest_first_set [simp]: "set (newest_first ms) = set ms"
  by (simp add: newest_first_def)

lemma minio_list_spec:
  assumes laws: "bucket_laws bc (mi_bucket st) view"
  shows "\<exists>ms st' b'. minio_list bc a tag (st, b) = (Inr ms, st', b') \<and> view b' = view b \<and>
    sm_snapshot_ref ` set ms = {n. view b n \<noteq> None \<and> (\<exists>p \<in> set (list_prefixes (mi_bucket st) a tag). prefix p n) \<and>
       (tag = None \<or> tag = Some (parse_tag n))} \<and>
    (\<forall>m \<in> set ms. sm_actor_id m = a \<and> sm_tag m = parse_tag (sm_snapshot_ref m) \<and>
       sm_created_at m = parse_ts (sm_snapshot_ref m)) \<and>
    distinct (map sm_snapshot_ref ms) \<and> sorted (map (\<lambda>m. - sm_created_at m) ms)"
proof -
  let ?ps = "list_prefixes (mi_bucket st) a tag"
  let ?st = "st\<lparr>mi_connected := True\<rparr>"
  from minio_ensure_ok [OF laws] obtain b1 where e: "minio_ensure bc (st, b) = (Inr (), ?st, b1)" "view b1 = view b"
    by blast
  have "collected a tag ({}, [])" by (simp add: collected_def)
  from list_under_collected [OF laws this, of ?ps b1] obtain ms b' seen where
    l: "list_under bc (mi_bucket st) a tag ?ps ({}, []) b1 = (Inr ms, b')" "view b' = view b1"
      "collected a tag (seen, ms)" "seen = {n. view b1 n \<noteq> None \<and> (\<exists>p \<in> set ?ps. prefix p n)}" by auto
  have run: "minio_list bc a tag (st, b) = (Inr (newest_first ms), ?st, b')"
    using e l by (simp add: minio_list_def)
  have refs: "sm_snapshot_ref ` set ms = {n \<in> seen. tag = None \<or> tag = Some (parse_tag n)}"
    using l(3) by (fastforce simp: collected_def)
  have "distinct (map sm_snapshot_ref (newest_first ms))"
    using l(3) by (simp add: collected_def distinct_map newest_first_def)
  moreover have "sorted (map (\<lambda>m. - sm_created_at m) (newest_first ms))"
    unfolding newest_first_def by (rule sorted_sort_key)
  ultimately show ?thesis
    using run refs l e by (intro exI [of _ "newest_first ms"] exI [of _ ?st] exI [of _ b']) (auto simp: collected_def)
qed


section \<open>Properties\<close>

text \<open>
  C34: a MinIO store finds again what it stored: on a bucket that answers, a put of bytes succeeds,
  a get of the reference it returned gives the bytes, and the listing of the actor's snapshots
  under that tag, which knows nothing but the objects' names, has the entry with its tag and its
  time to the microsecond; for the names the store makes itself when no part contains a slash, and
  for the names of a tiered store when neither actor nor tag contains a colon.
\<close>

theorem minio_finds_what_it_stored:
  assumes laws: "bucket_laws bc (mi_bucket st) view" and time: "0 \<le> h_mono h"
    and names: "ref = None \<and> CHR ''/'' \<notin> set (mi_bucket st @ a @ tag) \<or>
      ref = Some (make_ref a tag (h_mono h)) \<and> CHR '':'' \<notin> set (a @ tag)"
  shows "\<exists>m st1 b1. minio_put bc a tag (Bytes c) z tpl ref h (st, b) = (Inr m, st1, b1) \<and>
    fst (minio_get bc (sm_snapshot_ref m) (st1, b1)) = Inr c \<and>
    (\<exists>ms. fst (minio_list bc a (Some tag) (st1, b1)) = Inr ms \<and>
      (\<exists>e \<in> set ms. sm_snapshot_ref e = sm_snapshot_ref m \<and> sm_tag e = tag \<and>
         sm_created_at e = round6 (h_mono h)))"
proof -
  define obj where "obj = (case ref of Some r \<Rightarrow> r | None \<Rightarrow> minio_ref (mi_bucket st) a tag (h_mono h))"
  let ?st = "st\<lparr>mi_connected := True\<rparr>"
  have parsed: "parse_tag obj = tag" "parse_ts obj = round6 (h_mono h)"
    using names time parse_standalone [of "mi_bucket st" a tag "h_mono h"] parse_tag_tiered [of a tag]
      parse_ts_tiered [OF time] by (auto simp: obj_def)
  have under: "\<exists>p \<in> set (list_prefixes (mi_bucket st) a (Some tag)). prefix p obj"
    using names by (auto simp: obj_def list_prefixes_def make_ref_def minio_ref_def object_name_def prefix_def)
  from minio_ensure_ok [OF laws] obtain b0 where e: "minio_ensure bc (st, b) = (Inr (), ?st, b0)" by blast
  let ?md = "put_metadata bc a tag z (Some (h_digest h c)) (h_mono h) tpl"
  from laws obtain b1 where p: "bk_put bc (mi_bucket st) obj c ?md b0 = (Inr (), b1)" "view b1 = (view b0)(obj \<mapsto> c)"
    unfolding bucket_laws_def by blast
  have put: "minio_put bc a tag (Bytes c) z tpl ref h (st, b) =
      (Inr (remote_meta obj a tag tpl z c h), ?st, b1)"
  proof -
    have "(case ref of None \<Rightarrow> minio_ref (mi_bucket (fst (st, b))) a tag (h_mono h) | Some r \<Rightarrow> r) = obj"
      by (cases ref) (simp_all add: obj_def)
    then show ?thesis unfolding minio_put_def using e p by (simp add: hash_update_def Let_def)
  qed
  have laws1: "bucket_laws bc (mi_bucket ?st) view" using laws by simp
  from laws obtain er b2 where g: "bk_get bc (mi_bucket st) obj b1 = (case view b1 obj of None \<Rightarrow> Inl er | Some c \<Rightarrow> Inr c, b2)"
    unfolding bucket_laws_def by blast
  have get: "fst (minio_get bc obj (?st, b1)) = Inr c"
    using g p by (simp add: minio_get_def minio_ensure_def)
  from minio_list_spec [OF laws1, of a "Some tag" b1] obtain ms st2 b3 where
    l: "minio_list bc a (Some tag) (?st, b1) = (Inr ms, st2, b3)"
      "sm_snapshot_ref ` set ms = {n. view b1 n \<noteq> None \<and>
         (\<exists>p \<in> set (list_prefixes (mi_bucket st) a (Some tag)). prefix p n) \<and> tag = parse_tag n}"
      "\<forall>m \<in> set ms. sm_tag m = parse_tag (sm_snapshot_ref m) \<and> sm_created_at m = parse_ts (sm_snapshot_ref m)"
    by auto
  have "obj \<in> sm_snapshot_ref ` set ms" unfolding l(2) using p under parsed by simp
  then obtain e where "e \<in> set ms" "sm_snapshot_ref e = obj" by auto
  with l(3) parsed have "\<exists>e \<in> set ms. sm_snapshot_ref e = obj \<and> sm_tag e = tag \<and> sm_created_at e = round6 (h_mono h)"
    by metis
  with put get l(1) show ?thesis by (simp add: remote_meta_def)
qed

text \<open>A bucket in memory that keeps the laws.\<close>

definition demo_bucket :: "(string, blob) dict bucket_client" where
  "demo_bucket =
     \<lparr>bk_bucket_exists = (\<lambda>_ b. (Inr True, b)), bk_make_bucket = (\<lambda>_ b. (Inr (), b)),
      bk_put = (\<lambda>_ n c md b. (Inr (), dput n c b)),
      bk_get = (\<lambda>_ n b. (case dget b n of None \<Rightarrow> Inl (OtherError ''NoSuchKey'') | Some c \<Rightarrow> Inr c, b)),
      bk_remove = (\<lambda>_ n b. (Inr (), ddel n b)),
      bk_list = (\<lambda>_ p b. (Inr (map (\<lambda>n. \<lparr>oi_name = n, oi_size = 0\<rparr>) (filter (prefix p) (remdups (map fst b)))), b)),
      bk_stat = (\<lambda>_ n b. (Inl KeyError, b)), bk_copy = (\<lambda>_ t s md b. (Inl KeyError, b)),
      bk_str_float = show_fixed6\<rparr>"

lemma demo_bucket_laws: "bucket_laws demo_bucket bucket dget"
proof -
  have names: "map oi_name (map (\<lambda>n. \<lparr>oi_name = n, oi_size = 0\<rparr>) ns) = ns" for ns
    by (induction ns) simp_all
  have keys: "dget b n \<noteq> None \<longleftrightarrow> n \<in> set (map fst b)" for b :: "(string, blob) dict" and n
    using dget_None_key [of b n] by simp
  have found: "{n. prefix p n \<and> n \<in> S} = {n \<in> S. prefix p n}" for p and S :: "string set" by blast
  show ?thesis
    unfolding bucket_laws_def keys
    by (simp add: demo_bucket_def names found fun_eq_iff dict_simps del: map_map set_map split: option.split)
qed

definition demo_remote_host :: host where
  "demo_remote_host = \<lparr>h_fs = [([''w''], DirE)], h_time = 0, h_mono = 2, h_pid = 1, h_names = (\<lambda>n. ''x''), h_nnames = 0,
     h_digest = (\<lambda>_. ''d''), h_size = (\<lambda>_. 3)\<rparr>"

theorem minio_finds_what_it_stored_witness:
  "\<exists>m st1 b1. minio_put demo_bucket ''ann'' ''full-1'' (Bytes (Raw ''abc'')) ''none'' None None demo_remote_host
      (minio_init ''host:9000'' ''snapshots'' False ''us-east-1'', []) = (Inr m, st1, b1) \<and>
    fst (minio_get demo_bucket (sm_snapshot_ref m) (st1, b1)) = Inr (Raw ''abc'')"
proof -
  have "0 \<le> h_mono demo_remote_host" by (simp add: demo_remote_host_def)
  moreover have "None = None \<and> CHR ''/'' \<notin> set (mi_bucket (minio_init ''host:9000'' ''snapshots'' False ''us-east-1'') @ ''ann'' @ ''full-1'')"
    by (simp add: minio_init_def)
  ultimately show ?thesis
    using minio_finds_what_it_stored [OF demo_bucket_laws _ disjI1] by blast
qed

text \<open>
  What an actor id with a slash does to it: the second component of the actor is taken for the tag.
\<close>

theorem minio_slash_hides:
  assumes laws: "bucket_laws bc (mi_bucket st) view" and "CHR ''/'' \<notin> set (mi_bucket st)"
    and "CHR ''/'' \<notin> set x" and "CHR ''/'' \<notin> set y" and "tag \<noteq> y"
    and put: "minio_put bc (x @ ''/'' @ y) tag (Bytes c) z tpl None h (st, b) = (Inr m, st1, b1)"
    and lst: "minio_list bc (x @ ''/'' @ y) (Some tag) (st1, b1) = (Inr ms, x2)"
  shows "sm_snapshot_ref m \<notin> sm_snapshot_ref ` set ms"
proof -
  let ?a = "x @ ''/'' @ y"
  have m: "sm_snapshot_ref m = minio_ref (mi_bucket st) ?a tag (h_mono h)" and st1: "mi_bucket st1 = mi_bucket st"
    using put by (auto simp: minio_put_def hash_update_def Let_def remote_meta_def minio_ensure_def
        split: prod.splits sum.splits if_splits)
  define p where "p = ''minio:'' @ mi_bucket st"
  have "sm_snapshot_ref m = p @ CHR ''/'' # x @ CHR ''/'' # y @ CHR ''/'' # tag @ CHR ''/'' # show_fixed6 (h_mono h) @ ''.tar''"
    by (simp add: m minio_ref_def object_name_def p_def)
  moreover have "CHR ''/'' \<notin> set p" using assms(2) by (simp add: p_def)
  ultimately have split: "\<exists>r. split_on CHR ''/'' (sm_snapshot_ref m) = p # x # y # r \<and> r \<noteq> []"
    using assms(3,4) by (simp add: split_on_append split_on_plain)
  moreover have "\<not> prefix ''snap:'' (sm_snapshot_ref m)" by (simp add: m minio_ref_def)
  ultimately have "parse_tag (sm_snapshot_ref m) = y" by (auto simp: parse_tag_def Let_def Suc_le_eq)
  moreover have "bucket_laws bc (mi_bucket st1) view" using laws st1 by simp
  from minio_list_spec [OF this, of ?a "Some tag" b1] lst
  have "\<forall>n \<in> sm_snapshot_ref ` set ms. tag = parse_tag n" by auto
  ultimately show ?thesis using assms(5) by blast
qed

end
