(* ===== verification/Postgres_Store.thy ===== *)
theory Postgres_Store
  imports Object_Facts "HOL-Library.Multiset"
begin

text \<open>
  \<open>_runtime/postgres_store.py\<close>: the snapshot store on a PostgreSQL table. The SQL text of the source
  is translated statement by statement into functions on tables: a table is the list of its rows in
  the order they lie on disk, and a database the tables by name. The server is a parameter that
  says whether a connection opens, whether it answers, and in which order a scan meets the rows,
  which SQL leaves open. Table names are plain lower-case identifiers.
\<close>

section \<open>The table\<close>

record snapshot_row =
  sr_snapshot_ref :: string
  sr_actor_id :: string
  sr_template_id :: "string option"
  sr_tag :: string
  sr_size_bytes :: int
  sr_created_at :: time
  sr_compression :: string
  sr_checksum :: "string option"
  sr_data :: blob

type_synonym database = "(string, snapshot_row list) dict"

record pg_server =
  ps_connect :: "string \<Rightarrow> unit result"
  ps_answers :: "unit result"
  ps_scan :: "snapshot_row list \<Rightarrow> snapshot_row list"

section \<open>The statements\<close>

text \<open>
  A statement that fails changes nothing. One on a table that is not there fails.
\<close>

definition sql_on ::
  "string \<Rightarrow> (snapshot_row list \<Rightarrow> 'a result \<times> snapshot_row list) \<Rightarrow> database \<Rightarrow> 'a result \<times> database" where
  "sql_on t stmt d =
     (case dget d t of
        None \<Rightarrow> (Inl (OtherError ''UndefinedTableError''), d)
      | Some rows \<Rightarrow>
          (case stmt rows of
             (Inl e, _) \<Rightarrow> (Inl e, d)
           | (Inr a, rows') \<Rightarrow> (Inr a, dput t rows' d)))"

text \<open>\<open>CREATE TABLE IF NOT EXISTS\<close>; the indexes hold no data of their own.\<close>

definition sql_schema :: "string \<Rightarrow> database \<Rightarrow> unit result \<times> database" where
  "sql_schema t d = (Inr (), if dget d t = None then dput t [] d else d)"

text \<open>Adding rows under \<open>snapshot_ref TEXT PRIMARY KEY\<close>.\<close>

definition sql_add :: "snapshot_row list \<Rightarrow> 'a \<Rightarrow> snapshot_row list \<Rightarrow> 'a result \<times> snapshot_row list" where
  "sql_add new a rows =
     (if distinct (map sr_snapshot_ref new) \<and> set (map sr_snapshot_ref new) \<inter> set (map sr_snapshot_ref rows) = {}
      then (Inr a, rows @ new)
      else (Inl (OtherError ''UniqueViolationError''), rows))"

text \<open>\<open>INSERT INTO ... VALUES\<close>\<close>

definition sql_insert :: "snapshot_row \<Rightarrow> snapshot_row list \<Rightarrow> unit result \<times> snapshot_row list" where
  "sql_insert r = sql_add [r] ()"

text \<open>\<open>SELECT data ... WHERE snapshot_ref = $1\<close>, of which \<open>fetchrow\<close> takes the first row.\<close>

definition first_row :: "'a list \<Rightarrow> 'a option" where
  "first_row rows = (case rows of [] \<Rightarrow> None | r # _ \<Rightarrow> Some r)"

definition sql_select_data ::
  "pg_server \<Rightarrow> string \<Rightarrow> snapshot_row list \<Rightarrow> blob option result \<times> snapshot_row list" where
  "sql_select_data ps ref rows =
     (Inr (first_row (map sr_data (filter (\<lambda>r. sr_snapshot_ref r = ref) (ps_scan ps rows)))), rows)"

text \<open>\<open>DELETE ... WHERE snapshot_ref = $1\<close>, answered by the number of rows it removed.\<close>

definition sql_delete :: "string \<Rightarrow> snapshot_row list \<Rightarrow> string result \<times> snapshot_row list" where
  "sql_delete ref rows =
     (Inr (''DELETE '' @ show_nat (length (filter (\<lambda>r. sr_snapshot_ref r = ref) rows))),
      filter (\<lambda>r. sr_snapshot_ref r \<noteq> ref) rows)"

text \<open>
  The two \<open>SELECT\<close>s of \<open>list\<close>: \<open>WHERE actor_id = $1 AND tag = $2\<close> and \<open>WHERE actor_id = $1\<close>, each
  \<open>ORDER BY created_at DESC\<close>.
\<close>

definition order_desc :: "snapshot_row list \<Rightarrow> snapshot_row list" where
  "order_desc = sort_key (\<lambda>r. - sr_created_at r)"

definition sql_select_tag ::
  "pg_server \<Rightarrow> string \<Rightarrow> string \<Rightarrow> snapshot_row list \<Rightarrow> snapshot_row list result \<times> snapshot_row list" where
  "sql_select_tag ps actor_id tag rows =
     (Inr (order_desc (filter (\<lambda>r. sr_actor_id r = actor_id \<and> sr_tag r = tag) (ps_scan ps rows))), rows)"

definition sql_select_actor ::
  "pg_server \<Rightarrow> string \<Rightarrow> snapshot_row list \<Rightarrow> snapshot_row list result \<times> snapshot_row list" where
  "sql_select_actor ps actor_id rows =
     (Inr (order_desc (filter (\<lambda>r. sr_actor_id r = actor_id) (ps_scan ps rows))), rows)"

text \<open>\<open>INSERT ... SELECT ... WHERE snapshot_ref = $5 RETURNING ...\<close>\<close>

definition sql_insert_from ::
  "pg_server \<Rightarrow> string \<Rightarrow> string \<Rightarrow> string \<Rightarrow> time \<Rightarrow> string \<Rightarrow> snapshot_row list \<Rightarrow>
   snapshot_row option result \<times> snapshot_row list" where
  "sql_insert_from ps new_ref actor_id tag ts ref rows =
     (let new = map (\<lambda>r. r\<lparr>sr_snapshot_ref := new_ref, sr_actor_id := actor_id, sr_tag := tag, sr_created_at := ts\<rparr>)
                  (filter (\<lambda>r. sr_snapshot_ref r = ref) (ps_scan ps rows))
      in sql_add new (first_row new) rows)"

text \<open>\<open>SELECT COUNT(*), COALESCE(SUM(size_bytes), 0)\<close>\<close>

definition sql_totals :: "pg_server \<Rightarrow> snapshot_row list \<Rightarrow> (nat \<times> int) result \<times> snapshot_row list" where
  "sql_totals ps rows = (Inr (length (ps_scan ps rows), sum_list (map sr_size_bytes (ps_scan ps rows))), rows)"

section \<open>The store\<close>

record postgres_store =
  pg_dsn :: string
  pg_table_name :: string
  pg_pool :: bool

definition postgres_init :: "string \<Rightarrow> string \<Rightarrow> postgres_store" where
  "postgres_init dsn table_name = \<lparr>pg_dsn = dsn, pg_table_name = table_name, pg_pool = False\<rparr>"

text \<open>The pool is kept before the schema is sent, so that a schema that fails is not sent again.\<close>

definition postgres_ensure ::
  "pg_server \<Rightarrow> postgres_store \<times> database \<Rightarrow> unit result \<times> postgres_store \<times> database" where
  "postgres_ensure ps x =
     (case x of (st, d) \<Rightarrow>
      if pg_pool st then (Inr (), x)
      else (case ps_connect ps (pg_dsn st) of
          Inl e \<Rightarrow> (Inl e, st, d)
        | Inr _ \<Rightarrow>
            (case ps_answers ps of
               Inl e \<Rightarrow> (Inl e, st\<lparr>pg_pool := True\<rparr>, d)
             | Inr _ \<Rightarrow> (case sql_schema (pg_table_name st) d of (r, d1) \<Rightarrow> (r, st\<lparr>pg_pool := True\<rparr>, d1)))))"

text \<open>A statement on a connection of the pool.\<close>

definition postgres_run ::
  "pg_server \<Rightarrow> (snapshot_row list \<Rightarrow> 'a result \<times> snapshot_row list) \<Rightarrow> postgres_store \<times> database \<Rightarrow>
   'a result \<times> postgres_store \<times> database" where
  "postgres_run ps stmt x =
     (case postgres_ensure ps x of
        (Inl e, x1) \<Rightarrow> (Inl e, x1)
      | (Inr _, st, d) \<Rightarrow>
          (case ps_answers ps of
             Inl e \<Rightarrow> (Inl e, st, d)
           | Inr _ \<Rightarrow> (case sql_on (pg_table_name st) stmt d of (r, d1) \<Rightarrow> (r, st, d1))))"

definition postgres_ref :: "string \<Rightarrow> string \<Rightarrow> time \<Rightarrow> string" where
  "postgres_ref actor_id tag ts = ''pg:'' @ actor_id @ '':'' @ tag @ '':'' @ show_fixed6 ts"

definition row_of :: "snapshot_meta \<Rightarrow> blob \<Rightarrow> snapshot_row" where
  "row_of m b =
     \<lparr>sr_snapshot_ref = sm_snapshot_ref m, sr_actor_id = sm_actor_id m, sr_template_id = sm_template_id m,
      sr_tag = sm_tag m, sr_size_bytes = sm_size_bytes m, sr_created_at = sm_created_at m,
      sr_compression = sm_compression m, sr_checksum = sm_checksum m, sr_data = b\<rparr>"

definition meta_of :: "snapshot_row \<Rightarrow> snapshot_meta" where
  "meta_of r =
     \<lparr>sm_snapshot_ref = sr_snapshot_ref r, sm_actor_id = sr_actor_id r, sm_template_id = sr_template_id r,
      sm_tag = sr_tag r, sm_size_bytes = sr_size_bytes r, sm_created_at = sr_created_at r,
      sm_compression = sr_compression r, sm_checksum = sr_checksum r\<rparr>"

definition postgres_put ::
  "pg_server \<Rightarrow> string \<Rightarrow> string \<Rightarrow> payload \<Rightarrow> string \<Rightarrow> string option \<Rightarrow> string option \<Rightarrow> host \<Rightarrow>
   postgres_store \<times> database \<Rightarrow> snapshot_meta result \<times> postgres_store \<times> database" where
  "postgres_put ps actor_id tag data compression template_id ref h x =
     (case hash_update data of
        Inl e \<Rightarrow> (Inl e, x)
      | Inr content \<Rightarrow>
          (let r = (case ref of Some r \<Rightarrow> r | None \<Rightarrow> postgres_ref actor_id tag (h_mono h));
               meta = remote_meta r actor_id tag template_id compression content h
           in case postgres_run ps (sql_insert (row_of meta content)) x of
                (Inl e, x1) \<Rightarrow> (Inl e, x1)
              | (Inr _, x1) \<Rightarrow> (Inr meta, x1)))"

definition postgres_get ::
  "pg_server \<Rightarrow> string \<Rightarrow> postgres_store \<times> database \<Rightarrow> blob result \<times> postgres_store \<times> database" where
  "postgres_get ps ref x =
     (case postgres_run ps (sql_select_data ps ref) x of
        (Inl e, x1) \<Rightarrow> (Inl e, x1)
      | (Inr None, x1) \<Rightarrow> (Inl KeyError, x1)
      | (Inr (Some b), x1) \<Rightarrow> (Inr b, x1))"

definition postgres_delete ::
  "pg_server \<Rightarrow> string \<Rightarrow> postgres_store \<times> database \<Rightarrow> unit result \<times> postgres_store \<times> database" where
  "postgres_delete ps ref x =
     (case postgres_run ps (sql_delete ref) x of
        (Inl e, x1) \<Rightarrow> (Inl e, x1)
      | (Inr status, x1) \<Rightarrow> (if status = ''DELETE 0'' then Inl KeyError else Inr (), x1))"

definition postgres_list ::
  "pg_server \<Rightarrow> string \<Rightarrow> string option \<Rightarrow> postgres_store \<times> database \<Rightarrow>
   snapshot_meta list result \<times> postgres_store \<times> database" where
  "postgres_list ps actor_id tag x =
     (case (case tag of
              Some t \<Rightarrow> postgres_run ps (sql_select_tag ps actor_id t) x
            | None \<Rightarrow> postgres_run ps (sql_select_actor ps actor_id) x) of
        (Inl e, x1) \<Rightarrow> (Inl e, x1)
      | (Inr rows, x1) \<Rightarrow> (Inr (map meta_of rows), x1))"

definition postgres_copy ::
  "pg_server \<Rightarrow> string \<Rightarrow> string \<Rightarrow> string \<Rightarrow> host \<Rightarrow> postgres_store \<times> database \<Rightarrow>
   snapshot_meta result \<times> postgres_store \<times> database" where
  "postgres_copy ps ref target_actor_id target_tag h x =
     (let ts = h_mono h; new_ref = postgres_ref target_actor_id target_tag ts in
      case postgres_run ps (sql_insert_from ps new_ref target_actor_id target_tag ts ref) x of
        (Inl e, x1) \<Rightarrow> (Inl e, x1)
      | (Inr None, x1) \<Rightarrow> (Inl KeyError, x1)
      | (Inr (Some r), x1) \<Rightarrow>
          (Inr \<lparr>sm_snapshot_ref = new_ref, sm_actor_id = target_actor_id, sm_template_id = sr_template_id r,
                sm_tag = target_tag, sm_size_bytes = sr_size_bytes r, sm_created_at = ts,
                sm_compression = sr_compression r, sm_checksum = sr_checksum r\<rparr>, x1))"

definition postgres_metrics ::
  "pg_server \<Rightarrow> postgres_store \<times> database \<Rightarrow> store_metrics result \<times> postgres_store \<times> database" where
  "postgres_metrics ps x =
     (case postgres_run ps (sql_totals ps) x of
        (Inl e, x1) \<Rightarrow> (Inl e, x1)
      | (Inr (cnt, sum_size), x1) \<Rightarrow> (Inr \<lparr>st_objects = cnt, st_bytes = sum_size\<rparr>, x1))"

definition postgres_close :: "postgres_store \<Rightarrow> postgres_store" where
  "postgres_close st = (if pg_pool st then st\<lparr>pg_pool := False\<rparr> else st)"

definition postgres_put_tree ::
  "pg_server \<Rightarrow> string \<Rightarrow> string \<Rightarrow> string \<Rightarrow> string option \<Rightarrow> host \<Rightarrow> postgres_store \<times> database \<Rightarrow>
   snapshot_meta result \<times> postgres_store \<times> database" where
  "postgres_put_tree ps actor_id tag source_dir template_id h x =
     (case pack_tree source_dir h of
        Inl e \<Rightarrow> (Inl e, x)
      | Inr buf \<Rightarrow> postgres_put ps actor_id tag buf ''gz'' template_id None h x)"

section \<open>Rows by reference\<close>

definition row_map :: "snapshot_row list \<Rightarrow> string \<Rightarrow> snapshot_row option" where
  "row_map rows k = find (\<lambda>r. sr_snapshot_ref r = k) rows"

definition keyed :: "snapshot_row list \<Rightarrow> bool" where
  "keyed rows \<longleftrightarrow> distinct (map sr_snapshot_ref rows)"

lemma row_map_simps [simp]:
  "row_map [] k = None"
  "row_map (r # rows) k = (if sr_snapshot_ref r = k then Some r else row_map rows k)"
  by (simp_all add: row_map_def)

lemma row_map_None: "row_map rows k = None \<longleftrightarrow> k \<notin> sr_snapshot_ref ` set rows"
  by (induction rows) auto

lemma row_map_Some:
  assumes "keyed rows"
  shows "row_map rows k = Some r \<longleftrightarrow> r \<in> set rows \<and> sr_snapshot_ref r = k"
  using assms by (induction rows) (auto simp: keyed_def)

lemma row_map_add: "row_map rows (sr_snapshot_ref r) = None \<Longrightarrow> row_map (rows @ [r]) = (row_map rows)(sr_snapshot_ref r \<mapsto> r)"
  by (induction rows) (auto simp: fun_eq_iff)

lemma row_map_drop: "row_map (filter (\<lambda>r. sr_snapshot_ref r \<noteq> k) rows) = (row_map rows)(k := None)"
  by (induction rows) (auto simp: fun_eq_iff)

lemma keyed_add: "keyed rows \<Longrightarrow> row_map rows (sr_snapshot_ref r) = None \<Longrightarrow> keyed (rows @ [r])"
  by (auto simp: keyed_def row_map_None)

lemma keyed_drop: "keyed rows \<Longrightarrow> keyed (filter P rows)"
  by (simp add: keyed_def distinct_map_filter)

text \<open>What a lookup by reference meets, in whatever order the rows are scanned.\<close>

lemma with_ref: "keyed rows \<Longrightarrow> filter (\<lambda>r. sr_snapshot_ref r = k) rows = (case row_map rows k of None \<Rightarrow> [] | Some r \<Rightarrow> [r])"
proof (induction rows)
  case (Cons r rows)
  then show ?case
    by (auto simp: keyed_def row_map_None [THEN iffD2] filter_empty_conv split: option.split)
qed simp

lemma scan_with_ref:
  assumes "keyed rows" and "mset scanned = mset rows"
  shows "filter (\<lambda>r. sr_snapshot_ref r = k) scanned = (case row_map rows k of None \<Rightarrow> [] | Some r \<Rightarrow> [r])"
proof -
  have "mset (filter (\<lambda>r. sr_snapshot_ref r = k) scanned) = mset (filter (\<lambda>r. sr_snapshot_ref r = k) rows)"
    using assms(2) by (simp add: mset_filter)
  then show ?thesis unfolding with_ref [OF assms(1)] by (cases "row_map rows k") (simp_all del: mset_filter)
qed

lemma sql_add_one: "sql_add [r] a rows = (if row_map rows (sr_snapshot_ref r) = None then (Inr a, rows @ [r])
    else (Inl (OtherError ''UniqueViolationError''), rows))"
  by (simp add: sql_add_def row_map_None)

lemma shows_zero: "show_nat n = ''0'' \<longleftrightarrow> n = 0"
proof
  assume "show_nat n = ''0''"
  then have "read_nat (show_nat n) = read_nat ''0''" by simp
  then show "n = 0" using show_nat_reads [of n] by (simp add: read_nat_def digit_value_def)
qed (simp add: show_nat.simps digit_char_def)

lemma deleted_status:
  assumes "keyed rows"
  shows "''DELETE '' @ show_nat (length (filter (\<lambda>r. sr_snapshot_ref r = k) rows)) = ''DELETE 0'' \<longleftrightarrow> row_map rows k = None"
  using with_ref [OF assms, of k] by (cases "row_map rows k") (simp_all add: shows_zero)

section \<open>A server that answers\<close>

definition server_up :: "pg_server \<Rightarrow> postgres_store \<Rightarrow> bool" where
  "server_up ps st \<longleftrightarrow>
     ps_answers ps = Inr () \<and> (pg_pool st \<or> ps_connect ps (pg_dsn st) = Inr ()) \<and>
     (\<forall>rows. mset (ps_scan ps rows) = mset rows)"

definition table_ok :: "postgres_store \<times> database \<Rightarrow> bool" where
  "table_ok x \<longleftrightarrow> (case dget (snd x) (pg_table_name (fst x)) of None \<Rightarrow> \<not> pg_pool (fst x) | Some rows \<Rightarrow> keyed rows)"

definition snapshots :: "postgres_store \<times> database \<Rightarrow> string \<Rightarrow> snapshot_row option" where
  "snapshots x = (case dget (snd x) (pg_table_name (fst x)) of None \<Rightarrow> (\<lambda>_. None) | Some rows \<Rightarrow> row_map rows)"

lemma ensure_up:
  assumes "server_up ps (fst x)" and "table_ok x"
  obtains st d rows where "postgres_ensure ps x = (Inr (), st, d)" "dget d (pg_table_name st) = Some rows"
    "keyed rows" "row_map rows = snapshots x"
proof (cases "pg_pool (fst x)")
  case True
  with assms(2) obtain rows where "dget (snd x) (pg_table_name (fst x)) = Some rows" "keyed rows"
    by (auto simp: table_ok_def split: option.splits)
  moreover from True have "postgres_ensure ps x = (Inr (), fst x, snd x)" by (cases x) (simp add: postgres_ensure_def)
  ultimately show ?thesis using that [of "fst x" "snd x" rows] by (simp add: snapshots_def)
next
  case False
  obtain st d where x: "x = (st, d)" by (cases x)
  have e: "postgres_ensure ps x = (Inr (), st\<lparr>pg_pool := True\<rparr>, if dget d (pg_table_name st) = None then dput (pg_table_name st) [] d else d)"
    using False assms(1) by (auto simp: x postgres_ensure_def sql_schema_def server_up_def)
  show ?thesis
  proof (cases "dget d (pg_table_name st)")
    case None
    with e that [of "st\<lparr>pg_pool := True\<rparr>" "dput (pg_table_name st) [] d" "[]"] show ?thesis
      by (simp add: x snapshots_def dict_simps keyed_def fun_eq_iff)
  next
    case (Some rows)
    with e that [of "st\<lparr>pg_pool := True\<rparr>" d rows] assms(2) show ?thesis by (simp add: x snapshots_def table_ok_def)
  qed
qed

text \<open>
  Every operation of the store is one statement on the rows: what the statement answers on them is
  the answer, and what it leaves of them is the table.
\<close>

lemma run_up:
  assumes "server_up ps (fst x)" and "table_ok x"
    and stmt: "\<And>rows. keyed rows \<Longrightarrow> row_map rows = snapshots x \<Longrightarrow>
      \<exists>r rows'. stmt rows = (r, rows') \<and> P r (if is_ok r then row_map rows' else snapshots x) \<and> keyed rows'"
  obtains r x' where "postgres_run ps stmt x = (r, x')" "P r (snapshots x')" "table_ok x'"
proof -
  from ensure_up [OF assms(1,2)] obtain st d rows where e: "postgres_ensure ps x = (Inr (), st, d)"
    "dget d (pg_table_name st) = Some rows" "keyed rows" "row_map rows = snapshots x" by blast
  from stmt [OF e(3,4)] obtain r rows' where s: "stmt rows = (r, rows')"
    "P r (if is_ok r then row_map rows' else snapshots x)" "keyed rows'" by blast
  have run: "postgres_run ps stmt x = (r, st, if is_ok r then dput (pg_table_name st) rows' d else d)"
    using e(1,2) s(1) assms(1) by (cases r) (simp_all add: postgres_run_def server_up_def sql_on_def)
  have "snapshots (st, if is_ok r then dput (pg_table_name st) rows' d else d) = (if is_ok r then row_map rows' else snapshots x)"
    "table_ok (st, if is_ok r then dput (pg_table_name st) rows' d else d)"
    using e(2-4) s(3) by (simp_all add: snapshots_def table_ok_def dict_simps)
  with that [OF run] s(2) show ?thesis by simp
qed

lemma scanned: "server_up ps st \<Longrightarrow> mset (ps_scan ps rows) = mset rows"
  by (simp add: server_up_def)

lemma put_up:
  assumes "server_up ps (fst x)" and "table_ok x"
  shows "\<exists>r x'. postgres_put ps a tag (Bytes c) z tpl ref h x = (r, x') \<and> table_ok x' \<and>
      (let k = (case ref of Some k \<Rightarrow> k | None \<Rightarrow> postgres_ref a tag (h_mono h));
           m = remote_meta k a tag tpl z c h
       in if snapshots x k = None then r = Inr m \<and> snapshots x' = (snapshots x)(k \<mapsto> row_of m c)
          else r = Inl (OtherError ''UniqueViolationError'') \<and> snapshots x' = snapshots x)"
proof -
  define k where "k = (case ref of Some k \<Rightarrow> k | None \<Rightarrow> postgres_ref a tag (h_mono h))"
  define m where "m = remote_meta k a tag tpl z c h"
  let ?P = "\<lambda>r s. if snapshots x k = None then r = Inr () \<and> s = (snapshots x)(k \<mapsto> row_of m c)
    else r = Inl (OtherError ''UniqueViolationError'') \<and> s = snapshots x"
  have key: "sr_snapshot_ref (row_of m c) = k" by (simp add: m_def row_of_def remote_meta_def)
  obtain r x' where run: "postgres_run ps (sql_insert (row_of m c)) x = (r, x')" "?P r (snapshots x')" "table_ok x'"
  proof (rule run_up [OF assms, of "sql_insert (row_of m c)" ?P])
    fix rows assume rows: "keyed rows" "row_map rows = snapshots x"
    show "\<exists>r rows'. sql_insert (row_of m c) rows = (r, rows') \<and> ?P r (if is_ok r then row_map rows' else snapshots x) \<and> keyed rows'"
    proof (cases "row_map rows k")
      case None
      then have "row_map rows (sr_snapshot_ref (row_of m c)) = None" by (simp add: key)
      from this keyed_add [OF rows(1) this] row_map_add [OF this] rows None show ?thesis
        by (simp add: sql_insert_def sql_add_one key)
    next
      case (Some r)
      with rows show ?thesis by (simp add: sql_insert_def sql_add_one key)
    qed
  qed
  have "postgres_put ps a tag (Bytes c) z tpl ref h x = (case r of Inl e \<Rightarrow> Inl e | Inr _ \<Rightarrow> Inr m, x')"
    using run(1) by (simp add: postgres_put_def hash_update_def Let_def flip: k_def m_def split: sum.split)
  with run(2,3) show ?thesis unfolding Let_def k_def [symmetric] m_def [symmetric] by (auto split: if_splits)
qed

lemma get_up:
  assumes "server_up ps (fst x)" and "table_ok x"
  shows "\<exists>x'. postgres_get ps k x = (case snapshots x k of None \<Rightarrow> Inl KeyError | Some row \<Rightarrow> Inr (sr_data row), x') \<and>
        table_ok x' \<and> snapshots x' = snapshots x"
proof -
  let ?P = "\<lambda>r s. r = Inr (map_option sr_data (snapshots x k)) \<and> s = snapshots x"
  obtain r x' where run: "postgres_run ps (sql_select_data ps k) x = (r, x')" "?P r (snapshots x')" "table_ok x'"
    by (rule run_up [OF assms, of "sql_select_data ps k" ?P])
      (auto simp: sql_select_data_def scan_with_ref [OF _ scanned [OF assms(1)]] first_row_def split: option.split)
  then show ?thesis by (cases "snapshots x k") (simp_all add: postgres_get_def)
qed

lemma delete_up:
  assumes "server_up ps (fst x)" and "table_ok x"
  shows "\<exists>x'. postgres_delete ps k x = (if snapshots x k = None then Inl KeyError else Inr (), x') \<and>
        table_ok x' \<and> snapshots x' = (snapshots x)(k := None)"
proof -
  let ?P = "\<lambda>r s. (\<exists>status. r = Inr status \<and> (status = ''DELETE 0'' \<longleftrightarrow> snapshots x k = None)) \<and> s = (snapshots x)(k := None)"
  obtain r x' where run: "postgres_run ps (sql_delete k) x = (r, x')" "?P r (snapshots x')" "table_ok x'"
  proof (rule run_up [OF assms, of "sql_delete k" ?P])
    fix rows assume rows: "keyed rows" "row_map rows = snapshots x"
    show "\<exists>r rows'. sql_delete k rows = (r, rows') \<and> ?P r (if is_ok r then row_map rows' else snapshots x) \<and> keyed rows'"
      using deleted_status [OF rows(1), of k] rows by (simp add: sql_delete_def row_map_drop keyed_drop)
  qed
  from run(2) obtain status where "r = Inr status" "(status = ''DELETE 0'') = (snapshots x k = None)" by (elim conjE exE)
  then have "postgres_delete ps k x = (if snapshots x k = None then Inl KeyError else Inr (), x')"
    using run(1) unfolding postgres_delete_def by (cases "snapshots x k") simp_all
  with run(2,3) show ?thesis by blast
qed

text \<open>The two listings are one selection.\<close>

definition listed :: "string \<Rightarrow> string option \<Rightarrow> snapshot_row \<Rightarrow> bool" where
  "listed a tag r \<longleftrightarrow> sr_actor_id r = a \<and> (tag = None \<or> tag = Some (sr_tag r))"

lemma select_listed:
  "(case tag of Some t \<Rightarrow> postgres_run ps (sql_select_tag ps a t) x | None \<Rightarrow> postgres_run ps (sql_select_actor ps a) x) =
   postgres_run ps (\<lambda>rows. (Inr (order_desc (filter (listed a tag) (ps_scan ps rows))), rows)) x"
proof -
  have "sql_select_tag ps a t = (\<lambda>rows. (Inr (order_desc (filter (listed a (Some t)) (ps_scan ps rows))), rows))" for t
    by (auto simp: fun_eq_iff sql_select_tag_def listed_def intro!: arg_cong [where f = order_desc] filter_cong)
  moreover have "sql_select_actor ps a = (\<lambda>rows. (Inr (order_desc (filter (listed a None) (ps_scan ps rows))), rows))"
    by (auto simp: fun_eq_iff sql_select_actor_def listed_def intro!: arg_cong [where f = order_desc] filter_cong)
  ultimately show ?thesis by (cases tag) simp_all
qed

lemma list_up:
  assumes "server_up ps (fst x)" and "table_ok x"
  shows "\<exists>ms x'. postgres_list ps a tag x = (Inr ms, x') \<and> table_ok x' \<and> snapshots x' = snapshots x \<and>
        set ms = meta_of ` {row. \<exists>k. snapshots x k = Some row \<and> sr_actor_id row = a \<and> (tag = None \<or> tag = Some (sr_tag row))} \<and>
        distinct (map sm_snapshot_ref ms) \<and> sorted (map (\<lambda>m. - sm_created_at m) ms)"
proof -
  let ?stmt = "\<lambda>rows. (Inr (order_desc (filter (listed a tag) (ps_scan ps rows))), rows)"
  let ?P = "\<lambda>r s. s = snapshots x \<and> (\<exists>rs. r = Inr rs \<and> set rs = {row. (\<exists>k. snapshots x k = Some row) \<and> listed a tag row} \<and>
    keyed rs \<and> sorted (map (\<lambda>r. - sr_created_at r) rs))"
  obtain r x' where run: "postgres_run ps ?stmt x = (r, x')" "?P r (snapshots x')" "table_ok x'"
  proof (rule run_up [OF assms, of ?stmt ?P])
    fix rows assume rows: "keyed rows" "row_map rows = snapshots x"
    note m = scanned [OF assms(1), of rows]
    have "keyed (ps_scan ps rows)"
      using rows(1) mset_eq_imp_distinct_iff [of "map sr_snapshot_ref (ps_scan ps rows)" "map sr_snapshot_ref rows"] m
      by (simp add: keyed_def)
    then have "keyed (filter (listed a tag) (ps_scan ps rows))" by (rule keyed_drop)
    moreover have "keyed (order_desc rs) \<longleftrightarrow> keyed rs" for rs
      unfolding keyed_def order_desc_def by (rule mset_eq_imp_distinct_iff) simp
    ultimately have "keyed (order_desc (filter (listed a tag) (ps_scan ps rows)))" by simp
    moreover have "set (ps_scan ps rows) = {row. \<exists>k. snapshots x k = Some row}"
      using mset_eq_setD [OF m] row_map_Some [OF rows(1)] by (auto simp flip: rows(2))
    ultimately show "\<exists>r rows'. ?stmt rows = (r, rows') \<and> ?P r (if is_ok r then row_map rows' else snapshots x) \<and> keyed rows'"
      using rows by (auto simp: order_desc_def)
  qed
  then obtain rs where rs: "r = Inr rs" "set rs = {row. (\<exists>k. snapshots x k = Some row) \<and> listed a tag row}" "keyed rs"
    "sorted (map (\<lambda>r. - sr_created_at r) rs)" by blast
  have "postgres_list ps a tag x = (Inr (map meta_of rs), x')"
    using run(1) rs(1) by (simp add: postgres_list_def select_listed)
  moreover have "map sm_snapshot_ref (map meta_of rs) = map sr_snapshot_ref rs"
    "map (\<lambda>m. - sm_created_at m) (map meta_of rs) = map (\<lambda>r. - sr_created_at r) rs"
    by (simp_all add: meta_of_def)
  ultimately show ?thesis using run(2,3) rs unfolding keyed_def
    by (intro exI [of _ "map meta_of rs"] exI [of _ x']) (simp add: listed_def del: map_map)
qed

lemma copy_up:
  assumes "server_up ps (fst x)" and "table_ok x"
  shows "\<exists>r x'. postgres_copy ps k a tag h x = (r, x') \<and> table_ok x' \<and>
      (let k' = postgres_ref a tag (h_mono h) in
       case snapshots x k of
         None \<Rightarrow> r = Inl KeyError \<and> snapshots x' = snapshots x
       | Some row \<Rightarrow>
           (let row' = row\<lparr>sr_snapshot_ref := k', sr_actor_id := a, sr_tag := tag, sr_created_at := h_mono h\<rparr>
            in if snapshots x k' = None then r = Inr (meta_of row') \<and> snapshots x' = (snapshots x)(k' \<mapsto> row')
               else r = Inl (OtherError ''UniqueViolationError'') \<and> snapshots x' = snapshots x))"
proof -
  define k' where "k' = postgres_ref a tag (h_mono h)"
  define new where "new = (\<lambda>r :: snapshot_row. r\<lparr>sr_snapshot_ref := k', sr_actor_id := a, sr_tag := tag, sr_created_at := h_mono h\<rparr>)"
  let ?stmt = "sql_insert_from ps k' a tag (h_mono h) k"
  let ?P = "\<lambda>r s. case snapshots x k of None \<Rightarrow> r = Inr None \<and> s = snapshots x
    | Some row \<Rightarrow> if snapshots x k' = None then r = Inr (Some (new row)) \<and> s = (snapshots x)(k' \<mapsto> new row)
        else r = Inl (OtherError ''UniqueViolationError'') \<and> s = snapshots x"
  have key: "sr_snapshot_ref (new row) = k'" for row by (simp add: new_def)
  obtain r x' where run: "postgres_run ps ?stmt x = (r, x')" "?P r (snapshots x')" "table_ok x'"
  proof (rule run_up [OF assms, of ?stmt ?P])
    fix rows assume rows: "keyed rows" "row_map rows = snapshots x"
    have stmt: "?stmt rows = (case snapshots x k of None \<Rightarrow> (Inr None, rows)
        | Some row \<Rightarrow> sql_add [new row] (Some (new row)) rows)"
      using scan_with_ref [OF rows(1) scanned [OF assms(1)], of k] rows(2)
      by (auto simp: sql_insert_from_def Let_def first_row_def sql_add_def new_def split: option.split)
    show "\<exists>r rows'. ?stmt rows = (r, rows') \<and> ?P r (if is_ok r then row_map rows' else snapshots x) \<and> keyed rows'"
    proof (cases "snapshots x k")
      case None
      with stmt rows show ?thesis by simp
    next
      case (Some row)
      show ?thesis
      proof (cases "row_map rows k'")
        case None
        then have "row_map rows (sr_snapshot_ref (new row)) = None" by (simp add: key)
        from this keyed_add [OF rows(1) this] row_map_add [OF this] rows None Some stmt show ?thesis
          by (simp add: sql_add_one key)
      next
        case (Some r)
        with stmt rows \<open>snapshots x k = Some row\<close> show ?thesis by (simp add: sql_add_one key)
      qed
    qed
  qed
  have "postgres_copy ps k a tag h x = (case r of Inl e \<Rightarrow> Inl e | Inr None \<Rightarrow> Inl KeyError | Inr (Some row) \<Rightarrow>
      Inr \<lparr>sm_snapshot_ref = k', sm_actor_id = a, sm_template_id = sr_template_id row, sm_tag = tag,
        sm_size_bytes = sr_size_bytes row, sm_created_at = h_mono h, sm_compression = sr_compression row,
        sm_checksum = sr_checksum row\<rparr>, x')"
    using run(1) by (simp add: postgres_copy_def Let_def flip: k'_def split: sum.split option.split)
  with run(2,3) show ?thesis unfolding Let_def k'_def [symmetric]
    by (cases "snapshots x k") (auto simp: new_def meta_of_def split: if_splits)
qed


section \<open>Properties\<close>

text \<open>
  Neither remote store can keep a directory tree: both inherit the archiving of the abstract
  class, which hands them a stream, and the test for a stream recognises none, so for every
  existing directory the call raises \<open>TypeError\<close> before anything is sent; a checkpoint through
  such a store always fails.
\<close>

theorem remote_trees_refused:
  assumes "fs_exists (h_fs h) (fs_path source_dir)"
  shows "minio_put_tree bc actor_id tag source_dir tpl h x = (Inl TypeError, x) \<and>
    postgres_put_tree ps actor_id tag source_dir tpl h y = (Inl TypeError, y)"
  using assms
  by (simp add: minio_put_tree_def postgres_put_tree_def pack_tree_def tar_pack_def tar_mode_ok_def
      minio_put_def postgres_put_def hash_update_def)

theorem remote_trees_refused_witness:
  "minio_put_tree demo_bucket ''ann'' ''t'' ''/w'' None demo_remote_host
     (minio_init ''host:9000'' ''snapshots'' False ''us-east-1'', []) =
     (Inl TypeError, minio_init ''host:9000'' ''snapshots'' False ''us-east-1'', [])"
proof -
  have "fs_exists (h_fs demo_remote_host) (fs_path ''/w'')"
    by (simp add: demo_remote_host_def fs_exists_def fs_lookup_def fs_path_def path_step_def)
  from remote_trees_refused [OF this] show ?thesis by blast
qed

text \<open>
  C35: The PostgreSQL store is a map from references to rows, through the SQL it sends: on a table
  with its primary key and a server that answers and scans the rows in any order, a put of bytes adds
  a row under a new reference and raises, changing nothing, under one that is taken (where the other
  stores overwrite); get and delete raise \<open>KeyError\<close> exactly for references that are not there; a
  listing has exactly the actor's rows with the tag, each once, newest first; a copy adds the source's
  row under a new reference with the target's actor, tag and time; and every operation leaves a table
  with its primary key.
\<close>

theorem postgres_refines_map:
  assumes up: "server_up ps (fst x)" and ok: "table_ok x"
  shows "(\<exists>r x'. postgres_put ps a tag (Bytes c) z tpl ref h x = (r, x') \<and> table_ok x' \<and>
      (let k = (case ref of Some k \<Rightarrow> k | None \<Rightarrow> postgres_ref a tag (h_mono h));
           m = remote_meta k a tag tpl z c h
       in if snapshots x k = None then r = Inr m \<and> snapshots x' = (snapshots x)(k \<mapsto> row_of m c)
          else r = Inl (OtherError ''UniqueViolationError'') \<and> snapshots x' = snapshots x)) \<and>
    (\<exists>x'. postgres_get ps k x = (case snapshots x k of None \<Rightarrow> Inl KeyError | Some row \<Rightarrow> Inr (sr_data row), x') \<and>
        table_ok x' \<and> snapshots x' = snapshots x) \<and>
    (\<exists>x'. postgres_delete ps k x = (if snapshots x k = None then Inl KeyError else Inr (), x') \<and>
        table_ok x' \<and> snapshots x' = (snapshots x)(k := None)) \<and>
    (\<exists>ms x'. postgres_list ps a' tag' x = (Inr ms, x') \<and> table_ok x' \<and> snapshots x' = snapshots x \<and>
        set ms = meta_of ` {row. \<exists>k. snapshots x k = Some row \<and> sr_actor_id row = a' \<and> (tag' = None \<or> tag' = Some (sr_tag row))} \<and>
        distinct (map sm_snapshot_ref ms) \<and> sorted (map (\<lambda>m. - sm_created_at m) ms)) \<and>
    (\<exists>r x'. postgres_copy ps k a tag h x = (r, x') \<and> table_ok x' \<and>
      (let k' = postgres_ref a tag (h_mono h) in
       case snapshots x k of
         None \<Rightarrow> r = Inl KeyError \<and> snapshots x' = snapshots x
       | Some row \<Rightarrow>
           (let row' = row\<lparr>sr_snapshot_ref := k', sr_actor_id := a, sr_tag := tag, sr_created_at := h_mono h\<rparr>
            in if snapshots x k' = None then r = Inr (meta_of row') \<and> snapshots x' = (snapshots x)(k' \<mapsto> row')
               else r = Inl (OtherError ''UniqueViolationError'') \<and> snapshots x' = snapshots x)))"
  using put_up [OF assms] get_up [OF assms] delete_up [OF assms] list_up [OF assms] copy_up [OF assms]
  by (intro conjI)

text \<open>A server that scans its tables backwards.\<close>

definition demo_server :: pg_server where
  "demo_server = \<lparr>ps_connect = (\<lambda>_. Inr ()), ps_answers = Inr (), ps_scan = rev\<rparr>"

theorem postgres_refines_map_witness:
  "\<exists>m x'. postgres_put demo_server ''ann'' ''full-1'' (Bytes (Raw ''abc'')) ''none'' None (Some ''r1'') demo_remote_host
      (postgres_init ''dsn'' ''snapshots'', []) = (Inr m, x') \<and> table_ok x' \<and>
    snapshots x' ''r1'' = Some (row_of m (Raw ''abc''))"
proof -
  have "server_up demo_server (fst (postgres_init ''dsn'' ''snapshots'', []))"
    by (simp add: server_up_def demo_server_def postgres_init_def)
  moreover have "table_ok (postgres_init ''dsn'' ''snapshots'', [])" by (simp add: table_ok_def postgres_init_def dict_simps)
  moreover have "snapshots (postgres_init ''dsn'' ''snapshots'', []) = (\<lambda>_. None)" by (simp add: snapshots_def dict_simps)
  ultimately show ?thesis
    using postgres_refines_map [of demo_server "(postgres_init ''dsn'' ''snapshots'', [])" "''ann''" "''full-1''" "Raw ''abc''"
        "''none''" None "Some ''r1''" demo_remote_host, THEN conjunct1] by (auto simp: Let_def)
qed

end
