(* ===== verification/Container_Workspace.thy ===== *)
theory Container_Workspace
  imports Firecracker_Api Container_Manager
begin

text \<open>
  \<open>_gvisor/_workspace.py\<close>, \<open>_kata/_workspace.py\<close> and \<open>_sysbox/_workspace.py\<close>: the workspaces in a
  Docker container under another runtime. What \<open>docker info\<close> comes to is a \<open>probe_outcome\<close>; the
  Docker client (create or replace a container, start it) is a parameter over a state of any
  type. The image and everything else of the workspace are the third-party base class's.
\<close>

section \<open>Is the runtime registered\<close>

definition kata_runtime_candidates :: "string list" where
  "kata_runtime_candidates = [''kata-fc'', ''kata-qemu'', ''kata-runtime'', ''kata'']"

definition sysbox_runtime_candidates :: "string list" where
  "sysbox_runtime_candidates = [''sysbox-runc'', ''sysbox'']"

text \<open>
  The list of runtimes \<open>docker info\<close> prints. A reply that is no JSON is a \<open>RuntimeError\<close>, one that
  is no UTF-8 leaves as the \<open>UnicodeDecodeError\<close> (a \<open>ValueError\<close>) it raises.
\<close>

definition docker_runtimes :: "probe_outcome \<Rightarrow> jval result" where
  "docker_runtimes probe =
     (case probe of
        Probe_Raises e \<Rightarrow> Inl e
      | Probe_Silent \<Rightarrow> Inl RuntimeError
      | Probe_Exit c out err \<Rightarrow>
          if c \<noteq> 0 then Inl RuntimeError
          else (case utf8_decode out of
            None \<Rightarrow> Inl ValueError
          | Some text \<Rightarrow> (case json_loads text of None \<Rightarrow> Inl RuntimeError | Some v \<Rightarrow> Inr v)))"

definition gvisor_verify :: "probe_outcome \<Rightarrow> unit result" where
  "gvisor_verify probe =
     (case docker_runtimes probe of
        Inl e \<Rightarrow> Inl e
      | Inr runtimes \<Rightarrow>
          (case runtimes of
             J_Obj d \<Rightarrow> if gvisor_runtime_name \<notin> fst ` set d then Inl RuntimeError else Inr ()
           | _ \<Rightarrow> Inl RuntimeError))"

definition kata_verify :: "probe_outcome \<Rightarrow> unit result" where
  "kata_verify probe =
     (case docker_runtimes probe of
        Inl e \<Rightarrow> Inl e
      | Inr runtimes \<Rightarrow>
          (case runtimes of
             J_Obj d \<Rightarrow>
               (let present = filter (\<lambda>name. name \<in> fst ` set d) kata_runtime_candidates
                in if present = [] then Inl RuntimeError else Inr ())
           | _ \<Rightarrow> Inl RuntimeError))"

definition sysbox_verify :: "probe_outcome \<Rightarrow> unit result" where
  "sysbox_verify probe =
     (case docker_runtimes probe of
        Inl e \<Rightarrow> Inl e
      | Inr runtimes \<Rightarrow>
          (case runtimes of
             J_Obj d \<Rightarrow>
               (let present = filter (\<lambda>name. name \<in> fst ` set d) sysbox_runtime_candidates
                in if present = [] then Inl RuntimeError else Inr ())
           | _ \<Rightarrow> Inl RuntimeError))"

section \<open>The container\<close>

record docker_workspace =
  dw_workspace_id :: string
  dw_image_tag :: string
  dw_env :: "(string, string) dict"
  dw_host_workdir :: "string option"
  dw_runtime :: string
  dw_container :: "string option"
  dw_backend :: "(string \<times> string) option"

record 'd docker_client =
  dc_create_or_replace :: "string \<Rightarrow> jval \<Rightarrow> 'd \<Rightarrow> string result \<times> 'd"
  dc_start :: "string \<Rightarrow> 'd \<Rightarrow> unit result \<times> 'd"

definition docker_workdir :: string where
  "docker_workdir = ''/workspace''"

definition env_entries :: "(string, string) dict \<Rightarrow> jval" where
  "env_entries env = J_List (map (\<lambda>(k, v). J_Str (k @ ''='' @ v)) env)"

definition host_config :: "docker_workspace \<Rightarrow> jval" where
  "host_config dw = J_Obj
     ((''Runtime'', J_Str (dw_runtime dw)) #
      (case dw_host_workdir dw of
         None \<Rightarrow> []
       | Some dir \<Rightarrow> [(''Binds'', J_List [J_Str (abs_path dir @ '':'' @ docker_workdir @ '':rw'')])]))"

definition container_config :: "string \<Rightarrow> docker_workspace \<Rightarrow> jval" where
  "container_config kind dw = J_Obj
     ([(''Image'', J_Str (dw_image_tag dw)), (''Cmd'', J_List [J_Str ''sleep'', J_Str ''infinity'']),
       (''WorkingDir'', J_Str docker_workdir),
       (''Labels'', J_Obj [(''agentscope.workspace'', J_Str ''true''),
          (''agentscope.workspace.id'', J_Str (dw_workspace_id dw)),
          (''agentscope.sandbox_ext.kind'', J_Str kind)])] @
      (if dw_env dw \<noteq> [] then [(''Env'', env_entries (dw_env dw))] else []) @
      [(''HostConfig'', host_config dw)])"

definition create_and_start ::
  "string \<Rightarrow> 'd docker_client \<Rightarrow> docker_workspace \<Rightarrow> fs \<times> 'd \<Rightarrow> unit result \<times> docker_workspace \<times> fs \<times> 'd" where
  "create_and_start kind dc dw x =
     (case x of (f, d) \<Rightarrow>
      case (case dw_host_workdir dw of None \<Rightarrow> (Inr (), f) | Some dir \<Rightarrow> fs_makedirs (fs_path dir) f) of
        (Inl e, f1) \<Rightarrow> (Inl e, dw, f1, d)
      | (Inr _, f1) \<Rightarrow>
          (case dc_create_or_replace dc (''as_ws_'' @ kind @ ''_'' @ dw_workspace_id dw) (container_config kind dw) d of
             (Inl e, d1) \<Rightarrow> (Inl e, dw, f1, d1)
           | (Inr c, d1) \<Rightarrow>
               (let dw1 = dw\<lparr>dw_container := Some c\<rparr> in
                case dc_start dc c d1 of
                  (Inl e, d2) \<Rightarrow> (Inl e, dw1, f1, d2)
                | (Inr _, d2) \<Rightarrow> (Inr (), dw1\<lparr>dw_backend := Some (c, docker_workdir)\<rparr>, f1, d2))))"

definition gvisor_create_and_start ::
  "'d docker_client \<Rightarrow> docker_workspace \<Rightarrow> fs \<times> 'd \<Rightarrow> unit result \<times> docker_workspace \<times> fs \<times> 'd" where
  "gvisor_create_and_start = create_and_start ''gvisor''"

definition kata_create_and_start ::
  "'d docker_client \<Rightarrow> docker_workspace \<Rightarrow> fs \<times> 'd \<Rightarrow> unit result \<times> docker_workspace \<times> fs \<times> 'd" where
  "kata_create_and_start = create_and_start ''kata''"

definition sysbox_create_and_start ::
  "'d docker_client \<Rightarrow> docker_workspace \<Rightarrow> fs \<times> 'd \<Rightarrow> unit result \<times> docker_workspace \<times> fs \<times> 'd" where
  "sysbox_create_and_start = create_and_start ''sysbox''"

text \<open>The workspace a manager's configuration gives; \<open>tag_of\<close> is the image tag the base class computes.\<close>

definition docker_workspace_init :: "(ws_config \<Rightarrow> string) \<Rightarrow> ws_config \<Rightarrow> docker_workspace" where
  "docker_workspace_init tag_of cfg =
     \<lparr>dw_workspace_id = wc_workspace_id cfg, dw_image_tag = tag_of cfg, dw_env = wc_env cfg,
      dw_host_workdir = Some (wc_host_workdir cfg), dw_runtime = wc_runtime cfg,
      dw_container = None, dw_backend = None\<rparr>"

record docker_metrics =
  dx_sandbox_kind :: string
  dx_is_alive :: bool
  dx_workspace_id :: string
  dx_runtime :: string
  dx_container_id :: "string option"

definition docker_metrics_of :: "string \<Rightarrow> (string \<Rightarrow> string option) \<Rightarrow> bool \<Rightarrow> docker_workspace \<Rightarrow> docker_metrics" where
  "docker_metrics_of kind id_of is_alive dw =
     \<lparr>dx_sandbox_kind = kind, dx_is_alive = is_alive, dx_workspace_id = dw_workspace_id dw,
      dx_runtime = dw_runtime dw, dx_container_id = Option.bind (dw_container dw) id_of\<rparr>"

definition gvisor_metrics_of :: "(string \<Rightarrow> string option) \<Rightarrow> bool \<Rightarrow> docker_workspace \<Rightarrow> docker_metrics" where
  "gvisor_metrics_of = docker_metrics_of ''gvisor''"

definition kata_metrics_of :: "(string \<Rightarrow> string option) \<Rightarrow> bool \<Rightarrow> docker_workspace \<Rightarrow> docker_metrics" where
  "kata_metrics_of = docker_metrics_of ''kata''"

definition sysbox_metrics_of :: "(string \<Rightarrow> string option) \<Rightarrow> bool \<Rightarrow> docker_workspace \<Rightarrow> docker_metrics" where
  "sysbox_metrics_of = docker_metrics_of ''sysbox''"

section \<open>The workspace base class\<close>

text \<open>Backends without snapshots of their own: both methods refuse, whatever the tag.\<close>

definition base_snapshot :: "string \<Rightarrow> string result" where
  "base_snapshot tag = Inl NotImplementedError"

definition base_restore :: "string \<Rightarrow> unit result" where
  "base_restore tag = Inl NotImplementedError"

definition base_workspace_metrics :: "string \<Rightarrow> bool \<Rightarrow> string \<Rightarrow> string \<times> bool \<times> string" where
  "base_workspace_metrics kind is_alive workspace_id = (kind, is_alive, workspace_id)"

section \<open>Facts\<close>

lemma docker_runtimes_Inr:
  "docker_runtimes probe = Inr v \<longleftrightarrow>
     (\<exists>out err text. probe = Probe_Exit 0 out err \<and> utf8_decode out = Some text \<and> json_loads text = Some v)"
  by (auto simp: docker_runtimes_def split: probe_outcome.splits option.splits if_splits)

lemma runtimes_printed:
  assumes "jval_ok (J_Obj d)"
  shows "docker_runtimes (Probe_Exit 0 (utf8_encode (json_dumps (J_Obj d))) err) = Inr (J_Obj d)"
  using json_again [OF assms] by (simp add: docker_runtimes_def utf8_again)

lemma create_and_start_Inr:
  assumes "create_and_start kind dc dw (f, d) = (Inr (), dw', f', d')"
  shows "\<exists>c d1. dc_create_or_replace dc (''as_ws_'' @ kind @ ''_'' @ dw_workspace_id dw) (container_config kind dw) d = (Inr c, d1) \<and>
    dc_start dc c d1 = (Inr (), d') \<and> dw_container dw' = Some c \<and> dw_backend dw' = Some (c, docker_workdir)"
  using assms by (auto simp: create_and_start_def Let_def split: prod.splits sum.splits)


section \<open>Properties\<close>

lemma abs_path_str:
  assumes "p \<noteq> []" and "\<forall>c \<in> set p. comp_ok c"
  shows "abs_path (path_str p) = path_str p"
proof -
  obtain c q where p: "p = c # q" using assms(1) by (cases p) auto
  with assms(2) obtain x xs where c: "c = x # xs" "x \<noteq> CHR ''/''" by (cases c) (auto simp: comp_ok_def)
  have "fs_path (path_str p) = p" using assms(2) by simp
  moreover have "take 2 (path_str p) \<noteq> ''//''" using c by (simp add: p path_str_def)
  ultimately show ?thesis using assms(1) by (simp add: abs_path_def)
qed

text \<open>
  C36: A container workspace is confined to its user's and agent's directory and to the manager's
  runtime: for a manager with a plain base directory, and ids that are plain names, the container
  a workspace of it creates is named after the backend and the workspace, runs under the
  manager's runtime, and mounts exactly \<open>basedir/user/agent\<close> of the host.
\<close>

theorem container_confined:
  assumes base: "m_basedir m = path_str base" "base \<noteq> []" "\<forall>c \<in> set base. comp_ok c"
    and ids: "comp_ok user" "comp_ok agent"
    and made: "make_workspace m wid user agent = Inr cfg"
    and run: "create_and_start kind dc (docker_workspace_init tag_of cfg) (f, d) = (Inr (), dw, f', d')"
  shows "\<exists>c d1 config. dc_create_or_replace dc (''as_ws_'' @ kind @ ''_'' @ wid) (J_Obj config) d = (Inr c, d1) \<and>
    dw_container dw = Some c \<and>
    dget config ''HostConfig'' = Some (J_Obj [(''Runtime'', J_Str (the (m_runtime m))),
      (''Binds'', J_List [J_Str (path_str (base @ [user, agent]) @ '':/workspace:rw'')])])"
proof -
  let ?dw = "docker_workspace_init tag_of cfg"
  obtain rt where rt: "m_runtime m = Some rt" using made by (auto simp: make_workspace_def split: option.splits)
  have dir: "workdir_for m user agent = path_str (base @ [user, agent])"
    using path_join_str [OF base(2,3) ids(1)] path_join_str [of "base @ [user]" agent] base ids
    by (simp add: workdir_for_def)
  have cfg: "wc_workspace_id cfg = wid" "wc_host_workdir cfg = path_str (base @ [user, agent])" "wc_runtime cfg = rt"
    using made rt dir by (auto simp: make_workspace_def)
  have "abs_path (path_str (base @ [user, agent])) = path_str (base @ [user, agent])"
    using base(3) ids by (intro abs_path_str) auto
  then have host: "host_config ?dw = J_Obj [(''Runtime'', J_Str rt),
      (''Binds'', J_List [J_Str (path_str (base @ [user, agent]) @ '':/workspace:rw'')])]"
    using cfg by (simp add: host_config_def docker_workspace_init_def docker_workdir_def)
  obtain config where config: "container_config kind ?dw = J_Obj config"
    and hc: "dget config ''HostConfig'' = Some (host_config ?dw)"
    by (simp add: container_config_def)
  from create_and_start_Inr [OF run] config hc host rt cfg show ?thesis
    by (fastforce simp: docker_workspace_init_def)
qed

definition demo_docker :: "jval list docker_client" where
  "demo_docker = \<lparr>dc_create_or_replace = (\<lambda>name config d. (Inr name, d @ [config])), dc_start = (\<lambda>c d. (Inr (), d))\<rparr>"

definition demo_gvisor :: manager where
  "demo_gvisor = gvisor_manager_init None ''/srv'' ''per_agent'' ''img'' None None 5600 None None None 3600 300
     False 4 0 1800"

lemma demo_gvisor_basedir: "m_basedir demo_gvisor = path_str [''srv'']"
  by (simp add: demo_gvisor_def gvisor_manager_init_def manager_init_def abs_path_def fs_path_def path_step_def path_str_def)

theorem container_confined_witness:
  "\<exists>config. dget config ''HostConfig'' = Some (J_Obj [(''Runtime'', J_Str (the (m_runtime demo_gvisor))),
      (''Binds'', J_List [J_Str (path_str [''srv'', ''u'', ''a''] @ '':/workspace:rw'')])])"
proof -
  obtain cfg where cfg: "make_workspace demo_gvisor ''w'' ''u'' ''a'' = Inr cfg"
    by (simp add: make_workspace_def demo_gvisor_def gvisor_manager_init_def manager_init_def)
  let ?dw = "docker_workspace_init (\<lambda>_. ''img'') cfg"
  have "wc_host_workdir cfg = ''/srv/u/a''"
    using cfg by (auto simp: make_workspace_def workdir_for_def demo_gvisor_basedir path_join_def path_str_def split: option.splits)
  then have dir: "dw_host_workdir ?dw = Some ''/srv/u/a''" by (simp add: docker_workspace_init_def)
  have mk: "fst (fs_makedirs (fs_path ''/srv/u/a'') []) = Inr ()"
    by (simp add: fs_makedirs_def fs_path_def path_step_def fs_lookup_def Let_def)
  obtain f1 where "fs_makedirs (fs_path ''/srv/u/a'') [] = (Inr (), f1)" using mk by (metis prod.collapse)
  then obtain dw f' d' where run: "create_and_start ''gvisor'' demo_docker ?dw ([], []) = (Inr (), dw, f', d')"
    by (simp add: create_and_start_def dir demo_docker_def Let_def)
  from container_confined [OF demo_gvisor_basedir _ _ _ _ cfg run] show ?thesis
    by (auto simp: comp_ok_def)
qed

definition registered :: "probe_outcome \<Rightarrow> string set \<Rightarrow> bool" where
  "registered probe names \<longleftrightarrow>
     (\<exists>out err text d. probe = Probe_Exit 0 out err \<and> utf8_decode out = Some text \<and>
        json_loads text = Some (J_Obj d) \<and> names \<inter> fst ` set d \<noteq> {})"

text \<open>
  The runtime probes accept exactly the hosts they describe: each backend's check passes if and
  only if \<open>docker info\<close> exited with 0 and printed, in UTF-8, a JSON object that has the backend's
  runtime, or for Kata and Sysbox one of the runtimes they go by, among its names.
\<close>

theorem runtime_probes_exact:
  "(gvisor_verify probe = Inr () \<longleftrightarrow> registered probe {''runsc''}) \<and>
   (kata_verify probe = Inr () \<longleftrightarrow> registered probe {''kata-fc'', ''kata-qemu'', ''kata-runtime'', ''kata''}) \<and>
   (sysbox_verify probe = Inr () \<longleftrightarrow> registered probe {''sysbox-runc'', ''sysbox''})"
proof -
  have any: "filter (\<lambda>name. name \<in> A) ns = [] \<longleftrightarrow> set ns \<inter> A = {}" for ns and A :: "string set"
    by (auto simp: filter_empty_conv)
  have sets: "set kata_runtime_candidates = {''kata-fc'', ''kata-qemu'', ''kata-runtime'', ''kata''}"
    "set sysbox_runtime_candidates = {''sysbox-runc'', ''sysbox''}"
    by (simp_all only: kata_runtime_candidates_def sysbox_runtime_candidates_def list.set)
  have reg: "registered probe A \<longleftrightarrow> (\<exists>d. docker_runtimes probe = Inr (J_Obj d) \<and> A \<inter> fst ` set d \<noteq> {})" for A
    unfolding registered_def docker_runtimes_Inr by blast
  have accept: "(case docker_runtimes probe of Inl e \<Rightarrow> Inl e
      | Inr v \<Rightarrow> (case v of J_Obj d \<Rightarrow> if P d then Inl RuntimeError else Inr () | _ \<Rightarrow> Inl RuntimeError)) = Inr () \<longleftrightarrow>
      registered probe A" if "\<And>d. P d \<longleftrightarrow> A \<inter> fst ` set d = {}" for P A
  proof (cases "docker_runtimes probe")
    case (Inr v)
    with that show ?thesis by (cases v) (simp_all add: reg)
  qed (simp add: reg)
  show ?thesis
    unfolding gvisor_verify_def kata_verify_def sysbox_verify_def Let_def any sets
    by (intro conjI; rule accept) (auto simp: gvisor_runtime_name_def)
qed

text \<open>
  What the probe of Kata does not see: with only \<open>kata-qemu\<close> registered it passes, and the
  container is still created under \<open>kata-fc\<close>, the default it never compares with what it found.
\<close>

theorem kata_probe_not_enough:
  "kata_verify (Probe_Exit 0 (utf8_encode (json_dumps (J_Obj [(''kata-qemu'', J_Null)]))) []) = Inr () \<and>
   m_runtime (kata_manager_init None basedir isolation img node pip port env mcps skills ttl sweep enable_pool mx mn idle) = Some ''kata-fc''"
proof -
  have "jval_ok (J_Obj [(''kata-qemu'', J_Null)])" by (simp add: dict_ok_def)
  from runtimes_printed [OF this, of "[]"] show ?thesis
    by (simp add: kata_verify_def kata_runtime_candidates_def kata_manager_init_def manager_init_def
        kata_default_runtime_name_def)
qed

text \<open>An id that is an absolute path replaces the base directory.\<close>

theorem workdir_escapes:
  "workdir_for m ''/etc'' ''a'' = ''/etc/a''"
  by (simp add: workdir_for_def path_join_def)

end
