(* ===== verification/Orch_Roundtrip.thy ===== *)
theory Orch_Roundtrip
  imports Orchestrator Checkpoint
begin

text \<open>
  The orchestrator with a local snapshot store, over a whole turn of an actor: what a suspend of
  \<open>Orchestrator.suspend_actor\<close> hands to the checkpoint bridge, what a resume gets back from it,
  and the two put together.
\<close>

section \<open>What suspend and resume ask of the bridge\<close>

definition suspend_scope :: "checkpoint_scope option \<Rightarrow> actor_template \<Rightarrow> checkpoint_scope" where
  "suspend_scope sc t = (case sc of None \<Rightarrow> t_snapshot_scope_on_suspend t | Some x \<Rightarrow> x)"

lemma suspend_checkpoints:
  assumes ok: "orch_ok s" and run: "suspend_actor quiet aid ns sc s = (Inr ref, s')"
    and a: "dget (sy_actors s) (ns, aid) = Some a" and t: "dget (sy_templates s) (a_template_id a) = Some t"
    and asg: "a_worker_assignment a = Some asg"
    and w: "dget (wp_store (sy_workers s)) (wa_worker_id asg) = Some w"
  shows "\<exists>a1 a2. checkpoint (sy_store s) (sy_objs s) a1 w (suspend_scope sc t) (sy_host s) = (Inr ref, sy_host s') \<and>
    a_actor_id a1 = a_actor_id a \<and> a_template_id a1 = a_template_id a \<and>
    sy_store s' = sy_store s \<and> sy_objs s' = sy_objs s \<and>
    dget (sy_actors s') (ns, aid) = Some a2 \<and> a_status a2 = SUSPENDED \<and> a_latest_snapshot_ref a2 = Some ref"
proof -
  have st: "a_status a = RUNNING"
    using run a by (auto simp: suspend_actor_def get_quiet split: if_splits)
  from release_held [OF ok a st] asg w obtain wp' where rel: "release_worker w False (sy_workers s) = (Inr (), wp')"
    by auto
  let ?a1 = "stamp (h_time (sy_host s)) (a_version a + 1) (with_status a SUSPENDING)"
  obtain r h where cp: "checkpoint (sy_store s) (sy_objs s) ?a1 w (suspend_scope sc t) (sy_host s) = (r, h)"
    by (cases "checkpoint (sy_store s) (sy_objs s) ?a1 w (suspend_scope sc t) (sy_host s)")
  note S = suspend_quiet [OF ok a st t asg w rel refl cp [unfolded suspend_scope_def]]
  then have r: "r = Inr ref" using run by auto
  with S run have "updated s s' (dput (ns, aid)
      (stamp (h_time h) (a_version a + 2) (let_go ?a1 SUSPENDED ref (a_worker_selector ?a1)))
      (dput (ns, aid) ?a1 (sy_actors s))) wp' (router_unbind (actor_ref_of a) (sy_router s)) h" by auto
  then show ?thesis
    using cp r by (intro exI [of _ ?a1] exI [of _ "stamp (h_time h) (a_version a + 2)
        (let_go ?a1 SUSPENDED ref (a_worker_selector ?a1))"]) (simp add: updated_def dict_simps)
qed

text \<open>
  Where the bridge finds the tree it stores: the directory \<open>src\<close> of a host \<open>h1\<close>. Full scope asks the
  sandbox for a snapshot first, which may change the host; a directory it names is the source,
  otherwise the live work directory is.
\<close>

definition suspended_tree :: "sandbox_host \<Rightarrow> checkpoint_scope \<Rightarrow> string \<Rightarrow> host \<Rightarrow> string \<Rightarrow> host \<Rightarrow> bool" where
  "suspended_tree sb scope tag h src h1 \<longleftrightarrow>
     fs_isdir (h_fs h1) (fs_path src) \<and>
     (if scope = FULL then
        h1 = snd (sbh_snapshot sb tag h) \<and>
        (case fst (sbh_snapshot sb tag h) of
           Inr d \<Rightarrow> if d \<noteq> [] then src = d else workdir_of sb h1 = Inr (Some src)
         | Inl e \<Rightarrow> e \<noteq> CancelledError \<and> workdir_of sb h1 = Inr (Some src))
      else h1 = h \<and> workdir_of sb h1 = Inr (Some src))"

text \<open>The host after the store's \<open>put_tree\<close>: a backend's snapshot directory is removed again.\<close>

definition cleaned_up :: "sandbox_host \<Rightarrow> checkpoint_scope \<Rightarrow> string \<Rightarrow> host \<Rightarrow> host \<Rightarrow> host" where
  "cleaned_up sb scope tag h h2 =
     (if scope = FULL then
        (case fst (sbh_snapshot sb tag h) of
           Inr d \<Rightarrow> h2\<lparr>h_fs := fs_rmtree_ignore (fs_path d) (h_fs h2)\<rparr>
         | Inl e \<Rightarrow> h2)
      else h2)"

text \<open>The tag it is stored under: full scope falls back to data when the backend gives no snapshot.\<close>

definition stored_tag :: "sandbox_host \<Rightarrow> checkpoint_scope \<Rightarrow> string \<Rightarrow> host \<Rightarrow> string" where
  "stored_tag sb scope tag h =
     store_tag (if scope = FULL \<and> (\<forall>d. fst (sbh_snapshot sb tag h) \<noteq> Inr d) then DATA else scope) tag"

lemma checkpoint_stored:
  assumes "checkpoint ss objs a w scope h = (Inr ref, h')"
  shows "\<exists>sb src h1 meta h2. w_sandbox w = Some sb \<and>
    suspended_tree (objs sb) scope (checkpoint_tag scope (h_time h)) h src h1 \<and>
    ss_put_tree ss (a_actor_id a) (stored_tag (objs sb) scope (checkpoint_tag scope (h_time h)) h) src (Some (a_template_id a)) h1 = (Inr meta, h2) \<and>
    sm_snapshot_ref meta = ref \<and> h' = cleaned_up (objs sb) scope (checkpoint_tag scope (h_time h)) h h2"
proof -
  obtain sb where sb: "w_sandbox w = Some sb" using assms by (auto simp: checkpoint_def split: option.splits)
  obtain r h1 where sn: "sbh_snapshot (objs sb) (checkpoint_tag scope (h_time h)) h = (r, h1)" by fastforce
  show ?thesis
  proof (cases "scope = FULL")
    case True
    with assms sb sn show ?thesis
      by (cases r) (auto simp: checkpoint_def try_backend_snapshot_def suspended_tree_def cleaned_up_def stored_tag_def Let_def
          split: option.splits sum.splits prod.splits if_splits)
  next
    case False
    with assms sb show ?thesis
      by (auto simp: checkpoint_def suspended_tree_def cleaned_up_def stored_tag_def Let_def
          split: option.splits sum.splits prod.splits if_splits)
  qed
qed

text \<open>A suspended actor's resume, once a worker is found, comes down to one restore of its snapshot.\<close>

lemma resume_suspended:
  assumes ok: "orch_ok s" and a: "dget (sy_actors s) (ns, aid) = Some a" "a_status a = SUSPENDED"
    and ref: "a_latest_snapshot_ref a = Some ref" "ref \<noteq> []"
    and t: "dget (sy_templates s) (a_template_id a) = Some t"
    and acq: "acquire_worker (constraints_for t a) (sy_workers s) = (Inr w, wp)"
  shows "\<exists>a1 w' r lg h asg s'. restore (sy_store s) (sy_objs s) a1 w' ref (sy_log s) (sy_host s) = (r, lg, h) \<and>
    a_actor_id a1 = aid \<and> w_sandbox w' = w_sandbox w \<and>
    (case r of
       Inl e \<Rightarrow> resume_actor quiet aid ns s = (Inl e, s')
     | Inr _ \<Rightarrow> resume_actor quiet aid ns s = (Inr asg, s') \<and> sy_host s' = h \<and>
         dget (wp_store (sy_workers s')) (wa_worker_id asg) = Some w')"
proof -
  have ok0: "orch_ok (tick s)" using ok by (simp add: orch_ok_def)
  have key: "actor_key_of a = (ns, aid)" using orch_inv_key a(1) ok by (simp add: orch_ok_def)
  have res: "resumable a" by (simp add: resumable_def a(2))
  have t0: "dget (sy_actors (tick s)) (ns, aid) = Some a" "dget (sy_templates (tick s)) (a_template_id a) = Some t"
    "acquire_worker (constraints_for t a) (sy_workers (tick s)) = (Inr w, wp)" using a(1) t acq by simp_all
  obtain r0 s' where impl: "resume_actor_impl quiet aid ns (tick s) = (r0, s')"
    by (cases "resume_actor_impl quiet aid ns (tick s)")
  have run: "resume_actor quiet aid ns s = (r0, s')" using impl a by (simp add: resume_actor_def get_quiet)
  let ?a1 = "stamp (h_time (sy_host (tick s))) (a_version a + 1) (with_status a RESUMING)"
  from resume_quiet [OF ok0 t0(1) res t0(2) refl t0(3) impl, unfolded sum.case]
  obtain rr :: "unit result" and c c1 s0 s1 w' wp1 where
    w': "w' = w\<lparr>w_assignment := Some (make_assignment ?a1 w (h_time (sy_host (tick s)))), w_version := w_version w + 1\<rparr>"
    and wp1: "wp1 = wp\<lparr>wp_store := dput (w_worker_id w) w' (wp_store wp)\<rparr>"
    and c: "c = \<lparr>cx_actor_id = aid, cx_namespace = ns, cx_actor = Some ?a1, cx_worker = Some w',
               cx_restored = False, cx_assignment = None\<rparr>"
    and s0: "updated (tick s) s0 (dput (ns, aid) ?a1 (sy_actors (tick s))) wp1 (sy_router (tick s)) (sy_host (tick s))"
    and re: "restore_execute quiet t (c, s0) = (rr, c1, s1)"
    and C: "case rr of
             Inl e \<Rightarrow> r0 = Inl e \<and> s' = s1
           | Inr _ \<Rightarrow> (let asg' = make_assignment ?a1 w' (h_time (sy_host s1)) in
               r0 = Inr asg' \<and>
               updated s1 s' (dput (ns, aid) (stamp (h_time (sy_host s1)) (a_version a + 2) (running_actor ?a1 asg'))
                   (dput (ns, aid) ?a1 (sy_actors (tick s))))
                 wp1 (router_bind (actor_ref_of a) asg' (sy_router (tick s))) (sy_host s1))"
    by (elim exE conjE) (rule that, assumption+)
  obtain r lg h where rs: "restore (sy_store s0) (sy_objs s0) ?a1 w' ref (sy_log s0) (sy_host s0) = (r, lg, h)"
    by (metis prod_cases3)
  have "truthy (a_latest_snapshot_ref ?a1)" using ref by (simp add: truthy_def)
  with re c ref rs have rr: "rr = r" "sy_host s1 = h"
    by (cases r; auto simp: restore_execute_def lift_sys_def do_restore_def Let_def)+
  let ?asg = "make_assignment ?a1 w' (h_time (sy_host s1))"
  have "case r of Inl e \<Rightarrow> resume_actor quiet aid ns s = (Inl e, s')
     | Inr _ \<Rightarrow> resume_actor quiet aid ns s = (Inr ?asg, s') \<and> sy_host s' = h \<and>
         dget (wp_store (sy_workers s')) (wa_worker_id ?asg) = Some w'"
    using C run unfolding rr(1)
    by (cases r) (simp_all add: rr(2) updated_def Let_def wp1 make_assignment_def w' dict_simps)
  moreover have "a_actor_id ?a1 = aid" using key by (simp add: actor_key_of_def)
  ultimately show ?thesis
    using s0 rs by (intro exI [of _ ?a1] exI [of _ w'] exI [of _ r] exI [of _ lg] exI [of _ h] exI [of _ ?asg] exI [of _ s'])
      (simp add: updated_def w')
qed

lemma resume_restores:
  assumes ok: "orch_ok s" and run: "resume_actor quiet aid ns s = (Inr asg, s')"
    and a: "dget (sy_actors s) (ns, aid) = Some a" "a_status a = SUSPENDED"
    and ref: "a_latest_snapshot_ref a = Some ref" "ref \<noteq> []"
  shows "\<exists>a1 w lg. restore (sy_store s) (sy_objs s) a1 w ref (sy_log s) (sy_host s) = (Inr (), lg, sy_host s') \<and>
    a_actor_id a1 = aid \<and> dget (wp_store (sy_workers s')) (wa_worker_id asg) = Some w"
proof -
  have ok0: "orch_ok (tick s)" using ok by (simp add: orch_ok_def)
  have impl: "resume_actor_impl quiet aid ns (tick s) = (Inr asg, s')"
    using run a by (simp add: resume_actor_def get_quiet)
  have res: "resumable a" by (simp add: resumable_def a(2))
  have "\<exists>t. dget (sy_templates s) (a_template_id a) = Some t"
  proof (rule ccontr)
    assume "\<not> ?thesis"
    then have "\<not> resumable x \<or> dget (sy_templates (tick s)) (a_template_id x) = None"
      if "dget (sy_actors (tick s)) (ns, aid) = Some x" for x using that a(1) by auto
    from resume_refused [OF this ok0 impl] a show False by (auto split: if_splits)
  qed
  then obtain t where t: "dget (sy_templates s) (a_template_id a) = Some t" by auto
  obtain ra wp where acq: "acquire_worker (constraints_for t a) (sy_workers s) = (ra, wp)"
    by (cases "acquire_worker (constraints_for t a) (sy_workers s)")
  have t0: "dget (sy_actors (tick s)) (ns, aid) = Some a" "dget (sy_templates (tick s)) (a_template_id a) = Some t"
    "acquire_worker (constraints_for t a) (sy_workers (tick s)) = (ra, wp)" using a(1) t acq by simp_all
  from resume_quiet [OF ok0 t0(1) res t0(2) refl t0(3) impl] obtain w where "ra = Inr w" by (cases ra) auto
  with resume_suspended [OF ok a ref t] acq obtain a1 w' r lg h asg1 s1 where
    "restore (sy_store s) (sy_objs s) a1 w' ref (sy_log s) (sy_host s) = (r, lg, h)" "a_actor_id a1 = aid"
    and "case r of
       Inl e \<Rightarrow> resume_actor quiet aid ns s = (Inl e, s1)
     | Inr _ \<Rightarrow> resume_actor quiet aid ns s = (Inr asg1, s1) \<and> sy_host s1 = h \<and>
         dget (wp_store (sy_workers s1)) (wa_worker_id asg1) = Some w'" by metis
  with run show ?thesis by (cases r) auto
qed

lemma restore_made_tmp:
  assumes "restore ss objs a w ref lg h = (Inr (), lg', h')" and "w_sandbox w = Some sb"
    and "workdir_of (objs sb) h = Inr (Some (path_str p))" and "p \<noteq> []" "\<forall>c \<in> set p. comp_ok c"
  shows "\<exists>name h1. mkdtemp (restore_prefix a) (path_dirname (path_str p)) h = (Inr name, h1)"
  using assms path_sibling(2) [OF assms(4,5), of "''x''"]
  by (auto simp: restore_def restore_on_def Let_def rstrip_str comp_ok_def split: prod.splits sum.splits if_splits)

lemma saved_named: "local_saved base ls h ref t \<Longrightarrow> ref \<noteq> []"
  by (auto simp: local_saved_def local_ok_def fs_path_def path_step_def)

section \<open>A turn of an actor\<close>

text \<open>Actor \<open>aid\<close> is recorded on worker \<open>w\<close>, whose sandbox works in directory \<open>d\<close> and is read from it.\<close>

definition works_in :: "sys \<Rightarrow> string \<Rightarrow> string \<Rightarrow> checkpoint_scope option \<Rightarrow> worker \<Rightarrow> string \<Rightarrow> bool" where
  "works_in s ns aid sc w d \<longleftrightarrow>
     (\<exists>a t asg sb. dget (sy_actors s) (ns, aid) = Some a \<and> dget (sy_templates s) (a_template_id a) = Some t \<and>
        a_worker_assignment a = Some asg \<and> dget (wp_store (sy_workers s)) (wa_worker_id asg) = Some w \<and>
        w_sandbox w = Some sb \<and> workdir_of (sy_objs s sb) (sy_host s) = Inr (Some d) \<and>
        reads_workdir (sy_objs s sb) (suspend_scope sc t) (sy_host s))"

lemma restore_ready_id: "a_actor_id a = a_actor_id a' \<Longrightarrow> restore_ready base p a h = restore_ready base p a' h"
  by (simp add: restore_ready_def)

text \<open>
  C26: A suspend that returns a reference has stored the actor's tree and let the worker go: the
  reference is the one the store's \<open>put_tree\<close> answered when it was given the tree of the actor's
  sandbox under the actor's id and template, the host is what that call left (but for the
  backend's own snapshot directory, which is removed), the record is suspended with that reference
  and without worker or route, and no actor's assignment is left on the worker it had.
\<close>

theorem suspend_lets_go:
  assumes ok: "orch_ok s" and run: "suspend_actor quiet aid ns sc s = (Inr ref, s')"
  shows "\<exists>a t asg w sb. dget (sy_actors s) (ns, aid) = Some a \<and> dget (sy_templates s) (a_template_id a) = Some t \<and>
    a_worker_assignment a = Some asg \<and> dget (wp_store (sy_workers s)) (wa_worker_id asg) = Some w \<and>
    w_sandbox w = Some sb \<and>
    (let scope = suspend_scope sc t; tag = checkpoint_tag scope (h_time (sy_host s)) in
     \<exists>src h1 meta h2. suspended_tree (sy_objs s sb) scope tag (sy_host s) src h1 \<and>
       ss_put_tree (sy_store s) aid (stored_tag (sy_objs s sb) scope tag (sy_host s)) src (Some (a_template_id a)) h1 = (Inr meta, h2) \<and>
       sm_snapshot_ref meta = ref \<and> sy_host s' = cleaned_up (sy_objs s sb) scope tag (sy_host s) h2) \<and>
    (case dget (wp_store (sy_workers s')) (wa_worker_id asg) of None \<Rightarrow> True | Some w' \<Rightarrow> w_assignment w' = None) \<and>
    (\<exists>a'. dget (sy_actors s') (ns, aid) = Some a' \<and> a_status a' = SUSPENDED \<and>
      a_latest_snapshot_ref a' = Some ref \<and> a_worker_assignment a' = None \<and>
      router_resolve (actor_ref_of a') (sy_router s') = None)"
proof -
  obtain a t where a: "dget (sy_actors s) (ns, aid) = Some a" "a_status a = RUNNING"
    and t: "dget (sy_templates s) (a_template_id a) = Some t"
    using run by (auto simp: suspend_actor_def get_quiet get_template_def split: option.splits if_splits sum.splits)
  from release_held [OF ok a] obtain asg w wp' where asg: "a_worker_assignment a = Some asg"
    and w: "dget (wp_store (sy_workers s)) (wa_worker_id asg) = Some w"
    and rel: "release_worker w False (sy_workers s) = (Inr (), wp')"
    and free: "\<forall>w'. dget (wp_store wp') (wa_worker_id asg) = Some w' \<longrightarrow> w_assignment w' = None" by blast
  have aid: "a_actor_id a = aid" using orch_inv_key a(1) ok by (auto simp: orch_ok_def actor_key_of_def)
  let ?a1 = "stamp (h_time (sy_host s)) (a_version a + 1) (with_status a SUSPENDING)"
  obtain r h where cp: "checkpoint (sy_store s) (sy_objs s) ?a1 w (suspend_scope sc t) (sy_host s) = (r, h)"
    by (cases "checkpoint (sy_store s) (sy_objs s) ?a1 w (suspend_scope sc t) (sy_host s)")
  note S = suspend_quiet [OF ok a t asg w rel refl cp [unfolded suspend_scope_def]]
  then have r: "r = Inr ref" using run by auto
  let ?a2 = "stamp (h_time h) (a_version a + 2) (let_go ?a1 SUSPENDED ref (a_worker_selector ?a1))"
  have U: "sy_actors s' = dput (ns, aid) ?a2 (dput (ns, aid) ?a1 (sy_actors s))" "sy_workers s' = wp'"
    "sy_router s' = router_unbind (actor_ref_of a) (sy_router s)" "sy_host s' = h"
    using S run unfolding r by (auto simp: updated_def)
  from checkpoint_stored [OF cp [unfolded r]] obtain sb src h1 meta h2 where sb: "w_sandbox w = Some sb"
    and stored: "suspended_tree (sy_objs s sb) (suspend_scope sc t) (checkpoint_tag (suspend_scope sc t) (h_time (sy_host s))) (sy_host s) src h1"
      "ss_put_tree (sy_store s) aid (stored_tag (sy_objs s sb) (suspend_scope sc t) (checkpoint_tag (suspend_scope sc t) (h_time (sy_host s))) (sy_host s)) src
         (Some (a_template_id a)) h1 = (Inr meta, h2)"
      "sm_snapshot_ref meta = ref" "sy_host s' = cleaned_up (sy_objs s sb) (suspend_scope sc t)
         (checkpoint_tag (suspend_scope sc t) (h_time (sy_host s))) (sy_host s) h2"
    using U(4) aid by auto
  have "dget (sy_actors s') (ns, aid) = Some ?a2" by (simp add: U dict_simps)
  moreover have "router_resolve (actor_ref_of ?a2) (sy_router s') = None" by (simp add: U router_defs dict_simps)
  moreover have "case dget (wp_store (sy_workers s')) (wa_worker_id asg) of None \<Rightarrow> True | Some w' \<Rightarrow> w_assignment w' = None"
    using free U(2) by (auto split: option.split)
  ultimately show ?thesis using a(1) t asg w sb stored unfolding Let_def
    by (intro exI [of _ a] exI [of _ t] exI [of _ asg] exI [of _ w] exI [of _ sb]) fastforce
qed

text \<open>
  C4: An actor gets its files back: when a running actor is suspended into a local store and resumed
  later, on whatever worker is then idle, the work directory of that worker holds, after the
  resume, exactly the tree the actor's directory held when it was suspended, whatever happened
  in between to other actors, workers and files outside the store.
\<close>

theorem suspend_resume_roundtrip:
  assumes store: "sy_store s = local_ops ls" "local_ok base ls" "comp_ok aid" "fs_ready base (h_fs (sy_host s))"
    and suspended: "orch_ok s" "suspend_actor quiet aid ns sc s = (Inr ref, s1)"
    and dir: "works_in s ns aid sc w d" "apart (fs_path d) base"
    and later: "orch_ok s2" "dget (sy_actors s2) (ns, aid) = dget (sy_actors s1) (ns, aid)" "sy_store s2 = sy_store s1"
      "\<And>q. prefix base q \<Longrightarrow> dget (h_fs (sy_host s2)) q = dget (h_fs (sy_host s1)) q"
    and resumed: "resume_actor quiet aid ns s2 = (Inr asg, s3)"
      "dget (wp_store (sy_workers s3)) (wa_worker_id asg) = Some w'" "w_sandbox w' = Some sb'"
      "workdir_of (sy_objs s2 sb') (sy_host s2) = Inr (Some (path_str p))"
    and ready: "a_actor_id a = aid" "restore_ready base p a (sy_host s2)"
      "\<not> fs_isfile (h_fs (sy_host s2)) (aside_of p)"
  shows "tree_at (h_fs (sy_host s3)) p r = tree_at (h_fs (sy_host s)) (fs_path d) r"
proof -
  from dir(1) obtain a0 t asg0 sb where a0: "dget (sy_actors s) (ns, aid) = Some a0"
    "dget (sy_templates s) (a_template_id a0) = Some t" "a_worker_assignment a0 = Some asg0"
    "dget (wp_store (sy_workers s)) (wa_worker_id asg0) = Some w"
    and sb: "w_sandbox w = Some sb" "workdir_of (sy_objs s sb) (sy_host s) = Inr (Some d)"
      "reads_workdir (sy_objs s sb) (suspend_scope sc t) (sy_host s)"
    by (auto simp: works_in_def)
  have id0: "a_actor_id a0 = aid"
    using orch_inv_key [OF suspended(1) [unfolded orch_ok_def] a0(1)] by (simp add: actor_key_of_def)
  from suspend_checkpoints [OF suspended a0] id0 obtain a1 a2 where
    cp: "checkpoint (local_ops ls) (sy_objs s) a1 w (suspend_scope sc t) (sy_host s) = (Inr ref, sy_host s1)"
    and a1: "a_actor_id a1 = aid" and st1: "sy_store s1 = local_ops ls"
    and a2: "dget (sy_actors s1) (ns, aid) = Some a2" "a_status a2 = SUSPENDED" "a_latest_snapshot_ref a2 = Some ref"
    unfolding store(1) by auto
  have names: "local_ok base ls \<and>
      local_names_ok (a_actor_id a1) (store_tag DATA (checkpoint_tag (suspend_scope sc t) (h_time (sy_host s))))"
    using store(2,3) a1 by (simp add: local_names_ok_def checkpoint_tag_no_sep)
  have named: "ref \<noteq> []"
    by (rule saved_named [OF local.checkpoint_saves [OF names store(4) sb(1,3,2) dir(2) cp]])
  have a2': "dget (sy_actors s2) (ns, aid) = Some a2" using later(2) a2(1) by simp
  from resume_restores [OF later(1) resumed(1) a2' a2(2,3) named] obtain a3 w3 lg where
    re: "restore (local_ops ls) (sy_objs s2) a3 w3 ref (sy_log s2) (sy_host s2) = (Inr (), lg, sy_host s3)"
    and w3: "a_actor_id a3 = aid" "dget (wp_store (sy_workers s3)) (wa_worker_id asg) = Some w3"
    unfolding later(3) st1 by blast
  have w3': "w_sandbox w3 = Some sb'" using w3(2) resumed(2,3) by simp
  have rr: "restore_ready base p a3 (sy_host s2)"
    using ready(1,2) w3(1) restore_ready_id [of a3 a base p] by simp
  from restore_made_tmp [OF re w3' resumed(4)] rr obtain name h1 where
    mk: "mkdtemp (restore_prefix a3) (path_dirname (path_str p)) (sy_host s2) = (Inr name, h1)"
    by (auto simp: restore_ready_def)
  from local.checkpoint_restore [where objs = "sy_objs s" and objs' = "sy_objs s2" and sb = sb and sb' = sb', OF names store(4) sb(1,3,2) dir(2) cp later(4) rr w3' resumed(4) mk ready(3), of "sy_log s2"]
  show ?thesis using re by auto
qed


text \<open>The actor of the examples on a worker in \<open>/ws\<close>, with a local store under \<open>/store\<close>.\<close>

definition demo_turn :: sys where
  "demo_turn = (demo_sys (Some (path_str [''ws''])) None RUNNING (Some demo_asg))
     \<lparr>sy_store := local_ops demo_local, sy_objs := demo_objs, sy_host := demo_host demo_ckpt_fs\<rparr>"

definition demo_freed :: worker_pool where
  "demo_freed = snd (release_worker (demo_host_worker (Some demo_asg)) False (demo_wp (Some demo_asg)))"

lemma checkpoint_ids:
  assumes "a_actor_id a = a_actor_id a'" "a_template_id a = a_template_id a'" "w_sandbox w = w_sandbox w'"
  shows "checkpoint ss objs a w sc h = checkpoint ss objs a' w' sc h"
  unfolding checkpoint_def assms ..

lemma demo_released:
  "release_worker (demo_host_worker (Some demo_asg)) False (demo_wp (Some demo_asg)) = (Inr (), demo_freed)"
proof -
  have "fst (release_worker (demo_host_worker (Some demo_asg)) False (demo_wp (Some demo_asg))) = Inr ()" by code_simp
  then show ?thesis by (metis demo_freed_def prod.collapse)
qed

lemma demo_acquired:
  "\<exists>w wp. acquire_worker \<lparr>c_sandbox_class = VFS, c_template_selector = [], c_actor_selector = [], c_required_node = None\<rparr>
     demo_freed = (Inr w, wp) \<and> w_sandbox w = Some 7"
proof -
  let ?r = "acquire_worker \<lparr>c_sandbox_class = VFS, c_template_selector = [], c_actor_selector = [], c_required_node = None\<rparr> demo_freed"
  have "case fst ?r of Inl e \<Rightarrow> False | Inr w \<Rightarrow> w_sandbox w = Some 7" by code_simp
  then show ?thesis by (cases ?r; cases "fst ?r") auto
qed

lemma demo_turn_ok: "orch_ok demo_turn"
  using demo_sys_ok(1) by (simp add: demo_turn_def orch_ok_def)

lemma demo_turn_fields:
  "dget (sy_actors demo_turn) (''ns'', ''a'') = Some (demo_hosted RUNNING (Some demo_asg) None)"
  "dget (sy_templates demo_turn) ''t'' = Some demo_template" "sy_workers demo_turn = demo_wp (Some demo_asg)"
  "sy_store demo_turn = local_ops demo_local" "sy_objs demo_turn = demo_objs" "sy_host demo_turn = demo_host demo_ckpt_fs"
  "dget (wp_store (demo_wp (Some demo_asg))) ''w-1'' = Some (demo_host_worker (Some demo_asg))"
  by (simp_all add: demo_turn_def demo_sys_fields demo_wp_def worker_pool_init_def)

lemma demo_turn_suspended:
  "\<exists>ref s1 a. suspend_actor quiet ''a'' ''ns'' None demo_turn = (Inr ref, s1) \<and>
     checkpoint (local_ops demo_local) demo_objs demo_ckpt_actor demo_ckpt_worker DATA (demo_host demo_ckpt_fs) = (Inr ref, sy_host s1) \<and>
     sy_host s1 = (demo_host demo_ckpt_fs)\<lparr>h_fs := demo_ckpt_saved\<rparr> \<and> sy_workers s1 = demo_freed \<and>
     sy_store s1 = local_ops demo_local \<and> sy_objs s1 = demo_objs \<and> sy_templates s1 = sy_templates demo_turn \<and>
     dget (sy_actors s1) (''ns'', ''a'') = Some a \<and> a_worker_selector a = [] \<and> a_template_id a = ''t'' \<and>
     a_actor_id a = ''a'' \<and> a_status a = SUSPENDED \<and> a_latest_snapshot_ref a = Some ref"
proof -
  let ?a = "demo_hosted RUNNING (Some demo_asg) None"
  let ?a1 = "stamp (h_time (sy_host demo_turn)) (a_version ?a + 1) (with_status ?a SUSPENDING)"
  obtain ref h where cp: "checkpoint (local_ops demo_local) demo_objs demo_ckpt_actor demo_ckpt_worker DATA (demo_host demo_ckpt_fs) = (Inr ref, h)"
    and h: "h = (demo_host demo_ckpt_fs)\<lparr>h_fs := demo_ckpt_saved\<rparr>" using demo_checkpoint by blast
  have cp1: "checkpoint (sy_store demo_turn) (sy_objs demo_turn) ?a1 (demo_host_worker (Some demo_asg))
      (case None of None \<Rightarrow> t_snapshot_scope_on_suspend demo_template | Some x \<Rightarrow> x) (sy_host demo_turn) = (Inr ref, h)"
    using cp checkpoint_ids [of ?a1 demo_ckpt_actor "demo_host_worker (Some demo_asg)" demo_ckpt_worker]
    by (simp add: demo_turn_fields demo_ckpt_actor_def demo_ckpt_worker_def demo_hosted_def demo_host_worker_def demo_template_def)
  have fields: "a_status ?a = RUNNING" "dget (sy_templates demo_turn) (a_template_id ?a) = Some demo_template"
    "a_worker_assignment ?a = Some demo_asg"
    "dget (wp_store (sy_workers demo_turn)) (wa_worker_id demo_asg) = Some (demo_host_worker (Some demo_asg))"
    "release_worker (demo_host_worker (Some demo_asg)) False (sy_workers demo_turn) = (Inr (), demo_freed)"
    using demo_turn_fields demo_released by (simp_all add: demo_hosted_def demo_asg_def)
  from suspend_quiet [OF demo_turn_ok demo_turn_fields(1) fields refl cp1] obtain s1 where
    run: "suspend_actor quiet ''a'' ''ns'' None demo_turn = (Inr ref, s1)"
    and U: "updated demo_turn s1 (dput (''ns'', ''a'')
            (stamp (h_time h) (a_version ?a + 2) (let_go ?a1 SUSPENDED ref (a_worker_selector ?a1)))
            (dput (''ns'', ''a'') ?a1 (sy_actors demo_turn)))
          demo_freed (router_unbind (actor_ref_of ?a) (sy_router demo_turn)) h" by auto
  from U h cp show ?thesis
    by (intro exI [of _ ref] exI [of _ s1] exI [of _ "stamp (h_time h) (a_version ?a + 2) (let_go ?a1 SUSPENDED ref (a_worker_selector ?a1))"])
      (simp add: run updated_def demo_turn_fields dict_simps demo_hosted_def)
qed

text \<open>Meanwhile the file is overwritten.\<close>

lemma demo_later_fs:
  "fs_ok (dput [''ws'', ''f''] (FileE (Raw ''2'')) demo_ckpt_saved)"
  "fs_ready [''store''] (dput [''ws'', ''f''] (FileE (Raw ''2'')) demo_ckpt_saved)"
  "fs_isdir (dput [''ws'', ''f''] (FileE (Raw ''2'')) demo_ckpt_saved) [''ws'']"
  "\<not> fs_isfile (dput [''ws'', ''f''] (FileE (Raw ''2'')) demo_ckpt_saved) (aside_of [''ws''])"
proof -
  have eq: "dput [''ws'', ''f''] (FileE (Raw ''2'')) demo_ckpt_saved =
      [([], DirE), ([''store''], DirE), ([''store'', ''a''], DirE), ([''ws''], DirE), ([''ws'', ''f''], FileE (Raw ''2'')),
       ([''store'', ''a'', demo_ckpt_name], FileE (Tar ''gz'' [([''f''], FileE (Raw ''1''))]))]"
    by (simp add: demo_ckpt_saved_def)
  show "fs_ok (dput [''ws'', ''f''] (FileE (Raw ''2'')) demo_ckpt_saved)"
    "fs_ready [''store''] (dput [''ws'', ''f''] (FileE (Raw ''2'')) demo_ckpt_saved)"
    "fs_isdir (dput [''ws'', ''f''] (FileE (Raw ''2'')) demo_ckpt_saved) [''ws'']"
    "\<not> fs_isfile (dput [''ws'', ''f''] (FileE (Raw ''2'')) demo_ckpt_saved) (aside_of [''ws''])"
    unfolding eq by (auto simp: fs_ready_def fs_ok_def dict_ok_def fs_isdir_def fs_isfile_def aside_of_def
      fs_lookup_def prefix_Cons append_eq_Cons_conv split: if_splits)
qed

definition demo_later :: host where
  "demo_later = (demo_host demo_ckpt_fs)\<lparr>h_fs := dput [''ws'', ''f''] (FileE (Raw ''2'')) demo_ckpt_saved\<rparr>"

lemma demo_workdir: "fs_isdir f [''ws''] \<Longrightarrow> workdir_of (demo_objs sb) ((demo_host g)\<lparr>h_fs := f\<rparr>) = Inr (Some (path_str [''ws'']))"
  by (simp add: workdir_of_def demo_objs_def path_str_def demo_host_def comp_ok_def
      fs_path_str [of "[''ws'']", unfolded path_str_def, simplified])

lemma demo_later_ready: "a_actor_id a = ''a'' \<Longrightarrow> restore_ready [''store''] [''ws''] a demo_later"
  using demo_later_fs
  by (simp add: demo_later_def restore_ready_def comp_ok_def apart_def aside_of_def tmp_names_ok_def demo_host_def)

lemma demo_local_ok: "local_ok [''store''] demo_local" "comp_ok ''a''" "fs_ready [''store''] demo_ckpt_fs"
  "apart (fs_path (path_str [''ws''])) [''store'']" "fs_isdir demo_ckpt_fs [''ws'']"
  by (auto simp: local_ok_def demo_local_def comp_ok_def tar_mode_ok_def fs_ready_def dict_ok_def demo_ckpt_fs_def
      apart_def fs_isdir_def fs_lookup_def prefix_Cons append_eq_Cons_conv split: if_splits)

lemma demo_later_store: "prefix [''store''] q \<Longrightarrow> dget (h_fs demo_later) q = dget demo_ckpt_saved q"
  by (auto simp: demo_later_def dict_simps prefix_def)

lemma demo_restores:
  assumes cp: "checkpoint (local_ops demo_local) demo_objs demo_ckpt_actor demo_ckpt_worker DATA (demo_host demo_ckpt_fs) =
      (Inr ref, (demo_host demo_ckpt_fs)\<lparr>h_fs := demo_ckpt_saved\<rparr>)"
    and a: "a_actor_id a = ''a''" and w: "w_sandbox w = Some 7"
  shows "\<exists>lg' h'. restore (local_ops demo_local) demo_objs a w ref lg demo_later = (Inr (), lg', h')"
proof -
  let ?mk = "mkdtemp (restore_prefix demo_ckpt_actor) (path_dirname (path_str [''ws''])) demo_later"
  have pre: "restore_prefix a = restore_prefix demo_ckpt_actor"
    using a by (simp add: restore_prefix_def demo_ckpt_actor_def)
  have "(case fst ?mk of Inl e \<Rightarrow> False | Inr n \<Rightarrow> True)"
    unfolding mkdtemp_def tmp_max_def by (simp add: numeral_eq_Suc) code_simp
  then obtain name h3 where mk: "mkdtemp (restore_prefix a) (path_dirname (path_str [''ws''])) demo_later = (Inr name, h3)"
    unfolding pre by (cases ?mk) (auto split: sum.splits)
  have names: "local_ok [''store''] demo_local \<and> local_names_ok (a_actor_id demo_ckpt_actor)
      (store_tag DATA (checkpoint_tag DATA (h_time (demo_host demo_ckpt_fs))))"
    using demo_local_ok by (simp add: local_names_ok_def checkpoint_tag_no_sep demo_ckpt_actor_def)
  have st: "fs_ready [''store''] (h_fs (demo_host demo_ckpt_fs))" using demo_local_ok(3) by (simp add: demo_host_def)
  have sb: "w_sandbox demo_ckpt_worker = Some 7" by (simp add: demo_ckpt_worker_def)
  have rd: "reads_workdir (demo_objs 7) DATA (demo_host demo_ckpt_fs)" by (simp add: reads_workdir_def)
  have wd: "workdir_of (demo_objs 7) (demo_host demo_ckpt_fs) = Inr (Some (path_str [''ws'']))"
    using demo_workdir [OF demo_local_ok(5), of 7 demo_ckpt_fs] by (simp add: demo_host_def)
  have wd2: "workdir_of (demo_objs 7) demo_later = Inr (Some (path_str [''ws'']))"
    using demo_workdir [OF demo_later_fs(3)] by (simp add: demo_later_def)
  have kept: "dget (h_fs demo_later) q = dget (h_fs ((demo_host demo_ckpt_fs)\<lparr>h_fs := demo_ckpt_saved\<rparr>)) q"
    if "prefix [''store''] q" for q using demo_later_store [OF that] by simp
  have nf: "\<not> fs_isfile (h_fs demo_later) (aside_of [''ws''])" using demo_later_fs(4) by (simp add: demo_later_def)
  from local.checkpoint_restore [where objs = demo_objs and objs' = demo_objs and sb = 7 and sb' = 7,
      OF names st sb rd wd demo_local_ok(4) cp kept demo_later_ready [OF a] w wd2 mk nf, of lg]
  show ?thesis by blast
qed

theorem suspend_resume_roundtrip_witness:
  "\<exists>ref s1 s2 asg s3. suspend_actor quiet ''a'' ''ns'' None demo_turn = (Inr ref, s1) \<and>
     s2 = s1\<lparr>sy_host := (sy_host s1)\<lparr>h_fs := dput [''ws'', ''f''] (FileE (Raw ''2'')) (h_fs (sy_host s1))\<rparr>\<rparr> \<and>
     resume_actor quiet ''a'' ''ns'' s2 = (Inr asg, s3) \<and>
     tree_at (h_fs (sy_host s3)) [''ws''] [''f''] = Some (FileE (Raw ''1''))"
proof -
  obtain ref s1 a where sus: "suspend_actor quiet ''a'' ''ns'' None demo_turn = (Inr ref, s1)"
    and cp: "checkpoint (local_ops demo_local) demo_objs demo_ckpt_actor demo_ckpt_worker DATA (demo_host demo_ckpt_fs) = (Inr ref, sy_host s1)"
    and s1: "sy_host s1 = (demo_host demo_ckpt_fs)\<lparr>h_fs := demo_ckpt_saved\<rparr>" "sy_workers s1 = demo_freed"
      "sy_store s1 = local_ops demo_local" "sy_objs s1 = demo_objs" "sy_templates s1 = sy_templates demo_turn"
    and a: "dget (sy_actors s1) (''ns'', ''a'') = Some a" "a_worker_selector a = []" "a_template_id a = ''t''"
      "a_actor_id a = ''a''" "a_status a = SUSPENDED" "a_latest_snapshot_ref a = Some ref"
    using demo_turn_suspended by blast
  define s2 where "s2 = s1\<lparr>sy_host := demo_later\<rparr>"
  have ok2: "orch_ok s2"
    using suspend_ok [OF demo_turn_ok, of "''a''" "''ns''" None] sus by (simp add: s2_def orch_ok_def)
  obtain w wp where acq: "acquire_worker (constraints_for demo_template a) (sy_workers s2) = (Inr w, wp)" and w: "w_sandbox w = Some 7"
    using demo_acquired by (auto simp: s2_def s1 constraints_for_def demo_template_def a)
  have named: "ref \<noteq> []"
  proof -
    have names: "local_ok [''store''] demo_local \<and> local_names_ok (a_actor_id demo_ckpt_actor)
        (store_tag DATA (checkpoint_tag DATA (h_time (demo_host demo_ckpt_fs))))"
      using demo_local_ok by (simp add: local_names_ok_def checkpoint_tag_no_sep demo_ckpt_actor_def)
    show ?thesis by (rule saved_named [OF local.checkpoint_saves [where objs = demo_objs and sb = 7, OF names _ _ _ _ demo_local_ok(4) cp]])
      (use demo_local_ok demo_workdir [OF demo_local_ok(5), of 7 demo_ckpt_fs] in \<open>simp_all add: demo_host_def demo_ckpt_worker_def reads_workdir_def\<close>)
  qed
  have a2: "dget (sy_actors s2) (''ns'', ''a'') = Some a" "dget (sy_templates s2) (a_template_id a) = Some demo_template"
    using a s1 demo_turn_fields by (simp_all add: s2_def)
  from resume_suspended [OF ok2 a2(1) a(5,6) named a2(2) acq] obtain a1 w' r lg h asg s3 where
    re: "restore (local_ops demo_local) demo_objs a1 w' ref (sy_log s2) demo_later = (r, lg, h)"
    and aw: "a_actor_id a1 = ''a''" "w_sandbox w' = Some 7"
    and out: "case r of Inl e \<Rightarrow> resume_actor quiet ''a'' ''ns'' s2 = (Inl e, s3)
      | Inr _ \<Rightarrow> resume_actor quiet ''a'' ''ns'' s2 = (Inr asg, s3) \<and> sy_host s3 = h \<and>
          dget (wp_store (sy_workers s3)) (wa_worker_id asg) = Some w'"
    by (auto simp: s2_def s1 w)
  have res: "resume_actor quiet ''a'' ''ns'' s2 = (Inr asg, s3)" "dget (wp_store (sy_workers s3)) (wa_worker_id asg) = Some w'"
    using demo_restores [OF cp [unfolded s1(1)] aw, of "sy_log s2"] re out by auto
  have "tree_at (h_fs (sy_host s3)) [''ws''] [''f''] = tree_at (h_fs (sy_host demo_turn)) (fs_path (path_str [''ws''])) [''f'']"
  proof (rule suspend_resume_roundtrip [where base = "[''store'']" and ls = demo_local and sc = None and
        w = "demo_host_worker (Some demo_asg)", OF _ _ _ _ demo_turn_ok sus _ _ ok2 _ _ _ res aw(2) _ aw(1)])
    show "works_in demo_turn ''ns'' ''a'' None (demo_host_worker (Some demo_asg)) (path_str [''ws''])"
      using demo_turn_fields demo_workdir [OF demo_local_ok(5), of 7 demo_ckpt_fs]
      by (simp add: works_in_def demo_hosted_def demo_host_worker_def demo_asg_def demo_host_def reads_workdir_def suspend_scope_def demo_template_def)
  qed (use demo_local_ok demo_turn_fields demo_later_fs demo_later_store demo_later_ready [OF aw(1)] demo_workdir [OF demo_later_fs(3), of 7 demo_ckpt_fs]
      in \<open>simp_all add: s2_def s1 demo_later_def demo_host_def comp_ok_def\<close>)
  also have "\<dots> = Some (FileE (Raw ''1''))" unfolding demo_turn_fields by code_simp
  finally show ?thesis
    using sus res(1) by (intro exI conjI) (auto simp: s2_def s1 demo_later_def)
qed

theorem suspend_lets_go_witness:
  "\<exists>ref s1 a meta h2. suspend_actor quiet ''a'' ''ns'' None demo_turn = (Inr ref, s1) \<and>
     dget (sy_actors s1) (''ns'', ''a'') = Some a \<and> a_latest_snapshot_ref a = Some ref \<and>
     ss_put_tree (local_ops demo_local) ''a'' ''data:data-1000'' (path_str [''ws'']) (Some ''t'') (demo_host demo_ckpt_fs) = (Inr meta, h2) \<and>
     sm_snapshot_ref meta = ref \<and> sy_host s1 = h2 \<and>
     dget (h_fs h2) [''store'', ''a'', demo_ckpt_name] = Some (FileE (Tar ''gz'' [([''f''], FileE (Raw ''1''))]))"
proof -
  obtain ref s1 where run: "suspend_actor quiet ''a'' ''ns'' None demo_turn = (Inr ref, s1)"
    and s1: "sy_host s1 = (demo_host demo_ckpt_fs)\<lparr>h_fs := demo_ckpt_saved\<rparr>"
    using demo_turn_suspended by blast
  have scope: "suspend_scope None demo_template = DATA" by (simp add: suspend_scope_def demo_template_def)
  have tag: "checkpoint_tag DATA (h_time (demo_host demo_ckpt_fs)) = ''data-1000''"
    using demo_ckpt_tag by (simp add: demo_host_def)
  have wd: "workdir_of (demo_objs 7) (demo_host demo_ckpt_fs) = Inr (Some (path_str [''ws'']))"
    using demo_workdir [OF demo_local_ok(5), of 7 demo_ckpt_fs] by (simp add: demo_host_def)
  obtain a t asg w sb src h1 meta h2 where
    F: "dget (sy_actors demo_turn) (''ns'', ''a'') = Some a" "dget (sy_templates demo_turn) (a_template_id a) = Some t"
      "a_worker_assignment a = Some asg" "dget (wp_store (sy_workers demo_turn)) (wa_worker_id asg) = Some w" "w_sandbox w = Some sb"
    and G: "suspended_tree (sy_objs demo_turn sb) (suspend_scope None t) (checkpoint_tag (suspend_scope None t) (h_time (sy_host demo_turn)))
        (sy_host demo_turn) src h1"
      "ss_put_tree (sy_store demo_turn) ''a'' (stored_tag (sy_objs demo_turn sb) (suspend_scope None t)
          (checkpoint_tag (suspend_scope None t) (h_time (sy_host demo_turn))) (sy_host demo_turn)) src (Some (a_template_id a)) h1 = (Inr meta, h2)"
      "sm_snapshot_ref meta = ref"
      "sy_host s1 = cleaned_up (sy_objs demo_turn sb) (suspend_scope None t)
         (checkpoint_tag (suspend_scope None t) (h_time (sy_host demo_turn))) (sy_host demo_turn) h2"
    and A: "\<exists>a'. dget (sy_actors s1) (''ns'', ''a'') = Some a' \<and> a_latest_snapshot_ref a' = Some ref"
    using suspend_lets_go [OF demo_turn_ok run] unfolding Let_def by blast
  have "a = demo_hosted RUNNING (Some demo_asg) None" using F(1) demo_turn_fields(1) by simp
  moreover from this have "asg = demo_asg" using F(3) by (simp add: demo_hosted_def)
  ultimately have ids: "t = demo_template" "sb = 7" "a_template_id a = ''t''"
    using F(2,4,5) demo_turn_fields by (auto simp: demo_hosted_def demo_asg_def demo_host_worker_def)
  have "suspended_tree (demo_objs 7) DATA ''data-1000'' (demo_host demo_ckpt_fs) src h1"
    "ss_put_tree (local_ops demo_local) ''a'' (stored_tag (demo_objs 7) DATA ''data-1000'' (demo_host demo_ckpt_fs)) src (Some ''t'') h1 = (Inr meta, h2)"
    "sy_host s1 = cleaned_up (demo_objs 7) DATA ''data-1000'' (demo_host demo_ckpt_fs) h2"
    using G(1,2,4) by (simp_all only: ids demo_turn_fields scope tag)
  then have "ss_put_tree (local_ops demo_local) ''a'' ''data:data-1000'' (path_str [''ws'']) (Some ''t'') (demo_host demo_ckpt_fs) = (Inr meta, h2)"
    "sy_host s1 = h2"
    using wd by (auto simp: suspended_tree_def stored_tag_def cleaned_up_def store_tag_def)
  with run A G(3) s1 show ?thesis by (auto simp: demo_ckpt_saved_def)
qed

end
