(* ===== verification/VM_Bootstrap.thy ===== *)
theory VM_Bootstrap
  imports Micro_VM
begin

text \<open>
  \<open>_firecracker/_workspace.py\<close>, \<open>_bootstrap_commands\<close>: the shell commands that set up the gateway
  of a fresh microVM, one of which carries the package names a user asked for. The base
  requirements and the two paths of the gateway's environment are the third-party base class's
  and are parameters.
\<close>

section \<open>Quoting\<close>

text \<open>\<open>shlex.quote\<close> and \<open>str.join\<close> of the standard library.\<close>

definition shell_safe :: "char \<Rightarrow> bool" where
  "shell_safe c \<longleftrightarrow>
     (let n = of_char c :: nat in
      48 \<le> n \<and> n \<le> 57 \<or> 65 \<le> n \<and> n \<le> 90 \<or> 97 \<le> n \<and> n \<le> 122 \<or> c \<in> set ''_@%+=:,./-'')"

definition quoted_char :: "char \<Rightarrow> string" where
  "quoted_char c = (if c = CHR 0x27 then [CHR 0x27, CHR 0x22, CHR 0x27, CHR 0x22, CHR 0x27] else [c])"

definition shell_quote :: "string \<Rightarrow> string" where
  "shell_quote s =
     (if s = [] then [CHR 0x27, CHR 0x27]
      else if list_all shell_safe s then s
      else [CHR 0x27] @ concat (map quoted_char s) @ [CHR 0x27])"

fun join_with :: "string \<Rightarrow> string list \<Rightarrow> string" where
  "join_with sep [] = []"
| "join_with sep [w] = w"
| "join_with sep (w # ws) = w @ sep @ join_with sep ws"

section \<open>The commands\<close>

record gateway_paths =
  gw_venv :: string
  gw_python :: string

definition pip_args :: "string list \<Rightarrow> fc_config \<Rightarrow> string" where
  "pip_args base cfg = join_with '' '' (map shell_quote (base @ fg_extra_pip cfg))"

definition pip_command :: "string list \<Rightarrow> gateway_paths \<Rightarrow> fc_config \<Rightarrow> string" where
  "pip_command base gw cfg =
     ''uv pip install --python '' @ gw_python gw @ '' '' @ pip_args base cfg"

definition bootstrap_commands :: "string list \<Rightarrow> gateway_paths \<Rightarrow> fc_config \<Rightarrow> string list" where
  "bootstrap_commands base gw cfg =
     [''apt-get update -qq && apt-get install -y --no-install-recommends '' @
        ''curl ripgrep python3 python3-pip ca-certificates && rm -rf /var/lib/apt/lists/*'',
      ''curl -LsSf https://astral.sh/uv/install.sh '' @
        ''| env UV_INSTALL_DIR=/usr/local/bin INSTALLER_NO_MODIFY_PATH=1 sh'',
      ''uv venv '' @ gw_venv gw,
      pip_command base gw cfg,
      ''uv pip install --python '' @ gw_python gw @ '' --no-deps '' @ [CHR 0x27] @ ''agentscope'' @ [CHR 0x27]]"

section \<open>How a shell reads a command\<close>

text \<open>
  The words a POSIX shell makes of a line that is one simple command without expansions:
  unquoted plain characters, single quotes, and double quotes around plain text. Whatever else
  the shell would act on (an operator, a variable, a substitution, a glob, an escape, an open
  quote) has no reading here.
\<close>

datatype quoting = Bare | Single | Double

definition word_so_far :: "string option \<Rightarrow> string" where
  "word_so_far w = (case w of None \<Rightarrow> [] | Some x \<Rightarrow> x)"

fun sh_words :: "quoting \<Rightarrow> string option \<Rightarrow> string \<Rightarrow> string list option" where
  "sh_words Bare w [] = Some (case w of None \<Rightarrow> [] | Some x \<Rightarrow> [x])"
| "sh_words Bare w (c # cs) =
     (if c = CHR '' '' then
        (case w of None \<Rightarrow> sh_words Bare None cs | Some x \<Rightarrow> map_option (Cons x) (sh_words Bare None cs))
      else if c = CHR 0x27 then sh_words Single (Some (word_so_far w)) cs
      else if c = CHR 0x22 then sh_words Double (Some (word_so_far w)) cs
      else if shell_safe c then sh_words Bare (Some (word_so_far w @ [c])) cs
      else None)"
| "sh_words Single w [] = None"
| "sh_words Single w (c # cs) =
     (if c = CHR 0x27 then sh_words Bare w cs else sh_words Single (Some (word_so_far w @ [c])) cs)"
| "sh_words Double w [] = None"
| "sh_words Double w (c # cs) =
     (if c = CHR 0x22 then sh_words Bare w cs
      else if c \<in> {CHR ''$'', CHR 0x60, CHR 0x5C} then None
      else sh_words Double (Some (word_so_far w @ [c])) cs)"

lemma safe_not_quote: "shell_safe c \<Longrightarrow> c \<noteq> CHR '' '' \<and> c \<noteq> CHR 0x27 \<and> c \<noteq> CHR 0x22"
  by (auto simp: shell_safe_def Let_def)

lemma sh_words_safe:
  "list_all shell_safe s \<Longrightarrow> sh_words Bare (Some x) (s @ rest) = sh_words Bare (Some (x @ s)) rest"
proof (induction s arbitrary: x)
  case (Cons c s)
  then show ?case using safe_not_quote [of c] by (simp add: word_so_far_def)
qed simp

lemma sh_words_quoted:
  "sh_words Single (Some x) (concat (map quoted_char s) @ CHR 0x27 # rest) = sh_words Bare (Some (x @ s)) rest"
  by (induction s arbitrary: x) (auto simp: quoted_char_def word_so_far_def)

lemma sh_words_quote:
  "sh_words Bare None (shell_quote s @ rest) = sh_words Bare (Some s) rest"
proof (cases "s = [] \<or> \<not> list_all shell_safe s")
  case True
  then show ?thesis using sh_words_quoted [of "[]" s rest] by (auto simp: shell_quote_def word_so_far_def)
next
  case False
  then obtain c cs where s: "s = c # cs" "shell_safe c" "list_all shell_safe cs" by (cases s) auto
  then show ?thesis
    using safe_not_quote [of c] sh_words_safe [of cs "[c]" rest] by (simp add: shell_quote_def word_so_far_def)
qed

lemma sh_words_joined:
  "sh_words Bare None (join_with '' '' (map shell_quote ws)) = Some ws"
proof (induction ws rule: induct_list012)
  case (2 w)
  then show ?case using sh_words_quote [of w "[]"] by simp
next
  case (3 w w2 ws)
  then show ?case using sh_words_quote [of w "CHR '' '' # join_with '' '' (map shell_quote (w2 # ws))"] by simp
qed simp

lemma sh_words_plain:
  "list_all shell_safe s \<Longrightarrow> s \<noteq> [] \<Longrightarrow>
   sh_words Bare None (s @ CHR '' '' # rest) = map_option (Cons s) (sh_words Bare None rest)"
  using sh_words_quote [of s "CHR '' '' # rest"] by (simp add: shell_quote_def)

section \<open>Properties\<close>

text \<open>
  C18: No package name reaches the shell as anything but an argument: whatever the names in
  \<open>extra_pip\<close> contain, spaces, quotes, operators, substitutions or nothing at all, a shell reads the
  install command as \<open>uv pip install\<close> for the gateway's Python with exactly the base requirements
  and the extra packages as its words, in order, and the other commands do not depend on them.
\<close>

theorem packages_stay_arguments:
  assumes "list_all shell_safe (gw_python gw)" and "gw_python gw \<noteq> []"
  shows "\<exists>pre post. bootstrap_commands base gw cfg = pre @ [pip_command base gw cfg] @ post \<and>
    sh_words Bare None (pip_command base gw cfg) =
      Some ([''uv'', ''pip'', ''install'', ''--python'', gw_python gw] @ base @ fg_extra_pip cfg) \<and>
    (\<forall>cfg'. bootstrap_commands base gw cfg' = pre @ [pip_command base gw cfg'] @ post)"
proof -
  have words: "''uv pip install --python '' @ x = ''uv'' @ CHR '' '' # ''pip'' @ CHR '' '' # ''install'' @ CHR '' '' # ''--python'' @ CHR '' '' # x" for x
    by simp
  have safe: "list_all shell_safe ''uv''" "list_all shell_safe ''pip''" "list_all shell_safe ''install''" "list_all shell_safe ''--python''"
    by code_simp+
  have ne: "''uv'' \<noteq> []" "''pip'' \<noteq> []" "''install'' \<noteq> []" "''--python'' \<noteq> []" by simp_all
  have "sh_words Bare None (pip_command base gw cfg) =
      Some ([''uv'', ''pip'', ''install'', ''--python'', gw_python gw] @ base @ fg_extra_pip cfg)"
    unfolding pip_command_def words sh_words_plain [OF safe(1) ne(1)] sh_words_plain [OF safe(2) ne(2)]
      sh_words_plain [OF safe(3) ne(3)] sh_words_plain [OF safe(4) ne(4)]
    using sh_words_plain [OF assms(1,2), of "pip_args base cfg"] sh_words_joined [of "base @ fg_extra_pip cfg"]
    by (simp add: pip_args_def)
  then show ?thesis
    by (intro exI [of _ "take 3 (bootstrap_commands base gw cfg)"] exI [of _ "drop 4 (bootstrap_commands base gw cfg)"])
      (simp add: bootstrap_commands_def)
qed

definition hostile_config :: fc_config where
  "hostile_config =
     \<lparr>fg_workspace_id = ''w'', fg_bin = ''firecracker'', fg_kernel_path = ''/k'', fg_rootfs_path = ''/r'',
      fg_boot_args = [], fg_vcpu_count = 1, fg_mem_size_mib = 128, fg_guest_cid = 3, fg_guest_agent_port = 1024,
      fg_gateway_port = 5600, fg_run_dir = ''/run'', fg_env = [],
      fg_extra_pip = [''numpy>=2'', ''x; rm -rf /'', ''it'' @ [CHR 0x27] @ ''s $(id)'', []],
      fg_default_mcps = [], fg_skill_paths = [], fg_seccomp_level = 2, fg_log_level = ''Info''\<rparr>"

theorem packages_stay_arguments_witness:
  "sh_words Bare None (pip_command [''fastapi''] \<lparr>gw_venv = ''/v'', gw_python = ''/v/bin/python''\<rparr> hostile_config) =
     Some [''uv'', ''pip'', ''install'', ''--python'', ''/v/bin/python'', ''fastapi'', ''numpy>=2'', ''x; rm -rf /'',
       ''it'' @ [CHR 0x27] @ ''s $(id)'', []]"
proof -
  have "list_all shell_safe ''/v/bin/python''" by code_simp
  then have "list_all shell_safe (gw_python \<lparr>gw_venv = ''/v'', gw_python = ''/v/bin/python''\<rparr>)" by simp
  from packages_stay_arguments [OF this, of "[''fastapi'']" hostile_config]
  show ?thesis by (auto simp: hostile_config_def)
qed

end
