(* ===== verification/Background_Loops.thy ===== *)
theory Background_Loops
  imports Manager_Facts Worker_Pool Tiered_Store Firecracker_Manager
begin

text \<open>
  The background sweepers: \<open>_sweep_loop\<close> of the sandbox pool, the worker pool, the two kinds of
  managers and the tiered store. All of them sleep, stop when the sleep is cancelled, and
  otherwise run their component's sweep and log what it raises; two also stop at a flag. A run
  is given by what ends each sleep and what the other tasks do to the state meanwhile; it may
  stop short of the next wake-up, so every finite part of an unending loop is a run.
\<close>

section \<open>The loop\<close>

datatype wake = Woken time | Cancelled

fun sweep_loop ::
  "('s \<Rightarrow> bool) \<Rightarrow> (time \<Rightarrow> 's \<Rightarrow> 's) \<Rightarrow> (('s \<Rightarrow> 's) \<times> wake) list \<Rightarrow> 's \<Rightarrow> 's" where
  "sweep_loop stop sweep [] s = s"
| "sweep_loop stop sweep ((meanwhile, wk) # ws) s =
     (if stop s then s
      else (case wk of
          Cancelled \<Rightarrow> meanwhile s
        | Woken now \<Rightarrow> sweep_loop stop sweep ws (sweep now (meanwhile s))))"

definition pool_sweep_loop :: "((pool \<Rightarrow> pool) \<times> wake) list \<Rightarrow> pool \<Rightarrow> pool" where
  "pool_sweep_loop = sweep_loop (\<lambda>p. False) pool_sweep_once"

definition wp_sweep_loop :: "((worker_pool \<Rightarrow> worker_pool) \<times> wake) list \<Rightarrow> worker_pool \<Rightarrow> worker_pool" where
  "wp_sweep_loop = sweep_loop wp_closed (\<lambda>now. wp_sweep_once)"

definition mgr_sweep_loop :: "((manager \<Rightarrow> manager) \<times> wake) list \<Rightarrow> manager \<Rightarrow> manager" where
  "mgr_sweep_loop = sweep_loop (\<lambda>m. False) mgr_sweep_once"

definition fc_sweep_loop :: "((fc_manager \<Rightarrow> fc_manager) \<times> wake) list \<Rightarrow> fc_manager \<Rightarrow> fc_manager" where
  "fc_sweep_loop = sweep_loop (\<lambda>m. False) fc_sweep_once"

definition tiered_sweep_loop ::
  "((tiered \<times> host \<Rightarrow> tiered \<times> host) \<times> wake) list \<Rightarrow> tiered \<times> host \<Rightarrow> tiered \<times> host" where
  "tiered_sweep_loop = sweep_loop (\<lambda>x. td_closed (fst x)) (\<lambda>now x. snd (tiered_sweep_once x))"

section \<open>What a sweeper never breaks\<close>

locale background_sweep =
  fixes stop :: "'s \<Rightarrow> bool" and sweep :: "time \<Rightarrow> 's \<Rightarrow> 's" and inv :: "'s \<Rightarrow> bool"
  assumes sweep_keeps: "inv s \<Longrightarrow> inv (sweep now s)"
begin

lemma loop_keeps:
  assumes "inv s" and "\<And>f s. f \<in> fst ` set ws \<Longrightarrow> inv s \<Longrightarrow> inv (f s)"
  shows "inv (sweep_loop stop sweep ws s)"
  using assms
proof (induction ws arbitrary: s)
  case (Cons w ws)
  obtain meanwhile wk where w: "w = (meanwhile, wk)" by (cases w)
  have "inv (meanwhile s)" using Cons.prems w by simp
  then show ?case using Cons w by (cases wk) (auto intro: sweep_keeps)
qed simp

end

interpretation pool_sweeper: background_sweep "\<lambda>p. False" pool_sweep_once pool_ok
  by unfold_locales (rule pool_sweep_ok)

interpretation worker_sweeper: background_sweep wp_closed "\<lambda>now. wp_sweep_once" wp_inv
  by unfold_locales (rule wp_sweep_once_inv)

text \<open>The invariant of the worker pool, which holds that of its sandbox pool, survives its sweeper.\<close>

lemma sweepers_keep:
  "pool_ok p \<Longrightarrow> (\<And>f p. f \<in> fst ` set ws \<Longrightarrow> pool_ok p \<Longrightarrow> pool_ok (f p)) \<Longrightarrow> pool_ok (pool_sweep_loop ws p)"
  "wp_inv wp \<Longrightarrow> (\<And>f wp. f \<in> fst ` set vs \<Longrightarrow> wp_inv wp \<Longrightarrow> wp_inv (f wp)) \<Longrightarrow> wp_inv (wp_sweep_loop vs wp)"
  unfolding pool_sweep_loop_def wp_sweep_loop_def
  by (rule pool_sweeper.loop_keeps, assumption+) (rule worker_sweeper.loop_keeps)

text \<open>The manager of microVMs sweeps as the container manager it repeats does.\<close>

lemma fc_sweeps_as_container:
  assumes "\<And>f g wk. ((f, g), wk) \<in> set ws \<Longrightarrow> (\<forall>m. as_manager (f m) = g (as_manager m))"
  shows "as_manager (fc_sweep_loop (map (\<lambda>((f, g), wk). (f, wk)) ws) m) =
    mgr_sweep_loop (map (\<lambda>((f, g), wk). (g, wk)) ws) (as_manager m)"
  using assms
proof (induction ws arbitrary: m)
  case (Cons w ws)
  obtain f g wk where w: "w = ((f, g), wk)" by (metis prod.collapse)
  have fg: "as_manager (f m) = g (as_manager m)" for m using Cons.prems [of f g wk] w by simp
  have "as_manager (fc_sweep_loop (map (\<lambda>((f, g), wk). (f, wk)) ws) m') =
    mgr_sweep_loop (map (\<lambda>((f, g), wk). (g, wk)) ws) (as_manager m')" for m'
    using Cons.prems by (intro Cons.IH) auto
  then show ?case
    using w by (cases wk)
      (simp_all add: fc_sweep_loop_def mgr_sweep_loop_def fg [symmetric] as_sweep [symmetric] split_def)
qed (simp add: fc_sweep_loop_def mgr_sweep_loop_def)

end
