(* ===== verification/Store_Reports.thy ===== *)
theory Store_Reports
  imports Object_Facts Tiered_Store
begin

text \<open>
  What the stores report about themselves: the size of a local store and the inventory of a tiered
  store (\<open>metrics\<close>), and the reading of a tiered reference back into the actor, the tag and the
  time it was made from (\<open>_parse_ref\<close>).
\<close>

section \<open>Reading references\<close>

text \<open>\<open>rsplit(c, 1)\<close> when it gives two parts, and \<open>partition(c)\<close> without the separator.\<close>

definition rsplit_once :: "char \<Rightarrow> string \<Rightarrow> (string \<times> string) option" where
  "rsplit_once c s =
     (if c \<in> set s
      then (let t = rev (takeWhile (\<lambda>x. x \<noteq> c) (rev s)) in Some (take (length s - length t - 1) s, t))
      else None)"

definition partition_at :: "char \<Rightarrow> string \<Rightarrow> string \<times> string" where
  "partition_at c s = (takeWhile (\<lambda>x. x \<noteq> c) s, drop 1 (dropWhile (\<lambda>x. x \<noteq> c) s))"

definition parse_ref :: "string \<Rightarrow> (string \<times> string \<times> time) result" where
  "parse_ref snapshot_ref =
     (if \<not> prefix ''snap:'' snapshot_ref then Inl ValueError
      else (case rsplit_once CHR '':'' (drop 5 snapshot_ref) of
          None \<Rightarrow> Inl ValueError
        | Some (actor_tag, ts_str) \<Rightarrow>
            (let (actor_id, tag) = partition_at CHR '':'' actor_tag in
             (case py_float ts_str of
                None \<Rightarrow> Inl ValueError
              | Some ts \<Rightarrow> Inr (actor_id, tag, ts)))))"

lemma takeWhile_until: "c \<notin> set s \<Longrightarrow> takeWhile (\<lambda>x. x \<noteq> c) (s @ c # t) = s"
  by (induction s) auto

lemma dropWhile_until: "c \<notin> set s \<Longrightarrow> dropWhile (\<lambda>x. x \<noteq> c) (s @ c # t) = c # t"
  by (induction s) auto

lemma rsplit_once_last:
  assumes "c \<notin> set t"
  shows "rsplit_once c (s @ c # t) = Some (s, t)"
  using takeWhile_until [of c "rev t" "rev s"] assms by (simp add: rsplit_once_def)

lemma partition_at_first:
  assumes "c \<notin> set s"
  shows "partition_at c (s @ c # t) = (s, t)"
  using assms by (simp add: partition_at_def takeWhile_until dropWhile_until)

text \<open>
  A reference reads back as what it was made from, the time to the microsecond, whatever the tag,
  when the actor id has no colon; a colon in the id moves what follows it into the tag.
\<close>

lemma parse_ref_make_ref:
  assumes a: "CHR '':'' \<notin> set a" and t: "0 \<le> t"
  shows "parse_ref (make_ref a tag t) = Inr (a, tag, round6 t)"
    and "parse_ref (make_ref (a @ '':'' @ b) tag t) = Inr (a, b @ '':'' @ tag, round6 t)"
proof -
  have inner: "drop 5 (make_ref x tag t) = (x @ '':'' @ tag) @ CHR '':'' # show_fixed6 t" for x
    by (simp add: make_ref_def)
  have split: "rsplit_once CHR '':'' (drop 5 (make_ref x tag t)) = Some (x @ '':'' @ tag, show_fixed6 t)" for x
    unfolding inner using time_no [OF t] by (intro rsplit_once_last) simp
  have pre: "prefix ''snap:'' (make_ref x tag t)" for x by (simp add: make_ref_def)
  show "parse_ref (make_ref a tag t) = Inr (a, tag, round6 t)"
    using partition_at_first [OF a, of tag] by (simp add: parse_ref_def pre split py_float_fixed6 [OF t])
  show "parse_ref (make_ref (a @ '':'' @ b) tag t) = Inr (a, b @ '':'' @ tag, round6 t)"
    using partition_at_first [OF a, of "b @ '':'' @ tag"]
    by (simp add: parse_ref_def pre split py_float_fixed6 [OF t])
qed

section \<open>The local store\<close>

text \<open>The contents of the files below a directory, in the order of the walk.\<close>

definition files_below :: "path \<Rightarrow> fs \<Rightarrow> blob list" where
  "files_below d f =
     List.map_filter (\<lambda>(p, e). case e of DirE \<Rightarrow> None
        | FileE b \<Rightarrow> if strict_prefix d p then Some b else None) f"

record local_report =
  lr_base_dir :: string
  lr_total_size_bytes :: nat
  lr_total_files :: nat

definition local_metrics :: "local_store \<Rightarrow> host \<Rightarrow> local_report" where
  "local_metrics ls h =
     (let base = fs_path (ls_base_dir ls);
          files = (if fs_isdir (h_fs h) base then files_below base (h_fs h) else [])
      in \<lparr>lr_base_dir = ls_base_dir ls, lr_total_size_bytes = sum_list (map (h_size h) files),
          lr_total_files = length files\<rparr>)"

lemma files_below_new:
  assumes "dget f p = None"
  shows "files_below d (dput p (FileE b) f) = files_below d f @ (if strict_prefix d p then [b] else [])"
  using assms by (induction f) (auto simp: files_below_def map_filter_simps split: if_splits entry.splits)

text \<open>A new file in the store counts once, with its size; a file elsewhere does not count.\<close>

lemma local_metrics_new_file:
  assumes new: "dget (h_fs h) p = None" and base: "fs_isdir (h_fs h) (fs_path (ls_base_dir ls))"
  shows "local_metrics ls (h\<lparr>h_fs := dput p (FileE b) (h_fs h)\<rparr>) =
    (if strict_prefix (fs_path (ls_base_dir ls)) p
     then (local_metrics ls h)
       \<lparr>lr_total_size_bytes := lr_total_size_bytes (local_metrics ls h) + h_size h b,
        lr_total_files := lr_total_files (local_metrics ls h) + 1\<rparr>
     else local_metrics ls h)"
proof -
  have "fs_isdir (dput p (FileE b) (h_fs h)) (fs_path (ls_base_dir ls))"
    using new base by (auto simp: fs_isdir_def fs_lookup_def dict_simps split: if_splits)
  then show ?thesis using base by (simp add: local_metrics_def Let_def files_below_new [OF new])
qed

section \<open>The tiered store\<close>

record 'm tier_report =
  rp_priority :: int
  rp_eviction_policy :: eviction_policy
  rp_num_objects :: nat
  rp_store :: 'm

record 'm tiered_report =
  tp_num_tiers :: nat
  tp_tiers :: "(string, 'm tier_report) dict"
  tp_tracked_access_count :: nat

text \<open>\<open>report\<close> is the \<open>metrics\<close> of a tier's store; what it raises ends the loop.\<close>

fun tier_reports ::
  "(tier \<Rightarrow> host \<Rightarrow> 'm result \<times> host) \<Rightarrow> tiered \<Rightarrow> tier list \<Rightarrow> (string, 'm tier_report) dict \<Rightarrow> host \<Rightarrow>
   (string, 'm tier_report) dict result \<times> host" where
  "tier_reports report td [] d h = (Inr d, h)"
| "tier_reports report td (t # ts) d h =
     (case report t h of
        (Inl e, h1) \<Rightarrow> (Inl e, h1)
      | (Inr m, h1) \<Rightarrow>
          tier_reports report td ts
            (dput (tr_name t)
              \<lparr>rp_priority = tr_priority t, rp_eviction_policy = tr_eviction_policy t,
               rp_num_objects = card (refs_of td (tr_name t)), rp_store = m\<rparr> d) h1)"

definition tiered_metrics ::
  "(tier \<Rightarrow> host \<Rightarrow> 'm result \<times> host) \<Rightarrow> tiered \<Rightarrow> host \<Rightarrow> 'm tiered_report result \<times> host" where
  "tiered_metrics report td h =
     (case tier_reports report td (td_tiers td) [] h of
        (Inl e, h1) \<Rightarrow> (Inl e, h1)
      | (Inr d, h1) \<Rightarrow>
          (Inr \<lparr>tp_num_tiers = length (td_tiers td), tp_tiers = d,
                tp_tracked_access_count = length (td_access_times td)\<rparr>, h1))"

lemma tier_reports_kept:
  "tier_reports report td ts d h = (Inr d', h') \<Longrightarrow> name \<notin> tr_name ` set ts \<Longrightarrow> dget d' name = dget d name"
  by (induction ts arbitrary: d h) (auto simp: dict_simps split: prod.splits sum.splits)

lemma tier_reports_inventory:
  "tier_reports report td ts d h = (Inr d', h') \<Longrightarrow> name \<in> tr_name ` set ts \<Longrightarrow>
   \<exists>r t. dget d' name = Some r \<and> t \<in> set ts \<and> tr_name t = name \<and>
     rp_num_objects r = card (refs_of td name) \<and> rp_priority r = tr_priority t \<and>
     rp_eviction_policy r = tr_eviction_policy t"
proof (induction ts arbitrary: d h)
  case (Cons t ts)
  then obtain m h1 where m: "report t h = (Inr m, h1)" by (auto split: prod.splits sum.splits)
  with Cons.prems(1) obtain d1 where rest: "tier_reports report td ts d1 h1 = (Inr d', h')"
    and d1: "d1 = dput (tr_name t)
      \<lparr>rp_priority = tr_priority t, rp_eviction_policy = tr_eviction_policy t,
       rp_num_objects = card (refs_of td (tr_name t)), rp_store = m\<rparr> d" by simp
  show ?case
  proof (cases "name \<in> tr_name ` set ts")
    case True
    then show ?thesis using Cons.IH [OF rest True] by fastforce
  next
    case False
    with Cons.prems(2) tier_reports_kept [OF rest False] show ?thesis by (auto simp: d1 dict_simps)
  qed
qed simp

text \<open>The report names every tier and counts its references; two tiers of one name share an entry.\<close>

lemma tiered_metrics_inventory:
  assumes "tiered_metrics report td h = (Inr rep, h')"
  shows "tp_num_tiers rep = length (td_tiers td)"
    and "\<forall>t \<in> set (td_tiers td). \<exists>r. dget (tp_tiers rep) (tr_name t) = Some r \<and>
      rp_num_objects r = card (refs_of td (tr_name t))"
proof -
  obtain d where d: "tier_reports report td (td_tiers td) [] h = (Inr d, h')"
    and rep: "tp_tiers rep = d" "tp_num_tiers rep = length (td_tiers td)"
    using assms by (auto simp: tiered_metrics_def split: prod.splits sum.splits)
  show "tp_num_tiers rep = length (td_tiers td)" by (rule rep(2))
  show "\<forall>t \<in> set (td_tiers td). \<exists>r. dget (tp_tiers rep) (tr_name t) = Some r \<and>
      rp_num_objects r = card (refs_of td (tr_name t))"
    using tier_reports_inventory [OF d] unfolding rep(1) by (meson imageI)
qed

end
