(* ===== verification/Spec2Isabelle.thy ===== *)
theory Spec2Isabelle
  imports Pool_Concurrency Orchestrator Singleflight Local_Tiers VFS_Facts Manager_Facts Guest_Facts
    VM_Facts Firecracker_Manager Object_Facts Postgres_Store Container_Workspace Orch_Roundtrip VM_Bootstrap
    Background_Loops Store_Reports
begin

text \<open>
  The package \<open>agentscope_sandbox_ext\<close> runs agents in sandboxes: containers under other runtimes
  (gVisor, Kata, Sysbox), Firecracker microVMs, or a directory of the host behind a virtual file
  system. All paths below are relative to \<open>src/src/agentscope_sandbox_ext/\<close>.

  \<^bold>\<open>The program's parts.\<close> An actor is a durable record of an agent; a worker is a standing
  sandbox that can host one. The orchestrator resumes an actor by claiming a worker in the worker
  store (compare-and-swap on versions), restoring the actor's snapshot into the worker's directory
  and binding the two in the router; it suspends one by checkpointing that directory into a
  snapshot store and releasing the worker. Concurrent resumes of one actor run once, under the
  singleflight. The worker pool schedules workers, retires idle ones and gets new sandboxes from
  the sandbox pool, which bounds, pre-warms, probes and evicts them. Snapshots are kept by a local
  store, a bucket (MinIO), a table (PostgreSQL), or several stores in tiers. Apart from the
  orchestrator, workspace managers cache one workspace per id, each from the sandbox pool or built
  directly; a microVM is provisioned over Firecracker's API socket and then worked through an
  agent that serves length-prefixed JSON frames over vsock.

  \<^bold>\<open>Conventions\<close> (\<open>Sandbox_Prelude\<close>). A call that may raise returns \<open>exn + 'a\<close>, with the
  new state on the error branch too. A dictionary is the list of its items in insertion order.
  Clock readings are rationals that the environment supplies. A coroutine is either modelled at its
  suspension points, as steps that interleave with those of other tasks (singleflight, sandbox
  pool, container manager), or takes what the other tasks do at each awaited store call as a
  parameter (orchestrator: \<open>others\<close>); the properties of the orchestrator are proved for \<open>quiet\<close>, no
  interference inside an operation. Third-party code (Docker, httpx, the MinIO client,
  subprocesses, the kernel) is a parameter, with laws as named hypotheses where a property needs
  them.
\<close>

text \<open>
  \<^bold>\<open>The orchestration theories\<close> (\<open>_orchestration/\<close>, \<open>_pool.py\<close>).

  \<^item> \<open>Orch_Model\<close>: the records and enumerations of \<open>model.py\<close>. \<open>Orch_Store\<close>: the in-memory actor
    and worker stores of \<open>store.py\<close>. The locale \<open>versioned_store\<close> states compare-and-swap once, and
    \<open>versioned_records\<close> adds the stores' other writes; both stores interpret both, which gives that
    of several callers racing for a version exactly the first wins, and that a record's version
    counts the writes it accepted.
  \<^item> \<open>Orch_Router\<close> (\<open>router.py\<close>): the binding table as an instance of the locale \<open>router\<close>, a map from
    actors, under the condition \<open>plain_ref\<close> that its string keys need.
  \<^item> \<open>Orch_Lifecycle\<close> (\<open>lifecycle.py\<close>): \<open>Workflow.run\<close> over abstract steps; the locale
    \<open>idempotent_steps\<close> has that a workflow that is run again skips what is done. \<open>Orchestrator\<close>
    interprets it on its claim and restore steps.
  \<^item> \<open>Singleflight\<close> (\<open>singleflight.py\<close>): every method split at its suspension points, with
    cancellation and budgets as steps; one unfinished flight per key, no flight leaks.
  \<^item> \<open>Sandbox_Pool\<close>, \<open>Pool_Concurrency\<close> (\<open>_pool.py\<close>): each critical section as a function, the
    sequential coroutines, and the interleaving of any number of tasks as the relation \<open>pool_step\<close>:
    capacity, exclusive leases, refinement of an abstract lease manager, and two lost wake-ups.
  \<^item> \<open>Worker_Pool\<close> (\<open>worker_pool.py\<close>): the scheduler's choice, acquire, release, the warm-idle
    bound and the sweeper, with the invariant \<open>wp_inv\<close>; the relation \<open>wp_reach\<close> runs the
    operations of many callers in any order, each with the records it was handed.
  \<^item> \<open>Checkpoint\<close> (\<open>checkpoint.py\<close>): checkpoint and restore with the swap of directories; a
    round trip through any store of the locale \<open>tree_store\<close>, and the undoing of a failed restore,
    whichever renames the system refuses.
  \<^item> \<open>Orchestrator\<close> (\<open>orchestrator.py\<close>): create, resume with its four steps and its claim loop (at
    most \<open>max_claim_retries\<close> = 5 attempts, the bound of the code), suspend, pause, crash and delete.
    Over any operations run one after another no two actors hold one worker; what a successful
    resume leaves; that a failed suspend sticks. An operation that interleaves with another at its
    awaits is outside these statements; \<open>resume_actor\<close> is the leader of its flight, and the calls of
    the checkpoint bridge and of the worker pool are single steps. \<open>Orch_Roundtrip\<close>: what a suspend
    hands to the snapshot store; and suspend, checkpoint, local store, restore and resume put
    together: the actor finds its files again.
  \<^item> \<open>Background_Loops\<close>: the \<open>_sweep_loop\<close> of all five components, one loop with different sweeps;
    the locale \<open>background_sweep\<close>, interpreted on the sandbox pool and the worker pool, has that an
    invariant which the sweep and the other tasks keep survives the sweeper.
\<close>

text \<open>
  \<^bold>\<open>The storage theories\<close> (\<open>_runtime/\<close>, \<open>_vfs/\<close>).

  \<^item> \<open>Host_FS\<close>: the part of Python's library the file handling uses, over a tree of directories and
    files: path strings, \<open>makedirs\<close>, \<open>replace\<close>, \<open>rmtree\<close>, \<open>copytree\<close>, \<open>mkdtemp\<close> (at most
    \<open>tmp_max\<close> = 10000 names, as in \<open>tempfile\<close>), tar archives and number formats. \<open>Host_Faults\<close>: calls
    the system refuses although the tree allows them; renames, copies (which may stop half-way)
    and removals that raise (likewise), while removals that ignore their errors succeed; and the
    swap of two directories with its roll-back, which checkpoint and virtual file system share.
    The operations of those take the faults as a parameter (\<open>restore_on\<close>, \<open>vfs_snapshot_on\<close>, ...);
    the names without \<open>_on\<close> are their instances without faults.
  \<^item> \<open>Snapshot_Store\<close>, \<open>Local_List\<close>: \<open>snapshot_store.py\<close> and \<open>local_snapshot_store.py\<close>. The local
    store interprets \<open>tree_store\<close>: a tree that is put is restored, whatever happens outside it.
  \<^item> \<open>Tiered_Store\<close>, \<open>Local_Tiers\<close> (\<open>tiered_store.py\<close>): put, get with promotion, delete, list, copy
    and the eviction policies. The locale \<open>tier_backends\<close> asks of the tiers' stores what the code
    needs of them; local stores in directories apart from each other satisfy it. Round trip,
    refinement of one map, and the bound that eviction reaches.
  \<^item> \<open>Object_Store\<close>, \<open>Object_Facts\<close>: \<open>minio_store.py\<close> over a client with the laws \<open>bucket_laws\<close>; names
    and metadata are parsed as the code parses them. \<open>Postgres_Store\<close>: \<open>postgres_store.py\<close> with every
    SQL statement as a function on the table's rows, over a server that may fail and scans rows in
    any order; the store refines a map from references to rows.
  \<^item> \<open>Store_Reports\<close>: \<open>metrics\<close> of the local and the tiered store, and \<open>_parse_ref\<close> as the inverse
    of \<open>_make_ref\<close>.
  \<^item> \<open>VFS_Workspace\<close>, \<open>VFS_Facts\<close>: \<open>_vfs/_base.py\<close> and \<open>_vfs/_agentfs.py\<close>: path resolution and its
    confinement, reads and atomic writes, snapshot and restore by atomic renames, with rollback,
    isolation between tags and the outcome of every failing call, refused ones included.
\<close>

text \<open>
  \<^bold>\<open>The sandbox theories\<close> (\<open>_base.py\<close>, \<open>_docker_runtime/\<close>, \<open>_gvisor/\<close>, \<open>_kata/\<close>, \<open>_sysbox/\<close>,
  \<open>_firecracker/\<close>).

  \<^item> \<open>Container_Manager\<close>, \<open>Manager_Facts\<close> (\<open>_base_manager.py\<close> and the three managers): the cache, the
    pool and the sweeper; every operation alone, and interleaved (\<open>mgr_step\<close>) with the invariant
    that no sandbox is in two places. \<open>Container_Workspace\<close>: the runtime probes and the container's
    whole configuration, which confines it to its user's and agent's directory.
  \<^item> \<open>Firecracker_Manager\<close> (\<open>_firecracker/_manager.py\<close>): every operation, shown to agree with the
    container manager's through the abstraction \<open>as_manager\<close>.
  \<^item> \<open>Json_Text\<close>: \<open>json.dumps\<close>, \<open>json.loads\<close> and UTF-8 as the protocol uses them. The scanner
    carries fuel, twice the length of the text and two; the round trip is proved for that fuel,
    so it is enough for everything the two sides send.
  \<^item> \<open>Guest_Protocol\<close>, \<open>Guest_Facts\<close> (\<open>_guest_agent.py\<close>, \<open>_backend.py\<close>): frames of at most
    \<open>max_frame\<close> = 64 MiB over streams cut into any pieces, the agent's handlers and loop, the client,
    the vsock handshake and the backend: serving in order, files read back as written, commands
    answered as they ran when the reply comes within the request's time limit (\<open>timed_tp\<close>).
  \<^item> \<open>Firecracker_Api\<close> (\<open>_api.py\<close>): request bodies, endpoints and errors, the wait for the socket
    (one attempt per 0.05 s until the time-out), spawning, the buffer of the last 64 KiB of
    output, and reaping.
  \<^item> \<open>Micro_VM\<close>, \<open>VM_Facts\<close> (\<open>_firecracker/_workspace.py\<close>): provisioning step by step, the wait for
    the agent with its growing delay, and teardown; a failed provisioning leaves nothing behind,
    a successful one has sent exactly the requests of a boot. \<open>VM_Bootstrap\<close>: the commands that set
    up the gateway, and that package names stay arguments for a shell.

  \<^bold>\<open>Loops.\<close> Loops over lists and bounded retries are structural recursions; loops that wait
  recurse over the finite list of answers the environment gives, or over the number of attempts
  the time-out leaves, and are shown to end; the sweepers and the agent's accept loop never end by
  themselves and are modelled by every finite part of their runs.
\<close>

text \<open>
  \<^bold>\<open>Not modelled.\<close>

  \<^item> The \<open>__init__.py\<close> files, which re-export names, the abstract base classes' empty methods, type
    aliases, log messages, and default values that only serve as default arguments.
  \<^item> The text of the instruction prompts, which is handed to the agent unread.
  \<^item> What the workspaces inherit from the third-party \<open>agentscope\<close> package: image building, the
    gateway, sessions and skills, and the constructors' hand-over to its Docker workspace.
  \<^item> The command line and the socket set-up of the guest agent's \<open>main\<close>; its accept loop is
    modelled.
  \<^item> Symbolic links of the host's file system, and refused calls other than the ones \<open>Host_Faults\<close>
    lists; the limit on concurrent provisions, which orders calls of the factory but no state of the
    pool; the closing of the sandbox pool is cut into fewer steps than its awaits.
  \<^item> A Firecracker process that exits by itself, and an API socket path that \<open>connect\<close> refuses as too
    long (\<open>undisturbed\<close>).
\<close>

end
